(* ===== verification/Prelude.thy ===== *)
theory Prelude
  imports Main
begin

text \<open>
  Shared vocabulary of the development.

  \<^item> Fallible, stateful Rust code (\<open>async fn f(&mut self) -> Result<T, E>\<close>) is an
    action: a function from the state to a result and the next state. The result is
    \<open>Inl e\<close> for \<open>Err(e)\<close> and \<open>Inr x\<close> for \<open>Ok(x)\<close>; the state is returned in both
    cases, because what a failing call has already written stays written.
  \<^item> \<open>and_then\<close> is the \<open>?\<close> operator, \<open>map_err\<close> the method of that name, \<open>recover\<close> a
    \<open>match\<close> on the result that turns an error into a value.
  \<^item> \<open>achieves P m Q E\<close> is the total-correctness triple the component proofs compose:
    from a state with \<open>P\<close> the action ends with \<open>Q\<close> when it returns \<open>Ok\<close> and with \<open>E\<close>
    when it returns \<open>Err\<close>. Actions are total functions, so nothing is left open.
\<close>

named_theorems action_defs \<open>definitions of the action combinators\<close>
named_theorems action_triples \<open>triples of the component operations\<close>

section \<open>Identifiers\<close>

text \<open>
  A \<open>Uuid\<close> is its 128-bit value read as a number: the code compares ids, orders them
  (\<open>BTreeSet<Uuid>\<close> is ordered by bytes, most significant first) and uses the nil id.
\<close>

type_synonym uuid = nat

abbreviation (input) nil_uuid :: uuid where
  "nil_uuid \<equiv> 0"

section \<open>Actions\<close>

type_synonym ('s, 'e, 'a) action = "'s \<Rightarrow> ('e + 'a) \<times> 's"

definition ok :: "'a \<Rightarrow> ('s, 'e, 'a) action" where
  [action_defs]: "ok x s = (Inr x, s)"

definition fail :: "'e \<Rightarrow> ('s, 'e, 'a) action" where
  [action_defs]: "fail e s = (Inl e, s)"

definition and_then :: "('s, 'e, 'a) action \<Rightarrow> ('a \<Rightarrow> ('s, 'e, 'b) action) \<Rightarrow> ('s, 'e, 'b) action" where
  [action_defs]: "and_then m k s = (case m s of (Inl e, s') \<Rightarrow> (Inl e, s') | (Inr x, s') \<Rightarrow> k x s')"

definition map_err :: "('e \<Rightarrow> 'f) \<Rightarrow> ('s, 'e, 'a) action \<Rightarrow> ('s, 'f, 'a) action" where
  [action_defs]: "map_err h m s = (case m s of (Inl e, s') \<Rightarrow> (Inl (h e), s') | (Inr x, s') \<Rightarrow> (Inr x, s'))"

definition recover :: "('s, 'e, 'a) action \<Rightarrow> ('s, 'f, 'e + 'a) action" where
  [action_defs]: "recover m s = (case m s of (r, s') \<Rightarrow> (Inr r, s'))"

definition modify :: "('s \<Rightarrow> 's) \<Rightarrow> ('s, 'e, unit) action" where
  [action_defs]: "modify f s = (Inr (), f s)"

definition gets :: "('s \<Rightarrow> 'a) \<Rightarrow> ('s, 'e, 'a) action" where
  [action_defs]: "gets f s = (Inr (f s), s)"

text \<open>Run an action on one field of a larger state.\<close>

definition within :: "('s \<Rightarrow> 't) \<Rightarrow> ('t \<Rightarrow> 's \<Rightarrow> 's) \<Rightarrow> ('t, 'e, 'a) action \<Rightarrow> ('s, 'e, 'a) action" where
  [action_defs]: "within get put m s = (case m (get s) of (r, t) \<Rightarrow> (r, put t s))"

fun for_each :: "('x \<Rightarrow> ('s, 'e, unit) action) \<Rightarrow> 'x list \<Rightarrow> ('s, 'e, unit) action" where
  "for_each f [] = ok ()"
| "for_each f (x # xs) = and_then (f x) (\<lambda>_. for_each f xs)"

text \<open>A loop that gathers what each pass returns.\<close>

fun collect :: "('x \<Rightarrow> ('s, 'e, 'a list) action) \<Rightarrow> 'x list \<Rightarrow> ('s, 'e, 'a list) action" where
  "collect f [] = ok []"
| "collect f (x # xs) = and_then (f x) (\<lambda>ys. and_then (collect f xs) (\<lambda>zs. ok (ys @ zs)))"

text \<open>What it takes for an action to end as it did.\<close>

lemma and_then_Inr:
  "and_then m k s = (Inr y, s'') \<longleftrightarrow> (\<exists>x s'. m s = (Inr x, s') \<and> k x s' = (Inr y, s''))"
  by (auto simp: and_then_def split: prod.splits sum.splits)

lemma and_then_Inl:
  "and_then m k s = (Inl e, s'') \<longleftrightarrow>
     m s = (Inl e, s'') \<or> (\<exists>x s'. m s = (Inr x, s') \<and> k x s' = (Inl e, s''))"
  by (auto simp: and_then_def split: prod.splits sum.splits)

lemma map_err_Inr: "map_err h m s = (Inr x, s') \<longleftrightarrow> m s = (Inr x, s')"
  by (auto simp: map_err_def split: prod.splits sum.splits)

lemma map_err_Inl: "map_err h m s = (Inl e, s') \<longleftrightarrow> (\<exists>e0. e = h e0 \<and> m s = (Inl e0, s'))"
  by (auto simp: map_err_def split: prod.splits sum.splits)

lemma recover_Inr: "recover m s = (Inr r, s') \<longleftrightarrow> m s = (r, s')"
  by (auto simp: recover_def split: prod.splits)

lemma recover_Inl: "recover m s \<noteq> (Inl e, s')"
  by (auto simp: recover_def split: prod.splits)

lemma within_outcome: "within get put m s = (r, s') \<longleftrightarrow> (\<exists>t. m (get s) = (r, t) \<and> s' = put t s)"
  by (auto simp: within_def split: prod.splits)

lemma ok_outcome: "ok x s = (Inr y, s') \<longleftrightarrow> y = x \<and> s' = s" "ok x s \<noteq> (Inl e, s')"
  by (auto simp: ok_def)

lemma fail_outcome: "fail e s = (Inl e', s') \<longleftrightarrow> e' = e \<and> s' = s" "fail e s \<noteq> (Inr x, s')"
  by (auto simp: fail_def)

lemmas outcomes = and_then_Inr and_then_Inl map_err_Inr map_err_Inl recover_Inr recover_Inl within_outcome
  ok_outcome fail_outcome

section \<open>Triples\<close>

definition achieves ::
  "('s \<Rightarrow> bool) \<Rightarrow> ('s, 'e, 'a) action \<Rightarrow> ('a \<Rightarrow> 's \<Rightarrow> bool) \<Rightarrow> ('e \<Rightarrow> 's \<Rightarrow> bool) \<Rightarrow> bool" where
  "achieves P m Q E \<longleftrightarrow>
     (\<forall>s. P s \<longrightarrow> (case m s of (Inl e, s') \<Rightarrow> E e s' | (Inr x, s') \<Rightarrow> Q x s'))"

lemma achievesI:
  assumes "\<And>s e s'. P s \<Longrightarrow> m s = (Inl e, s') \<Longrightarrow> E e s'"
    and "\<And>s x s'. P s \<Longrightarrow> m s = (Inr x, s') \<Longrightarrow> Q x s'"
  shows "achieves P m Q E"
  using assms by (auto simp: achieves_def split: prod.split sum.split)

lemma achieves_okD: "achieves P m Q E \<Longrightarrow> P s \<Longrightarrow> m s = (Inr x, s') \<Longrightarrow> Q x s'"
  by (auto simp: achieves_def split: prod.splits sum.splits)

lemma achieves_errD: "achieves P m Q E \<Longrightarrow> P s \<Longrightarrow> m s = (Inl e, s') \<Longrightarrow> E e s'"
  by (auto simp: achieves_def split: prod.splits sum.splits)

lemma achieves_weaken:
  assumes "achieves P' m Q' E'"
    and "\<And>s. P s \<Longrightarrow> P' s" and "\<And>x s. Q' x s \<Longrightarrow> Q x s" and "\<And>e s. E' e s \<Longrightarrow> E e s"
  shows "achieves P m Q E"
  using assms by (auto simp: achieves_def split: prod.splits sum.splits) (metis+)

lemma achieves_and_then:
  assumes "achieves P m Q E" and "\<And>x. achieves (Q x) (k x) R E"
  shows "achieves P (and_then m k) R E"
  using assms by (fastforce simp: achieves_def and_then_def split: prod.splits sum.splits)

lemma achieves_ok [intro]: "achieves (Q x) (ok x) Q E"
  by (simp add: achieves_def ok_def)

lemma achieves_modify: "achieves (\<lambda>s. Q () (f s)) (modify f) Q E"
  by (simp add: achieves_def modify_def)

lemma achieves_map_err:
  "achieves P m Q (\<lambda>e s. E (h e) s) \<Longrightarrow> achieves P (map_err h m) Q E"
  by (fastforce simp: achieves_def map_err_def split: prod.splits sum.splits)

lemma achieves_recover:
  assumes "achieves P m (\<lambda>x s. Q (Inr x) s) (\<lambda>e s. Q (Inl e) s)"
  shows "achieves P (recover m) Q E"
proof (rule achievesI)
  fix s r s'
  assume "P s" and "recover m s = (Inr r, s')"
  then have "m s = (r, s')" by (auto simp: recover_def split: prod.splits)
  with assms \<open>P s\<close> show "Q r s'"
    by (cases r) (auto dest: achieves_okD achieves_errD)
qed (auto simp: recover_def split: prod.splits)

lemma achieves_within:
  assumes "\<And>s0. achieves (\<lambda>t. P s0 \<and> t = get s0) m
             (\<lambda>x t. Q x (put t s0)) (\<lambda>e t. E e (put t s0))"
  shows "achieves P (within get put m) Q E"
  using assms by (fastforce simp: achieves_def within_def split: prod.splits sum.splits)

lemma achieves_for_each:
  assumes "\<And>x ys. achieves (I (x # ys)) (f x) (\<lambda>_. I ys) E"
  shows "achieves (I xs) (for_each f xs) (\<lambda>_. I []) E"
proof (induction xs)
  case Nil
  show ?case by (auto simp: achieves_def ok_def)
next
  case (Cons x xs)
  show ?case using assms Cons.IH by (auto intro: achieves_and_then)
qed

section \<open>What an action preserves\<close>

text \<open>Every run of \<open>m\<close>, whatever its outcome, relates the state before to the state after by \<open>R\<close>.\<close>

definition evolves :: "('s \<Rightarrow> 's \<Rightarrow> bool) \<Rightarrow> ('s, 'e, 'a) action \<Rightarrow> bool" where
  "evolves R m \<longleftrightarrow> (\<forall>s. R s (snd (m s)))"

lemma evolvesI: "(\<And>s r s'. m s = (r, s') \<Longrightarrow> R s s') \<Longrightarrow> evolves R m"
  unfolding evolves_def by (metis prod.collapse)

lemma evolvesD: "evolves R m \<Longrightarrow> m s = (r, s') \<Longrightarrow> R s s'"
  by (metis evolves_def snd_conv)

lemma evolves_mono: "evolves R m \<Longrightarrow> (\<And>s s'. R s s' \<Longrightarrow> R' s s') \<Longrightarrow> evolves R' m"
  by (simp add: evolves_def)

text \<open>A relation that holds of doing nothing and composes: then it holds of a program if of its steps.\<close>

locale evolution =
  fixes R :: "'s \<Rightarrow> 's \<Rightarrow> bool"
  assumes same: "R s s" and compose: "R s t \<Longrightarrow> R t u \<Longrightarrow> R s u"
begin

lemma of_ok: "evolves R (ok x)" and of_fail: "evolves R (fail e)" and of_gets: "evolves R (gets g)"
  by (simp_all add: evolves_def action_defs same)

lemma of_and_then: "evolves R m \<Longrightarrow> (\<And>x. evolves R (k x)) \<Longrightarrow> evolves R (and_then m k)"
  unfolding evolves_def and_then_def by (auto split: prod.split sum.split) (metis compose snd_conv)+

lemma of_map_err: "evolves R m \<Longrightarrow> evolves R (map_err h m)"
  unfolding evolves_def map_err_def by (auto split: prod.split sum.split) (metis snd_conv)+

lemma of_recover: "evolves R m \<Longrightarrow> evolves R (recover m)"
  unfolding evolves_def recover_def by (auto split: prod.split) (metis snd_conv)

lemma of_if: "evolves R m \<Longrightarrow> evolves R m' \<Longrightarrow> evolves R (if b then m else m')"
  by simp

lemma of_for_each: "(\<And>x. evolves R (f x)) \<Longrightarrow> evolves R (for_each f xs)"
  by (induction xs) (auto intro: of_ok of_and_then)

lemma of_collect: "(\<And>x. evolves R (f x)) \<Longrightarrow> evolves R (collect f xs)"
  by (induction xs) (auto intro!: of_ok of_and_then)

lemma of_option: "evolves R m \<Longrightarrow> (\<And>x. evolves R (k x)) \<Longrightarrow> evolves R (case v of None \<Rightarrow> m | Some x \<Rightarrow> k x)"
  by (cases v) auto

lemma of_sum: "(\<And>x. evolves R (m x)) \<Longrightarrow> (\<And>x. evolves R (k x)) \<Longrightarrow> evolves R (case v of Inl x \<Rightarrow> m x | Inr x \<Rightarrow> k x)"
  by (cases v) auto

lemma of_pair: "(\<And>x y. evolves R (m x y)) \<Longrightarrow> evolves R (case p of (x, y) \<Rightarrow> m x y)"
  by (cases p) auto

lemma of_run:
  assumes "and_then m k s = (r, s')" and "evolves R m" and "\<And>x s1. m s = (Inr x, s1) \<Longrightarrow> k x s1 = (r, s') \<Longrightarrow> R s1 s'"
  shows "R s s'"
proof -
  obtain r1 s1 where m: "m s = (r1, s1)" by fastforce
  have "R s s1" using evolvesD [OF assms(2) m] .
  with m assms(1,3) show ?thesis
    by (cases r1) (auto simp: and_then_def dest: compose)
qed

lemmas rules = of_ok of_fail of_and_then of_map_err of_recover of_for_each of_collect of_option of_sum of_pair of_if

end

text \<open>Keeping a view of the state.\<close>

definition same_view :: "('s \<Rightarrow> 'k) \<Rightarrow> 's \<Rightarrow> 's \<Rightarrow> bool" where
  "same_view K s s' \<longleftrightarrow> K s' = K s"

interpretation view: evolution "same_view K"
  by unfold_locales (simp_all add: same_view_def)

lemma evolves_within:
  assumes "evolves P m" and "\<And>s t. P (get s) t \<Longrightarrow> R s (put t s)"
  shows "evolves R (within get put m)"
  unfolding evolves_def within_def using assms by (auto simp: evolves_def split: prod.split) (metis snd_conv)

section \<open>What always returns\<close>

text \<open>From every state in \<open>P\<close> the action returns, in \<open>P\<close> again.\<close>

definition settles :: "('s \<Rightarrow> bool) \<Rightarrow> ('s, 'e, 'a) action \<Rightarrow> bool" where
  "settles P m \<longleftrightarrow> (\<forall>s. P s \<longrightarrow> (\<exists>x s'. m s = (Inr x, s') \<and> P s'))"

lemma settlesD: "settles P m \<Longrightarrow> P s \<Longrightarrow> \<exists>x s'. m s = (Inr x, s') \<and> P s'"
  by (simp add: settles_def)

lemma settles_ok: "settles P (ok x)"
  by (simp add: settles_def ok_def)

lemma settles_and_then: "settles P m \<Longrightarrow> (\<And>x. settles P (k x)) \<Longrightarrow> settles P (and_then m k)"
  unfolding settles_def and_then_def by (metis (no_types, lifting) case_prod_conv old.sum.simps(6))

lemma settles_map_err: "settles P m \<Longrightarrow> settles P (map_err h m)"
  unfolding settles_def map_err_Inr .

lemma settles_recover: "evolves (\<lambda>s s'. P s \<longrightarrow> P s') m \<Longrightarrow> settles P (recover m)"
  unfolding settles_def recover_Inr by (metis evolvesD prod.collapse)

lemma settles_recovered: "settles P m \<Longrightarrow> settles P (recover m)"
  unfolding settles_def recover_Inr by blast

lemma settles_if: "settles P m \<Longrightarrow> settles P m' \<Longrightarrow> settles P (if b then m else m')"
  by simp

lemma settles_for_each: "(\<And>x. settles P (f x)) \<Longrightarrow> settles P (for_each f xs)"
  by (induction xs) (auto intro: settles_ok settles_and_then)

lemma settles_collect: "(\<And>x. settles P (f x)) \<Longrightarrow> settles P (collect f xs)"
  by (induction xs) (auto intro!: settles_ok settles_and_then)

lemma settles_option: "settles P m \<Longrightarrow> (\<And>x. settles P (k x)) \<Longrightarrow> settles P (case v of None \<Rightarrow> m | Some x \<Rightarrow> k x)"
  by (cases v) auto

lemma settles_pair: "(\<And>x y. settles P (m x y)) \<Longrightarrow> settles P (case p of (x, y) \<Rightarrow> m x y)"
  by (cases p) auto

lemma settles_within:
  assumes "settles Q m" and "\<And>s. P s \<Longrightarrow> Q (get s)" and "\<And>s t. P s \<Longrightarrow> Q t \<Longrightarrow> P (put t s)"
  shows "settles P (within get put m)"
  using assms unfolding settles_def within_outcome by blast

lemmas settles_rules = settles_ok settles_and_then settles_map_err settles_if settles_for_each settles_collect
  settles_option settles_pair settles_recovered

section \<open>Lists\<close>

text \<open>\<open>slice::chunks\<close>.\<close>

function chunks :: "nat \<Rightarrow> 'a list \<Rightarrow> 'a list list" where
  "chunks n xs = (if n = 0 \<or> xs = [] then [] else take n xs # chunks n (drop n xs))"
  by pat_completeness auto
termination
  by (relation "measure (\<lambda>(n, xs). length xs)") auto

declare chunks.simps [simp del]

lemma concat_chunks: "0 < n \<Longrightarrow> concat (chunks n xs) = xs"
  by (induction n xs rule: chunks.induct) (subst chunks.simps, auto)

lemma chunks_length: "ys \<in> set (chunks n xs) \<Longrightarrow> length ys \<le> n \<and> ys \<noteq> []"
  by (induction n xs rule: chunks.induct) (subst (asm) chunks.simps, auto split: if_splits)

lemma filter_empty_iff: "filter P xs = [] \<longleftrightarrow> (\<forall>x \<in> set xs. \<not> P x)"
  by (auto simp: filter_empty_conv)

lemma filter_filter_disjoint:
  "(\<And>x. P x \<Longrightarrow> \<not> Q x) \<Longrightarrow> filter P (filter Q xs) = []"
  by (auto simp: filter_empty_iff)

lemma concat_map_filter_nonempty: "concat (filter (\<lambda>x. x \<noteq> []) xss) = concat xss"
  by (induction xss) auto

lemma sum_list_map_le: "(\<And>x. x \<in> set xs \<Longrightarrow> f x \<le> g x) \<Longrightarrow> sum_list (map f xs) \<le> sum_list (map g (xs::'a list))"
  for f g :: "'a \<Rightarrow> nat"
  by (induction xs) (auto simp: add_mono)

end
