(* ===== verification/Rust_Text.thy ===== *)
theory Rust_Text
  imports Prelude
begin

text \<open>
  Rust strings. A \<open>&str\<close> is the list of its Unicode scalar values; byte positions (what
  \<open>char_indices\<close>, \<open>len\<close> and range indexing use) are sums of UTF-8 lengths, and a range
  index that is not on a character boundary is \<open>None\<close>, the panic of the source.
\<close>

type_synonym uchar = nat
type_synonym str = "uchar list"

definition lit :: "string \<Rightarrow> str" where
  "lit s = map of_char s"

definition len_utf8 :: "uchar \<Rightarrow> nat" where
  "len_utf8 c = (if c < 128 then 1 else if c < 2048 then 2 else if c < 65536 then 3 else 4)"

definition byte_len :: "str \<Rightarrow> nat" where
  "byte_len t = sum_list (map len_utf8 t)"

lemma len_utf8_pos [simp]: "0 < len_utf8 c"
  by (simp add: len_utf8_def)

lemma byte_len_Nil [simp]: "byte_len [] = 0"
  by (simp add: byte_len_def)

lemma byte_len_Cons [simp]: "byte_len (c # t) = len_utf8 c + byte_len t"
  by (simp add: byte_len_def)

lemma byte_len_append [simp]: "byte_len (s @ t) = byte_len s + byte_len t"
  by (simp add: byte_len_def)

lemma byte_len_0_iff [simp]: "byte_len t = 0 \<longleftrightarrow> t = []"
  by (cases t) auto

lemma byte_len_pos_iff [simp]: "0 < byte_len t \<longleftrightarrow> t \<noteq> []"
  by (cases t) auto

section \<open>Range indexing\<close>

text \<open>\<open>split_at\<close>: both halves, or \<open>None\<close> off a boundary or past the end.\<close>

fun split_at_byte :: "nat \<Rightarrow> str \<Rightarrow> (str \<times> str) option" where
  "split_at_byte n [] = (if n = 0 then Some ([], []) else None)"
| "split_at_byte n (c # t) =
     (if n = 0 then Some ([], c # t)
      else if len_utf8 c \<le> n
      then map_option (\<lambda>(a, b). (c # a, b)) (split_at_byte (n - len_utf8 c) t)
      else None)"

text \<open>\<open>&t[a..b]\<close>.\<close>

definition str_slice :: "str \<Rightarrow> nat \<Rightarrow> nat \<Rightarrow> str option" where
  "str_slice t a b =
     (case split_at_byte b t of
        None \<Rightarrow> None
      | Some (p, _) \<Rightarrow> map_option snd (split_at_byte a p))"

lemma split_at_byte_append [simp]: "split_at_byte (byte_len p) (p @ q) = Some (p, q)"
proof (induction p)
  case Nil
  show ?case by (cases q) auto
next
  case (Cons c p)
  have "len_utf8 c + byte_len p \<noteq> 0"
    using len_utf8_pos [of c] by linarith
  with Cons show ?case by simp
qed

lemma split_at_byte_SomeD: "split_at_byte n t = Some (p, q) \<Longrightarrow> t = p @ q \<and> n = byte_len p"
proof (induction n t arbitrary: p q rule: split_at_byte.induct)
  case (1 n)
  then show ?case by (auto split: if_splits)
next
  case (2 n c t)
  show ?case
  proof (cases "n = 0")
    case True
    with 2 show ?thesis by auto
  next
    case False
    with 2 show ?thesis by (auto split: if_splits)
  qed
qed

lemma str_slice_middle [simp]:
  "str_slice (p @ q @ r) (byte_len p) (byte_len p + byte_len q) = Some q"
proof -
  have "split_at_byte (byte_len (p @ q)) ((p @ q) @ r) = Some (p @ q, r)"
    by (rule split_at_byte_append)
  then show ?thesis by (simp add: str_slice_def)
qed

lemma str_slice_suffix [simp]:
  "str_slice (p @ q) (byte_len p) (byte_len p + byte_len q) = Some q"
  using str_slice_middle [of p q "[]"] by simp

lemma str_slice_SomeD:
  assumes "str_slice t a b = Some q"
  shows "\<exists>p r. t = p @ q @ r \<and> a = byte_len p \<and> b = byte_len p + byte_len q"
proof -
  from assms obtain p' r where 1: "split_at_byte b t = Some (p', r)"
    and 2: "\<exists>p. split_at_byte a p' = Some (p, q)"
    by (auto simp: str_slice_def split: option.splits prod.splits)
  from 2 obtain p where p: "split_at_byte a p' = Some (p, q)" by blast
  from split_at_byte_SomeD [OF 1] split_at_byte_SomeD [OF p] show ?thesis by auto
qed

section \<open>Numbers\<close>

text \<open>\<open>Display\<close> of an unsigned integer.\<close>

fun decimal :: "nat \<Rightarrow> str" where
  "decimal n = (if n < 10 then [48 + n] else decimal (n div 10) @ [48 + n mod 10])"

declare decimal.simps [simp del]

text \<open>Numbers are told apart by their digits.\<close>

lemma decimal_value: "foldl (\<lambda>a d. 10 * a + (d - 48)) 0 (decimal n) = n"
  by (induction n rule: decimal.induct) (subst decimal.simps, auto)

lemma inj_decimal: "inj decimal"
  by (rule injI) (metis decimal_value)

section \<open>Whitespace, splitting, joining\<close>

text \<open>The Unicode \<open>White_Space\<close> property, which \<open>char::is_whitespace\<close> and \<open>str::trim\<close> use.\<close>

definition unicode_white_space :: "uchar list" where
  "unicode_white_space =
     [9, 10, 11, 12, 13, 32, 133, 160, 5760,
      8192, 8193, 8194, 8195, 8196, 8197, 8198, 8199, 8200, 8201, 8202,
      8232, 8233, 8239, 8287, 12288]"

definition is_whitespace :: "uchar \<Rightarrow> bool" where
  "is_whitespace c \<longleftrightarrow> c \<in> set unicode_white_space"

definition trim :: "str \<Rightarrow> str" where
  "trim t = rev (dropWhile is_whitespace (rev (dropWhile is_whitespace t)))"

text \<open>\<open>split_whitespace().count()\<close>: the maximal runs of non-whitespace.\<close>

fun count_words :: "bool \<Rightarrow> str \<Rightarrow> nat" where
  "count_words inside [] = 0"
| "count_words inside (c # t) =
     (if is_whitespace c then count_words False t
      else (if inside then 0 else 1) + count_words True t)"

text \<open>\<open>split(pat)\<close> for a non-empty pattern: leftmost, non-overlapping matches.\<close>

function split_str :: "str \<Rightarrow> str \<Rightarrow> str \<Rightarrow> str list" where
  "split_str pat acc t =
     (if pat \<noteq> [] \<and> t \<noteq> [] \<and> take (length pat) t = pat
      then acc # split_str pat [] (drop (length pat) t)
      else case t of [] \<Rightarrow> [acc] | c # cs \<Rightarrow> split_str pat (acc @ [c]) cs)"
  by pat_completeness auto
termination
  by (relation "measure (\<lambda>(pat, acc, t). length t)") (auto simp: neq_Nil_conv)

declare split_str.simps [simp del]

fun join :: "str \<Rightarrow> str list \<Rightarrow> str" where
  "join sep [] = []"
| "join sep [x] = x"
| "join sep (x # y # xs) = x @ sep @ join sep (y # xs)"

lemma join_Cons: "xs \<noteq> [] \<Longrightarrow> join sep (x # xs) = x @ sep @ join sep xs"
  by (cases xs) auto

lemma join_append: "xs \<noteq> [] \<Longrightarrow> ys \<noteq> [] \<Longrightarrow> join sep (xs @ ys) = join sep xs @ sep @ join sep ys"
proof (induction xs)
  case (Cons x xs)
  then show ?case by (cases "xs = []") (auto simp: join_Cons)
qed simp

lemma join_concat: "\<forall>g \<in> set gs. g \<noteq> [] \<Longrightarrow> join sep (map (join sep) gs) = join sep (concat gs)"
proof (induction gs)
  case (Cons g gs)
  then show ?case by (cases "gs = []") (auto simp: join_Cons join_append concat_eq_Nil_conv)
qed simp

lemma split_str_nonempty [simp]: "split_str pat acc t \<noteq> []"
  by (induction pat acc t rule: split_str.induct) (subst split_str.simps, auto split: list.split)

lemma join_split_str: "pat \<noteq> [] \<Longrightarrow> join pat (split_str pat acc t) = acc @ t"
proof (induction pat acc t rule: split_str.induct)
  case (1 pat acc t)
  show ?case
  proof (cases "t \<noteq> [] \<and> take (length pat) t = pat")
    case True
    with 1 have "join pat (split_str pat [] (drop (length pat) t)) = drop (length pat) t"
      by simp
    moreover from True have "t = pat @ drop (length pat) t"
      by (metis append_take_drop_id)
    ultimately show ?thesis
      using True "1.prems" by (subst split_str.simps) (simp add: join_Cons)
  next
    case False
    with 1 show ?thesis
      by (subst split_str.simps) (auto split: list.split)
  qed
qed

section \<open>Word counting is subadditive\<close>

lemma count_words_inside_le: "count_words True t \<le> count_words False t"
  by (cases t) auto

lemma count_words_le_Suc: "count_words False t \<le> Suc (count_words True t)"
  by (cases t) auto

lemma count_words_append_le: "count_words b (s @ t) \<le> count_words b s + count_words False t"
proof (induction s arbitrary: b)
  case Nil
  show ?case using count_words_inside_le [of t] by (cases b) auto
next
  case (Cons c s)
  then show ?case by (auto simp: add_mono)
qed

lemma count_words_append_space:
  "is_whitespace c \<Longrightarrow> count_words b (s @ c # t) = count_words b s + count_words False t"
  by (induction s arbitrary: b) auto

end
