(* ===== verification/Chunk_Word.thy ===== *)
theory Chunk_Word
  imports Rust_Text
begin

text \<open>
  \<open>crates/chunking/src/chunk_by_word.rs\<close>: the word-level chunker. A \<open>WordChunk\<close> borrows
  a slice of the input, so it is a byte offset into the input together with the text found
  there; the loop walks \<open>char_indices().peekable()\<close> with byte positions and indexes the
  input by byte ranges, which is where it could panic.
\<close>

datatype word_type = Word | SentenceEnd | ParagraphEnd

record word_chunk =
  wc_start :: nat
  wc_text :: str
  wc_type :: word_type

definition is_sentence_ending :: "uchar \<Rightarrow> bool" where
  "is_sentence_ending c \<longleftrightarrow> c \<in> {46, 59, 33, 63, 8230, 12290, 65281, 65311}"

definition is_paragraph_ending :: "uchar \<Rightarrow> bool" where
  "is_paragraph_ending c \<longleftrightarrow> c \<in> {10, 13}"

abbreviation (input) space :: uchar where
  "space \<equiv> 32"

fun char_indices :: "nat \<Rightarrow> str \<Rightarrow> (nat \<times> uchar) list" where
  "char_indices i [] = []"
| "char_indices i (c # t) = (i, c) # char_indices (i + len_utf8 c) t"

text \<open>The inner \<open>while let Some(&(next_bp, ' ')) = iter.peek()\<close>.\<close>

fun skip_spaces :: "nat \<Rightarrow> (nat \<times> uchar) list \<Rightarrow> nat \<times> (nat \<times> uchar) list" where
  "skip_spaces end_pos [] = (end_pos, [])"
| "skip_spaces end_pos ((bp, c) # it) =
     (if c = space then skip_spaces (bp + 1) it else (end_pos, (bp, c) # it))"

lemma skip_spaces_length: "length (snd (skip_spaces e it)) \<le> length it"
  by (induction e it rule: skip_spaces.induct) auto

function chunk_words_from :: "str \<Rightarrow> nat \<Rightarrow> (nat \<times> uchar) list \<Rightarrow> word_chunk list option" where
  "chunk_words_from data chunk_start it =
     (case it of
        [] \<Rightarrow>
          (if chunk_start < byte_len data
           then (case str_slice data chunk_start (byte_len data) of
                   None \<Rightarrow> None
                 | Some s \<Rightarrow> Some [\<lparr>wc_start = chunk_start, wc_text = s, wc_type = Word\<rparr>])
           else Some [])
      | (byte_pos, ch) # it1 \<Rightarrow>
          (if ch = space then
             (let end_pos = byte_pos + 1 in
              case str_slice data chunk_start end_pos of
                None \<Rightarrow> None
              | Some s \<Rightarrow>
                  map_option (\<lambda>r. \<lparr>wc_start = chunk_start, wc_text = s, wc_type = Word\<rparr> # r)
                    (chunk_words_from data end_pos it1))
           else if is_sentence_ending ch then
             (let end_pos = fst (skip_spaces (byte_pos + len_utf8 ch) it1);
                  it2 = snd (skip_spaces (byte_pos + len_utf8 ch) it1);
                  is_para_end = (case it2 of [] \<Rightarrow> False | (_, c) # _ \<Rightarrow> is_paragraph_ending c) in
              case str_slice data chunk_start end_pos of
                None \<Rightarrow> None
              | Some s \<Rightarrow>
                  map_option (\<lambda>r. \<lparr>wc_start = chunk_start, wc_text = s,
                       wc_type = (if is_para_end then ParagraphEnd else SentenceEnd)\<rparr> # r)
                    (chunk_words_from data end_pos it2))
           else chunk_words_from data chunk_start it1))"
  by pat_completeness auto
termination
  by (relation "measure (\<lambda>(data, chunk_start, it). length it)")
    (auto simp: le_imp_less_Suc skip_spaces_length case_prod_beta)

declare chunk_words_from.simps [simp del]

definition chunk_by_word :: "str \<Rightarrow> word_chunk list option" where
  "chunk_by_word data = chunk_words_from data 0 (char_indices 0 data)"

section \<open>Tilings\<close>

text \<open>
  What every level of the chunker promises: the pieces are non-empty, contiguous and in
  order. \<open>tiles off ps\<close> says that the (offset, text) pairs \<open>ps\<close> start at byte \<open>off\<close>
  and each begins where its predecessor ended.
\<close>

fun tiles :: "nat \<Rightarrow> (nat \<times> str) list \<Rightarrow> bool" where
  "tiles off [] = True"
| "tiles off ((i, t) # ps) = (i = off \<and> t \<noteq> [] \<and> tiles (off + byte_len t) ps)"

abbreviation wc_span :: "word_chunk \<Rightarrow> nat \<times> str" where
  "wc_span w \<equiv> (wc_start w, wc_text w)"

lemma tiles_append:
  "tiles off (ps @ qs) \<longleftrightarrow> tiles off ps \<and> tiles (off + byte_len (concat (map snd ps))) qs"
  by (induction ps arbitrary: off) (auto simp: add.assoc)

lemma tiles_nonempty: "tiles off ps \<Longrightarrow> p \<in> set ps \<Longrightarrow> snd p \<noteq> []"
  by (induction off ps rule: tiles.induct) auto

section \<open>The loop is total and tiles the input\<close>

lemma skip_spaces_char_indices:
  "skip_spaces e (char_indices i t) =
     (let n = takeWhile (\<lambda>c. c = space) t in
      (if n = [] then e else i + byte_len n,
       char_indices (i + byte_len n) (dropWhile (\<lambda>c. c = space) t)))"
proof (induction t arbitrary: e i)
  case Nil
  show ?case by simp
next
  case (Cons c t)
  show ?case
  proof (cases "c = space")
    case True
    then show ?thesis
      using Cons.IH [of "i + 1" "i + 1"]
      by (auto simp: Let_def len_utf8_def add.assoc)
  next
    case False
    then show ?thesis by simp
  qed
qed

text \<open>The chunk that a step of the loop cuts off, as a shape of its text.\<close>

definition plain_char :: "uchar \<Rightarrow> bool" where
  "plain_char c \<longleftrightarrow> c \<noteq> space \<and> \<not> is_sentence_ending c"

definition word_shape :: "word_chunk \<Rightarrow> bool" where
  "word_shape w \<longleftrightarrow>
     (case wc_type w of
        Word \<Rightarrow> (\<exists>u. list_all plain_char u \<and> (wc_text w = u @ [space] \<or> wc_text w = u))
      | _ \<Rightarrow> (\<exists>u e n. list_all plain_char u \<and> is_sentence_ending e \<and>
               wc_text w = u @ e # replicate n space))"

lemma takeWhile_space_replicate:
  "takeWhile (\<lambda>c. c = space) t = replicate (length (takeWhile (\<lambda>c. c = space) t)) space"
  by (induction t) auto

lemma chunk_words_from_ok:
  assumes "data = pre @ cur @ rest" and "list_all plain_char cur"
  shows "\<exists>cs. chunk_words_from data (byte_len pre) (char_indices (byte_len pre + byte_len cur) rest) = Some cs
          \<and> tiles (byte_len pre) (map wc_span cs)
          \<and> concat (map wc_text cs) = cur @ rest
          \<and> list_all word_shape cs"
  using assms
proof (induction "length rest" arbitrary: pre cur rest rule: less_induct)
  case less
  show ?case
  proof (cases rest)
    case Nil
    have "str_slice data (byte_len pre) (byte_len data) = Some cur"
      using less.prems Nil str_slice_middle [of pre cur "[]"] by simp
    then show ?thesis
      using less.prems Nil
      by (subst chunk_words_from.simps) (auto simp: word_shape_def)
  next
    case (Cons c t)
    consider (sp) "c = space" | (se) "c \<noteq> space" "is_sentence_ending c"
      | (pl) "plain_char c"
      by (auto simp: plain_char_def)
    then show ?thesis
    proof cases
      case sp
      have sl: "str_slice data (byte_len pre) (byte_len pre + byte_len cur + 1) = Some (cur @ [c])"
        using less.prems(1) Cons sp str_slice_middle [of pre "cur @ [c]" t]
        by (simp add: len_utf8_def add.assoc)
      from less.hyps [of t "pre @ cur @ [c]" "[]"] less.prems Cons sp
      obtain cs where "chunk_words_from data (byte_len pre + byte_len cur + 1)
            (char_indices (byte_len pre + byte_len cur + 1) t) = Some cs"
          "tiles (byte_len pre + byte_len cur + 1) (map wc_span cs)"
          "concat (map wc_text cs) = t" "list_all word_shape cs"
        by (auto simp: len_utf8_def add.assoc)
      with sl less.prems(2) Cons sp show ?thesis
        by (subst chunk_words_from.simps)
          (auto simp: Let_def len_utf8_def word_shape_def add.assoc)
    next
      case se
      define n where "n = takeWhile (\<lambda>c. c = space) t"
      define r where "r = dropWhile (\<lambda>c. c = space) t"
      have t: "t = n @ r" by (simp add: n_def r_def)
      define e where "e = byte_len pre + byte_len cur + len_utf8 c + byte_len n"
      have sk: "skip_spaces (byte_len pre + byte_len cur + len_utf8 c)
          (char_indices (byte_len pre + byte_len cur + len_utf8 c) t) = (e, char_indices e r)"
        by (auto simp: skip_spaces_char_indices Let_def e_def n_def r_def)
      have sl: "str_slice data (byte_len pre) e = Some (cur @ c # n)"
        using less.prems(1) Cons t str_slice_middle [of pre "cur @ c # n" r]
        by (simp add: e_def add.assoc)
      have lr: "length r < length rest"
        using Cons t by simp
      from less.hyps [OF lr, of "pre @ cur @ c # n" "[]"] less.prems Cons t
      obtain cs where cs: "chunk_words_from data e (char_indices e r) = Some cs"
          "tiles e (map wc_span cs)"
          "concat (map wc_text cs) = r" "list_all word_shape cs"
        by (auto simp: e_def add.assoc)
      have sh: "\<exists>u e k. list_all plain_char u \<and> is_sentence_ending e \<and>
          cur @ c # n = u @ e # replicate k space"
        using less.prems(2) se(2) takeWhile_space_replicate [of t] unfolding n_def by blast
      from sl cs sh sk se Cons t show ?thesis
        by (subst chunk_words_from.simps)
          (auto simp: Let_def word_shape_def e_def add.assoc)
    next
      case pl
      from less.hyps [of t pre "cur @ [c]"] less.prems Cons pl
      obtain cs where "chunk_words_from data (byte_len pre)
            (char_indices (byte_len pre + byte_len cur + len_utf8 c) t) = Some cs"
          "tiles (byte_len pre) (map wc_span cs)"
          "concat (map wc_text cs) = cur @ c # t" "list_all word_shape cs"
        by (auto simp: add.assoc)
      with pl Cons show ?thesis
        by (subst chunk_words_from.simps) (auto simp: plain_char_def add.assoc)
    qed
  qed
qed

lemma chunk_by_word_total:
  obtains cs where "chunk_by_word data = Some cs" and "tiles 0 (map wc_span cs)"
    and "concat (map wc_text cs) = data" and "list_all word_shape cs"
  using chunk_words_from_ok [of data "[]" "[]" data] by (auto simp: chunk_by_word_def)

section \<open>Properties\<close>


end
