(* ===== verification/Chunk_Sentence.thy ===== *)
theory Chunk_Sentence
  imports Chunk_Word
begin

text \<open>
  \<open>crates/chunking/src/chunk_by_sentence.rs\<close> with \<open>cut_type.rs\<close> and the counter interface of
  \<open>token_counter.rs\<close>: words are gathered into sentences, cut early when the token count of
  the sentence would pass \<open>maximum_size\<close>.

  Parameters that stand for code outside the repository: \<open>alpha\<close> is
  \<open>char::is_alphabetic\<close> (the Unicode table) and \<open>fresh n\<close> the id the \<open>n\<close>-th call of
  \<open>Uuid::new_v4\<close> returns. \<open>cnt\<close> is \<open>TokenCounter::count_tokens\<close>.
\<close>

section \<open>Cut types and counting modes\<close>

datatype cut_type =
    CutParagraphEnd | CutSentenceEnd | CutSentenceCut | CutWord | CutDltRow | CutRowCut | CutRowEnd

fun cut_type_display :: "cut_type \<Rightarrow> str" where
  "cut_type_display CutParagraphEnd = lit ''paragraph_end''"
| "cut_type_display CutSentenceEnd = lit ''sentence_end''"
| "cut_type_display CutSentenceCut = lit ''sentence_cut''"
| "cut_type_display CutWord = lit ''word''"
| "cut_type_display CutDltRow = lit ''dlt_row''"
| "cut_type_display CutRowCut = lit ''row_cut''"
| "cut_type_display CutRowEnd = lit ''row_end''"

datatype token_count_mode = Span | PerWord

definition from_legacy_flag :: "bool \<Rightarrow> token_count_mode" where
  "from_legacy_flag legacy_per_word = (if legacy_per_word then PerWord else Span)"

text \<open>\<open>WordCounter\<close>, the whitespace counter.\<close>

definition word_counter :: "str \<Rightarrow> nat" where
  "word_counter t = count_words False t"

section \<open>The interface the chunkers rely on\<close>

text \<open>
  A counter over-estimates when a span is counted piece by piece: this is what the
  two-tier overflow check of the chunkers assumes of the tokenizer.
\<close>

locale token_counter =
  fixes cnt :: "str \<Rightarrow> nat"
  assumes cnt_append: "cnt (s @ t) \<le> cnt s + cnt t"

text \<open>A counter that gives no token to the blank \<open>chunk_text\<close> puts between paragraphs.\<close>

locale blank_free_counter = token_counter +
  assumes cnt_blank: "cnt (s @ space # t) \<le> cnt s + cnt t"

interpretation word_counter: blank_free_counter word_counter
proof
  fix s t
  show "word_counter (s @ t) \<le> word_counter s + word_counter t"
    by (simp add: word_counter_def count_words_append_le)
  have "is_whitespace space" by (simp add: is_whitespace_def unicode_white_space_def)
  then show "word_counter (s @ space # t) \<le> word_counter s + word_counter t"
    by (simp add: word_counter_def count_words_append_space)
qed

section \<open>Sentences\<close>

record sentence_chunk =
  sc_paragraph_id :: uuid
  sc_start :: nat
  sc_text :: str
  sc_size :: nat
  sc_cut_type :: cut_type

fun word_type_to_cut_type :: "word_type \<Rightarrow> cut_type" where
  "word_type_to_cut_type ParagraphEnd = CutParagraphEnd"
| "word_type_to_cut_type SentenceEnd = CutSentenceEnd"
| "word_type_to_cut_type Word = CutWord"

text \<open>The loop's local variables; \<open>ss_ids\<close> counts the \<open>new_v4\<close> calls made so far.\<close>

record sentence_state =
  ss_ids :: nat
  ss_size :: nat
  ss_type :: word_type
  ss_start :: "nat option"
  ss_end :: nat

definition emitted_size :: "(str \<Rightarrow> nat) \<Rightarrow> token_count_mode \<Rightarrow> str \<Rightarrow> nat \<Rightarrow> nat" where
  "emitted_size cnt mode t accumulated = (case mode of PerWord \<Rightarrow> accumulated | Span \<Rightarrow> cnt t)"

definition next_word_type :: "(uchar \<Rightarrow> bool) \<Rightarrow> word_chunk \<Rightarrow> word_type \<Rightarrow> word_type" where
  "next_word_type alpha w old =
     (case wc_type w of Word \<Rightarrow> (if list_ex alpha (wc_text w) then Word else old) | t \<Rightarrow> t)"

text \<open>
  The overflow check: the summed count only raises a suspicion, which under \<open>Span\<close> an exact
  count of the span with the word confirms or refutes. \<open>None\<close> is a range-index panic.
\<close>

definition sentence_overflow ::
  "(str \<Rightarrow> nat) \<Rightarrow> str \<Rightarrow> nat option \<Rightarrow> token_count_mode \<Rightarrow> nat option \<Rightarrow> nat \<Rightarrow> nat
     \<Rightarrow> (bool \<times> nat) option" where
  "sentence_overflow cnt data maximum_size mode start word_end next_size =
     (let overflows = (case maximum_size of None \<Rightarrow> False | Some m \<Rightarrow> m < next_size) in
      case (start, maximum_size) of
        (Some i, Some m) \<Rightarrow>
          (if overflows \<and> mode = Span
           then map_option (\<lambda>t. if cnt t \<le> m then (False, cnt t) else (True, next_size))
                  (str_slice data i word_end)
           else Some (overflows, next_size))
      | _ \<Rightarrow> Some (overflows, next_size))"

definition push_sentence ::
  "(str \<Rightarrow> nat) \<Rightarrow> (nat \<Rightarrow> uuid) \<Rightarrow> str \<Rightarrow> token_count_mode \<Rightarrow> nat \<Rightarrow> nat \<Rightarrow> nat \<Rightarrow> nat \<Rightarrow> cut_type
     \<Rightarrow> sentence_chunk option" where
  "push_sentence cnt fresh data mode ids start end_pos acc ct =
     map_option (\<lambda>t. \<lparr>sc_paragraph_id = fresh ids, sc_start = start, sc_text = t,
                       sc_size = emitted_size cnt mode t acc, sc_cut_type = ct\<rparr>)
       (str_slice data start end_pos)"

definition sentence_step ::
  "(str \<Rightarrow> nat) \<Rightarrow> (uchar \<Rightarrow> bool) \<Rightarrow> (nat \<Rightarrow> uuid) \<Rightarrow> str \<Rightarrow> nat option \<Rightarrow> token_count_mode
     \<Rightarrow> word_chunk \<Rightarrow> sentence_state \<Rightarrow> (sentence_chunk list \<times> sentence_state) option" where
  "sentence_step cnt alpha fresh data maximum_size mode w st =
     (let word_size = cnt (wc_text w);
          word_start = wc_start w;
          word_end = word_start + byte_len (wc_text w);
          wts = next_word_type alpha w (ss_type st) in
      case sentence_overflow cnt data maximum_size mode (ss_start st) word_end (ss_size st + word_size) of
        None \<Rightarrow> None
      | Some (overflows, next_size) \<Rightarrow>
          (if overflows \<and> ss_start st \<noteq> None then
             map_option (\<lambda>c. ([c], st\<lparr>ss_type := wts, ss_start := Some word_start,
                                      ss_end := word_end, ss_size := word_size\<rparr>))
               (push_sentence cnt fresh data mode (ss_ids st) (the (ss_start st)) (ss_end st)
                  (ss_size st) (word_type_to_cut_type wts))
           else
             (let start = (case ss_start st of None \<Rightarrow> word_start | Some i \<Rightarrow> i) in
              if wc_type w \<noteq> Word then
                (let ids = (if wc_type w = ParagraphEnd then Suc (ss_ids st) else ss_ids st) in
                 map_option (\<lambda>c. ([c], st\<lparr>ss_ids := ids, ss_type := wts, ss_start := None,
                                          ss_end := word_end, ss_size := 0\<rparr>))
                   (push_sentence cnt fresh data mode ids start word_end next_size
                      (word_type_to_cut_type wts)))
              else Some ([], st\<lparr>ss_type := wts, ss_start := Some start,
                                ss_end := word_end, ss_size := next_size\<rparr>))))"

fun sentence_loop ::
  "(str \<Rightarrow> nat) \<Rightarrow> (uchar \<Rightarrow> bool) \<Rightarrow> (nat \<Rightarrow> uuid) \<Rightarrow> str \<Rightarrow> nat option \<Rightarrow> token_count_mode
     \<Rightarrow> word_chunk list \<Rightarrow> sentence_state \<Rightarrow> sentence_chunk list option" where
  "sentence_loop cnt alpha fresh data maximum_size mode [] st =
     (case ss_start st of
        None \<Rightarrow> Some []
      | Some start \<Rightarrow>
          map_option (\<lambda>c. [c])
            (push_sentence cnt fresh data mode (ss_ids st) start (ss_end st) (ss_size st)
               (if ss_type st = Word then CutSentenceCut else word_type_to_cut_type (ss_type st))))"
| "sentence_loop cnt alpha fresh data maximum_size mode (w # ws) st =
     (case sentence_step cnt alpha fresh data maximum_size mode w st of
        None \<Rightarrow> None
      | Some (out, st') \<Rightarrow>
          map_option (\<lambda>r. out @ r) (sentence_loop cnt alpha fresh data maximum_size mode ws st'))"

definition sentence_init :: sentence_state where
  "sentence_init = \<lparr>ss_ids = 0, ss_size = 0, ss_type = Word, ss_start = None, ss_end = 0\<rparr>"

definition chunk_by_sentence ::
  "(str \<Rightarrow> nat) \<Rightarrow> (uchar \<Rightarrow> bool) \<Rightarrow> (nat \<Rightarrow> uuid) \<Rightarrow> str \<Rightarrow> nat option \<Rightarrow> token_count_mode
     \<Rightarrow> sentence_chunk list option" where
  "chunk_by_sentence cnt alpha fresh data maximum_size mode =
     (case chunk_by_word data of
        None \<Rightarrow> None
      | Some words \<Rightarrow> sentence_loop cnt alpha fresh data maximum_size mode words sentence_init)"

abbreviation sc_span :: "sentence_chunk \<Rightarrow> nat \<times> str" where
  "sc_span c \<equiv> (sc_start c, sc_text c)"

section \<open>One step\<close>

text \<open>The sentence under construction is the text \<open>cur\<close> that starts after \<open>pre\<close>.\<close>

definition sent_inv :: "str \<Rightarrow> str \<Rightarrow> sentence_state \<Rightarrow> bool" where
  "sent_inv pre cur st \<longleftrightarrow>
     (if cur = [] then ss_start st = None \<and> ss_size st = 0
      else ss_start st = Some (byte_len pre) \<and> ss_end st = byte_len pre + byte_len cur)"

text \<open>What the accumulator reads once the word is taken in without a cut.\<close>

definition grown :: "(str \<Rightarrow> nat) \<Rightarrow> nat option \<Rightarrow> token_count_mode \<Rightarrow> str \<Rightarrow> str \<Rightarrow> nat \<Rightarrow> nat \<Rightarrow> bool" where
  "grown cnt maximum_size mode cur word acc next_size \<longleftrightarrow>
     (next_size = acc + cnt word \<and>
        (cur = [] \<or> (case maximum_size of None \<Rightarrow> True | Some m \<Rightarrow> next_size \<le> m)))
     \<or> (mode = Span \<and> cur \<noteq> [] \<and> next_size = cnt (cur @ word)
         \<and> (\<exists>m. maximum_size = Some m \<and> next_size \<le> m))"

lemma push_sentence_ok:
  "push_sentence cnt fresh (pre @ t @ rest) mode ids (byte_len pre) (byte_len pre + byte_len t) acc ct
     = Some \<lparr>sc_paragraph_id = fresh ids, sc_start = byte_len pre, sc_text = t,
             sc_size = emitted_size cnt mode t acc, sc_cut_type = ct\<rparr>"
  by (simp add: push_sentence_def)

lemma sentence_overflow_ok:
  assumes "sent_inv pre cur st" and "data = pre @ cur @ word @ rest"
  shows "\<exists>b n. sentence_overflow cnt data maximum_size mode (ss_start st)
              (byte_len pre + byte_len cur + byte_len word) (ss_size st + cnt word) = Some (b, n)
          \<and> (\<not> b \<or> cur = [] \<longrightarrow> grown cnt maximum_size mode cur word (ss_size st) n)
          \<and> (b \<and> cur \<noteq> [] \<longrightarrow> (\<exists>m. maximum_size = Some m))"
proof -
  have sl: "str_slice data (byte_len pre) (byte_len pre + byte_len cur + byte_len word) = Some (cur @ word)"
    using assms(2) str_slice_middle [of pre "cur @ word" rest] by (simp add: add.assoc)
  show ?thesis
  proof (cases "\<exists>m. maximum_size = Some m \<and> cnt (cur @ word) \<le> m")
    case True
    with sl assms(1) show ?thesis
      by (cases "cur = []"; cases "mode = Span")
        (auto simp: sentence_overflow_def sent_inv_def grown_def Let_def not_less)
  next
    case False
    with sl assms(1) show ?thesis
      by (cases "cur = []"; cases maximum_size)
        (auto simp: sentence_overflow_def sent_inv_def grown_def Let_def not_less)
  qed
qed

lemma sentence_step_ok:
  assumes inv: "sent_inv pre cur st" and data: "data = pre @ cur @ wc_text w @ rest"
    and start: "wc_start w = byte_len pre + byte_len cur" and ne: "wc_text w \<noteq> []"
  shows "(\<exists>c st'. sentence_step cnt alpha fresh data maximum_size mode w st = Some ([c], st')
            \<and> cur \<noteq> [] \<and> sc_span c = (byte_len pre, cur)
            \<and> sc_size c = emitted_size cnt mode cur (ss_size st)
            \<and> sent_inv (pre @ cur) (wc_text w) st' \<and> ss_size st' = cnt (wc_text w))
    \<or> (\<exists>c st' n. sentence_step cnt alpha fresh data maximum_size mode w st = Some ([c], st')
            \<and> sc_span c = (byte_len pre, cur @ wc_text w)
            \<and> sc_size c = emitted_size cnt mode (cur @ wc_text w) n
            \<and> grown cnt maximum_size mode cur (wc_text w) (ss_size st) n
            \<and> sent_inv (pre @ cur @ wc_text w) [] st')
    \<or> (\<exists>st'. sentence_step cnt alpha fresh data maximum_size mode w st = Some ([], st')
            \<and> grown cnt maximum_size mode cur (wc_text w) (ss_size st) (ss_size st')
            \<and> sent_inv pre (cur @ wc_text w) st')"
proof -
  from sentence_overflow_ok [OF inv data, of cnt maximum_size mode]
  obtain b n where ov: "sentence_overflow cnt data maximum_size mode (ss_start st)
        (wc_start w + byte_len (wc_text w)) (ss_size st + cnt (wc_text w)) = Some (b, n)"
    and gr: "\<not> b \<or> cur = [] \<Longrightarrow> grown cnt maximum_size mode cur (wc_text w) (ss_size st) n"
    by (auto simp: start)
  have p1: "push_sentence cnt fresh data mode ids (byte_len pre) (byte_len pre + byte_len cur) acc ct
     = Some \<lparr>sc_paragraph_id = fresh ids, sc_start = byte_len pre, sc_text = cur,
             sc_size = emitted_size cnt mode cur acc, sc_cut_type = ct\<rparr>" for ids acc ct
    using data push_sentence_ok [of cnt fresh pre cur "wc_text w @ rest"] by simp
  have p2: "push_sentence cnt fresh data mode ids (byte_len pre)
      (wc_start w + byte_len (wc_text w)) acc ct
     = Some \<lparr>sc_paragraph_id = fresh ids, sc_start = byte_len pre, sc_text = cur @ wc_text w,
             sc_size = emitted_size cnt mode (cur @ wc_text w) acc, sc_cut_type = ct\<rparr>" for ids acc ct
    using data push_sentence_ok [of cnt fresh pre "cur @ wc_text w" rest]
    by (simp add: start add.assoc)
  have st: "cur = [] \<Longrightarrow> wc_start w = byte_len pre" using start by simp
  consider (cut) "b" "cur \<noteq> []" | (keep) "\<not> b \<or> cur = []" by blast
  then show ?thesis
  proof cases
    case cut
    with ov inv p1 ne show ?thesis
      by (intro disjI1) (auto simp: sentence_step_def Let_def sent_inv_def start add.assoc)
  next
    case keep
    show ?thesis
    proof (cases "wc_type w = Word")
      case True
      with keep ov inv gr [OF keep] st ne show ?thesis
        by (intro disjI2)
          (auto simp: sentence_step_def Let_def sent_inv_def start add.assoc split: if_splits)
    next
      case False
      with keep ov inv gr [OF keep] st p2 ne show ?thesis
        by - (rule disjI2, rule disjI1,
            auto simp: sentence_step_def Let_def sent_inv_def start add.assoc split: if_splits)
    qed
  qed
qed

section \<open>The loop\<close>

text \<open>
  Every chunk reports a size that is exact under \<open>Span\<close>; the sentences tile what is left of
  the input; no range index panics. \<open>fits\<close> is the size bound: a sentence passes the limit
  only when it is a single word that passes it alone.
\<close>

definition fits :: "(str \<Rightarrow> nat) \<Rightarrow> nat option \<Rightarrow> word_chunk list \<Rightarrow> nat \<Rightarrow> bool" where
  "fits cnt maximum_size words n \<longleftrightarrow>
     (case maximum_size of None \<Rightarrow> True
      | Some m \<Rightarrow> n \<le> m \<or> (\<exists>w \<in> set words. n \<le> cnt (wc_text w)))"

lemma sentence_loop_tiles:
  assumes "sent_inv pre cur st" and "data = pre @ cur @ concat (map wc_text ws)"
    and "tiles (byte_len pre + byte_len cur) (map wc_span ws)"
  shows "\<exists>cs. sentence_loop cnt alpha fresh data maximum_size mode ws st = Some cs
          \<and> tiles (byte_len pre) (map sc_span cs)
          \<and> concat (map sc_text cs) = cur @ concat (map wc_text ws)
          \<and> (mode = Span \<longrightarrow> (\<forall>c \<in> set cs. sc_size c = cnt (sc_text c)))"
  using assms
proof (induction ws arbitrary: pre cur st)
  case Nil
  have "push_sentence cnt fresh data mode ids (byte_len pre) (byte_len pre + byte_len cur) acc ct
     = Some \<lparr>sc_paragraph_id = fresh ids, sc_start = byte_len pre, sc_text = cur,
             sc_size = emitted_size cnt mode cur acc, sc_cut_type = ct\<rparr>" for ids acc ct
    using Nil.prems push_sentence_ok [of cnt fresh pre cur "[]"] by simp
  with Nil.prems(1) show ?case
    by (auto simp: sent_inv_def emitted_size_def split: if_splits)
next
  case (Cons w ws)
  have data: "data = pre @ cur @ wc_text w @ concat (map wc_text ws)"
    and start: "wc_start w = byte_len pre + byte_len cur" and ne: "wc_text w \<noteq> []"
    and rest: "tiles (byte_len pre + byte_len cur + byte_len (wc_text w)) (map wc_span ws)"
    using Cons.prems by auto
  show ?case
  proof (rule disjE [OF sentence_step_ok [OF Cons.prems(1) data start ne, of cnt alpha fresh maximum_size mode]],
      goal_cases)
    case 1
    then obtain c st' where s: "sentence_step cnt alpha fresh data maximum_size mode w st = Some ([c], st')"
      and c: "cur \<noteq> []" "sc_span c = (byte_len pre, cur)" "sc_size c = emitted_size cnt mode cur (ss_size st)"
      and i: "sent_inv (pre @ cur) (wc_text w) st'" by blast
    from Cons.IH [OF i] data rest s c show ?case
      by (auto simp: emitted_size_def)
  next
    case 2
    then show ?case
    proof (rule disjE, goal_cases)
      case 1
      then obtain c st' n where s: "sentence_step cnt alpha fresh data maximum_size mode w st = Some ([c], st')"
        and c: "sc_span c = (byte_len pre, cur @ wc_text w)"
          "sc_size c = emitted_size cnt mode (cur @ wc_text w) n"
        and i: "sent_inv (pre @ cur @ wc_text w) [] st'" by blast
      from Cons.IH [OF i] data rest s c ne show ?case
        by (auto simp: emitted_size_def add.assoc)
    next
      case 2
      then obtain st' where s: "sentence_step cnt alpha fresh data maximum_size mode w st = Some ([], st')"
        and i: "sent_inv pre (cur @ wc_text w) st'" by blast
      from Cons.IH [OF i] data rest s show ?case
        by (auto simp: add.assoc)
    qed
  qed
qed

lemma chunk_by_sentence_total:
  obtains words cs where "chunk_by_word data = Some words"
    and "chunk_by_sentence cnt alpha fresh data maximum_size mode = Some cs"
    and "tiles 0 (map sc_span cs)" and "concat (map sc_text cs) = data"
    and "mode = Span \<Longrightarrow> \<forall>c \<in> set cs. sc_size c = cnt (sc_text c)"
proof -
  from chunk_by_word_total [of data] obtain words where
    w: "chunk_by_word data = Some words" "tiles 0 (map wc_span words)" "concat (map wc_text words) = data"
    by blast
  have "sent_inv [] [] sentence_init" by (simp add: sent_inv_def sentence_init_def)
  from sentence_loop_tiles [OF this, of data words cnt alpha fresh maximum_size mode] w that
  show ?thesis by (auto simp: chunk_by_sentence_def)
qed

section \<open>The size bound\<close>

context token_counter
begin

text \<open>The accumulator bounds the span from above and stays within the limit, or holds one word.\<close>

definition size_inv :: "nat option \<Rightarrow> token_count_mode \<Rightarrow> word_chunk list \<Rightarrow> str \<Rightarrow> nat \<Rightarrow> bool" where
  "size_inv maximum_size mode words cur n \<longleftrightarrow>
     fits cnt maximum_size words n \<and> (mode = Span \<and> cur \<noteq> [] \<longrightarrow> cnt cur \<le> n)"

lemma fits_mono: "fits cnt maximum_size words n \<Longrightarrow> k \<le> n \<Longrightarrow> fits cnt maximum_size words k"
  by (auto simp: fits_def split: option.splits) (meson le_trans)+

lemma emitted_fits:
  "size_inv maximum_size mode words cur n \<Longrightarrow> cur \<noteq> [] \<Longrightarrow>
     fits cnt maximum_size words (emitted_size cnt mode cur n)"
  by (auto simp: size_inv_def emitted_size_def split: token_count_mode.split intro: fits_mono)

lemma grown_size_inv:
  assumes "grown cnt maximum_size mode cur (wc_text w) n n'" and "w \<in> set words"
    and "size_inv maximum_size mode words cur n" and "cur = [] \<Longrightarrow> n = 0"
  shows "size_inv maximum_size mode words (cur @ wc_text w) n'"
  using assms cnt_append [of cur "wc_text w"]
  by (cases "cur = []"; cases maximum_size)
    (auto simp: grown_def size_inv_def fits_def)

lemma single_size_inv: "w \<in> set words \<Longrightarrow> size_inv maximum_size mode words (wc_text w) (cnt (wc_text w))"
  by (auto simp: size_inv_def fits_def split: option.split)

lemma sentence_loop_fits:
  assumes "sent_inv pre cur st" and "data = pre @ cur @ concat (map wc_text ws)"
    and "tiles (byte_len pre + byte_len cur) (map wc_span ws)" and "set ws \<subseteq> set words"
    and "size_inv maximum_size mode words cur (ss_size st)"
    and "sentence_loop cnt alpha fresh data maximum_size mode ws st = Some cs"
  shows "\<forall>c \<in> set cs. fits cnt maximum_size words (sc_size c)"
  using assms
proof (induction ws arbitrary: pre cur st cs)
  case Nil
  then show ?case
    by (auto simp: sent_inv_def push_sentence_def emitted_fits split: if_splits option.splits)
next
  case (Cons w ws)
  have data: "data = pre @ cur @ wc_text w @ concat (map wc_text ws)"
    and start: "wc_start w = byte_len pre + byte_len cur" and ne: "wc_text w \<noteq> []"
    and rest: "tiles (byte_len pre + byte_len cur + byte_len (wc_text w)) (map wc_span ws)"
    and w: "w \<in> set words" and ws: "set ws \<subseteq> set words"
    using Cons.prems by auto
  note sz = Cons.prems(5)
  have z: "cur = [] \<Longrightarrow> ss_size st = 0" using Cons.prems(1) by (simp add: sent_inv_def)
  from Cons.prems(6) obtain out st' r
    where s: "sentence_step cnt alpha fresh data maximum_size mode w st = Some (out, st')"
      and r: "sentence_loop cnt alpha fresh data maximum_size mode ws st' = Some r" and cs: "cs = out @ r"
    by (auto split: option.splits)
  from sentence_step_ok [OF Cons.prems(1) data start ne, of cnt alpha fresh maximum_size mode]
  consider c where "out = [c]" "cur \<noteq> []" "sc_size c = emitted_size cnt mode cur (ss_size st)"
      "sent_inv (pre @ cur) (wc_text w) st'" "ss_size st' = cnt (wc_text w)"
    | c n where "out = [c]" "sc_size c = emitted_size cnt mode (cur @ wc_text w) n"
      "grown cnt maximum_size mode cur (wc_text w) (ss_size st) n" "sent_inv (pre @ cur @ wc_text w) [] st'"
    | "out = []" "grown cnt maximum_size mode cur (wc_text w) (ss_size st) (ss_size st')"
      "sent_inv pre (cur @ wc_text w) st'"
    using s by auto
  then show ?case
  proof cases
    case 1
    from Cons.IH [OF 1(4) _ _ ws _ r] data rest 1 single_size_inv [OF w]
    have "\<forall>c \<in> set r. fits cnt maximum_size words (sc_size c)" by auto
    with 1 cs emitted_fits [OF sz] show ?thesis by auto
  next
    case 2
    from 2(4) have "ss_size st' = 0" by (simp add: sent_inv_def)
    then have "size_inv maximum_size mode words [] (ss_size st')"
      by (auto simp: size_inv_def fits_def split: option.split)
    from Cons.IH [OF 2(4) _ _ ws this r] data rest
    have "\<forall>c \<in> set r. fits cnt maximum_size words (sc_size c)" by (auto simp: add.assoc)
    with 2 cs emitted_fits [OF grown_size_inv [OF 2(3) w sz z]] ne show ?thesis by auto
  next
    case 3
    from Cons.IH [OF 3(3) _ _ ws grown_size_inv [OF 3(2) w sz z] r] data rest 3 cs
    show ?thesis by (auto simp: add.assoc)
  qed
qed

lemma chunk_by_sentence_fits:
  assumes "chunk_by_word data = Some words"
    and "chunk_by_sentence cnt alpha fresh data maximum_size mode = Some cs" and "c \<in> set cs"
  shows "fits cnt maximum_size words (sc_size c)"
proof -
  from chunk_by_word_total [of data] assms(1)
  have w: "tiles 0 (map wc_span words)" "concat (map wc_text words) = data" by auto
  have "sent_inv [] [] sentence_init" by (simp add: sent_inv_def sentence_init_def)
  moreover have "size_inv maximum_size mode words [] (ss_size sentence_init)"
    by (auto simp: size_inv_def fits_def sentence_init_def split: option.split)
  ultimately show ?thesis
    using sentence_loop_fits [of "[]" "[]" sentence_init data words words maximum_size mode alpha fresh cs]
      w assms by (auto simp: chunk_by_sentence_def)
qed

end

section \<open>Properties\<close>

text \<open>
  For every counter, size limit and mode the sentence chunker returns; the sentences are
  contiguous from byte 0, not empty and concatenate to the input, and under \<open>Span\<close> each
  reports the exact count of its own text.
\<close>

lemma sentences_partition:
  "\<exists>cs. chunk_by_sentence cnt alpha fresh data maximum_size mode = Some cs \<and> tiles 0 (map sc_span cs)
      \<and> concat (map sc_text cs) = data
      \<and> (mode = PerWord \<or> list_all (\<lambda>c. sc_size c = cnt (sc_text c)) cs)"
proof -
  obtain words cs where "chunk_by_sentence cnt alpha fresh data maximum_size mode = Some cs"
    "tiles 0 (map sc_span cs)" "concat (map sc_text cs) = data"
    "mode = Span \<Longrightarrow> \<forall>c \<in> set cs. sc_size c = cnt (sc_text c)"
    by (rule chunk_by_sentence_total [of data cnt alpha fresh maximum_size mode]) blast
  then show ?thesis by (cases mode) (auto simp: list_all_iff)
qed

end
