(* ===== verification/Chunk_Paragraph.thy ===== *)
theory Chunk_Paragraph
  imports Chunk_Sentence
begin

text \<open>
  \<open>crates/chunking/src/chunk_by_paragraph.rs\<close>: sentences are batched into chunks of at most
  \<open>max_chunk_size\<close> tokens, across paragraph boundaries (\<open>batch_paragraphs\<close>) or up to each.
  \<open>u5 t\<close> is \<open>Uuid::new_v5(&NAMESPACE_OID, t.as_bytes())\<close>, a parameter.
\<close>

record paragraph_chunk =
  pc_start :: nat
  pc_text :: str
  pc_chunk_size :: nat
  pc_chunk_id :: uuid
  pc_paragraph_ids :: "uuid list"
  pc_chunk_index :: nat
  pc_cut_type :: cut_type

record paragraph_state =
  ps_index :: nat
  ps_ids :: "uuid list"
  ps_last_cut :: cut_type
  ps_size :: nat
  ps_start :: "nat option"
  ps_end :: nat

definition paragraph_overflow ::
  "(str \<Rightarrow> nat) \<Rightarrow> str \<Rightarrow> nat \<Rightarrow> token_count_mode \<Rightarrow> nat \<Rightarrow> nat option \<Rightarrow> nat \<Rightarrow> nat
     \<Rightarrow> (bool \<times> nat) option" where
  "paragraph_overflow cnt data max_chunk_size mode cur_size start sent_end next_size =
     (let overflows = (0 < cur_size \<and> max_chunk_size < next_size) in
      case start of
        Some i \<Rightarrow>
          (if overflows \<and> mode = Span
           then map_option (\<lambda>t. if cnt t \<le> max_chunk_size then (False, cnt t) else (True, next_size))
                  (str_slice data i sent_end)
           else Some (overflows, next_size))
      | None \<Rightarrow> Some (overflows, next_size))"

text \<open>Emit the accumulated range and clear it; \<open>chunk_start.expect(..)\<close> is the \<open>None\<close>.\<close>

definition flush_paragraph ::
  "(str \<Rightarrow> nat) \<Rightarrow> (str \<Rightarrow> uuid) \<Rightarrow> str \<Rightarrow> token_count_mode \<Rightarrow> cut_type \<Rightarrow> paragraph_state
     \<Rightarrow> (paragraph_chunk list \<times> paragraph_state) option" where
  "flush_paragraph cnt u5 data mode ct st =
     (case ps_start st of
        None \<Rightarrow> None
      | Some i \<Rightarrow>
          map_option (\<lambda>t. ([\<lparr>pc_start = i, pc_text = t,
                             pc_chunk_size = emitted_size cnt mode t (ps_size st),
                             pc_chunk_id = u5 t, pc_paragraph_ids = ps_ids st,
                             pc_chunk_index = ps_index st, pc_cut_type = ct\<rparr>],
                           st\<lparr>ps_ids := [], ps_start := None, ps_index := Suc (ps_index st)\<rparr>))
            (str_slice data i (ps_end st)))"

definition take_sentence :: "sentence_chunk \<Rightarrow> nat \<Rightarrow> paragraph_state \<Rightarrow> paragraph_state" where
  "take_sentence s new_size st =
     st\<lparr>ps_ids := ps_ids st @ [sc_paragraph_id s],
        ps_start := Some (case ps_start st of None \<Rightarrow> sc_start s | Some i \<Rightarrow> i),
        ps_end := sc_start s + byte_len (sc_text s),
        ps_size := new_size\<rparr>"

text \<open>Outside \<open>batch_paragraphs\<close> a sentence that ends a paragraph ends the chunk too.\<close>

definition flushes_after :: "bool \<Rightarrow> sentence_chunk \<Rightarrow> bool" where
  "flushes_after batch_paragraphs s \<longleftrightarrow>
     \<not> batch_paragraphs \<and> sc_cut_type s \<in> {CutParagraphEnd, CutSentenceCut}"

definition paragraph_boundary ::
  "(str \<Rightarrow> nat) \<Rightarrow> (str \<Rightarrow> uuid) \<Rightarrow> str \<Rightarrow> bool \<Rightarrow> token_count_mode
     \<Rightarrow> sentence_chunk \<Rightarrow> paragraph_state \<Rightarrow> (paragraph_chunk list \<times> paragraph_state) option" where
  "paragraph_boundary cnt u5 data batch_paragraphs mode s st =
     (if flushes_after batch_paragraphs s
      then map_option (\<lambda>(o2, st3). (o2, st3\<lparr>ps_size := 0\<rparr>))
             (flush_paragraph cnt u5 data mode (sc_cut_type s) st)
      else Some ([], st))"

definition paragraph_step ::
  "(str \<Rightarrow> nat) \<Rightarrow> (str \<Rightarrow> uuid) \<Rightarrow> str \<Rightarrow> nat \<Rightarrow> bool \<Rightarrow> token_count_mode
     \<Rightarrow> sentence_chunk \<Rightarrow> paragraph_state \<Rightarrow> (paragraph_chunk list \<times> paragraph_state) option" where
  "paragraph_step cnt u5 data max_chunk_size batch_paragraphs mode s st =
     (case paragraph_overflow cnt data max_chunk_size mode (ps_size st) (ps_start st)
             (sc_start s + byte_len (sc_text s)) (ps_size st + sc_size s) of
        None \<Rightarrow> None
      | Some (overflows, next_size) \<Rightarrow>
          (case (if overflows then flush_paragraph cnt u5 data mode (ps_last_cut st) st
                 else Some ([], st)) of
             None \<Rightarrow> None
           | Some (out1, st1) \<Rightarrow>
               map_option (\<lambda>(out2, st3). (out1 @ out2, st3\<lparr>ps_last_cut := sc_cut_type s\<rparr>))
                 (paragraph_boundary cnt u5 data batch_paragraphs mode s
                    (take_sentence s (if overflows then sc_size s else next_size) st1))))"

fun paragraph_loop ::
  "(str \<Rightarrow> nat) \<Rightarrow> (str \<Rightarrow> uuid) \<Rightarrow> str \<Rightarrow> nat \<Rightarrow> bool \<Rightarrow> token_count_mode
     \<Rightarrow> sentence_chunk list \<Rightarrow> paragraph_state \<Rightarrow> paragraph_chunk list option" where
  "paragraph_loop cnt u5 data max_chunk_size batch_paragraphs mode [] st =
     (if ps_start st = None then Some []
      else map_option fst
             (flush_paragraph cnt u5 data mode
                (if ps_last_cut st = CutWord then CutSentenceCut else ps_last_cut st) st))"
| "paragraph_loop cnt u5 data max_chunk_size batch_paragraphs mode (s # ss) st =
     (case paragraph_step cnt u5 data max_chunk_size batch_paragraphs mode s st of
        None \<Rightarrow> None
      | Some (out, st') \<Rightarrow>
          map_option (\<lambda>r. out @ r)
            (paragraph_loop cnt u5 data max_chunk_size batch_paragraphs mode ss st'))"

definition paragraph_init :: paragraph_state where
  "paragraph_init = \<lparr>ps_index = 0, ps_ids = [], ps_last_cut = CutSentenceCut, ps_size = 0,
     ps_start = None, ps_end = 0\<rparr>"

definition chunk_by_paragraph ::
  "(str \<Rightarrow> nat) \<Rightarrow> (uchar \<Rightarrow> bool) \<Rightarrow> (nat \<Rightarrow> uuid) \<Rightarrow> (str \<Rightarrow> uuid) \<Rightarrow> str \<Rightarrow> nat \<Rightarrow> bool
     \<Rightarrow> token_count_mode \<Rightarrow> paragraph_chunk list option" where
  "chunk_by_paragraph cnt alpha fresh u5 data max_chunk_size batch_paragraphs mode =
     (case chunk_by_sentence cnt alpha fresh data (Some max_chunk_size) mode of
        None \<Rightarrow> None
      | Some sentences \<Rightarrow>
          paragraph_loop cnt u5 data max_chunk_size batch_paragraphs mode sentences paragraph_init)"

abbreviation pc_span :: "paragraph_chunk \<Rightarrow> nat \<times> str" where
  "pc_span c \<equiv> (pc_start c, pc_text c)"

section \<open>One step\<close>

definition para_inv :: "str \<Rightarrow> str \<Rightarrow> paragraph_state \<Rightarrow> bool" where
  "para_inv pre cur st \<longleftrightarrow>
     (if cur = [] then ps_start st = None
      else ps_start st = Some (byte_len pre) \<and> ps_end st = byte_len pre + byte_len cur)"

text \<open>What an emitted chunk says about itself.\<close>

definition chunk_labels :: "(str \<Rightarrow> nat) \<Rightarrow> (str \<Rightarrow> uuid) \<Rightarrow> token_count_mode \<Rightarrow> paragraph_chunk \<Rightarrow> bool" where
  "chunk_labels cnt u5 mode c \<longleftrightarrow>
     pc_chunk_id c = u5 (pc_text c) \<and> (mode = Span \<longrightarrow> pc_chunk_size c = cnt (pc_text c))"

lemma flush_paragraph_ok:
  assumes "para_inv pre cur st" and "cur \<noteq> []" and "data = pre @ cur @ rest"
  shows "flush_paragraph cnt u5 data mode ct st =
     Some ([\<lparr>pc_start = byte_len pre, pc_text = cur,
             pc_chunk_size = emitted_size cnt mode cur (ps_size st), pc_chunk_id = u5 cur,
             pc_paragraph_ids = ps_ids st, pc_chunk_index = ps_index st, pc_cut_type = ct\<rparr>],
           st\<lparr>ps_ids := [], ps_start := None, ps_index := Suc (ps_index st)\<rparr>)"
  using assms by (simp add: flush_paragraph_def para_inv_def)

lemma take_sentence_inv:
  assumes "para_inv pre cur st" and "sc_start s = byte_len pre + byte_len cur" and "sc_text s \<noteq> []"
  shows "para_inv pre (cur @ sc_text s) (take_sentence s n st)"
  using assms by (auto simp: para_inv_def take_sentence_def split: if_splits)

lemma paragraph_overflow_ok:
  assumes "para_inv pre cur st" and "data = pre @ cur @ sc_text s @ rest"
    and "sc_start s = byte_len pre + byte_len cur" and "cur = [] \<longrightarrow> ps_size st = 0"
  shows "\<exists>b n. paragraph_overflow cnt data max_chunk_size mode (ps_size st) (ps_start st)
              (sc_start s + byte_len (sc_text s)) (ps_size st + sc_size s) = Some (b, n)
          \<and> (b \<longrightarrow> cur \<noteq> [])
          \<and> (\<not> b \<longrightarrow> (n = ps_size st + sc_size s \<and> (ps_size st = 0 \<or> n \<le> max_chunk_size))
                \<or> (mode = Span \<and> n = cnt (cur @ sc_text s) \<and> n \<le> max_chunk_size))"
proof -
  have sl: "str_slice data (byte_len pre) (sc_start s + byte_len (sc_text s)) = Some (cur @ sc_text s)"
    using assms(2,3) str_slice_middle [of pre "cur @ sc_text s" rest] by (simp add: add.assoc)
  show ?thesis
  proof (cases "cnt (cur @ sc_text s) \<le> max_chunk_size")
    case True
    with sl assms show ?thesis
      by (cases "cur = []"; cases "mode = Span")
        (auto simp: paragraph_overflow_def para_inv_def Let_def not_less)
  next
    case False
    with sl assms show ?thesis
      by (cases "cur = []"; cases "mode = Span")
        (auto simp: paragraph_overflow_def para_inv_def Let_def not_less)
  qed
qed

text \<open>
  A step emits at most one chunk before it takes the sentence (\<open>cut_first\<close>, the overflow) and
  at most one after (\<open>flush_after\<close>, the paragraph boundary when paragraphs are not batched).
\<close>

abbreviation para_chunk ::
  "(str \<Rightarrow> nat) \<Rightarrow> (str \<Rightarrow> uuid) \<Rightarrow> token_count_mode \<Rightarrow> str \<Rightarrow> str \<Rightarrow> nat \<Rightarrow> uuid list \<Rightarrow> nat \<Rightarrow> cut_type
     \<Rightarrow> paragraph_chunk" where
  "para_chunk cnt u5 mode pre cur n ids idx ct \<equiv>
     \<lparr>pc_start = byte_len pre, pc_text = cur, pc_chunk_size = emitted_size cnt mode cur n,
      pc_chunk_id = u5 cur, pc_paragraph_ids = ids, pc_chunk_index = idx, pc_cut_type = ct\<rparr>"

definition para_added :: "(str \<Rightarrow> nat) \<Rightarrow> nat \<Rightarrow> token_count_mode \<Rightarrow> str \<Rightarrow> nat \<Rightarrow> nat \<Rightarrow> nat \<Rightarrow> bool" where
  "para_added cnt max_chunk_size mode cur' acc sz n \<longleftrightarrow>
     (n = acc + sz \<and> (acc = 0 \<or> n \<le> max_chunk_size)) \<or> (mode = Span \<and> n = cnt cur' \<and> n \<le> max_chunk_size)"

text \<open>
  What one sentence does to the accumulated text: \<open>moved pre cur ids idx pre1 cur1 ids1 idx1\<close> is
  the position before and after the overflow cut, \<open>settled\<close> the state once the sentence is in.
\<close>

definition settled :: "bool \<Rightarrow> sentence_chunk \<Rightarrow> str \<Rightarrow> str \<Rightarrow> uuid list \<Rightarrow> nat \<Rightarrow> nat \<Rightarrow> paragraph_state \<Rightarrow> bool" where
  "settled batch s pre cur ids idx n st' \<longleftrightarrow>
     (if flushes_after batch s
      then para_inv (pre @ cur @ sc_text s) [] st' \<and> ps_ids st' = [] \<and> ps_size st' = 0 \<and> ps_index st' = Suc idx
      else para_inv pre (cur @ sc_text s) st' \<and> ps_ids st' = ids @ [sc_paragraph_id s]
           \<and> ps_size st' = n \<and> ps_index st' = idx)"

abbreviation boundary_chunks where
  "boundary_chunks cnt u5 mode batch s pre cur ids idx n \<equiv>
     (if flushes_after batch s
      then [para_chunk cnt u5 mode pre (cur @ sc_text s) n (ids @ [sc_paragraph_id s]) idx (sc_cut_type s)]
      else [])"

lemma paragraph_boundary_ok:
  assumes inv: "para_inv pre cur st" and data: "data = pre @ cur @ sc_text s @ rest"
    and start: "sc_start s = byte_len pre + byte_len cur" and ne: "sc_text s \<noteq> []"
  shows "\<exists>st'. paragraph_boundary cnt u5 data batch mode s (take_sentence s n st)
        = Some (boundary_chunks cnt u5 mode batch s pre cur (ps_ids st) (ps_index st) n, st')
      \<and> settled batch s pre cur (ps_ids st) (ps_index st) n (st'\<lparr>ps_last_cut := sc_cut_type s\<rparr>)"
proof -
  have i: "para_inv pre (cur @ sc_text s) (take_sentence s n st)"
    using take_sentence_inv [OF inv start ne] .
  have "cur @ sc_text s \<noteq> []" and "data = pre @ (cur @ sc_text s) @ rest" using ne data by auto
  note f = flush_paragraph_ok [OF i this, of cnt u5 mode "sc_cut_type s"]
  from i ne f show ?thesis
    by (cases "flushes_after batch s") (auto simp: paragraph_boundary_def settled_def take_sentence_def para_inv_def)
qed

lemma paragraph_step_ok:
  assumes inv: "para_inv pre cur st" and data: "data = pre @ cur @ sc_text s @ rest"
    and start: "sc_start s = byte_len pre + byte_len cur" and ne: "sc_text s \<noteq> []"
    and zero: "cur = [] \<longrightarrow> ps_size st = 0"
  shows "(cur \<noteq> [] \<and> (\<exists>st'. paragraph_step cnt u5 data max_chunk_size batch mode s st =
            Some (para_chunk cnt u5 mode pre cur (ps_size st) (ps_ids st) (ps_index st) (ps_last_cut st)
                  # boundary_chunks cnt u5 mode batch s (pre @ cur) [] [] (Suc (ps_index st)) (sc_size s), st')
          \<and> settled batch s (pre @ cur) [] [] (Suc (ps_index st)) (sc_size s) st'))
    \<or> (\<exists>st' n. paragraph_step cnt u5 data max_chunk_size batch mode s st =
            Some (boundary_chunks cnt u5 mode batch s pre cur (ps_ids st) (ps_index st) n, st')
          \<and> settled batch s pre cur (ps_ids st) (ps_index st) n st'
          \<and> para_added cnt max_chunk_size mode (cur @ sc_text s) (ps_size st) (sc_size s) n)"
proof -
  from paragraph_overflow_ok [OF inv data start zero, of cnt max_chunk_size mode]
  obtain b n0 where ov: "paragraph_overflow cnt data max_chunk_size mode (ps_size st) (ps_start st)
              (sc_start s + byte_len (sc_text s)) (ps_size st + sc_size s) = Some (b, n0)"
    and b: "b \<Longrightarrow> cur \<noteq> []"
    and nb: "\<not> b \<Longrightarrow> para_added cnt max_chunk_size mode (cur @ sc_text s) (ps_size st) (sc_size s) n0"
    by (auto simp: para_added_def)
  show ?thesis
  proof (cases b)
    case True
    let ?st1 = "st\<lparr>ps_ids := [], ps_start := None, ps_index := Suc (ps_index st)\<rparr>"
    note f1 = flush_paragraph_ok [OF inv b [OF True] data, of cnt u5 mode "ps_last_cut st"]
    have i1: "para_inv (pre @ cur) [] ?st1" by (simp add: para_inv_def)
    have d2: "data = (pre @ cur) @ [] @ sc_text s @ rest" using data by simp
    have s2: "sc_start s = byte_len (pre @ cur) + byte_len []" using start by simp
    from paragraph_boundary_ok [OF i1 d2 s2 ne, of cnt u5 batch mode "sc_size s"] ov f1 True b [OF True]
    show ?thesis unfolding paragraph_step_def by (intro disjI1) auto
  next
    case False
    from paragraph_boundary_ok [OF inv data start ne, of cnt u5 batch mode n0] obtain st' where
      "paragraph_boundary cnt u5 data batch mode s (take_sentence s n0 st)
         = Some (boundary_chunks cnt u5 mode batch s pre cur (ps_ids st) (ps_index st) n0, st')"
      and "settled batch s pre cur (ps_ids st) (ps_index st) n0 (st'\<lparr>ps_last_cut := sc_cut_type s\<rparr>)"
      by blast
    with ov False nb [OF False] show ?thesis unfolding paragraph_step_def
      by (intro disjI2 exI [of _ "st'\<lparr>ps_last_cut := sc_cut_type s\<rparr>"] exI [of _ n0]) simp
  qed
qed

section \<open>The whole loop\<close>

text \<open>
  The chunks \<open>cs\<close> lay out \<open>txt\<close> after \<open>pre\<close> without gap or overlap, numbered from \<open>idx\<close>, carry
  the paragraph ids \<open>ids\<close> in order, and each is labelled by its own text.
\<close>

definition para_report ::
  "(str \<Rightarrow> nat) \<Rightarrow> (str \<Rightarrow> uuid) \<Rightarrow> token_count_mode \<Rightarrow> str \<Rightarrow> str \<Rightarrow> uuid list \<Rightarrow> nat
     \<Rightarrow> paragraph_chunk list \<Rightarrow> bool" where
  "para_report cnt u5 mode pre txt ids idx cs \<longleftrightarrow>
     tiles (byte_len pre) (map pc_span cs) \<and> concat (map pc_text cs) = txt
     \<and> map pc_chunk_index cs = [idx..<idx + length cs] \<and> concat (map pc_paragraph_ids cs) = ids
     \<and> (\<forall>c \<in> set cs. chunk_labels cnt u5 mode c)"

lemma para_report_Nil [simp]: "para_report cnt u5 mode pre txt ids idx [] \<longleftrightarrow> txt = [] \<and> ids = []"
  by (auto simp: para_report_def)

lemma para_report_Cons:
  assumes "cur \<noteq> []" and "para_report cnt u5 mode (pre @ cur) txt ids' (Suc idx) cs"
  shows "para_report cnt u5 mode pre (cur @ txt) (ids @ ids') idx
           (para_chunk cnt u5 mode pre cur n ids idx ct # cs)"
proof -
  have "[idx..<idx + Suc (length cs)] = idx # [Suc idx..<Suc idx + length cs]"
    using upt_conv_Cons [of idx "idx + Suc (length cs)"] by simp
  then show ?thesis
    using assms by (auto simp: para_report_def chunk_labels_def emitted_size_def)
qed

lemma paragraph_loop_ok:
  assumes "para_inv pre cur st" and "data = pre @ cur @ concat (map sc_text ss)"
    and "tiles (byte_len pre + byte_len cur) (map sc_span ss)"
    and "cur = [] \<Longrightarrow> ps_size st = 0 \<and> ps_ids st = []"
  shows "\<exists>cs. paragraph_loop cnt u5 data max_chunk_size batch mode ss st = Some cs \<and>
           para_report cnt u5 mode pre (cur @ concat (map sc_text ss))
             (ps_ids st @ map sc_paragraph_id ss) (ps_index st) cs"
  using assms
proof (induction ss arbitrary: pre cur st)
  case Nil
  show ?case
  proof (cases "cur = []")
    case True
    with Nil show ?thesis by (simp add: para_inv_def)
  next
    case False
    with Nil have "ps_start st \<noteq> None" by (simp add: para_inv_def)
    moreover have "data = pre @ cur @ []" using Nil by simp
    ultimately show ?thesis
      using flush_paragraph_ok [OF Nil.prems(1) False, of data "[]" cnt u5 mode] False
        para_report_Cons [OF False, of cnt u5 mode pre "[]" "[]" "ps_index st" "[]" "ps_ids st"]
      by simp
  qed
next
  case (Cons s ss)
  have data: "data = pre @ cur @ sc_text s @ concat (map sc_text ss)"
    and start: "sc_start s = byte_len pre + byte_len cur" and ne: "sc_text s \<noteq> []"
    and rest: "tiles (byte_len pre + byte_len cur + byte_len (sc_text s)) (map sc_span ss)"
    using Cons.prems by auto
  have zero: "cur = [] \<longrightarrow> ps_size st = 0" using Cons.prems by simp
  have loop: "\<exists>r. paragraph_loop cnt u5 data max_chunk_size batch mode ss st' = Some r \<and>
      para_report cnt u5 mode pre1 (cur1 @ sc_text s @ concat (map sc_text ss))
        (ids1 @ map sc_paragraph_id (s # ss)) idx1
        (boundary_chunks cnt u5 mode batch s pre1 cur1 ids1 idx1 n @ r)"
    if st: "settled batch s pre1 cur1 ids1 idx1 n st'" and eq: "pre1 @ cur1 = pre @ cur" for pre1 cur1 ids1 idx1 n st'
  proof (cases "flushes_after batch s")
    case True
    from eq have at: "byte_len pre1 + (byte_len cur1 + byte_len (sc_text s))
        = byte_len pre + byte_len cur + byte_len (sc_text s)"
      by (metis add.assoc byte_len_append)
    have "data = (pre1 @ cur1 @ sc_text s) @ [] @ concat (map sc_text ss)" using data eq by simp
    moreover have "tiles (byte_len (pre1 @ cur1 @ sc_text s) + byte_len []) (map sc_span ss)"
      unfolding byte_len_append byte_len_Nil add_0_right at using rest .
    ultimately obtain r where "paragraph_loop cnt u5 data max_chunk_size batch mode ss st' = Some r"
      "para_report cnt u5 mode (pre1 @ cur1 @ sc_text s) (concat (map sc_text ss))
         (map sc_paragraph_id ss) (Suc idx1) r"
      using Cons.IH [of "pre1 @ cur1 @ sc_text s" "[]" st'] st True unfolding settled_def by auto
    with True para_report_Cons [of "cur1 @ sc_text s" cnt u5 mode pre1 "concat (map sc_text ss)"
        "map sc_paragraph_id ss" idx1 r "ids1 @ [sc_paragraph_id s]" n "sc_cut_type s"] ne
    show ?thesis by simp
  next
    case False
    from eq have at: "byte_len pre1 + (byte_len cur1 + byte_len (sc_text s))
        = byte_len pre + byte_len cur + byte_len (sc_text s)"
      by (metis add.assoc byte_len_append)
    have "data = pre1 @ (cur1 @ sc_text s) @ concat (map sc_text ss)" using data eq by simp
    moreover have "tiles (byte_len pre1 + byte_len (cur1 @ sc_text s)) (map sc_span ss)"
      unfolding byte_len_append byte_len_Nil add_0_right at using rest .
    ultimately show ?thesis
      using Cons.IH [of pre1 "cur1 @ sc_text s" st'] st False ne by (simp add: settled_def)
  qed
  from paragraph_step_ok [OF Cons.prems(1) data start ne zero, of cnt u5 max_chunk_size batch mode]
  show ?case
  proof (elim disjE conjE exE, goal_cases)
    case (1 st')
    from loop [OF 1(3)] obtain r where r: "paragraph_loop cnt u5 data max_chunk_size batch mode ss st' = Some r"
      "para_report cnt u5 mode (pre @ cur) ([] @ sc_text s @ concat (map sc_text ss))
        ([] @ map sc_paragraph_id (s # ss)) (Suc (ps_index st))
        (boundary_chunks cnt u5 mode batch s (pre @ cur) [] [] (Suc (ps_index st)) (sc_size s) @ r)"
      by auto
    have "paragraph_loop cnt u5 data max_chunk_size batch mode (s # ss) st =
        Some (para_chunk cnt u5 mode pre cur (ps_size st) (ps_ids st) (ps_index st) (ps_last_cut st)
          # boundary_chunks cnt u5 mode batch s (pre @ cur) [] [] (Suc (ps_index st)) (sc_size s) @ r)"
      unfolding paragraph_loop.simps 1(2) by (simp add: r(1))
    with para_report_Cons [OF 1(1) r(2), of "ps_ids st" "ps_size st" "ps_last_cut st"]
    show ?case by auto
  next
    case (2 st' n)
    from loop [OF 2(2) refl] obtain r where r: "paragraph_loop cnt u5 data max_chunk_size batch mode ss st' = Some r"
      "para_report cnt u5 mode pre (cur @ sc_text s @ concat (map sc_text ss))
        (ps_ids st @ map sc_paragraph_id (s # ss)) (ps_index st)
        (boundary_chunks cnt u5 mode batch s pre cur (ps_ids st) (ps_index st) n @ r)"
      by auto
    have "paragraph_loop cnt u5 data max_chunk_size batch mode (s # ss) st =
        Some (boundary_chunks cnt u5 mode batch s pre cur (ps_ids st) (ps_index st) n @ r)"
      unfolding paragraph_loop.simps 2(1) by (simp add: r(1))
    with r(2) show ?case by auto
  qed
qed

lemma chunk_by_paragraph_total:
  obtains words ss cs where "chunk_by_word data = Some words"
    and "chunk_by_sentence cnt alpha fresh data (Some max_chunk_size) mode = Some ss"
    and "chunk_by_paragraph cnt alpha fresh u5 data max_chunk_size batch mode = Some cs"
    and "para_report cnt u5 mode [] data (map sc_paragraph_id ss) 0 cs"
proof -
  obtain words ss where w: "chunk_by_word data = Some words"
    and ss: "chunk_by_sentence cnt alpha fresh data (Some max_chunk_size) mode = Some ss"
    "tiles 0 (map sc_span ss)" "concat (map sc_text ss) = data"
    by (rule chunk_by_sentence_total)
  have "para_inv [] [] paragraph_init" by (simp add: para_inv_def paragraph_init_def)
  from paragraph_loop_ok [OF this, of data ss cnt u5 max_chunk_size batch mode] w ss that
  show ?thesis by (auto simp: chunk_by_paragraph_def paragraph_init_def)
qed

section \<open>The size bound\<close>

context token_counter
begin

lemma para_added_size_inv:
  assumes "para_added cnt m mode (cur @ sc_text s) acc (sc_size s) n"
    and "size_inv (Some m) mode words cur acc" and "fits cnt (Some m) words (sc_size s)"
    and "mode = Span \<Longrightarrow> sc_size s = cnt (sc_text s)" and "cur = [] \<longrightarrow> acc = 0"
  shows "size_inv (Some m) mode words (cur @ sc_text s) n"
  using assms cnt_append [of cur "sc_text s"]
  by (cases "cur = []") (auto simp: para_added_def size_inv_def fits_def)

lemma paragraph_loop_fits:
  assumes "para_inv pre cur st" and "data = pre @ cur @ concat (map sc_text ss)"
    and "tiles (byte_len pre + byte_len cur) (map sc_span ss)"
    and "cur = [] \<longrightarrow> ps_size st = 0"
    and "size_inv (Some m) mode words cur (ps_size st)"
    and "\<forall>s \<in> set ss. fits cnt (Some m) words (sc_size s) \<and> (mode = Span \<longrightarrow> sc_size s = cnt (sc_text s))"
    and "paragraph_loop cnt u5 data m batch mode ss st = Some cs"
  shows "\<forall>c \<in> set cs. fits cnt (Some m) words (pc_chunk_size c)"
  using assms
proof (induction ss arbitrary: pre cur st cs)
  case Nil
  show ?case
  proof (cases "cur = []")
    case True
    with Nil show ?thesis by (simp add: para_inv_def)
  next
    case False
    with Nil have "ps_start st \<noteq> None" by (simp add: para_inv_def)
    moreover have "data = pre @ cur @ []" using Nil by simp
    ultimately show ?thesis
      using flush_paragraph_ok [OF Nil.prems(1) False, of data "[]" cnt u5 mode] Nil.prems(5,7)
        emitted_fits [OF Nil.prems(5) False] by auto
  qed
next
  case (Cons s ss)
  have data: "data = pre @ cur @ sc_text s @ concat (map sc_text ss)"
    and start: "sc_start s = byte_len pre + byte_len cur" and ne: "sc_text s \<noteq> []"
    and rest: "tiles (byte_len pre + byte_len cur + byte_len (sc_text s)) (map sc_span ss)"
    and s: "fits cnt (Some m) words (sc_size s)" "mode = Span \<Longrightarrow> sc_size s = cnt (sc_text s)"
    using Cons.prems by auto
  note zero = Cons.prems(4) and sz = Cons.prems(5)
  have single: "size_inv (Some m) mode words ([] @ sc_text s) (sc_size s)"
    using s by (auto simp: size_inv_def)
  have loop: "\<forall>c \<in> set (boundary_chunks cnt u5 mode batch s pre1 cur1 ids1 idx1 n @ r).
        fits cnt (Some m) words (pc_chunk_size c)"
    if st: "settled batch s pre1 cur1 ids1 idx1 n st'" and eq: "pre1 @ cur1 = pre @ cur"
      and si: "size_inv (Some m) mode words (cur1 @ sc_text s) n"
      and r: "paragraph_loop cnt u5 data m batch mode ss st' = Some r" for pre1 cur1 ids1 idx1 n st' r
  proof -
    from eq have at: "byte_len pre1 + (byte_len cur1 + byte_len (sc_text s))
        = byte_len pre + byte_len cur + byte_len (sc_text s)"
      by (metis add.assoc byte_len_append)
    have ss: "\<forall>s \<in> set ss. fits cnt (Some m) words (sc_size s) \<and> (mode = Span \<longrightarrow> sc_size s = cnt (sc_text s))"
      using Cons.prems(6) by auto
    have here: "fits cnt (Some m) words (emitted_size cnt mode (cur1 @ sc_text s) n)"
      using emitted_fits [OF si] ne by simp
    have d: "data = pre1 @ cur1 @ sc_text s @ concat (map sc_text ss)" using data eq by simp
    show ?thesis
    proof (cases "flushes_after batch s")
      case True
      have "size_inv (Some m) mode words [] 0" by (simp add: size_inv_def fits_def)
      moreover have "tiles (byte_len (pre1 @ cur1 @ sc_text s) + byte_len []) (map sc_span ss)"
        unfolding byte_len_append byte_len_Nil add_0_right at using rest .
      ultimately have "\<forall>c \<in> set r. fits cnt (Some m) words (pc_chunk_size c)"
        using Cons.IH [of "pre1 @ cur1 @ sc_text s" "[]" st' r] st True r ss d by (simp add: settled_def)
      with here True show ?thesis by auto
    next
      case False
      have "tiles (byte_len pre1 + byte_len (cur1 @ sc_text s)) (map sc_span ss)"
        unfolding byte_len_append byte_len_Nil add_0_right at using rest .
      with Cons.IH [of pre1 "cur1 @ sc_text s" st' r] st False ne r ss d si show ?thesis
        by (simp add: settled_def)
    qed
  qed
  from paragraph_step_ok [OF Cons.prems(1) data start ne zero, of cnt u5 m batch mode]
  show ?case
  proof (elim disjE conjE exE, goal_cases)
    case (1 st')
    with Cons.prems(7) obtain r where "paragraph_loop cnt u5 data m batch mode ss st' = Some r"
      and "cs = para_chunk cnt u5 mode pre cur (ps_size st) (ps_ids st) (ps_index st) (ps_last_cut st)
          # boundary_chunks cnt u5 mode batch s (pre @ cur) [] [] (Suc (ps_index st)) (sc_size s) @ r"
      by auto
    with loop [OF 1(3) _ single, of r] emitted_fits [OF sz 1(1)] show ?case by simp
  next
    case (2 st' n)
    with Cons.prems(7) obtain r where "paragraph_loop cnt u5 data m batch mode ss st' = Some r"
      and "cs = boundary_chunks cnt u5 mode batch s pre cur (ps_ids st) (ps_index st) n @ r"
      by auto
    with loop [OF 2(2) refl para_added_size_inv [OF 2(3) sz s zero], of r] show ?case by simp
  qed
qed

lemma chunk_by_paragraph_fits:
  assumes "chunk_by_word data = Some words"
    and "chunk_by_paragraph cnt alpha fresh u5 data m batch mode = Some cs" and "c \<in> set cs"
  shows "fits cnt (Some m) words (pc_chunk_size c)"
proof -
  obtain ss where ss: "chunk_by_sentence cnt alpha fresh data (Some m) mode = Some ss"
    "tiles 0 (map sc_span ss)" "concat (map sc_text ss) = data"
    and span: "mode = Span \<Longrightarrow> \<forall>s \<in> set ss. sc_size s = cnt (sc_text s)"
    by (rule chunk_by_sentence_total [of data cnt alpha fresh "Some m" mode])
      (rule that, assumption, assumption, assumption, blast)
  have all: "\<forall>s \<in> set ss. fits cnt (Some m) words (sc_size s) \<and> (mode = Span \<longrightarrow> sc_size s = cnt (sc_text s))"
    using span chunk_by_sentence_fits [OF assms(1) ss(1)] by auto
  have "para_inv [] [] paragraph_init" by (simp add: para_inv_def paragraph_init_def)
  moreover have "size_inv (Some m) mode words [] (ps_size paragraph_init)"
    by (simp add: size_inv_def fits_def paragraph_init_def)
  ultimately show ?thesis
    using paragraph_loop_fits [of "[]" "[]" paragraph_init data ss m mode words u5 batch cs]
      ss all assms by (auto simp: chunk_by_paragraph_def paragraph_init_def)
qed

end

section \<open>Properties\<close>

text \<open>
  The paragraph chunker returns for every counter, limit, batching flag and mode. Its chunks
  are contiguous from byte 0 and concatenate to the input, are indexed 0, 1, 2, ..., carry the
  paragraph ids of the sentences in order without loss, have the UUID5 of their text as id, and
  under \<open>Span\<close> report the exact count of their text.
\<close>

lemma paragraphs_partition:
  "\<exists>ss cs. chunk_by_sentence cnt alpha fresh data (Some max_chunk_size) mode = Some ss
     \<and> chunk_by_paragraph cnt alpha fresh u5 data max_chunk_size batch_paragraphs mode = Some cs
     \<and> tiles 0 (map pc_span cs) \<and> concat (map pc_text cs) = data
     \<and> map pc_chunk_index cs = [0..<length cs]
     \<and> concat (map pc_paragraph_ids cs) = map sc_paragraph_id ss
     \<and> list_all (\<lambda>c. pc_chunk_id c = u5 (pc_text c)
          \<and> (mode = PerWord \<or> pc_chunk_size c = cnt (pc_text c))) cs"
proof -
  obtain ss cs where "chunk_by_sentence cnt alpha fresh data (Some max_chunk_size) mode = Some ss"
    and "chunk_by_paragraph cnt alpha fresh u5 data max_chunk_size batch_paragraphs mode = Some cs"
    and "para_report cnt u5 mode [] data (map sc_paragraph_id ss) 0 cs"
    by (rule chunk_by_paragraph_total [of data cnt alpha fresh max_chunk_size mode u5 batch_paragraphs]) blast
  moreover have "mode = PerWord \<or> mode = Span" by (cases mode) auto
  ultimately show ?thesis by (auto simp: para_report_def chunk_labels_def list_all_iff)
qed

end
