(* ===== verification/Chunk_Text.thy ===== *)
theory Chunk_Text
  imports Chunk_Paragraph
begin

text \<open>
  \<open>crates/chunking/src/text_chunker.rs\<close> and the \<open>DocumentChunk\<close> it produces
  (\<open>crates/models/src/document_chunk.rs\<close>). Of the flattened \<open>DataPoint\<close> the id and the type
  name are kept; its timestamps and metadata, and the empty \<open>contains\<close>, are not modelled.
  \<open>u5\<close> is the name-based UUID under \<open>NAMESPACE_OID\<close> and \<open>uuid_str\<close> the \<open>Display\<close> of a \<open>Uuid\<close>.
\<close>

section \<open>Document chunks\<close>

record document_chunk =
  dc_id :: uuid
  dc_data_type :: str
  dc_text :: str
  dc_name :: "str option"
  dc_chunk_size :: nat
  dc_chunk_index :: nat
  dc_cut_type :: str
  dc_document_id :: uuid
  dc_is_part_of :: "uuid option"

definition document_chunk_new :: "uuid \<Rightarrow> str \<Rightarrow> nat \<Rightarrow> nat \<Rightarrow> str \<Rightarrow> uuid \<Rightarrow> document_chunk" where
  "document_chunk_new i body chunk_size chunk_index ct document_id =
     \<lparr>dc_id = i, dc_data_type = lit ''DocumentChunk'', dc_text = body, dc_name = None,
      dc_chunk_size = chunk_size, dc_chunk_index = chunk_index, dc_cut_type = ct,
      dc_document_id = document_id, dc_is_part_of = Some document_id\<rparr>"

definition document_chunk_dlt_row :: "uuid \<Rightarrow> str \<Rightarrow> str \<Rightarrow> nat \<Rightarrow> nat \<Rightarrow> uuid \<Rightarrow> document_chunk" where
  "document_chunk_dlt_row i name body chunk_size chunk_index document_id =
     (document_chunk_new i body chunk_size chunk_index (lit ''dlt_row'') document_id)
       \<lparr>dc_data_type := lit ''DltRow'', dc_name := Some name\<rparr>"

definition is_dlt_row :: "document_chunk \<Rightarrow> bool" where
  "is_dlt_row c \<longleftrightarrow> dc_data_type c = lit ''DltRow''"

section \<open>chunk\_text\<close>

definition indexed_chunk_id :: "(str \<Rightarrow> uuid) \<Rightarrow> (uuid \<Rightarrow> str) \<Rightarrow> uuid \<Rightarrow> nat \<Rightarrow> uuid" where
  "indexed_chunk_id u5 uuid_str document_id chunk_index =
     u5 (uuid_str document_id @ lit ''-'' @ decimal chunk_index)"

text \<open>The chunk of the paragraphs accumulated so far, and the one of a paragraph emitted as it is.\<close>

definition accumulated_chunk ::
  "(str \<Rightarrow> nat) \<Rightarrow> (str \<Rightarrow> uuid) \<Rightarrow> (uuid \<Rightarrow> str) \<Rightarrow> uuid \<Rightarrow> token_count_mode \<Rightarrow> nat
     \<Rightarrow> paragraph_chunk list \<Rightarrow> nat \<Rightarrow> document_chunk" where
  "accumulated_chunk cnt u5 uuid_str document_id mode chunk_index accumulated accumulated_size =
     (let chunk_text = join [space] (map pc_text accumulated) in
      document_chunk_new (indexed_chunk_id u5 uuid_str document_id chunk_index) chunk_text
        (emitted_size cnt mode chunk_text accumulated_size) chunk_index
        (cut_type_display (pc_cut_type (last accumulated))) document_id)"

definition oversized_chunk ::
  "(str \<Rightarrow> nat) \<Rightarrow> uuid \<Rightarrow> token_count_mode \<Rightarrow> nat \<Rightarrow> paragraph_chunk \<Rightarrow> document_chunk" where
  "oversized_chunk cnt document_id mode chunk_index para =
     document_chunk_new (pc_chunk_id para) (pc_text para)
       (emitted_size cnt mode (pc_text para) (pc_chunk_size para)) chunk_index
       (cut_type_display (pc_cut_type para)) document_id"

fun text_loop ::
  "(str \<Rightarrow> nat) \<Rightarrow> (str \<Rightarrow> uuid) \<Rightarrow> (uuid \<Rightarrow> str) \<Rightarrow> uuid \<Rightarrow> nat \<Rightarrow> token_count_mode
     \<Rightarrow> paragraph_chunk list \<Rightarrow> paragraph_chunk list \<Rightarrow> nat \<Rightarrow> nat \<Rightarrow> document_chunk list" where
  "text_loop cnt u5 uuid_str document_id max_chunk_size mode [] accumulated accumulated_size chunk_index =
     (if accumulated = [] then []
      else [accumulated_chunk cnt u5 uuid_str document_id mode chunk_index accumulated accumulated_size])"
| "text_loop cnt u5 uuid_str document_id max_chunk_size mode (para # paras)
       accumulated accumulated_size chunk_index =
     (if accumulated_size + pc_chunk_size para \<le> max_chunk_size then
        text_loop cnt u5 uuid_str document_id max_chunk_size mode paras
          (accumulated @ [para]) (accumulated_size + pc_chunk_size para) chunk_index
      else if accumulated = [] then
        oversized_chunk cnt document_id mode chunk_index para
          # text_loop cnt u5 uuid_str document_id max_chunk_size mode paras
              accumulated accumulated_size (Suc chunk_index)
      else
        accumulated_chunk cnt u5 uuid_str document_id mode chunk_index accumulated accumulated_size
          # text_loop cnt u5 uuid_str document_id max_chunk_size mode paras
              [para] (pc_chunk_size para) (Suc chunk_index))"

definition chunk_text ::
  "(str \<Rightarrow> nat) \<Rightarrow> (uchar \<Rightarrow> bool) \<Rightarrow> (nat \<Rightarrow> uuid) \<Rightarrow> (str \<Rightarrow> uuid) \<Rightarrow> (uuid \<Rightarrow> str)
     \<Rightarrow> uuid \<Rightarrow> str \<Rightarrow> nat \<Rightarrow> token_count_mode \<Rightarrow> document_chunk list option" where
  "chunk_text cnt alpha fresh u5 uuid_str document_id data max_chunk_size mode =
     map_option (\<lambda>paragraph_chunks.
         text_loop cnt u5 uuid_str document_id max_chunk_size mode paragraph_chunks [] 0 0)
       (chunk_by_paragraph cnt alpha fresh u5 data max_chunk_size True mode)"

section \<open>What is emitted\<close>

text \<open>
  \<open>g\<close> is the run of paragraphs behind the chunk \<open>c\<close> with index \<open>i\<close>: either it was
  accumulated, and then it fits or is one paragraph, or it is one oversized paragraph.
\<close>

definition text_chunk_of ::
  "(str \<Rightarrow> nat) \<Rightarrow> (str \<Rightarrow> uuid) \<Rightarrow> (uuid \<Rightarrow> str) \<Rightarrow> uuid \<Rightarrow> nat \<Rightarrow> token_count_mode
     \<Rightarrow> nat \<times> paragraph_chunk list \<Rightarrow> document_chunk \<Rightarrow> bool" where
  "text_chunk_of cnt u5 uuid_str document_id max_chunk_size mode = (\<lambda>(i, g) c. g \<noteq> [] \<and>
     (let total = sum_list (map pc_chunk_size g) in
       (c = accumulated_chunk cnt u5 uuid_str document_id mode i g total
          \<and> (total \<le> max_chunk_size \<or> length g = 1))
       \<or> (length g = 1 \<and> max_chunk_size < total \<and> c = oversized_chunk cnt document_id mode i (hd g))))"

lemma text_loop_groups:
  assumes "n = sum_list (map pc_chunk_size acc)" and "n \<le> max_chunk_size \<or> length acc = 1"
  shows "\<exists>gs. concat gs = acc @ ps \<and>
    list_all2 (text_chunk_of cnt u5 uuid_str document_id max_chunk_size mode) (enumerate idx gs)
      (text_loop cnt u5 uuid_str document_id max_chunk_size mode ps acc n idx)"
  using assms
proof (induction ps arbitrary: acc n idx)
  case Nil
  then show ?case
    by (cases "acc = []") (force simp: text_chunk_of_def Let_def intro: exI [of _ "[]"] exI [of _ "[acc]"])+
next
  case (Cons p ps)
  let ?R = "text_chunk_of cnt u5 uuid_str document_id max_chunk_size mode"
  let ?loop = "text_loop cnt u5 uuid_str document_id max_chunk_size mode"
  consider (take) "n + pc_chunk_size p \<le> max_chunk_size"
    | (oversized) "\<not> n + pc_chunk_size p \<le> max_chunk_size" "acc = []"
    | (flush) "\<not> n + pc_chunk_size p \<le> max_chunk_size" "acc \<noteq> []"
    by blast
  then show ?case
  proof cases
    case take
    with Cons.IH [of "n + pc_chunk_size p" "acc @ [p]" idx] Cons.prems show ?thesis by auto
  next
    case oversized
    with Cons.IH [of 0 "[]" "Suc idx"] obtain gs where
      "concat gs = ps" "list_all2 ?R (enumerate (Suc idx) gs) (?loop ps [] 0 (Suc idx))" by auto
    moreover have "?R (idx, [p]) (oversized_chunk cnt document_id mode idx p)"
      using oversized Cons.prems by (simp add: text_chunk_of_def)
    ultimately show ?thesis
      using oversized Cons.prems by (intro exI [of _ "[p] # gs"]) simp
  next
    case flush
    with Cons.IH [of "pc_chunk_size p" "[p]" "Suc idx"] obtain gs where
      "concat gs = p # ps" "list_all2 ?R (enumerate (Suc idx) gs) (?loop ps [p] (pc_chunk_size p) (Suc idx))"
      by auto
    moreover have "?R (idx, acc) (accumulated_chunk cnt u5 uuid_str document_id mode idx acc n)"
      using flush Cons.prems by (simp add: text_chunk_of_def)
    ultimately show ?thesis
      using flush by (intro exI [of _ "acc # gs"]) simp
  qed
qed

lemma text_chunk_of_text:
  "text_chunk_of cnt u5 uuid_str document_id max_chunk_size mode (i, g) c \<Longrightarrow>
     g \<noteq> [] \<and> dc_text c = join [space] (map pc_text g) \<and> dc_chunk_index c = i \<and> dc_document_id c = document_id"
  by (cases g) (auto simp: text_chunk_of_def accumulated_chunk_def oversized_chunk_def
      document_chunk_new_def Let_def)

lemma text_chunk_of_fields:
  "text_chunk_of cnt u5 uuid_str document_id max_chunk_size mode (i, g) c \<Longrightarrow>
     dc_is_part_of c = Some document_id \<and> dc_data_type c = lit ''DocumentChunk''
     \<and> (mode = PerWord \<or> dc_chunk_size c = cnt (dc_text c))"
  by (cases mode) (auto simp: text_chunk_of_def accumulated_chunk_def oversized_chunk_def
      document_chunk_new_def Let_def emitted_size_def)

lemma chunk_text_total:
  obtains cs ps gs where "chunk_text cnt alpha fresh u5 uuid_str document_id data max_chunk_size mode = Some cs"
    and "chunk_by_paragraph cnt alpha fresh u5 data max_chunk_size True mode = Some ps"
    and "concat (map pc_text ps) = data" and "\<forall>p \<in> set ps. chunk_labels cnt u5 mode p"
    and "concat gs = ps"
    and "list_all2 (text_chunk_of cnt u5 uuid_str document_id max_chunk_size mode) (enumerate 0 gs) cs"
proof -
  obtain ps ids where "chunk_by_paragraph cnt alpha fresh u5 data max_chunk_size True mode = Some ps"
    and "para_report cnt u5 mode [] data ids 0 ps"
    by (rule chunk_by_paragraph_total)
  with text_loop_groups [of 0 "[]" max_chunk_size ps cnt u5 uuid_str document_id mode 0] that
  show ?thesis by (auto simp: chunk_text_def para_report_def)
qed

section \<open>The size bound\<close>

context blank_free_counter
begin

lemma cnt_join: "cnt (join [space] ts) \<le> sum_list (map cnt ts) \<or> ts = []"
proof (induction ts)
  case (Cons t ts)
  then show ?case
    using cnt_blank [of t "join [space] ts"] by (cases "ts = []") (auto simp: join_Cons)
qed simp

lemma text_chunk_of_fits:
  assumes "text_chunk_of cnt u5 uuid_str document_id m mode (i, g) c"
    and "\<forall>p \<in> set g. chunk_labels cnt u5 mode p \<and> fits cnt (Some m) words (pc_chunk_size p)"
  shows "fits cnt (Some m) words (dc_chunk_size c)"
proof -
  have ne: "g \<noteq> []" using assms(1) by (simp add: text_chunk_of_def)
  have "mode = Span \<Longrightarrow> map cnt (map pc_text g) = map pc_chunk_size g"
    using assms(2) by (auto simp: chunk_labels_def)
  then have "mode = Span \<Longrightarrow> cnt (join [space] (map pc_text g)) \<le> sum_list (map pc_chunk_size g)"
    using cnt_join [of "map pc_text g"] ne by (metis map_is_Nil_conv)
  then have small: "dc_chunk_size c \<le> sum_list (map pc_chunk_size g)"
    using assms ne
    by (cases mode; cases g) (auto simp: text_chunk_of_def accumulated_chunk_def oversized_chunk_def
        document_chunk_new_def Let_def emitted_size_def chunk_labels_def)
  have "sum_list (map pc_chunk_size g) \<le> m \<or> length g = 1"
    using assms(1) by (auto simp: text_chunk_of_def Let_def)
  then have "fits cnt (Some m) words (sum_list (map pc_chunk_size g))"
  proof
    assume "length g = 1"
    then obtain p where "g = [p]" by (auto simp: length_Suc_conv)
    with assms(2) show ?thesis by simp
  qed (simp add: fits_def)
  from fits_mono [OF this small] show ?thesis .
qed

lemma chunk_text_fits:
  assumes "chunk_by_word data = Some words"
    and "chunk_text cnt alpha fresh u5 uuid_str document_id data m mode = Some cs" and "c \<in> set cs"
  shows "fits cnt (Some m) words (dc_chunk_size c)"
proof -
  obtain ps gs where ps: "chunk_by_paragraph cnt alpha fresh u5 data m True mode = Some ps"
    and lab: "\<forall>p \<in> set ps. chunk_labels cnt u5 mode p" and gs: "concat gs = ps"
    and all: "list_all2 (text_chunk_of cnt u5 uuid_str document_id m mode) (enumerate 0 gs) cs"
    by (rule chunk_text_total [of cnt alpha fresh u5 uuid_str document_id data m mode])
      (rule that, use assms(2) in auto)
  from all assms(3) obtain x where x: "x \<in> set (enumerate 0 gs)"
    and c: "text_chunk_of cnt u5 uuid_str document_id m mode x c"
    by (metis in_set_conv_nth list_all2_conv_all_nth)
  obtain i g where ig: "x = (i, g)" by (cases x)
  with x have "g \<in> set gs" by (auto simp: in_set_enumerate_eq)
  then have "set g \<subseteq> set ps" using gs by auto
  with lab chunk_by_paragraph_fits [OF assms(1) ps] text_chunk_of_fits [OF c [unfolded ig]]
  show ?thesis by blast
qed

end

section \<open>Properties\<close>

lemmas chunk_eval = chunk_by_word_def chunk_words_from.simps str_slice_def is_sentence_ending_def
  is_paragraph_ending_def len_utf8_def chunk_by_sentence_def sentence_step_def sentence_init_def
  sentence_overflow_def next_word_type_def push_sentence_def emitted_size_def word_counter_def
  is_whitespace_def unicode_white_space_def chunk_by_paragraph_def paragraph_step_def
  paragraph_init_def paragraph_overflow_def flush_paragraph_def take_sentence_def
  paragraph_boundary_def flushes_after_def chunk_text_def accumulated_chunk_def
  oversized_chunk_def document_chunk_new_def indexed_chunk_id_def decimal.simps Let_def

text \<open>
  C25: \<open>chunk_text\<close> returns for every text, and loses nothing: the text is cut into consecutive
  non-empty pieces, grouped in order into the chunks, and a chunk's text is its pieces joined
  with one blank. Chunks are indexed 0, 1, 2, ... and name their document.
\<close>

theorem chunk_text_content:
  "\<exists>cs gs. chunk_text cnt alpha fresh u5 uuid_str document_id data max_chunk_size mode = Some cs
     \<and> concat (concat gs) = data \<and> list_all (\<lambda>g. g \<noteq> [] \<and> [] \<notin> set g) gs
     \<and> map dc_text cs = map (join [space]) gs \<and> map dc_chunk_index cs = [0..<length cs]
     \<and> list_all (\<lambda>c. dc_document_id c = document_id \<and> dc_is_part_of c = Some document_id
          \<and> dc_data_type c = lit ''DocumentChunk'' \<and> (mode = PerWord \<or> dc_chunk_size c = cnt (dc_text c))) cs"
proof -
  obtain cs ps gs where cs: "chunk_text cnt alpha fresh u5 uuid_str document_id data max_chunk_size mode = Some cs"
    and ps: "chunk_by_paragraph cnt alpha fresh u5 data max_chunk_size True mode = Some ps"
    and text_: "concat (map pc_text ps) = data" and gs: "concat gs = ps"
    and all: "list_all2 (text_chunk_of cnt u5 uuid_str document_id max_chunk_size mode) (enumerate 0 gs) cs"
    by (rule chunk_text_total)
  have len: "length cs = length gs" using list_all2_lengthD [OF all] by simp
  have nth: "text_chunk_of cnt u5 uuid_str document_id max_chunk_size mode (i, gs ! i) (cs ! i)"
    if "i < length gs" for i
    using list_all2_nthD [OF all, of i] that by (simp add: nth_enumerate_eq)
  have nonempty: "pc_text p \<noteq> []" if "p \<in> set ps" for p
  proof -
    have "tiles 0 (map pc_span ps)"
      by (rule chunk_by_paragraph_total [of data cnt alpha fresh max_chunk_size mode u5 True])
        (use ps in \<open>auto simp: para_report_def\<close>)
    from tiles_nonempty [OF this, of "pc_span p"] that show ?thesis by auto
  qed
  let ?gs = "map (map pc_text) gs"
  have "concat (concat ?gs) = data" using text_ gs by (auto simp: map_concat)
  moreover have "list_all (\<lambda>g. g \<noteq> [] \<and> [] \<notin> set g) ?gs"
    unfolding list_all_length
  proof (intro allI impI)
    fix i
    assume i: "i < length ?gs"
    have "gs ! i \<noteq> []" using text_chunk_of_text [OF nth [of i]] i by auto
    moreover have "set (gs ! i) \<subseteq> set ps" unfolding gs [symmetric] set_concat using i by (intro UN_upper) simp
    ultimately show "?gs ! i \<noteq> [] \<and> [] \<notin> set (?gs ! i)" using i nonempty by force
  qed
  moreover have "map dc_text cs = map (join [space]) ?gs"
    using text_chunk_of_text [OF nth] by (intro nth_equalityI) (simp_all add: len)
  moreover have "map dc_chunk_index cs = [0..<length cs]"
    using text_chunk_of_text [OF nth] by (intro nth_equalityI) (simp_all add: len)
  moreover have "list_all (\<lambda>c. dc_document_id c = document_id \<and> dc_is_part_of c = Some document_id
          \<and> dc_data_type c = lit ''DocumentChunk'' \<and> (mode = PerWord \<or> dc_chunk_size c = cnt (dc_text c))) cs"
    unfolding list_all_length
    using text_chunk_of_text [OF nth] text_chunk_of_fields [OF nth] by (simp add: len)
  ultimately show ?thesis using cs by (intro exI [of _ cs] exI [of _ ?gs]) auto
qed



text \<open>
  The id of a chunk is the UUID5 of \<open>document id - chunk index\<close>, except for a single
  paragraph over the limit emitted as it is: that chunk's id is the UUID5 of its text alone.
\<close>

lemma chunk_text_ids:
  "\<exists>cs. chunk_text cnt alpha fresh u5 uuid_str document_id data max_chunk_size mode = Some cs
     \<and> list_all (\<lambda>c. dc_id c = indexed_chunk_id u5 uuid_str document_id (dc_chunk_index c)
          \<or> (dc_id c = u5 (dc_text c) \<and> (mode = PerWord \<or> max_chunk_size < dc_chunk_size c))) cs"
proof -
  obtain cs ps gs where cs: "chunk_text cnt alpha fresh u5 uuid_str document_id data max_chunk_size mode = Some cs"
    and lab: "\<forall>p \<in> set ps. chunk_labels cnt u5 mode p" and gs: "concat gs = ps"
    and all: "list_all2 (text_chunk_of cnt u5 uuid_str document_id max_chunk_size mode) (enumerate 0 gs) cs"
    by (rule chunk_text_total)
  have len: "length cs = length gs" using list_all2_lengthD [OF all] by simp
  have "dc_id c = indexed_chunk_id u5 uuid_str document_id (dc_chunk_index c)
          \<or> (dc_id c = u5 (dc_text c) \<and> (mode = PerWord \<or> max_chunk_size < dc_chunk_size c))"
    if i: "i < length cs" and c: "c = cs ! i" for i c
  proof -
    have n: "text_chunk_of cnt u5 uuid_str document_id max_chunk_size mode (i, gs ! i) c"
      using list_all2_nthD [OF all, of i] i len c by (simp add: nth_enumerate_eq)
    have sub: "set (gs ! i) \<subseteq> set ps" unfolding gs [symmetric] set_concat using i len by (intro UN_upper) simp
    show ?thesis
    proof (cases "\<exists>n. c = accumulated_chunk cnt u5 uuid_str document_id mode i (gs ! i) n")
      case True
      then show ?thesis by (auto simp: accumulated_chunk_def document_chunk_new_def Let_def)
    next
      case False
      with n obtain p where p: "gs ! i = [p]" "max_chunk_size < pc_chunk_size p"
        "c = oversized_chunk cnt document_id mode i p"
        by (auto simp: text_chunk_of_def Let_def length_Suc_conv)
      with sub lab have "chunk_labels cnt u5 mode p" by auto
      with p show ?thesis
        by (cases mode) (auto simp: oversized_chunk_def document_chunk_new_def chunk_labels_def emitted_size_def)
    qed
  qed
  with cs show ?thesis by (auto simp: list_all_length)
qed

end
