(* ===== verification/Chunk_Row.thy ===== *)
theory Chunk_Row
  imports Chunk_Text
begin

text \<open>
  \<open>crates/chunking/src/chunk_by_row.rs\<close>: rows separated by a blank line, each cut between its
  comma-separated pairs when the summed token count would pass the limit.
\<close>

abbreviation row_separator :: str where "row_separator \<equiv> lit [CHR 0x0A, CHR 0x0A]"

abbreviation pair_separator :: str where "pair_separator \<equiv> lit '', ''"

definition row_chunk ::
  "(str \<Rightarrow> nat) \<Rightarrow> (str \<Rightarrow> uuid) \<Rightarrow> (uuid \<Rightarrow> str) \<Rightarrow> uuid \<Rightarrow> cut_type \<Rightarrow> str list \<Rightarrow> nat \<Rightarrow> document_chunk" where
  "row_chunk cnt u5 uuid_str document_id ct pairs chunk_index =
     (let chunk_text = join pair_separator pairs in
      document_chunk_new (indexed_chunk_id u5 uuid_str document_id chunk_index) chunk_text
        (cnt chunk_text) chunk_index (cut_type_display ct) document_id)"

fun row_pairs ::
  "(str \<Rightarrow> nat) \<Rightarrow> (str \<Rightarrow> uuid) \<Rightarrow> (uuid \<Rightarrow> str) \<Rightarrow> uuid \<Rightarrow> nat
     \<Rightarrow> str list \<Rightarrow> str list \<Rightarrow> nat \<Rightarrow> nat \<Rightarrow> document_chunk list" where
  "row_pairs cnt u5 uuid_str document_id max_chunk_size [] current current_size chunk_index =
     (if current = [] then []
      else [row_chunk cnt u5 uuid_str document_id CutRowEnd current chunk_index])"
| "row_pairs cnt u5 uuid_str document_id max_chunk_size (pair # pairs) current current_size chunk_index =
     (if max_chunk_size < current_size + cnt pair \<and> current \<noteq> [] then
        row_chunk cnt u5 uuid_str document_id CutRowCut current chunk_index
          # row_pairs cnt u5 uuid_str document_id max_chunk_size pairs [pair] (cnt pair) (Suc chunk_index)
      else row_pairs cnt u5 uuid_str document_id max_chunk_size pairs
             (current @ [pair]) (current_size + cnt pair) chunk_index)"

fun row_loop ::
  "(str \<Rightarrow> nat) \<Rightarrow> (str \<Rightarrow> uuid) \<Rightarrow> (uuid \<Rightarrow> str) \<Rightarrow> uuid \<Rightarrow> nat
     \<Rightarrow> str list \<Rightarrow> nat \<Rightarrow> document_chunk list" where
  "row_loop cnt u5 uuid_str document_id max_chunk_size [] chunk_index = []"
| "row_loop cnt u5 uuid_str document_id max_chunk_size (row # rows) chunk_index =
     (if row = [] then row_loop cnt u5 uuid_str document_id max_chunk_size rows chunk_index
      else
        (let cs = row_pairs cnt u5 uuid_str document_id max_chunk_size
                    (split_str pair_separator [] row) [] 0 chunk_index in
         cs @ row_loop cnt u5 uuid_str document_id max_chunk_size rows (chunk_index + length cs)))"

definition chunk_by_row ::
  "(str \<Rightarrow> nat) \<Rightarrow> (str \<Rightarrow> uuid) \<Rightarrow> (uuid \<Rightarrow> str) \<Rightarrow> uuid \<Rightarrow> str \<Rightarrow> nat \<Rightarrow> document_chunk list" where
  "chunk_by_row cnt u5 uuid_str document_id data max_chunk_size =
     row_loop cnt u5 uuid_str document_id max_chunk_size (split_str row_separator [] data) 0"

section \<open>One row\<close>

text \<open>
  The chunks of a row: consecutive non-empty runs of its pairs, numbered from \<open>idx\<close>, all cut
  except the last, which ends the row; a run within the limit or of one pair.
\<close>

definition row_report ::
  "(str \<Rightarrow> nat) \<Rightarrow> (str \<Rightarrow> uuid) \<Rightarrow> (uuid \<Rightarrow> str) \<Rightarrow> uuid \<Rightarrow> nat \<Rightarrow> str list \<Rightarrow> nat
     \<Rightarrow> document_chunk list \<Rightarrow> bool" where
  "row_report cnt u5 uuid_str document_id max_chunk_size pairs idx cs \<longleftrightarrow>
     (\<exists>gs. concat gs = pairs \<and> gs \<noteq> [] \<and>
        (\<forall>g \<in> set gs. g \<noteq> [] \<and> (sum_list (map cnt g) \<le> max_chunk_size \<or> length g = 1)) \<and>
        cs = map (\<lambda>(i, g). row_chunk cnt u5 uuid_str document_id CutRowCut g i) (enumerate idx (butlast gs))
             @ [row_chunk cnt u5 uuid_str document_id CutRowEnd (last gs) (idx + length gs - 1)])"

lemma row_pairs_report:
  assumes "n = sum_list (map cnt current)" and "n \<le> max_chunk_size \<or> length current = 1"
    and "current @ pairs \<noteq> []"
  shows "row_report cnt u5 uuid_str document_id max_chunk_size (current @ pairs) idx
           (row_pairs cnt u5 uuid_str document_id max_chunk_size pairs current n idx)"
  using assms
proof (induction pairs arbitrary: current n idx)
  case Nil
  then show ?case by (auto simp: row_report_def intro!: exI [of _ "[current]"])
next
  case (Cons p pairs)
  show ?case
  proof (cases "max_chunk_size < n + cnt p \<and> current \<noteq> []")
    case True
    from Cons.IH [of "cnt p" "[p]" "Suc idx"] obtain gs where
      gs: "concat gs = p # pairs" "gs \<noteq> []"
      "\<forall>g \<in> set gs. g \<noteq> [] \<and> (sum_list (map cnt g) \<le> max_chunk_size \<or> length g = 1)"
      "row_pairs cnt u5 uuid_str document_id max_chunk_size pairs [p] (cnt p) (Suc idx) =
        map (\<lambda>(i, g). row_chunk cnt u5 uuid_str document_id CutRowCut g i) (enumerate (Suc idx) (butlast gs))
             @ [row_chunk cnt u5 uuid_str document_id CutRowEnd (last gs) (Suc idx + length gs - 1)]"
      by (auto simp: row_report_def)
    from gs(2) have "Suc idx + length gs - 1 = idx + length (current # gs) - 1" by (cases gs) auto
    with True gs Cons.prems show ?thesis
      unfolding row_report_def by (intro exI [of _ "current # gs"]) simp
  next
    case False
    with Cons.IH [of "n + cnt p" "current @ [p]" idx] Cons.prems show ?thesis
      by (cases current) auto
  qed
qed

text \<open>The pairs of a row's chunks, joined again, are the row.\<close>

lemma row_report_text:
  assumes "row_report cnt u5 uuid_str document_id max_chunk_size (split_str pair_separator [] row) idx cs"
  shows "join pair_separator (map dc_text cs) = row \<and> map dc_chunk_index cs = [idx..<idx + length cs]
    \<and> cs \<noteq> [] \<and> (\<forall>c \<in> set cs. dc_chunk_size c = cnt (dc_text c) \<and> dc_document_id c = document_id
         \<and> dc_id c = indexed_chunk_id u5 uuid_str document_id (dc_chunk_index c))
    \<and> map dc_cut_type cs = replicate (length cs - 1) (lit ''row_cut'') @ [lit ''row_end'']"
proof -
  let ?sep = pair_separator
  from assms obtain gs where gs: "concat gs = split_str ?sep [] row" "gs \<noteq> []" "\<forall>g \<in> set gs. g \<noteq> []"
    and cs: "cs = map (\<lambda>(i, g). row_chunk cnt u5 uuid_str document_id CutRowCut g i) (enumerate idx (butlast gs))
             @ [row_chunk cnt u5 uuid_str document_id CutRowEnd (last gs) (idx + length gs - 1)]"
    by (auto simp: row_report_def)
  have len: "length cs = length gs" using gs(2) by (simp add: cs)
  obtain k where k: "length gs = Suc k" using gs(2) by (cases gs) auto
  have nth: "cs ! i = row_chunk cnt u5 uuid_str document_id
      (if i = length gs - 1 then CutRowEnd else CutRowCut) (gs ! i) (idx + i)" if "i < length gs" for i
    using that gs(2) k
    by (cases "i = k") (auto simp: cs nth_append nth_enumerate_eq last_conv_nth nth_butlast)
  have fields: "dc_text (row_chunk cnt u5 uuid_str document_id ct g i) = join ?sep g"
    "dc_chunk_index (row_chunk cnt u5 uuid_str document_id ct g i) = i"
    "dc_cut_type (row_chunk cnt u5 uuid_str document_id ct g i) = cut_type_display ct" for ct g i
    by (simp_all add: row_chunk_def document_chunk_new_def Let_def)
  have "map dc_text cs = map (join ?sep) gs"
    by (rule nth_equalityI) (simp_all add: len nth fields)
  then have "join ?sep (map dc_text cs) = join ?sep (split_str ?sep [] row)"
    using join_concat [OF gs(3), of ?sep] gs(1) by simp
  moreover have "?sep \<noteq> []" by (simp add: lit_def)
  ultimately have "join ?sep (map dc_text cs) = row" using join_split_str [of ?sep "[]" row] by simp
  moreover have "map dc_chunk_index cs = [idx..<idx + length cs]"
    by (rule nth_equalityI) (simp_all add: len nth fields)
  moreover have "map dc_cut_type cs = replicate (length cs - 1) (lit ''row_cut'') @ [lit ''row_end'']"
    using gs(2) by (intro nth_equalityI) (auto simp: len nth fields nth_append)
  ultimately show ?thesis
    by (auto simp: cs row_chunk_def document_chunk_new_def Let_def)
qed

section \<open>All rows\<close>

lemma row_loop_rows:
  "\<exists>css. concat css = row_loop cnt u5 uuid_str document_id max_chunk_size rows idx \<and>
     map dc_chunk_index (concat css) = [idx..<idx + length (concat css)] \<and>
     list_all2 (\<lambda>row cs. \<exists>i. row_report cnt u5 uuid_str document_id max_chunk_size
                  (split_str pair_separator [] row) i cs)
       (filter (\<lambda>r. r \<noteq> []) rows) css"
proof (induction rows arbitrary: idx)
  case Nil
  show ?case by simp
next
  case (Cons row rows)
  show ?case
  proof (cases "row = []")
    case True
    with Cons show ?thesis by simp
  next
    case False
    define cs where "cs = row_pairs cnt u5 uuid_str document_id max_chunk_size
                    (split_str pair_separator [] row) [] 0 idx"
    have r: "row_report cnt u5 uuid_str document_id max_chunk_size (split_str pair_separator [] row) idx cs"
      unfolding cs_def
      using row_pairs_report [of 0 cnt "[]" max_chunk_size "split_str pair_separator [] row"] by simp
    from Cons [of "idx + length cs"] obtain css where
      css: "concat css = row_loop cnt u5 uuid_str document_id max_chunk_size rows (idx + length cs)"
      "map dc_chunk_index (concat css) = [idx + length cs..<idx + length cs + length (concat css)]"
      "list_all2 (\<lambda>row cs. \<exists>i. row_report cnt u5 uuid_str document_id max_chunk_size
                  (split_str pair_separator [] row) i cs) (filter (\<lambda>r. r \<noteq> []) rows) css"
      by blast
    have "[idx..<idx + length (concat (cs # css))] =
        [idx..<idx + length cs] @ [idx + length cs..<idx + length cs + length (concat css)]"
      using upt_add_eq_append [of idx "idx + length cs" "length (concat css)"] by (simp add: add.assoc)
    with False r css row_report_text [OF r] show ?thesis
      by (intro exI [of _ "cs # css"]) (auto simp: cs_def [symmetric])
  qed
qed

section \<open>Properties\<close>

text \<open>
  The row chunker partitions its input by rows: the rows joined by a blank line are the
  input, the chunks of each non-empty row, joined by the pair separator, are the row, all but the
  last are row cuts and the last ends the row, no chunk spans two rows, and indices run on
  across rows.
\<close>

lemma row_chunks_partition:
  "\<exists>rows css. join row_separator rows = data
     \<and> concat css = chunk_by_row cnt u5 uuid_str document_id data max_chunk_size
     \<and> map dc_chunk_index (concat css) = [0..<length (concat css)]
     \<and> list_all2 (\<lambda>row cs. join pair_separator (map dc_text cs) = row
          \<and> map dc_cut_type cs = replicate (length cs - 1) (lit ''row_cut'') @ [lit ''row_end'']
          \<and> list_all (\<lambda>c. dc_chunk_size c = cnt (dc_text c)
               \<and> dc_id c = indexed_chunk_id u5 uuid_str document_id (dc_chunk_index c)) cs)
       (filter (\<lambda>r. r \<noteq> []) rows) css"
proof -
  let ?rows = "split_str row_separator [] data"
  from row_loop_rows [of cnt u5 uuid_str document_id max_chunk_size ?rows 0] obtain css where
    css: "concat css = chunk_by_row cnt u5 uuid_str document_id data max_chunk_size"
    "map dc_chunk_index (concat css) = [0..<length (concat css)]"
    "list_all2 (\<lambda>row cs. \<exists>i. row_report cnt u5 uuid_str document_id max_chunk_size
                  (split_str pair_separator [] row) i cs) (filter (\<lambda>r. r \<noteq> []) ?rows) css"
    by (auto simp: chunk_by_row_def)
  have "row_separator \<noteq> []" by (simp add: lit_def)
  then have "join row_separator ?rows = data" using join_split_str [of row_separator "[]" data] by simp
  moreover have "list_all2 (\<lambda>row cs. join pair_separator (map dc_text cs) = row
          \<and> map dc_cut_type cs = replicate (length cs - 1) (lit ''row_cut'') @ [lit ''row_end'']
          \<and> list_all (\<lambda>c. dc_chunk_size c = cnt (dc_text c)
               \<and> dc_id c = indexed_chunk_id u5 uuid_str document_id (dc_chunk_index c)) cs)
       (filter (\<lambda>r. r \<noteq> []) ?rows) css"
    using css(3) by (rule list_all2_mono) (auto dest!: row_report_text simp: list_all_iff)
  ultimately show ?thesis using css by (intro exI [of _ ?rows] exI [of _ css]) simp
qed

end
