(* ===== verification/Json.thy ===== *)
theory Json
  imports Rust_Text
begin

text \<open>
  \<open>serde_json::Value\<close> with its insertion-ordered map (the \<open>preserve_order\<close> feature the
  workspace enables), the NUL stripping of \<open>crates/utils/src/sanitize.rs\<close> and the identity
  functions of \<open>crates/utils/src/id_generation.rs\<close> and \<open>crates/models/src/edge_type.rs\<close>.

  Parameters: \<open>lower\<close> is \<open>str::to_lowercase\<close> (the Unicode tables) and \<open>u5\<close> the name-based
  UUID under \<open>NAMESPACE_OID\<close>. A number is kept as its text.
\<close>

section \<open>Values\<close>

datatype json =
    JNull | JBool bool | JNumber str | JString str | JArray "json list" | JObject "(str \<times> json) list"

text \<open>A stored JSON text is represented by what \<open>serde_json::from_str\<close> makes of it.\<close>

datatype json_doc = JsonText json | Malformed str

definition parse_doc :: "json_doc \<Rightarrow> json option" where
  "parse_doc d = (case d of JsonText j \<Rightarrow> Some j | Malformed _ \<Rightarrow> None)"

definition is_object :: "json \<Rightarrow> bool" where
  "is_object j = (case j of JObject _ \<Rightarrow> True | _ \<Rightarrow> False)"

definition as_str :: "json \<Rightarrow> str option" where
  "as_str j = (case j of JString s \<Rightarrow> Some s | _ \<Rightarrow> None)"

definition json_get :: "str \<Rightarrow> json \<Rightarrow> json option" where
  "json_get k j = (case j of JObject m \<Rightarrow> map_of m k | _ \<Rightarrow> None)"

text \<open>\<open>Map::insert\<close> replaces in place or appends.\<close>

fun obj_insert :: "str \<Rightarrow> 'v \<Rightarrow> (str \<times> 'v) list \<Rightarrow> (str \<times> 'v) list" where
  "obj_insert k v [] = [(k, v)]"
| "obj_insert k v ((k', v') # m) = (if k' = k then (k, v) # m else (k', v') # obj_insert k v m)"

definition obj_remove :: "str \<Rightarrow> (str \<times> 'v) list \<Rightarrow> (str \<times> 'v) list" where
  "obj_remove k m = filter (\<lambda>kv. fst kv \<noteq> k) m"

lemma map_of_obj_insert [simp]: "map_of (obj_insert k v m) = (map_of m)(k \<mapsto> v)"
  by (induction m) auto

lemma map_of_obj_remove [simp]: "map_of (obj_remove k m) = (map_of m)(k := None)"
  by (induction m) (auto simp: obj_remove_def)

lemma keys_obj_insert [simp]: "fst ` set (obj_insert k v m) = insert k (fst ` set m)"
proof (induction m)
  case (Cons x m)
  show ?case by (cases "fst x = k"; cases x) (simp_all add: Cons insert_commute)
qed simp

lemma distinct_obj_insert: "distinct (map fst m) \<Longrightarrow> distinct (map fst (obj_insert k v m))"
proof (induction m)
  case (Cons x m)
  then show ?case
    by (cases x) auto
qed simp

lemma distinct_obj_remove: "distinct (map fst m) \<Longrightarrow> distinct (map fst (obj_remove k m))"
  by (simp add: obj_remove_def distinct_map_filter)

section \<open>NUL stripping\<close>

definition sanitize_str :: "str \<Rightarrow> str" where
  "sanitize_str t = filter (\<lambda>c. c \<noteq> 0) t"

definition rebuild_object :: "(str \<times> 'v) list \<Rightarrow> (str \<times> 'v) list" where
  "rebuild_object m =
     (if list_ex (\<lambda>kv. 0 \<in> set (fst kv)) m
      then fold (\<lambda>kv. obj_insert (sanitize_str (fst kv)) (snd kv)) m []
      else m)"

lemma size_snd_le: "kv \<in> set m \<Longrightarrow> size (snd kv) < size_list (\<lambda>x. Suc (size (snd x))) m"
  for m :: "('a \<times> json) list"
  by (induction m) auto

function sanitize_json :: "json \<Rightarrow> json" where
  "sanitize_json (JString s) = JString (sanitize_str s)"
| "sanitize_json (JArray xs) = JArray (map sanitize_json xs)"
| "sanitize_json (JObject m) = JObject (rebuild_object (map (\<lambda>kv. (fst kv, sanitize_json (snd kv))) m))"
| "sanitize_json JNull = JNull"
| "sanitize_json (JBool b) = JBool b"
| "sanitize_json (JNumber n) = JNumber n"
  by pat_completeness auto
termination
  by (relation "measure size") (auto dest: size_snd_le simp: less_Suc_eq_le size_list_estimation')

inductive nul_free :: "json \<Rightarrow> bool" where
  "nul_free JNull"
| "nul_free (JBool b)"
| "nul_free (JNumber n)"
| "0 \<notin> set s \<Longrightarrow> nul_free (JString s)"
| "\<forall>x \<in> set xs. nul_free x \<Longrightarrow> nul_free (JArray xs)"
| "\<forall>kv \<in> set m. 0 \<notin> set (fst kv) \<and> nul_free (snd kv) \<Longrightarrow> nul_free (JObject m)"

inductive_simps nul_free_simps [simp]:
  "nul_free JNull" "nul_free (JBool b)" "nul_free (JNumber n)" "nul_free (JString s)"
  "nul_free (JArray xs)" "nul_free (JObject m)"

lemma sanitize_str_nul_free [simp]: "0 \<notin> set (sanitize_str s)"
  by (simp add: sanitize_str_def)

lemma sanitize_str_id: "0 \<notin> set s \<Longrightarrow> sanitize_str s = s"
  by (simp add: sanitize_str_def filter_id_conv) (metis gr0I)

lemma obj_insert_subset: "set (obj_insert k v m) \<subseteq> insert (k, v) (set m)"
  by (induction m) (auto split: if_splits)

lemma rebuild_object_nul_free:
  assumes "\<forall>kv \<in> set m. nul_free (snd kv)"
  shows "\<forall>kv \<in> set (rebuild_object m). 0 \<notin> set (fst kv) \<and> nul_free (snd kv)"
proof -
  have "\<forall>kv \<in> set (fold (\<lambda>kv. obj_insert (sanitize_str (fst kv)) (snd kv)) m acc).
          0 \<notin> set (fst kv) \<and> nul_free (snd kv)"
    if "\<forall>kv \<in> set acc. 0 \<notin> set (fst kv) \<and> nul_free (snd kv)" for acc
    using that assms
  proof (induction m arbitrary: acc)
    case (Cons x m)
    have h: "\<forall>kv \<in> insert (sanitize_str (fst x), snd x) (set acc). 0 \<notin> set (fst kv) \<and> nul_free (snd kv)"
      using Cons.prems by simp
    have "\<forall>kv \<in> set (obj_insert (sanitize_str (fst x)) (snd x) acc). 0 \<notin> set (fst kv) \<and> nul_free (snd kv)"
      by (rule ballI) (rule bspec [OF h subsetD [OF obj_insert_subset]])
    from Cons.IH [OF this] Cons.prems show ?case by simp
  qed simp
  from this [of "[]"] assms show ?thesis by (auto simp: rebuild_object_def list_ex_iff)
qed

lemma sanitize_json_nul_free: "nul_free (sanitize_json j)"
proof (induction j rule: sanitize_json.induct)
  case (2 xs)
  then show ?case by simp
next
  case (3 m)
  then have "\<forall>kv \<in> set (map (\<lambda>kv. (fst kv, sanitize_json (snd kv))) m). nul_free (snd kv)" by simp
  from rebuild_object_nul_free [OF this] show ?case unfolding sanitize_json.simps nul_free_simps .
qed simp_all

lemma sanitize_json_id: "nul_free j \<Longrightarrow> sanitize_json j = j"
proof (induction j rule: sanitize_json.induct)
  case (3 m)
  then have "map (\<lambda>kv. (fst kv, sanitize_json (snd kv))) m = m" by (intro map_idI) auto
  with 3 show ?case by (auto simp: rebuild_object_def list_ex_iff)
qed (auto simp: sanitize_str_id intro!: map_idI)

section \<open>Identifiers of nodes and edge types\<close>

definition replace_char :: "uchar \<Rightarrow> str \<Rightarrow> str \<Rightarrow> str" where
  "replace_char c r t = concat (map (\<lambda>x. if x = c then r else [x]) t)"

definition normalize_identifier :: "(str \<Rightarrow> str) \<Rightarrow> str \<Rightarrow> str" where
  "normalize_identifier lower input =
     replace_char 39 [] (replace_char 32 (lit ''_'') (lower input))"

definition data_point_id_for ::
  "(str \<Rightarrow> str) \<Rightarrow> (str \<Rightarrow> uuid) \<Rightarrow> str \<Rightarrow> str list \<Rightarrow> uuid" where
  "data_point_id_for lower u5 class_name vals =
     u5 (class_name @ lit '':'' @ join (lit ''|'') (map (normalize_identifier lower) vals))"

definition edge_type_deterministic_id :: "(str \<Rightarrow> str) \<Rightarrow> (str \<Rightarrow> uuid) \<Rightarrow> str \<Rightarrow> uuid" where
  "edge_type_deterministic_id lower u5 relationship_name =
     data_point_id_for lower u5 (lit ''EdgeType'') [relationship_name]"

definition retrieval_text :: "str option \<Rightarrow> str \<Rightarrow> str" where
  "retrieval_text edge_text relationship_name =
     (case map_option trim edge_text of
        Some t \<Rightarrow> (if t \<noteq> [] then t else trim relationship_name)
      | None \<Rightarrow> trim relationship_name)"

definition edge_type_point_id_for :: "(str \<Rightarrow> str) \<Rightarrow> (str \<Rightarrow> uuid) \<Rightarrow> str option \<Rightarrow> str \<Rightarrow> uuid option" where
  "edge_type_point_id_for lower u5 edge_text relationship_name =
     (let t = retrieval_text edge_text relationship_name in
      if t = [] then None else Some (edge_type_deterministic_id lower u5 t))"

end
