(* ===== verification/Sql.thy ===== *)
theory Sql
  imports Json "HOL-Library.List_Lexorder" "HOL-Library.Product_Lexorder"
begin

text \<open>
  What the database layer uses of SQL: conditions over one row in three-valued logic (\<open>None\<close>
  is SQL's NULL), \<open>WHERE\<close>, \<open>ORDER BY\<close>, \<open>DISTINCT\<close>, correlated \<open>EXISTS\<close>, and statements that
  may fail. A table is the list of its rows.
\<close>

section \<open>Conditions\<close>

type_synonym 'r cond = "'r \<Rightarrow> bool option"

fun and3 :: "bool option \<Rightarrow> bool option \<Rightarrow> bool option" where
  "and3 (Some False) b = Some False"
| "and3 (Some True) b = b"
| "and3 None b = (if b = Some False then Some False else None)"

fun or3 :: "bool option \<Rightarrow> bool option \<Rightarrow> bool option" where
  "or3 (Some True) b = Some True"
| "or3 (Some False) b = b"
| "or3 None b = (if b = Some True then Some True else None)"

definition c_all :: "'r cond list \<Rightarrow> 'r cond" where
  "c_all cs r = foldr (\<lambda>c. and3 (c r)) cs (Some True)"

definition c_any :: "'r cond list \<Rightarrow> 'r cond" where
  "c_any cs r = foldr (\<lambda>c. or3 (c r)) cs (Some False)"

definition c_not :: "'r cond \<Rightarrow> 'r cond" where
  "c_not c r = map_option Not (c r)"

text \<open>Comparisons with a bound value; the column is \<open>None\<close> where it is NULL.\<close>

definition c_eq :: "('r \<Rightarrow> 'a option) \<Rightarrow> 'a \<Rightarrow> 'r cond" where
  "c_eq column v r = map_option (\<lambda>x. x = v) (column r)"

definition c_ne :: "('r \<Rightarrow> 'a option) \<Rightarrow> 'a \<Rightarrow> 'r cond" where
  "c_ne column v r = map_option (\<lambda>x. x \<noteq> v) (column r)"

definition c_is_null :: "('r \<Rightarrow> 'a option) \<Rightarrow> 'r cond" where
  "c_is_null column r = Some (column r = None)"

text \<open>The query builder renders \<open>IN ()\<close> as \<open>1 = 2\<close> and \<open>NOT IN ()\<close> as \<open>1 = 1\<close>.\<close>

definition c_in :: "('r \<Rightarrow> 'a option) \<Rightarrow> 'a list \<Rightarrow> 'r cond" where
  "c_in column vs r = (if vs = [] then Some False else map_option (\<lambda>x. x \<in> set vs) (column r))"

definition c_not_in :: "('r \<Rightarrow> 'a option) \<Rightarrow> 'a list \<Rightarrow> 'r cond" where
  "c_not_in column vs r = (if vs = [] then Some True else map_option (\<lambda>x. x \<notin> set vs) (column r))"

definition holds :: "'r cond \<Rightarrow> 'r \<Rightarrow> bool" where
  "holds c r \<longleftrightarrow> c r = Some True"

definition refuted :: "'r cond \<Rightarrow> 'r \<Rightarrow> bool" where
  "refuted c r \<longleftrightarrow> c r = Some False"

text \<open>\<open>EXISTS (SELECT 1 FROM tbl AS t WHERE c t)\<close>, never NULL.\<close>

definition c_exists :: "'t list \<Rightarrow> 't cond \<Rightarrow> 'r cond" where
  "c_exists tbl c r = Some (list_ex (holds c) tbl)"

abbreviation (input) not_null :: "('r \<Rightarrow> 'a) \<Rightarrow> 'r \<Rightarrow> 'a option" where
  "not_null f \<equiv> (\<lambda>r. Some (f r))"

definition select_where :: "'r list \<Rightarrow> 'r cond \<Rightarrow> 'r list" where
  "select_where tbl c = filter (holds c) tbl"

definition delete_where :: "'r list \<Rightarrow> 'r cond \<Rightarrow> 'r list" where
  "delete_where tbl c = filter (\<lambda>r. \<not> holds c r) tbl"

text \<open>\<open>BTreeSet\<close> of the values, in order. Text is ordered by code point, as UTF-8 bytes are.\<close>

definition btree_set :: "'a::linorder list \<Rightarrow> 'a list" where
  "btree_set xs = sort (remdups xs)"

lemma set_btree_set [simp]: "set (btree_set xs) = set xs"
  by (simp add: btree_set_def)

lemma and3_True [simp]: "and3 a b = Some True \<longleftrightarrow> a = Some True \<and> b = Some True"
  by (cases "(a, b)" rule: and3.cases) auto

lemma and3_False [simp]: "and3 a b = Some False \<longleftrightarrow> a = Some False \<or> b = Some False"
  by (cases "(a, b)" rule: and3.cases) auto

lemma or3_True [simp]: "or3 a b = Some True \<longleftrightarrow> a = Some True \<or> b = Some True"
  by (cases "(a, b)" rule: or3.cases) auto

lemma or3_False [simp]: "or3 a b = Some False \<longleftrightarrow> a = Some False \<and> b = Some False"
  by (cases "(a, b)" rule: or3.cases) auto

lemma holds_all [simp]: "holds (c_all cs) r \<longleftrightarrow> (\<forall>c \<in> set cs. holds c r)"
  by (induction cs) (auto simp: c_all_def holds_def)

lemma refuted_all [simp]: "refuted (c_all cs) r \<longleftrightarrow> (\<exists>c \<in> set cs. refuted c r)"
  by (induction cs) (auto simp: c_all_def refuted_def)

lemma holds_any [simp]: "holds (c_any cs) r \<longleftrightarrow> (\<exists>c \<in> set cs. holds c r)"
  by (induction cs) (auto simp: c_any_def holds_def)

lemma refuted_any [simp]: "refuted (c_any cs) r \<longleftrightarrow> (\<forall>c \<in> set cs. refuted c r)"
  by (induction cs) (auto simp: c_any_def refuted_def)

lemma holds_not [simp]: "holds (c_not c) r \<longleftrightarrow> refuted c r"
  by (auto simp: c_not_def holds_def refuted_def)

lemma refuted_not [simp]: "refuted (c_not c) r \<longleftrightarrow> holds c r"
  by (auto simp: c_not_def holds_def refuted_def)

lemma holds_atoms [simp]:
  "holds (c_eq f v) r \<longleftrightarrow> f r = Some v"
  "holds (c_ne f v) r \<longleftrightarrow> (\<exists>x. f r = Some x \<and> x \<noteq> v)"
  "holds (c_is_null f) r \<longleftrightarrow> f r = None"
  "holds (c_in f vs) r \<longleftrightarrow> (\<exists>x \<in> set vs. f r = Some x)"
  "holds (c_not_in f vs) r \<longleftrightarrow> vs = [] \<or> (\<exists>x. f r = Some x \<and> x \<notin> set vs)"
  "holds (c_exists tbl c) q \<longleftrightarrow> (\<exists>t \<in> set tbl. holds c t)"
  by (auto simp: holds_def c_eq_def c_ne_def c_is_null_def c_in_def c_not_in_def c_exists_def list_ex_iff)

lemma refuted_atoms [simp]:
  "refuted (c_eq f v) r \<longleftrightarrow> (\<exists>x. f r = Some x \<and> x \<noteq> v)"
  "refuted (c_ne f v) r \<longleftrightarrow> f r = Some v"
  "refuted (c_is_null f) r \<longleftrightarrow> f r \<noteq> None"
  "refuted (c_in f vs) r \<longleftrightarrow> vs = [] \<or> (\<exists>x. f r = Some x \<and> x \<notin> set vs)"
  "refuted (c_exists tbl c) q \<longleftrightarrow> (\<forall>t \<in> set tbl. \<not> holds c t)"
  by (auto simp: refuted_def c_eq_def c_ne_def c_is_null_def c_in_def c_exists_def list_ex_iff
      holds_def)

lemma truth_value: "c r = Some b \<Longrightarrow> (holds c r \<longleftrightarrow> b) \<and> (refuted c r \<longleftrightarrow> \<not> b)"
  by (simp add: holds_def refuted_def)

lemma c_exists_value: "c_exists tbl c r = Some (\<exists>t \<in> set tbl. holds c t)"
  by (simp add: c_exists_def list_ex_iff)

lemma set_select_where [simp]: "set (select_where tbl c) = {r \<in> set tbl. holds c r}"
  by (simp add: select_where_def)

lemma set_delete_where [simp]: "set (delete_where tbl c) = {r \<in> set tbl. \<not> holds c r}"
  by (simp add: delete_where_def)

section \<open>Statements\<close>

datatype db_error = NotFound str | UniqueViolation str | QueryError str

text \<open>
  A statement takes the next entry of the fault list: \<open>Some e\<close> makes it fail with \<open>e\<close> and
  change nothing. When the list is exhausted statements succeed. \<open>'t\<close> holds the tables.
\<close>

record 't database =
  db_tables :: 't
  db_faults :: "db_error option list"

lemma database_eta [simp]: "\<lparr>db_tables = db_tables d, db_faults = db_faults d\<rparr> = d"
  by simp

definition statement :: "('t \<Rightarrow> 'a \<times> 't) \<Rightarrow> ('t database, db_error, 'a) action" where
  "statement f db =
     (case db_faults db of
        Some e # fs \<Rightarrow> (Inl e, db\<lparr>db_faults := fs\<rparr>)
      | _ \<Rightarrow> (case f (db_tables db) of
               (x, t) \<Rightarrow> (Inr x, db\<lparr>db_tables := t, db_faults := tl (db_faults db)\<rparr>)))"

definition query :: "('t \<Rightarrow> 'a) \<Rightarrow> ('t database, db_error, 'a) action" where
  "query f = statement (\<lambda>t. (f t, t))"

definition exec :: "('t \<Rightarrow> 't) \<Rightarrow> ('t database, db_error, unit) action" where
  "exec f = statement (\<lambda>t. ((), f t))"

text \<open>\<open>begin\<close>, the body, \<open>commit\<close>; on any error the tables are those before \<open>begin\<close>.\<close>

definition transaction :: "('t database, db_error, 'a) action \<Rightarrow> ('t database, db_error, 'a) action" where
  "transaction m db =
     (case and_then (exec id) (\<lambda>_. and_then m (\<lambda>x. and_then (exec id) (\<lambda>_. ok x))) db of
        (Inl e, db') \<Rightarrow> (Inl e, db'\<lparr>db_tables := db_tables db\<rparr>)
      | r \<Rightarrow> r)"

lemma statement_err: "statement f db = (Inl e, db') \<Longrightarrow> db_tables db' = db_tables db"
  by (auto simp: statement_def split: list.splits option.splits prod.splits)

lemma statement_ok: "statement f db = (Inr x, db') \<Longrightarrow> f (db_tables db) = (x, db_tables db')"
  by (auto simp: statement_def split: list.splits option.splits prod.splits)

lemma query_err: "query f db = (Inl e, db') \<Longrightarrow> db_tables db' = db_tables db"
  unfolding query_def by (rule statement_err)

lemma query_ok: "query f db = (Inr x, db') \<Longrightarrow> x = f (db_tables db) \<and> db_tables db' = db_tables db"
  unfolding query_def by (drule statement_ok) auto

lemma exec_err: "exec f db = (Inl e, db') \<Longrightarrow> db_tables db' = db_tables db"
  unfolding exec_def by (rule statement_err)

lemma exec_ok: "exec f db = (Inr x, db') \<Longrightarrow> db_tables db' = f (db_tables db)"
  unfolding exec_def by (drule statement_ok) simp

lemmas sql_outcomes = statement_err statement_ok query_err query_ok exec_err exec_ok

text \<open>Without pending faults every statement succeeds.\<close>

lemma statement_no_faults [simp]:
  "db_faults db = [] \<Longrightarrow> statement f db =
     (Inr (fst (f (db_tables db))), db\<lparr>db_tables := snd (f (db_tables db))\<rparr>)"
  by (cases db) (auto simp: statement_def split: prod.splits)

lemma query_triple [action_triples]:
  "achieves (\<lambda>db. P (db_tables db)) (query f) (\<lambda>x db. x = f (db_tables db) \<and> P (db_tables db))
     (\<lambda>_ db. P (db_tables db))"
  by (rule achievesI) (auto dest: query_err query_ok)

lemma exec_triple [action_triples]:
  "achieves (\<lambda>db. P (db_tables db)) (exec f) (\<lambda>_ db. \<exists>t. P t \<and> db_tables db = f t) (\<lambda>_ db. P (db_tables db))"
  by (rule achievesI) (auto dest: exec_err exec_ok)

lemma transaction_err: "transaction m db = (Inl e, db') \<Longrightarrow> db_tables db' = db_tables db"
  by (auto simp: transaction_def split: prod.splits sum.splits)

lemma transaction_ok:
  assumes "transaction m db = (Inr x, db')"
  obtains db0 db1 where "db_tables db0 = db_tables db" and "m db0 = (Inr x, db1)" and "db_tables db' = db_tables db1"
proof -
  from assms have "and_then (exec id) (\<lambda>_. and_then m (\<lambda>x. and_then (exec id) (\<lambda>_. ok x))) db = (Inr x, db')"
    by (auto simp: transaction_def split: prod.splits sum.splits)
  then obtain db0 db1 db2 where b: "exec id db = (Inr (), db0)" and m: "m db0 = (Inr x, db1)"
    and c: "exec id db1 = (Inr (), db2)" and eq: "db' = db2"
    by (auto simp: and_then_def ok_def split: prod.splits sum.splits)
  have "db_tables db0 = db_tables db" using exec_ok [OF b] by simp
  moreover have "db_tables db2 = db_tables db1" using exec_ok [OF c] by simp
  ultimately show ?thesis using that m eq by simp
qed

section \<open>Reading\<close>

text \<open>An action that leaves the tables as they are, whatever its outcome.\<close>

definition reads_only :: "('t database, 'e, 'a) action \<Rightarrow> bool" where
  "reads_only m \<longleftrightarrow> (\<forall>db. db_tables (snd (m db)) = db_tables db)"

lemma reads_onlyD: "reads_only m \<Longrightarrow> m db = (r, db') \<Longrightarrow> db_tables db' = db_tables db"
  by (metis reads_only_def snd_conv)

lemma reads_only_ok [intro]: "reads_only (ok x)"
  by (simp add: reads_only_def ok_def)

lemma reads_only_query [intro]: "reads_only (query f)"
  by (auto simp: reads_only_def query_def statement_def split: list.split option.split)

lemma reads_only_and_then [intro]: "reads_only m \<Longrightarrow> (\<And>x. reads_only (k x)) \<Longrightarrow> reads_only (and_then m k)"
  by (simp add: reads_only_def and_then_def split: prod.split sum.split) (metis snd_conv)

lemma reads_only_if [intro]: "reads_only m \<Longrightarrow> reads_only m' \<Longrightarrow> reads_only (if b then m else m')"
  by simp

lemma reads_only_collect [intro]: "(\<And>x. reads_only (f x)) \<Longrightarrow> reads_only (collect f xs)"
  by (induction xs) auto

section \<open>Without faults\<close>

text \<open>An action that returns when no statement fault is pending, and leaves none.\<close>

definition returns :: "('t database, 'e, 'a) action \<Rightarrow> bool" where
  "returns m \<longleftrightarrow> (\<forall>db. db_faults db = [] \<longrightarrow> (\<exists>x db'. m db = (Inr x, db') \<and> db_faults db' = []))"

lemma returnsD: "returns m \<Longrightarrow> db_faults db = [] \<Longrightarrow> \<exists>x db'. m db = (Inr x, db') \<and> db_faults db' = []"
  by (simp add: returns_def)

lemma returns_ok: "returns (ok x)"
  by (simp add: returns_def ok_def)

lemma returns_statement: "returns (statement f)" "returns (query g)" "returns (exec h)"
  by (simp_all add: returns_def query_def exec_def)

lemma returns_and_then: "returns m \<Longrightarrow> (\<And>x. returns (k x)) \<Longrightarrow> returns (and_then m k)"
  unfolding returns_def and_then_def by (metis (no_types, lifting) case_prod_conv old.sum.simps(6))

lemma returns_if: "returns m \<Longrightarrow> returns m' \<Longrightarrow> returns (if b then m else m')"
  by simp

lemma returns_collect: "(\<And>x. returns (f x)) \<Longrightarrow> returns (collect f xs)"
  by (induction xs) (auto intro!: returns_ok returns_and_then)

lemmas returns_rules = returns_ok returns_statement returns_and_then returns_if returns_collect

lemma query_no_faults: "db_faults db = [] \<Longrightarrow> query f db = (Inr (f (db_tables db)), db)"
  by (simp add: query_def)

end
