(* ===== verification/Ledger.thy ===== *)
theory Ledger
  imports Sql
begin

text \<open>
  The provenance ledger: \<open>crates/database/src/ops/graph_storage.rs\<close> over the tables of
  \<open>entities/node.rs\<close>, \<open>edge.rs\<close>. Each row records which data item of which dataset, and which
  pipeline run, claims the graph artifact its \<open>slug\<close> names.

  Ids are kept as \<open>Uuid\<close>s: the hex text the columns hold (\<open>uuid_hex.rs\<close>) is an injective
  rendering that the code only compares, so the paths for text that does not parse are not
  modelled. Times are numbers; rows with equal times come back in table order.
\<close>

section \<open>Rows\<close>

record graph_row =
  g_id :: uuid
  g_slug :: uuid
  g_user_id :: uuid
  g_data_id :: uuid
  g_dataset_id :: uuid
  g_run :: "uuid option"
  g_label :: "str option"
  g_attributes :: "json option"
  g_created_at :: nat

record graph_node = graph_row +
  n_type :: str
  n_indexed_fields :: json

record graph_edge = graph_row +
  e_source :: uuid
  e_destination :: uuid
  e_relationship :: str

text \<open>
  The rows of \<open>data\<close>. \<open>updated_at\<close> and the floating-point \<open>importance_weight\<close> are not modelled:
  nothing modelled reads them.
\<close>

record data_row =
  d_id :: uuid
  d_dataset_id :: "uuid option"
  d_status :: "json_doc option"
  d_name :: str
  d_raw_location :: str
  d_original_location :: str
  d_extension :: str
  d_mime_type :: str
  d_content_hash :: str
  d_owner_id :: uuid
  d_tenant_id :: "uuid option"
  d_created_at :: int
  d_label :: "str option"
  d_original_extension :: "str option"
  d_original_mime_type :: "str option"
  d_loader_engine :: "str option"
  d_raw_content_hash :: "str option"
  d_external_metadata :: "str option"
  d_node_set :: "str option"
  d_token_count :: int
  d_data_size :: int
  d_last_accessed :: "int option"
  d_legacy_id :: "uuid option"

record ledger =
  l_nodes :: "graph_node list"
  l_edges :: "graph_edge list"
  l_data :: "data_row list"

type_synonym 'a db_action = "(ledger database, db_error, 'a) action"

text \<open>\<open>From<&GraphNode> for node::ActiveModel\<close> and the edge's: what is written is NUL-free.\<close>

definition node_active_model :: "graph_node \<Rightarrow> graph_node" where
  "node_active_model n = n\<lparr>g_label := map_option sanitize_str (g_label n),
     g_attributes := map_option sanitize_json (g_attributes n),
     n_type := sanitize_str (n_type n), n_indexed_fields := sanitize_json (n_indexed_fields n)\<rparr>"

definition edge_active_model :: "graph_edge \<Rightarrow> graph_edge" where
  "edge_active_model e = e\<lparr>g_label := map_option sanitize_str (g_label e),
     g_attributes := map_option sanitize_json (g_attributes e),
     e_relationship := sanitize_str (e_relationship e)\<rparr>"

section \<open>Upserts\<close>

definition provenance_insert_batch :: nat where
  "provenance_insert_batch = 500"

fun dedup_seen :: "('a \<Rightarrow> uuid) \<Rightarrow> uuid list \<Rightarrow> 'a list \<Rightarrow> 'a list" where
  "dedup_seen key seen [] = []"
| "dedup_seen key seen (x # xs) =
     (if key x \<in> set seen then dedup_seen key seen xs
      else x # dedup_seen key (key x # seen) xs)"

definition dedup_keeping_last :: "('a \<Rightarrow> uuid) \<Rightarrow> 'a list \<Rightarrow> 'a list" where
  "dedup_keeping_last key items = rev (dedup_seen key [] (rev items))"

text \<open>
  \<open>INSERT .. ON CONFLICT (id) DO UPDATE\<close>: every column is taken from the new row except
  \<open>pipeline_run_id\<close> and \<open>created_at\<close>, which the update list leaves out.
\<close>

definition keep_creator :: "'a graph_row_scheme \<Rightarrow> 'a graph_row_scheme \<Rightarrow> 'a graph_row_scheme" where
  "keep_creator old new = new\<lparr>g_run := g_run old, g_created_at := g_created_at old\<rparr>"

fun upsert_row :: "'a graph_row_scheme \<Rightarrow> 'a graph_row_scheme list \<Rightarrow> 'a graph_row_scheme list" where
  "upsert_row new [] = [new]"
| "upsert_row new (r # rs) = (if g_id r = g_id new then keep_creator r new # rs else r # upsert_row new rs)"

definition insert_many :: "'a graph_row_scheme list \<Rightarrow> 'a graph_row_scheme list \<Rightarrow> 'a graph_row_scheme list" where
  "insert_many models tbl = fold upsert_row models tbl"

definition upsert_nodes :: "graph_node list \<Rightarrow> unit db_action" where
  "upsert_nodes ns =
     (if ns = [] then ok ()
      else for_each (\<lambda>batch. exec (\<lambda>t. t\<lparr>l_nodes :=
               insert_many (map node_active_model (dedup_keeping_last g_id batch)) (l_nodes t)\<rparr>))
             (chunks provenance_insert_batch ns))"

definition upsert_edges :: "graph_edge list \<Rightarrow> unit db_action" where
  "upsert_edges es =
     (if es = [] then ok ()
      else for_each (\<lambda>batch. exec (\<lambda>t. t\<lparr>l_edges :=
               insert_many (map edge_active_model (dedup_keeping_last g_id batch)) (l_edges t)\<rparr>))
             (chunks provenance_insert_batch es))"

definition upsert_provenance_graph :: "graph_node list \<Rightarrow> graph_edge list \<Rightarrow> unit db_action" where
  "upsert_provenance_graph ns es =
     (if ns = [] \<and> es = [] then ok ()
      else transaction (and_then (upsert_nodes ns) (\<lambda>_. upsert_edges es)))"

section \<open>Plain selections and deletions\<close>

definition order_by_created :: "'a graph_row_scheme list \<Rightarrow> 'a graph_row_scheme list" where
  "order_by_created rs = sort_key g_created_at rs"

definition of_dataset :: "uuid \<Rightarrow> 'a graph_row_scheme cond" where
  "of_dataset dataset_id = c_eq (not_null g_dataset_id) dataset_id"

definition of_data :: "uuid \<Rightarrow> 'a graph_row_scheme cond" where
  "of_data data_id = c_eq (not_null g_data_id) data_id"

definition of_item :: "uuid \<Rightarrow> uuid \<Rightarrow> 'a graph_row_scheme cond" where
  "of_item data_id dataset_id = c_all [of_data data_id, of_dataset dataset_id]"

definition get_nodes_by_dataset :: "uuid \<Rightarrow> graph_node list db_action" where
  "get_nodes_by_dataset dataset_id =
     query (\<lambda>t. order_by_created (select_where (l_nodes t) (of_dataset dataset_id)))"

definition get_edges_by_dataset :: "uuid \<Rightarrow> graph_edge list db_action" where
  "get_edges_by_dataset dataset_id =
     query (\<lambda>t. order_by_created (select_where (l_edges t) (of_dataset dataset_id)))"

definition get_edges_since :: "uuid \<Rightarrow> nat option \<Rightarrow> nat \<Rightarrow> graph_edge list db_action" where
  "get_edges_since dataset_id since limit =
     query (\<lambda>t. take limit (order_by_created (select_where (l_edges t)
       (case since of
          None \<Rightarrow> of_dataset dataset_id
        | Some ts \<Rightarrow> c_all [of_dataset dataset_id, \<lambda>e. Some (ts < g_created_at e)]))))"

definition get_nodes_by_ids :: "uuid list \<Rightarrow> graph_node list db_action" where
  "get_nodes_by_ids ids =
     (if ids = [] then ok [] else query (\<lambda>t. select_where (l_nodes t) (c_in (not_null g_id) ids)))"

definition get_nodes_by_data :: "uuid \<Rightarrow> uuid \<Rightarrow> graph_node list db_action" where
  "get_nodes_by_data data_id dataset_id =
     query (\<lambda>t. order_by_created (select_where (l_nodes t) (of_item data_id dataset_id)))"

definition get_edges_by_data :: "uuid \<Rightarrow> uuid \<Rightarrow> graph_edge list db_action" where
  "get_edges_by_data data_id dataset_id =
     query (\<lambda>t. order_by_created (select_where (l_edges t) (of_item data_id dataset_id)))"

definition delete_nodes :: "graph_node cond \<Rightarrow> unit db_action" where
  "delete_nodes c = exec (\<lambda>t. t\<lparr>l_nodes := delete_where (l_nodes t) c\<rparr>)"

definition delete_edges :: "graph_edge cond \<Rightarrow> unit db_action" where
  "delete_edges c = exec (\<lambda>t. t\<lparr>l_edges := delete_where (l_edges t) c\<rparr>)"

definition delete_nodes_by_data :: "uuid \<Rightarrow> unit db_action" where
  "delete_nodes_by_data data_id = delete_nodes (of_data data_id)"

definition delete_edges_by_data :: "uuid \<Rightarrow> unit db_action" where
  "delete_edges_by_data data_id = delete_edges (of_data data_id)"

definition delete_nodes_by_dataset :: "uuid \<Rightarrow> unit db_action" where
  "delete_nodes_by_dataset dataset_id = delete_nodes (of_dataset dataset_id)"

definition delete_edges_by_dataset :: "uuid \<Rightarrow> unit db_action" where
  "delete_edges_by_dataset dataset_id = delete_edges (of_dataset dataset_id)"

definition delete_nodes_for_data :: "uuid \<Rightarrow> uuid \<Rightarrow> unit db_action" where
  "delete_nodes_for_data data_id dataset_id = delete_nodes (of_item data_id dataset_id)"

definition delete_edges_for_data :: "uuid \<Rightarrow> uuid \<Rightarrow> unit db_action" where
  "delete_edges_for_data data_id dataset_id = delete_edges (of_item data_id dataset_id)"

definition count_nodes_for_data :: "uuid \<Rightarrow> uuid \<Rightarrow> nat db_action" where
  "count_nodes_for_data data_id dataset_id =
     query (\<lambda>t. length (select_where (l_nodes t) (of_item data_id dataset_id)))"

definition count_edges_for_data :: "uuid \<Rightarrow> uuid \<Rightarrow> nat db_action" where
  "count_edges_for_data data_id dataset_id =
     query (\<lambda>t. length (select_where (l_edges t) (of_item data_id dataset_id)))"

text \<open>One transaction over batches of ids; the count is of rows that existed.\<close>

fun sum_deleted :: "uuid list list \<Rightarrow> nat db_action" where
  "sum_deleted [] = ok 0"
| "sum_deleted (batch # batches) =
     and_then (statement (\<lambda>t. (length (select_where (l_edges t) (c_in (not_null g_id) batch)),
                                t\<lparr>l_edges := delete_where (l_edges t) (c_in (not_null g_id) batch)\<rparr>)))
       (\<lambda>n. and_then (sum_deleted batches) (\<lambda>k. ok (n + k)))"

definition delete_edges_by_ids :: "uuid list \<Rightarrow> nat db_action" where
  "delete_edges_by_ids ids =
     (if ids = [] then ok 0 else transaction (sum_deleted (chunks provenance_insert_batch ids)))"

text \<open>The rows with the ids leave; the count is how many there were.\<close>

lemma sum_deleted_ok:
  "sum_deleted batches db = (Inr n, db') \<Longrightarrow>
     db_tables db' = (db_tables db)\<lparr>l_edges := filter (\<lambda>e. g_id e \<notin> set (concat batches)) (l_edges (db_tables db))\<rparr>
     \<and> n + length (l_edges (db_tables db')) = length (l_edges (db_tables db))"
proof (induction batches arbitrary: n db)
  case (Cons batch batches)
  let ?keep = "\<lambda>e. g_id e \<notin> set batch"
  have in_ids: "holds (c_in (\<lambda>e. Some (g_id e)) batch) = (\<lambda>e. \<not> ?keep e)" by (rule ext) auto
  from Cons.prems obtain n1 k db1 where
      1: "db_tables db1 = (db_tables db)\<lparr>l_edges := filter ?keep (l_edges (db_tables db))\<rparr>"
    and n1: "n1 = length (filter (\<lambda>e. \<not> ?keep e) (l_edges (db_tables db)))"
    and 2: "sum_deleted batches db1 = (Inr k, db')" and n: "n = n1 + k"
    by (simp add: outcomes) (auto simp: select_where_def delete_where_def in_ids dest!: statement_ok)
  have "n1 + length (l_edges (db_tables db1)) = length (l_edges (db_tables db))"
    using sum_length_filter_compl [of ?keep "l_edges (db_tables db)"] by (simp add: 1 n1)
  moreover have "(\<lambda>e. ?keep e \<and> g_id e \<notin> set (concat batches)) = (\<lambda>e. g_id e \<notin> set (concat (batch # batches)))"
    by auto
  ultimately show ?case using Cons.IH [OF 2] by (auto simp: 1 n)
qed (simp add: ok_def)

lemma delete_edges_by_ids_ok:
  assumes "delete_edges_by_ids ids db = (Inr n, db')"
  shows "db_tables db' = (db_tables db)\<lparr>l_edges := filter (\<lambda>e. g_id e \<notin> set ids) (l_edges (db_tables db))\<rparr>
    \<and> n + length (l_edges (db_tables db')) = length (l_edges (db_tables db))"
proof (cases "ids = []")
  case True
  with assms show ?thesis by (auto simp: delete_edges_by_ids_def ok_def)
next
  case False
  let ?bs = "chunks provenance_insert_batch ids"
  from False assms have "transaction (sum_deleted ?bs) db = (Inr n, db')" by (simp add: delete_edges_by_ids_def)
  then obtain db0 db1 where "db_tables db0 = db_tables db" "sum_deleted ?bs db0 = (Inr n, db1)" "db_tables db' = db_tables db1"
    by (rule transaction_ok)
  with sum_deleted_ok [of ?bs db0 n db1] show ?thesis by (auto simp: concat_chunks provenance_insert_batch_def)
qed

lemma delete_edges_by_ids_err: "delete_edges_by_ids ids db = (Inl e, db') \<Longrightarrow> db_tables db' = db_tables db"
  by (auto simp: delete_edges_by_ids_def ok_def split: if_splits dest: transaction_err)

section \<open>Upserts as updates of a map from row ids\<close>

definition by_id :: "'a graph_row_scheme list \<Rightarrow> uuid \<rightharpoonup> 'a graph_row_scheme" where
  "by_id tbl = map_of (map (\<lambda>r. (g_id r, r)) tbl)"

definition upsert_map ::
  "'a graph_row_scheme \<Rightarrow> (uuid \<rightharpoonup> 'a graph_row_scheme) \<Rightarrow> (uuid \<rightharpoonup> 'a graph_row_scheme)" where
  "upsert_map new m =
     m(g_id new \<mapsto> (case m (g_id new) of None \<Rightarrow> new | Some old \<Rightarrow> keep_creator old new))"

definition keyed :: "'a graph_row_scheme list \<Rightarrow> bool" where
  "keyed tbl \<longleftrightarrow> distinct (map g_id tbl)"

lemma g_id_keep_creator [simp]: "g_id (keep_creator old new) = g_id new"
  by (simp add: keep_creator_def)

lemma by_id_upsert_row [simp]: "by_id (upsert_row new tbl) = upsert_map new (by_id tbl)"
  by (induction tbl) (auto simp: by_id_def upsert_map_def fun_eq_iff)

lemma ids_upsert_row: "g_id ` set (upsert_row new tbl) = insert (g_id new) (g_id ` set tbl)"
  by (induction tbl) auto

lemma keyed_upsert_row: "keyed tbl \<Longrightarrow> keyed (upsert_row new tbl)"
proof (induction tbl)
  case (Cons r tbl)
  then show ?case
    using ids_upsert_row [of new tbl] by (auto simp: keyed_def)
qed (simp add: keyed_def)

lemma keyed_insert_many: "keyed tbl \<Longrightarrow> keyed (insert_many ms tbl)"
  unfolding insert_many_def by (induction ms arbitrary: tbl) (simp_all add: keyed_upsert_row)

lemma by_id_insert_many: "by_id (insert_many ms tbl) = fold upsert_map ms (by_id tbl)"
  unfolding insert_many_def by (induction ms arbitrary: tbl) simp_all

text \<open>Rows with the same id that were created together.\<close>

definition same_creator :: "'a graph_row_scheme list \<Rightarrow> bool" where
  "same_creator xs \<longleftrightarrow> (\<forall>x \<in> set xs. \<forall>y \<in> set xs. g_id x = g_id y \<longrightarrow>
     g_run x = g_run y \<and> g_created_at x = g_created_at y)"

lemma same_creator_mono: "same_creator xs \<Longrightarrow> set ys \<subseteq> set xs \<Longrightarrow> same_creator ys"
  by (auto simp: same_creator_def)

definition last_with :: "uuid \<Rightarrow> 'a graph_row_scheme list \<Rightarrow> 'a graph_row_scheme option" where
  "last_with i xs = find (\<lambda>x. g_id x = i) (rev xs)"

lemma last_with_snoc: "last_with i (xs @ [x]) = (if g_id x = i then Some x else last_with i xs)"
  by (simp add: last_with_def)

lemma last_with_SomeD: "last_with i xs = Some x \<Longrightarrow> x \<in> set xs \<and> g_id x = i"
  by (induction xs rule: rev_induct) (auto simp: last_with_def split: if_splits)

text \<open>An old row keeps its creator whatever is written; a new one has its last writer's columns.\<close>

lemma fold_upsert_map:
  assumes "same_creator xs"
  shows "fold upsert_map xs m i =
    (case last_with i xs of None \<Rightarrow> m i
     | Some x \<Rightarrow> Some (case m i of None \<Rightarrow> x | Some old \<Rightarrow> keep_creator old x))"
  using assms
proof (induction xs rule: rev_induct)
  case Nil
  show ?case by (simp add: last_with_def)
next
  case (snoc x xs)
  have "same_creator xs" by (rule same_creator_mono [OF snoc.prems]) auto
  note IH = snoc.IH [OF this]
  have step: "fold upsert_map (xs @ [x]) m i = (if g_id x = i
      then Some (case fold upsert_map xs m i of None \<Rightarrow> x | Some old \<Rightarrow> keep_creator old x)
      else fold upsert_map xs m i)"
    by (auto simp: upsert_map_def)
  have same: "keep_creator y x = x" if "last_with i xs = Some y" "g_id x = i" for y
    using last_with_SomeD [OF that(1)] that(2) snoc.prems by (auto simp: same_creator_def keep_creator_def)
  have twice: "keep_creator (keep_creator old y) x = keep_creator old x" for old y
    by (simp add: keep_creator_def)
  show ?case
  proof (cases "g_id x = i")
    case False
    then show ?thesis unfolding step last_with_snoc using IH by simp
  next
    case True
    show ?thesis
    proof (cases "last_with i xs")
      case None
      with True IH show ?thesis unfolding step last_with_snoc by simp
    next
      case (Some y)
      with True IH same [OF Some True] show ?thesis
        unfolding step last_with_snoc by (cases "m i") (simp_all add: twice)
    qed
  qed
qed

lemma fold_upsert_map_old:
  assumes "m i = Some old"
  shows "\<exists>r. fold upsert_map xs m i = Some r \<and> g_run r = g_run old \<and> g_created_at r = g_created_at old"
  using assms
proof (induction xs arbitrary: m old)
  case (Cons x xs)
  have "\<exists>r. upsert_map x m i = Some r \<and> g_run r = g_run old \<and> g_created_at r = g_created_at old"
    using Cons.prems by (auto simp: upsert_map_def keep_creator_def)
  then obtain r where "upsert_map x m i = Some r" "g_run r = g_run old" "g_created_at r = g_created_at old"
    by blast
  with Cons.IH [of "upsert_map x m" r] show ?case by simp
qed simp

lemma find_dedup_seen:
  "find (\<lambda>x. key x = i) (dedup_seen key seen xs) =
     (if i \<in> set seen then None else find (\<lambda>x. key x = i) xs)"
  by (induction key seen xs rule: dedup_seen.induct) auto

lemma last_with_dedup [simp]: "last_with i (dedup_keeping_last g_id xs) = last_with i xs"
  by (simp add: last_with_def dedup_keeping_last_def find_dedup_seen)

lemma set_dedup_seen: "set (dedup_seen key seen xs) \<subseteq> set xs"
  by (induction key seen xs rule: dedup_seen.induct) auto

lemma set_dedup: "set (dedup_keeping_last key xs) \<subseteq> set xs"
  using set_dedup_seen [of key "[]" "rev xs"] by (simp add: dedup_keeping_last_def)

lemma distinct_dedup_seen:
  "distinct (map key (dedup_seen key seen xs)) \<and> key ` set (dedup_seen key seen xs) \<inter> set seen = {}"
  by (induction key seen xs rule: dedup_seen.induct) auto

lemma distinct_dedup: "distinct (map key (dedup_keeping_last key xs))"
  using distinct_dedup_seen [of key "[]" "rev xs"] by (simp add: dedup_keeping_last_def rev_map [symmetric])

lemma last_with_map:
  assumes "\<And>x. g_id (h x) = g_id x"
  shows "last_with i (map h xs) = map_option h (last_with i xs)"
  unfolding last_with_def by (induction xs rule: rev_induct) (auto simp: assms)

lemma active_model_fields [simp]:
  "g_id (node_active_model n) = g_id n" "g_run (node_active_model n) = g_run n"
  "g_created_at (node_active_model n) = g_created_at n" "g_slug (node_active_model n) = g_slug n"
  "g_id (edge_active_model e) = g_id e" "g_run (edge_active_model e) = g_run e"
  "g_created_at (edge_active_model e) = g_created_at e" "g_slug (edge_active_model e) = g_slug e"
  by (simp_all add: node_active_model_def edge_active_model_def)

lemma same_creator_map:
  assumes "\<And>x. g_id (h x) = g_id x" "\<And>x. g_run (h x) = g_run x" "\<And>x. g_created_at (h x) = g_created_at x"
  shows "same_creator (map h xs) \<longleftrightarrow> same_creator xs"
  by (auto simp: same_creator_def assms)

text \<open>One batch with its duplicates collapsed is the batch written row by row.\<close>

lemma fold_dedup:
  assumes "\<And>x. g_id (h x) = g_id x" "\<And>x. g_run (h x) = g_run x" "\<And>x. g_created_at (h x) = g_created_at x"
    and "same_creator xs"
  shows "fold upsert_map (map h (dedup_keeping_last g_id xs)) m = fold upsert_map (map h xs) m"
proof
  fix i
  have "same_creator (map h xs)" and "same_creator (map h (dedup_keeping_last g_id xs))"
    using same_creator_map [of h, OF assms(1-3)] assms(4) same_creator_mono [OF assms(4) set_dedup] by blast+
  then show "fold upsert_map (map h (dedup_keeping_last g_id xs)) m i = fold upsert_map (map h xs) m i"
    by (simp add: fold_upsert_map last_with_map [of h, OF assms(1)])
qed

section \<open>The upserts\<close>

text \<open>A batched upsert of one table: the loop \<open>upsert_nodes\<close> and \<open>upsert_edges\<close> share.\<close>

lemma upsert_batches_ok:
  assumes "for_each (\<lambda>batch. exec (\<lambda>t. put (insert_many (map h (dedup_keeping_last g_id batch)) (get t)) t)) bs db
             = (Inr (), db')"
    and lens: "\<And>x t. get (put x t) = x" "\<And>x y t. put x (put y t) = put x t" "\<And>t. put (get t) t = t"
    and fields: "\<And>x. g_id (h x) = g_id x" "\<And>x. g_run (h x) = g_run x" "\<And>x. g_created_at (h x) = g_created_at x"
  shows "\<exists>tbl. db_tables db' = put tbl (db_tables db)
    \<and> (keyed (get (db_tables db)) \<longrightarrow> keyed tbl)
    \<and> (\<forall>i old. by_id (get (db_tables db)) i = Some old \<longrightarrow>
          (\<exists>r. by_id tbl i = Some r \<and> g_run r = g_run old \<and> g_created_at r = g_created_at old))
    \<and> (same_creator (concat bs) \<longrightarrow> by_id tbl = fold upsert_map (map h (concat bs)) (by_id (get (db_tables db))))"
  using assms(1)
proof (induction bs arbitrary: db)
  case Nil
  then show ?case by (auto simp: ok_def lens intro!: exI [of _ "get (db_tables db)"])
next
  case (Cons b bs)
  let ?ms = "map h (dedup_keeping_last g_id b)"
  let ?tbl = "insert_many ?ms (get (db_tables db))"
  from Cons.prems obtain db1 where
    e: "exec (\<lambda>t. put (insert_many ?ms (get t)) t) db = (Inr (), db1)"
    and l: "for_each (\<lambda>batch. exec (\<lambda>t. put (insert_many (map h (dedup_keeping_last g_id batch)) (get t)) t)) bs db1
             = (Inr (), db')"
    by (auto simp: and_then_def split: prod.splits sum.splits)
  have t1: "db_tables db1 = put ?tbl (db_tables db)" using exec_ok [OF e] .
  from Cons.IH [OF l] obtain tbl where tbl: "db_tables db' = put tbl (db_tables db1)"
    "keyed (get (db_tables db1)) \<longrightarrow> keyed tbl"
    "\<And>i old. by_id (get (db_tables db1)) i = Some old \<Longrightarrow>
          \<exists>r. by_id tbl i = Some r \<and> g_run r = g_run old \<and> g_created_at r = g_created_at old"
    "same_creator (concat bs) \<longrightarrow> by_id tbl = fold upsert_map (map h (concat bs)) (by_id (get (db_tables db1)))"
    by blast
  show ?case
  proof (intro exI [of _ tbl] conjI allI impI)
    show "db_tables db' = put tbl (db_tables db)" using tbl(1) t1 by (simp add: lens)
    show "keyed tbl" if "keyed (get (db_tables db))"
      using tbl(2) keyed_insert_many [OF that] t1 by (simp add: lens)
    show "\<exists>r. by_id tbl i = Some r \<and> g_run r = g_run old \<and> g_created_at r = g_created_at old"
      if "by_id (get (db_tables db)) i = Some old" for i old
      using fold_upsert_map_old [where xs = ?ms and i = i and m = "by_id (get (db_tables db))" and old = old] that tbl(3) [of i] t1 by (auto simp: lens by_id_insert_many)
    show "by_id tbl = fold upsert_map (map h (concat (b # bs))) (by_id (get (db_tables db)))"
      if s: "same_creator (concat (b # bs))"
    proof -
      have "same_creator b" and "same_creator (concat bs)"
        using same_creator_mono [OF s, of b] same_creator_mono [OF s, of "concat bs"] by auto
      with tbl(4) t1 show ?thesis by (simp add: lens by_id_insert_many fold_dedup [of h, OF fields])
    qed
  qed
qed

lemmas upsert_nodes_batches =
  upsert_batches_ok [where get = l_nodes and put = "\<lambda>x t. t\<lparr>l_nodes := x\<rparr>" and h = node_active_model, simplified]

lemmas upsert_edges_batches =
  upsert_batches_ok [where get = l_edges and put = "\<lambda>x t. t\<lparr>l_edges := x\<rparr>" and h = edge_active_model, simplified]

lemma upsert_nodes_ok:
  assumes "upsert_nodes ns db = (Inr (), db')"
  shows "\<exists>tbl. db_tables db' = (db_tables db)\<lparr>l_nodes := tbl\<rparr>
    \<and> (keyed (l_nodes (db_tables db)) \<longrightarrow> keyed tbl)
    \<and> (\<forall>i old. by_id (l_nodes (db_tables db)) i = Some old \<longrightarrow>
          (\<exists>r. by_id tbl i = Some r \<and> g_run r = g_run old \<and> g_created_at r = g_created_at old))
    \<and> (same_creator ns \<longrightarrow>
          by_id tbl = fold upsert_map (map node_active_model ns) (by_id (l_nodes (db_tables db))))"
proof (cases "ns = []")
  case True
  with assms show ?thesis
    by (auto simp: upsert_nodes_def ok_def intro!: exI [of _ "l_nodes (db_tables db)"])
next
  case False
  with assms upsert_nodes_batches [of "chunks provenance_insert_batch ns" db db'] show ?thesis
    by (simp add: upsert_nodes_def concat_chunks provenance_insert_batch_def)
qed

lemma upsert_edges_ok:
  assumes "upsert_edges es db = (Inr (), db')"
  shows "\<exists>tbl. db_tables db' = (db_tables db)\<lparr>l_edges := tbl\<rparr>
    \<and> (keyed (l_edges (db_tables db)) \<longrightarrow> keyed tbl)
    \<and> (\<forall>i old. by_id (l_edges (db_tables db)) i = Some old \<longrightarrow>
          (\<exists>r. by_id tbl i = Some r \<and> g_run r = g_run old \<and> g_created_at r = g_created_at old))
    \<and> (same_creator es \<longrightarrow>
          by_id tbl = fold upsert_map (map edge_active_model es) (by_id (l_edges (db_tables db))))"
proof (cases "es = []")
  case True
  with assms show ?thesis
    by (auto simp: upsert_edges_def ok_def intro!: exI [of _ "l_edges (db_tables db)"])
next
  case False
  with assms upsert_edges_batches [of "chunks provenance_insert_batch es" db db'] show ?thesis
    by (simp add: upsert_edges_def concat_chunks provenance_insert_batch_def)
qed

lemma upsert_provenance_ok:
  assumes "upsert_provenance_graph ns es db = (Inr x, db')"
  shows "\<exists>nt et. db_tables db' = (db_tables db)\<lparr>l_nodes := nt, l_edges := et\<rparr>
    \<and> (keyed (l_nodes (db_tables db)) \<longrightarrow> keyed nt) \<and> (keyed (l_edges (db_tables db)) \<longrightarrow> keyed et)
    \<and> (\<forall>i old. by_id (l_nodes (db_tables db)) i = Some old \<longrightarrow>
          (\<exists>r. by_id nt i = Some r \<and> g_run r = g_run old \<and> g_created_at r = g_created_at old))
    \<and> (\<forall>i old. by_id (l_edges (db_tables db)) i = Some old \<longrightarrow>
          (\<exists>r. by_id et i = Some r \<and> g_run r = g_run old \<and> g_created_at r = g_created_at old))
    \<and> (same_creator ns \<longrightarrow> by_id nt = fold upsert_map (map node_active_model ns) (by_id (l_nodes (db_tables db))))
    \<and> (same_creator es \<longrightarrow> by_id et = fold upsert_map (map edge_active_model es) (by_id (l_edges (db_tables db))))"
proof (cases "ns = [] \<and> es = []")
  case True
  with assms show ?thesis
    by (auto simp: upsert_provenance_graph_def ok_def
        intro!: exI [of _ "l_nodes (db_tables db)"] exI [of _ "l_edges (db_tables db)"])
next
  case False
  with assms have "transaction (and_then (upsert_nodes ns) (\<lambda>_. upsert_edges es)) db = (Inr x, db')"
    by (simp add: upsert_provenance_graph_def)
  then obtain db0 db1 where t0: "db_tables db0 = db_tables db"
    and u: "and_then (upsert_nodes ns) (\<lambda>_. upsert_edges es) db0 = (Inr x, db1)"
    and t1: "db_tables db' = db_tables db1"
    by (rule transaction_ok)
  from u obtain db2 where n: "upsert_nodes ns db0 = (Inr (), db2)" and e: "upsert_edges es db2 = (Inr (), db1)"
    by (auto simp: and_then_def split: prod.splits sum.splits)
  from upsert_nodes_ok [OF n] obtain nt where nt: "db_tables db2 = (db_tables db)\<lparr>l_nodes := nt\<rparr>"
    "keyed (l_nodes (db_tables db)) \<longrightarrow> keyed nt"
    "\<forall>i old. by_id (l_nodes (db_tables db)) i = Some old \<longrightarrow>
          (\<exists>r. by_id nt i = Some r \<and> g_run r = g_run old \<and> g_created_at r = g_created_at old)"
    "same_creator ns \<longrightarrow> by_id nt = fold upsert_map (map node_active_model ns) (by_id (l_nodes (db_tables db)))"
    unfolding t0 by blast
  from upsert_edges_ok [OF e] obtain et where et: "db_tables db1 = (db_tables db2)\<lparr>l_edges := et\<rparr>"
    "keyed (l_edges (db_tables db2)) \<longrightarrow> keyed et"
    "\<forall>i old. by_id (l_edges (db_tables db2)) i = Some old \<longrightarrow>
          (\<exists>r. by_id et i = Some r \<and> g_run r = g_run old \<and> g_created_at r = g_created_at old)"
    "same_creator es \<longrightarrow> by_id et = fold upsert_map (map edge_active_model es) (by_id (l_edges (db_tables db2)))"
    by blast
  have le: "l_edges (db_tables db2) = l_edges (db_tables db)" using nt(1) by simp
  show ?thesis
    by (intro exI [of _ nt] exI [of _ et] conjI nt(2,3,4) et(2,3,4) [unfolded le]) (use t1 et(1) nt(1) in simp)
qed

text \<open>Without pending faults the upsert returns.\<close>

lemma for_each_no_faults:
  assumes "\<And>x db. db_faults db = [] \<Longrightarrow> \<exists>db'. f x db = (Inr (), db') \<and> db_faults db' = []" and "db_faults db = []"
  shows "\<exists>db'. for_each f xs db = (Inr (), db') \<and> db_faults db' = []"
  using assms(2)
proof (induction xs arbitrary: db)
  case (Cons x xs)
  from assms(1) [OF Cons.prems] obtain db1 where "f x db = (Inr (), db1)" "db_faults db1 = []" by blast
  with Cons.IH [of db1] show ?case by (auto simp: and_then_def)
qed (simp add: ok_def)

lemma exec_no_faults: "db_faults db = [] \<Longrightarrow> \<exists>db'. exec f db = (Inr (), db') \<and> db_faults db' = []"
  by (simp add: exec_def)

lemma upsert_no_faults:
  assumes "db_faults db = []"
  shows "\<exists>db'. upsert_nodes ns db = (Inr (), db') \<and> db_faults db' = []"
    and "\<exists>db'. upsert_edges es db = (Inr (), db') \<and> db_faults db' = []"
  using assms by (auto simp: upsert_nodes_def upsert_edges_def ok_def intro!: for_each_no_faults exec_no_faults)

lemma upsert_provenance_no_faults:
  assumes "db_faults db = []"
  shows "\<exists>db'. upsert_provenance_graph ns es db = (Inr (), db')"
proof (cases "ns = [] \<and> es = []")
  case True
  then show ?thesis by (simp add: upsert_provenance_graph_def ok_def)
next
  case False
  from exec_no_faults [OF assms, of id] obtain d1 where 1: "exec id db = (Inr (), d1)" "db_faults d1 = []" by blast
  from upsert_no_faults(1) [OF 1(2), of ns] obtain d2 where 2: "upsert_nodes ns d1 = (Inr (), d2)" "db_faults d2 = []" by blast
  from upsert_no_faults(2) [OF 2(2), of es] obtain d3 where 3: "upsert_edges es d2 = (Inr (), d3)" "db_faults d3 = []" by blast
  from exec_no_faults [OF 3(2), of id] obtain d4 where 4: "exec id d3 = (Inr (), d4)" by blast
  have "(ns = [] \<and> es = []) = False" using False by simp
  with 1(1) 2(1) 3(1) 4 show ?thesis
    by (simp add: upsert_provenance_graph_def transaction_def and_then_def ok_def)
qed

section \<open>Properties\<close>


definition sample_node :: "uuid \<Rightarrow> uuid \<Rightarrow> uuid \<Rightarrow> uuid option \<Rightarrow> nat \<Rightarrow> graph_node" where
  "sample_node i s d run t = \<lparr>g_id = i, g_slug = s, g_user_id = 1, g_data_id = d, g_dataset_id = 9,
     g_run = run, g_label = None, g_attributes = None, g_created_at = t,
     n_type = [], n_indexed_fields = JArray []\<rparr>"

definition sample_edge :: "uuid \<Rightarrow> uuid \<Rightarrow> uuid \<Rightarrow> uuid option \<Rightarrow> uuid \<Rightarrow> uuid \<Rightarrow> str \<Rightarrow> graph_edge" where
  "sample_edge i s d run src dst rel = \<lparr>g_id = i, g_slug = s, g_user_id = 1, g_data_id = d, g_dataset_id = 9,
     g_run = run, g_label = None, g_attributes = None, g_created_at = 0,
     e_source = src, e_destination = dst, e_relationship = rel\<rparr>"

definition sample_data :: "uuid \<Rightarrow> uuid option \<Rightarrow> json_doc option \<Rightarrow> data_row" where
  "sample_data i ds st = \<lparr>d_id = i, d_dataset_id = ds, d_status = st, d_name = [], d_raw_location = [],
     d_original_location = [], d_extension = [], d_mime_type = [], d_content_hash = [], d_owner_id = 1,
     d_tenant_id = None, d_created_at = 0, d_label = None, d_original_extension = None,
     d_original_mime_type = None, d_loader_engine = None, d_raw_content_hash = None,
     d_external_metadata = None, d_node_set = None, d_token_count = 0, d_data_size = 0,
     d_last_accessed = None, d_legacy_id = None\<rparr>"

lemma sample_data_fields [simp]:
  "d_id (sample_data i ds st) = i" "d_dataset_id (sample_data i ds st) = ds"
  "d_status (sample_data i ds st) = st" "d_raw_location (sample_data i ds st) = []"
  "d_original_location (sample_data i ds st) = []" "d_owner_id (sample_data i ds st) = 1"
  "d_tenant_id (sample_data i ds st) = None" "d_created_at (sample_data i ds st) = 0"
  "d_legacy_id (sample_data i ds st) = None"
  "(sample_data i ds st)\<lparr>d_status := st'\<rparr> = sample_data i ds st'"
  "(sample_data i ds st)\<lparr>d_dataset_id := ds'\<rparr> = sample_data i ds' st"
  "sample_data i ds st = sample_data i' ds' st' \<longleftrightarrow> i = i' \<and> ds = ds' \<and> st = st'"
  by (simp_all add: sample_data_def)

definition sample_db :: "graph_node list \<Rightarrow> graph_edge list \<Rightarrow> data_row list \<Rightarrow> db_error option list \<Rightarrow> ledger database" where
  "sample_db ns es ds faults = \<lparr>db_tables = \<lparr>l_nodes = ns, l_edges = es, l_data = ds\<rparr>, db_faults = faults\<rparr>"

lemma sample_fields [simp]:
  "g_id (sample_node i s d run t) = i" "g_slug (sample_node i s d run t) = s"
  "g_data_id (sample_node i s d run t) = d" "g_dataset_id (sample_node i s d run t) = 9"
  "g_run (sample_node i s d run t) = run" "g_created_at (sample_node i s d run t) = t"
  "g_id (sample_edge i s d run src dst rel) = i" "g_slug (sample_edge i s d run src dst rel) = s"
  "g_data_id (sample_edge i s d run src dst rel) = d" "g_dataset_id (sample_edge i s d run src dst rel) = 9"
  "g_run (sample_edge i s d run src dst rel) = run" "e_source (sample_edge i s d run src dst rel) = src"
  "e_destination (sample_edge i s d run src dst rel) = dst"
  "db_tables (sample_db ns es ds faults) = \<lparr>l_nodes = ns, l_edges = es, l_data = ds\<rparr>"
  "db_faults (sample_db ns es ds faults) = faults"
  by (simp_all add: sample_node_def sample_edge_def sample_db_def)


text \<open>
  C28: a later run never takes over a row: after a successful write every row that was there
  keeps the pipeline run and the creation time it had, and row ids stay unique.
\<close>

theorem provenance_write_keeps_creator:
  assumes "upsert_provenance_graph ns es db = (Inr x, db')"
    and "keyed (l_nodes (db_tables db))" and "keyed (l_edges (db_tables db))"
  shows "keyed (l_nodes (db_tables db')) \<and> keyed (l_edges (db_tables db'))
    \<and> (\<forall>i old. by_id (l_nodes (db_tables db)) i = Some old \<longrightarrow>
          (\<exists>r. by_id (l_nodes (db_tables db')) i = Some r \<and> g_run r = g_run old \<and> g_created_at r = g_created_at old))
    \<and> (\<forall>i old. by_id (l_edges (db_tables db)) i = Some old \<longrightarrow>
          (\<exists>r. by_id (l_edges (db_tables db')) i = Some r \<and> g_run r = g_run old \<and> g_created_at r = g_created_at old))"
  using upsert_provenance_ok [OF assms(1)] assms(2,3) by auto

theorem provenance_write_keeps_creator_witness:
  "\<exists>db' r. upsert_provenance_graph [sample_node 1 5 2 (Some 8) 3] [] (sample_db [sample_node 1 5 2 (Some 7) 0] [] [] [])
      = (Inr (), db') \<and> by_id (l_nodes (db_tables db')) 1 = Some r \<and> g_run r = Some 7"
proof -
  let ?db = "sample_db [sample_node 1 5 2 (Some 7) 0] [] [] []"
  let ?ns = "[sample_node 1 5 2 (Some 8) 3]"
  obtain db' where u: "upsert_provenance_graph ?ns [] ?db = (Inr (), db')"
    using upsert_provenance_no_faults [of ?db ?ns "[]"] by auto
  have k: "keyed (l_nodes (db_tables ?db))" "keyed (l_edges (db_tables ?db))" by (simp_all add: keyed_def)
  have "by_id (l_nodes (db_tables ?db)) 1 = Some (sample_node 1 5 2 (Some 7) 0)" by (simp add: by_id_def)
  with provenance_write_keeps_creator [OF u k] obtain r where
    "by_id (l_nodes (db_tables db')) 1 = Some r" "g_run r = Some 7" by fastforce
  with u show ?thesis by blast
qed

end
