(* ===== verification/Claims.thy ===== *)
theory Claims
  imports Ledger
begin

text \<open>
  Who claims what: the second half of \<open>crates/database/src/ops/graph_storage.rs\<close>, the queries
  that tell which graph nodes, edges and edge-type texts no surviving row needs.
\<close>

section \<open>Rows exclusive to a data item\<close>

text \<open>The correlated \<open>NOT EXISTS\<close>: no row of another data item in the dataset has the slug.\<close>

definition shared_slug :: "'a graph_row_scheme list \<Rightarrow> uuid \<Rightarrow> uuid \<Rightarrow> 'a graph_row_scheme cond" where
  "shared_slug tbl data_id dataset_id r =
     c_exists tbl (c_all [of_dataset dataset_id, c_ne (not_null g_data_id) data_id,
                          c_eq (not_null g_slug) (g_slug r)]) r"

definition unique_for_data :: "'a graph_row_scheme list \<Rightarrow> uuid \<Rightarrow> uuid \<Rightarrow> 'a graph_row_scheme list" where
  "unique_for_data tbl data_id dataset_id =
     select_where tbl (c_all [of_data data_id, of_dataset dataset_id,
                              c_not (shared_slug tbl data_id dataset_id)])"

definition get_unique_nodes_for_data :: "uuid \<Rightarrow> uuid \<Rightarrow> graph_node list db_action" where
  "get_unique_nodes_for_data data_id dataset_id =
     query (\<lambda>t. unique_for_data (l_nodes t) data_id dataset_id)"

definition get_unique_edges_for_data :: "uuid \<Rightarrow> uuid \<Rightarrow> graph_edge list db_action" where
  "get_unique_edges_for_data data_id dataset_id =
     query (\<lambda>t. unique_for_data (l_edges t) data_id dataset_id)"

definition endpoint_claimed ::
  "graph_node list \<Rightarrow> (graph_edge \<Rightarrow> uuid) \<Rightarrow> graph_node cond list \<Rightarrow> graph_edge cond" where
  "endpoint_claimed ns endpoint narrow e =
     c_exists ns (c_all (c_eq (not_null g_slug) (endpoint e) # narrow)) e"

definition endpoint_exclusive_to ::
  "graph_node list \<Rightarrow> (graph_edge \<Rightarrow> uuid) \<Rightarrow> uuid \<Rightarrow> uuid \<Rightarrow> graph_edge cond" where
  "endpoint_exclusive_to ns endpoint data_id dataset_id =
     c_all [endpoint_claimed ns endpoint [of_dataset dataset_id, c_eq (not_null g_data_id) data_id],
            c_not (endpoint_claimed ns endpoint [of_dataset dataset_id, c_ne (not_null g_data_id) data_id])]"

definition structural_edges_owned_by :: "graph_node list \<Rightarrow> uuid \<Rightarrow> uuid \<Rightarrow> graph_edge cond" where
  "structural_edges_owned_by ns data_id dataset_id =
     c_all [of_data nil_uuid, of_dataset dataset_id,
            c_any [endpoint_exclusive_to ns e_source data_id dataset_id,
                   endpoint_exclusive_to ns e_destination data_id dataset_id]]"

definition edge_row_is_live_claim :: "graph_node list \<Rightarrow> graph_edge cond" where
  "edge_row_is_live_claim ns =
     c_any [c_ne (not_null g_data_id) nil_uuid,
            endpoint_claimed ns e_source [], endpoint_claimed ns e_destination []]"

definition get_structural_edges_for_data :: "uuid \<Rightarrow> uuid \<Rightarrow> graph_edge list db_action" where
  "get_structural_edges_for_data data_id dataset_id =
     query (\<lambda>t. select_where (l_edges t) (structural_edges_owned_by (l_nodes t) data_id dataset_id))"

section \<open>Edge retrieval texts\<close>

datatype db_backend = Sqlite | Postgres | MySql

text \<open>\<open>attributes.edge_text\<close> when it is a JSON string: the SQL of the backends that have JSON
  functions computes the same value the Rust fallback reads.\<close>

definition edge_text_of :: "graph_edge \<Rightarrow> str option" where
  "edge_text_of e = Option.bind (Option.bind (g_attributes e) (json_get (lit ''edge_text''))) as_str"

definition edge_text_sql :: "db_backend \<Rightarrow> (graph_edge \<Rightarrow> str option) option" where
  "edge_text_sql backend = (case backend of Sqlite \<Rightarrow> Some edge_text_of | Postgres \<Rightarrow> Some edge_text_of | MySql \<Rightarrow> None)"

definition edge_retrieval_text :: "graph_edge \<Rightarrow> str" where
  "edge_retrieval_text e = retrieval_text (edge_text_of e) (e_relationship e)"

definition retrieval_texts_where ::
  "db_backend \<Rightarrow> (ledger \<Rightarrow> graph_edge cond) \<Rightarrow> str list db_action" where
  "retrieval_texts_where backend condition =
     and_then
       (query (\<lambda>t. let rows = select_where (l_edges t) (condition t) in
          case edge_text_sql backend of
            Some edge_text \<Rightarrow> remdups (map (\<lambda>e. (e_relationship e, edge_text e)) rows)
          | None \<Rightarrow> map (\<lambda>(name, attributes).
                 (name, Option.bind (Option.bind attributes (json_get (lit ''edge_text''))) as_str))
               (map (\<lambda>e. (e_relationship e, g_attributes e)) rows)))
       (\<lambda>pairs. ok (btree_set (map (\<lambda>(name, edge_text). retrieval_text edge_text name) pairs)))"

definition candidate_text_batch :: nat where
  "candidate_text_batch = 250"

definition survives_item :: "uuid \<Rightarrow> uuid \<Rightarrow> ledger \<Rightarrow> graph_edge cond" where
  "survives_item data_id dataset_id t =
     c_all [c_any [c_ne (not_null g_data_id) data_id, c_ne (not_null g_dataset_id) dataset_id],
            c_not (structural_edges_owned_by (l_nodes t) data_id dataset_id),
            edge_row_is_live_claim (l_nodes t)]"

definition get_edge_retrieval_texts_claimed_outside_data ::
  "db_backend \<Rightarrow> uuid \<Rightarrow> uuid \<Rightarrow> str list \<Rightarrow> str list db_action" where
  "get_edge_retrieval_texts_claimed_outside_data backend data_id dataset_id candidates =
     (let wanted = btree_set candidates in
      if wanted = [] then ok []
      else and_then
        (case edge_text_sql backend of
           Some edge_text \<Rightarrow>
             collect (\<lambda>batch.
                 and_then
                   (retrieval_texts_where backend (\<lambda>t. c_all [survives_item data_id dataset_id t,
                      c_any [c_in (\<lambda>e. Some (trim (e_relationship e))) batch,
                             c_in (\<lambda>e. map_option trim (edge_text e)) batch]]))
                   (\<lambda>texts. ok (filter (\<lambda>x. x \<in> set batch) texts)))
               (chunks candidate_text_batch wanted)
         | None \<Rightarrow>
             and_then (retrieval_texts_where backend (survives_item data_id dataset_id))
               (\<lambda>texts. ok (filter (\<lambda>x. x \<in> set wanted) texts)))
        (\<lambda>claimed. ok (btree_set claimed)))"

section \<open>The rows of a run\<close>

record run_scope =
  rs_run :: uuid
  rs_dataset :: uuid
  rs_data_ids :: "uuid list option"

definition whole_run :: "uuid \<Rightarrow> uuid \<Rightarrow> run_scope" where
  "whole_run pipeline_run_id dataset_id = \<lparr>rs_run = pipeline_run_id, rs_dataset = dataset_id, rs_data_ids = None\<rparr>"

definition scope_for_data :: "uuid \<Rightarrow> uuid \<Rightarrow> uuid list \<Rightarrow> run_scope" where
  "scope_for_data pipeline_run_id dataset_id data_ids =
     \<lparr>rs_run = pipeline_run_id, rs_dataset = dataset_id, rs_data_ids = Some data_ids\<rparr>"

definition selects_nothing :: "run_scope \<Rightarrow> bool" where
  "selects_nothing sc \<longleftrightarrow> rs_data_ids sc = Some []"

definition run_selection :: "run_scope \<Rightarrow> 'a graph_row_scheme cond" where
  "run_selection sc =
     c_all ([c_eq g_run (rs_run sc), of_dataset (rs_dataset sc)]
            @ (case rs_data_ids sc of None \<Rightarrow> [] | Some ids \<Rightarrow> [c_in (not_null g_data_id) ids]))"

text \<open>The negation of the selection, spelled out with \<open>IS NULL\<close>.\<close>

definition outside_run :: "run_scope \<Rightarrow> 'a graph_row_scheme cond" where
  "outside_run sc =
     c_any ([c_is_null g_run, c_ne g_run (rs_run sc), c_ne (not_null g_dataset_id) (rs_dataset sc)]
            @ (case rs_data_ids sc of None \<Rightarrow> [] | Some ids \<Rightarrow> [c_not_in (not_null g_data_id) ids]))"

definition claimed_outside :: "'a graph_row_scheme list \<Rightarrow> run_scope \<Rightarrow> 'a graph_row_scheme cond" where
  "claimed_outside tbl sc r = c_exists tbl (c_all [c_eq (not_null g_slug) (g_slug r), outside_run sc]) r"

definition unique_for_run :: "'a graph_row_scheme list \<Rightarrow> run_scope \<Rightarrow> 'a graph_row_scheme list" where
  "unique_for_run tbl sc =
     order_by_created (select_where tbl (c_all [run_selection sc, c_not (claimed_outside tbl sc)]))"

definition get_nodes_for_run :: "run_scope \<Rightarrow> graph_node list db_action" where
  "get_nodes_for_run sc =
     (if selects_nothing sc then ok []
      else query (\<lambda>t. order_by_created (select_where (l_nodes t) (run_selection sc))))"

definition get_edges_for_run :: "run_scope \<Rightarrow> graph_edge list db_action" where
  "get_edges_for_run sc =
     (if selects_nothing sc then ok []
      else query (\<lambda>t. order_by_created (select_where (l_edges t) (run_selection sc))))"

definition get_unique_nodes_for_run :: "run_scope \<Rightarrow> graph_node list db_action" where
  "get_unique_nodes_for_run sc =
     (if selects_nothing sc then ok [] else query (\<lambda>t. unique_for_run (l_nodes t) sc))"

definition get_unique_edges_for_run :: "run_scope \<Rightarrow> graph_edge list db_action" where
  "get_unique_edges_for_run sc =
     (if selects_nothing sc then ok [] else query (\<lambda>t. unique_for_run (l_edges t) sc))"

definition get_edge_retrieval_texts_claimed_outside_run :: "db_backend \<Rightarrow> run_scope \<Rightarrow> str list db_action" where
  "get_edge_retrieval_texts_claimed_outside_run backend sc =
     retrieval_texts_where backend (\<lambda>_. outside_run sc)"

definition delete_nodes_for_run :: "run_scope \<Rightarrow> nat db_action" where
  "delete_nodes_for_run sc =
     (if selects_nothing sc then ok 0
      else statement (\<lambda>t. (length (select_where (l_nodes t) (run_selection sc)),
                            t\<lparr>l_nodes := delete_where (l_nodes t) (run_selection sc)\<rparr>)))"

definition delete_edges_for_run :: "run_scope \<Rightarrow> nat db_action" where
  "delete_edges_for_run sc =
     (if selects_nothing sc then ok 0
      else statement (\<lambda>t. (length (select_where (l_edges t) (run_selection sc)),
                            t\<lparr>l_edges := delete_where (l_edges t) (run_selection sc)\<rparr>)))"

definition get_data_ids_for_run :: "run_scope \<Rightarrow> uuid list db_action" where
  "get_data_ids_for_run sc =
     (if selects_nothing sc then ok []
      else and_then (query (\<lambda>t. remdups (map g_data_id (select_where (l_nodes t) (run_selection sc)))))
        (\<lambda>ns. and_then (query (\<lambda>t. remdups (map g_data_id (select_where (l_edges t) (run_selection sc)))))
          (\<lambda>es. ok (btree_set (ns @ es)))))"

section \<open>What the queries return\<close>

text \<open>Membership in a run's scope, read off the row.\<close>

definition in_scope :: "run_scope \<Rightarrow> 'a graph_row_scheme \<Rightarrow> bool" where
  "in_scope sc r \<longleftrightarrow> g_run r = Some (rs_run sc) \<and> g_dataset_id r = rs_dataset sc
     \<and> (case rs_data_ids sc of None \<Rightarrow> True | Some ids \<Rightarrow> g_data_id r \<in> set ids)"

lemma selects_nothing_none: "selects_nothing sc \<Longrightarrow> \<not> in_scope sc r"
  by (simp add: selects_nothing_def in_scope_def)

lemma holds_run_selection [simp]: "holds (run_selection sc) r \<longleftrightarrow> in_scope sc r"
  by (auto simp: run_selection_def in_scope_def of_dataset_def split: option.splits)

lemma holds_outside_run [simp]: "holds (outside_run sc) r \<longleftrightarrow> \<not> in_scope sc r"
  by (cases "g_run r") (auto simp: outside_run_def in_scope_def split: option.splits)

lemma holds_of_item [simp]: "holds (of_item d s) r \<longleftrightarrow> g_data_id r = d \<and> g_dataset_id r = s"
  by (auto simp: of_item_def of_data_def of_dataset_def)

lemma holds_of_data [simp]: "holds (of_data d) r \<longleftrightarrow> g_data_id r = d"
  by (auto simp: of_data_def)

lemma holds_of_dataset [simp]: "holds (of_dataset d) r \<longleftrightarrow> g_dataset_id r = d"
  by (auto simp: of_dataset_def)

lemma refuted_of [simp]:
  "refuted (of_data d) r \<longleftrightarrow> g_data_id r \<noteq> d" "refuted (of_dataset d) r \<longleftrightarrow> g_dataset_id r \<noteq> d"
  by (auto simp: of_data_def of_dataset_def)

lemma set_order_by_created [simp]: "set (order_by_created rs) = set rs"
  by (simp add: order_by_created_def)

lemma claimed_outside_iff [simp]:
  "holds (claimed_outside tbl sc) r \<longleftrightarrow> (\<exists>q \<in> set tbl. g_slug q = g_slug r \<and> \<not> in_scope sc q)"
  "refuted (claimed_outside tbl sc) r \<longleftrightarrow> \<not> (\<exists>q \<in> set tbl. g_slug q = g_slug r \<and> \<not> in_scope sc q)"
  using truth_value [of "claimed_outside tbl sc" r, OF claimed_outside_def [THEN trans, OF c_exists_value]]
  by auto

lemma set_unique_for_run:
  "set (unique_for_run tbl sc) =
     {r \<in> set tbl. in_scope sc r \<and> (\<forall>q \<in> set tbl. g_slug q = g_slug r \<longrightarrow> in_scope sc q)}"
  by (auto simp: unique_for_run_def)

lemma shared_slug_iff [simp]:
  "refuted (shared_slug tbl d s) r \<longleftrightarrow>
     \<not> (\<exists>q \<in> set tbl. g_dataset_id q = s \<and> g_data_id q \<noteq> d \<and> g_slug q = g_slug r)"
  using truth_value [of "shared_slug tbl d s" r, OF shared_slug_def [THEN trans, OF c_exists_value]]
  by auto

lemma set_unique_for_data:
  "set (unique_for_data tbl d s) =
     {r \<in> set tbl. g_data_id r = d \<and> g_dataset_id r = s
        \<and> (\<forall>q \<in> set tbl. g_dataset_id q = s \<and> g_slug q = g_slug r \<longrightarrow> g_data_id q = d)}"
  by (auto simp: unique_for_data_def)

lemma endpoint_claimed_iff [simp]:
  "holds (endpoint_claimed ns ep narrow) e \<longleftrightarrow> (\<exists>n \<in> set ns. g_slug n = ep e \<and> (\<forall>c \<in> set narrow. holds c n))"
  "refuted (endpoint_claimed ns ep narrow) e \<longleftrightarrow> \<not> (\<exists>n \<in> set ns. g_slug n = ep e \<and> (\<forall>c \<in> set narrow. holds c n))"
  using truth_value [of "endpoint_claimed ns ep narrow" e, OF endpoint_claimed_def [THEN trans, OF c_exists_value]]
  by auto

lemma endpoint_exclusive_iff:
  "holds (endpoint_exclusive_to ns ep d s) e \<longleftrightarrow> ep e \<in> g_slug ` set (unique_for_data ns d s)"
  "refuted (endpoint_exclusive_to ns ep d s) e \<longleftrightarrow> ep e \<notin> g_slug ` set (unique_for_data ns d s)"
proof -
  let ?mine = "\<exists>n \<in> set ns. g_slug n = ep e \<and> g_dataset_id n = s \<and> g_data_id n = d"
  let ?other = "\<exists>n \<in> set ns. g_slug n = ep e \<and> g_dataset_id n = s \<and> g_data_id n \<noteq> d"
  have eq: "ep e \<in> g_slug ` set (unique_for_data ns d s) \<longleftrightarrow> ?mine \<and> \<not> ?other"
  proof
    assume "ep e \<in> g_slug ` set (unique_for_data ns d s)"
    then obtain n where n: "n \<in> set (unique_for_data ns d s)" and e: "ep e = g_slug n" by (rule imageE)
    show "?mine \<and> \<not> ?other" using n unfolding set_unique_for_data e by blast
  next
    assume h: "?mine \<and> \<not> ?other"
    then obtain n where n: "n \<in> set ns" "g_slug n = ep e" "g_dataset_id n = s" "g_data_id n = d" by blast
    have "n \<in> set (unique_for_data ns d s)" using n h unfolding set_unique_for_data by auto
    then show "ep e \<in> g_slug ` set (unique_for_data ns d s)" using n(2) by (metis imageI)
  qed
  have "holds (endpoint_exclusive_to ns ep d s) e \<longleftrightarrow> ?mine \<and> \<not> ?other"
    by (simp add: endpoint_exclusive_to_def)
  then show "holds (endpoint_exclusive_to ns ep d s) e \<longleftrightarrow> ep e \<in> g_slug ` set (unique_for_data ns d s)"
    by (simp only: eq)
  have "refuted (endpoint_exclusive_to ns ep d s) e \<longleftrightarrow> \<not> (?mine \<and> \<not> ?other)"
    by (auto simp: endpoint_exclusive_to_def)
  then show "refuted (endpoint_exclusive_to ns ep d s) e \<longleftrightarrow> ep e \<notin> g_slug ` set (unique_for_data ns d s)"
    by (simp only: eq)
qed

lemma structural_edges_iff:
  "holds (structural_edges_owned_by ns d s) e \<longleftrightarrow> g_data_id e = nil_uuid \<and> g_dataset_id e = s
     \<and> (e_source e \<in> g_slug ` set (unique_for_data ns d s) \<or> e_destination e \<in> g_slug ` set (unique_for_data ns d s))"
  "refuted (structural_edges_owned_by ns d s) e \<longleftrightarrow> \<not> holds (structural_edges_owned_by ns d s) e"
  by (auto simp: structural_edges_owned_by_def endpoint_exclusive_iff)

lemma live_claim_iff:
  "holds (edge_row_is_live_claim ns) e \<longleftrightarrow>
     g_data_id e \<noteq> nil_uuid \<or> e_source e \<in> g_slug ` set ns \<or> e_destination e \<in> g_slug ` set ns"
  by (auto simp: edge_row_is_live_claim_def image_iff) metis+

section \<open>The claimed texts\<close>

lemma edge_text_sql_SomeD: "edge_text_sql b = Some f \<Longrightarrow> f = edge_text_of"
  by (auto simp: edge_text_sql_def split: db_backend.splits)

text \<open>All backends derive the same texts: those of the rows that satisfy the condition.\<close>

lemma retrieval_texts_where_ok:
  assumes "retrieval_texts_where backend condition db = (Inr texts, db')"
  shows "db_tables db' = db_tables db \<and> set texts =
     edge_retrieval_text ` {e \<in> set (l_edges (db_tables db)). holds (condition (db_tables db)) e}"
proof -
  let ?rows = "select_where (l_edges (db_tables db)) (condition (db_tables db))"
  obtain pairs where p: "pairs = (case edge_text_sql backend of
            Some edge_text \<Rightarrow> remdups (map (\<lambda>e. (e_relationship e, edge_text e)) ?rows)
          | None \<Rightarrow> map (\<lambda>(name, attributes).
                 (name, Option.bind (Option.bind attributes (json_get (lit ''edge_text''))) as_str))
               (map (\<lambda>e. (e_relationship e, g_attributes e)) ?rows))"
    and t: "texts = btree_set (map (\<lambda>(name, edge_text). retrieval_text edge_text name) pairs)"
    and db: "db_tables db' = db_tables db"
    using assms by (auto simp: retrieval_texts_where_def and_then_def ok_def Let_def
        split: prod.splits sum.splits dest!: query_ok)
  have "set pairs = (\<lambda>e. (e_relationship e, edge_text_of e)) ` set ?rows"
    unfolding p by (cases "edge_text_sql backend")
      (auto simp: edge_text_of_def image_image dest!: edge_text_sql_SomeD)
  then have "set texts = (\<lambda>e. retrieval_text (edge_text_of e) (e_relationship e)) ` set ?rows"
    unfolding t by (simp add: image_image)
  with db show ?thesis by (simp add: edge_retrieval_text_def)
qed

text \<open>The SQL filter on candidate texts keeps every row that could produce one of them.\<close>

lemma produces_candidate:
  assumes "edge_retrieval_text e \<in> set batch"
  shows "holds (c_any [c_in (\<lambda>e. Some (trim (e_relationship e))) batch,
                       c_in (\<lambda>e. map_option trim (edge_text_of e)) batch]) e"
  using assms by (cases "edge_text_of e") (auto simp: edge_retrieval_text_def retrieval_text_def split: if_splits)

lemma collect_ok:
  assumes "collect f xs s = (Inr ys, s')"
    and "\<And>x s zs s'. x \<in> set xs \<Longrightarrow> P s \<Longrightarrow> f x s = (Inr zs, s') \<Longrightarrow> P s' \<and> set zs = g x"
    and "P s"
  shows "P s' \<and> set ys = (\<Union>x \<in> set xs. g x)"
  using assms
proof (induction xs arbitrary: s ys)
  case (Cons x xs)
  from Cons.prems(1) obtain zs s1 ws where "f x s = (Inr zs, s1)" "collect f xs s1 = (Inr ws, s')" "ys = zs @ ws"
    by (auto simp: and_then_def ok_def split: prod.splits sum.splits)
  moreover from this have "P s1" and "set zs = g x" using Cons.prems(2,3) by auto
  moreover have "P s' \<and> set ws = (\<Union>x \<in> set xs. g x)"
    by (rule Cons.IH [OF \<open>collect f xs s1 = (Inr ws, s')\<close> _ \<open>P s1\<close>]) (use Cons.prems(2) in auto)
  ultimately show ?case by simp
qed (simp add: ok_def)

definition claims_outside_item :: "ledger \<Rightarrow> uuid \<Rightarrow> uuid \<Rightarrow> str set" where
  "claims_outside_item t data_id dataset_id =
     edge_retrieval_text ` {e \<in> set (l_edges t). holds (survives_item data_id dataset_id t) e}"

lemma claimed_outside_data_ok:
  assumes "get_edge_retrieval_texts_claimed_outside_data backend data_id dataset_id candidates db
             = (Inr texts, db')"
  shows "db_tables db' = db_tables db
    \<and> set texts = set candidates \<inter> claims_outside_item (db_tables db) data_id dataset_id"
proof (cases "btree_set candidates = []")
  case True
  then have "set candidates = {}" by (metis set_btree_set list.set(1))
  with True assms show ?thesis
    by (auto simp: get_edge_retrieval_texts_claimed_outside_data_def Let_def ok_def)
next
  case False
  let ?W = "btree_set candidates"
  let ?t = "db_tables db"
  show ?thesis
  proof (cases "edge_text_sql backend")
    case None
    with False assms obtain ts where
      r: "retrieval_texts_where backend (survives_item data_id dataset_id) db = (Inr ts, db')"
      and t: "texts = btree_set (filter (\<lambda>x. x \<in> set ?W) ts)"
      by (auto simp: get_edge_retrieval_texts_claimed_outside_data_def Let_def and_then_def ok_def
          split: prod.splits sum.splits)
    from retrieval_texts_where_ok [OF r] show ?thesis
      unfolding t by (auto simp: claims_outside_item_def)
  next
    case (Some f)
    define cond where "cond = (\<lambda>batch t. c_all [survives_item data_id dataset_id t,
                      c_any [c_in (\<lambda>e. Some (trim (e_relationship e))) batch,
                             c_in (\<lambda>e. map_option trim (edge_text_of e)) batch]])"
    define body where "body = (\<lambda>batch. and_then (retrieval_texts_where backend (cond batch))
                   (\<lambda>texts. ok (filter (\<lambda>x. x \<in> set batch) texts)))"
    from Some have f: "f = edge_text_of" by (rule edge_text_sql_SomeD)
    from False assms obtain claimed where
      c: "collect body (chunks candidate_text_batch ?W) db = (Inr claimed, db')"
      and t: "texts = btree_set claimed"
      by (auto simp: get_edge_retrieval_texts_claimed_outside_data_def Let_def and_then_def ok_def
          Some f body_def cond_def split: prod.splits sum.splits)
    have "db_tables db' = ?t \<and> set claimed =
        (\<Union>batch \<in> set (chunks candidate_text_batch ?W). set batch \<inter> claims_outside_item ?t data_id dataset_id)"
    proof (rule collect_ok [OF c])
      fix batch s zs s'
      assume "db_tables s = ?t" and b: "body batch s = (Inr zs, s')"
      from b obtain ts where r: "retrieval_texts_where backend (cond batch) s = (Inr ts, s')"
        and zs: "zs = filter (\<lambda>x. x \<in> set batch) ts"
        by (auto simp: body_def and_then_def ok_def split: prod.splits sum.splits)
      have "set zs = set batch \<inter> claims_outside_item ?t data_id dataset_id"
        using retrieval_texts_where_ok [OF r] \<open>db_tables s = ?t\<close> produces_candidate [of _ batch]
        unfolding zs claims_outside_item_def cond_def by auto
      with retrieval_texts_where_ok [OF r] \<open>db_tables s = ?t\<close>
      show "db_tables s' = ?t \<and> set zs = set batch \<inter> claims_outside_item ?t data_id dataset_id"
        by simp
    qed simp
    moreover have "(\<Union>batch \<in> set (chunks candidate_text_batch ?W). set batch) = set candidates"
      using arg_cong [OF concat_chunks [of candidate_text_batch ?W], of set]
      by (simp add: candidate_text_batch_def)
    ultimately show ?thesis unfolding t by auto
  qed
qed

lemma claimed_outside_run_ok:
  assumes "get_edge_retrieval_texts_claimed_outside_run backend sc db = (Inr texts, db')"
  shows "db_tables db' = db_tables db
    \<and> set texts = edge_retrieval_text ` {e \<in> set (l_edges (db_tables db)). \<not> in_scope sc e}"
  using retrieval_texts_where_ok [OF assms [unfolded get_edge_retrieval_texts_claimed_outside_run_def]]
  by simp

section \<open>The queries of a run only read\<close>

lemma reads_retrieval_texts_where: "reads_only (retrieval_texts_where backend condition)"
  by (auto simp: retrieval_texts_where_def)

lemma run_queries_read:
  "reads_only (get_data_ids_for_run sc)" "reads_only (get_unique_nodes_for_run sc)"
  "reads_only (get_unique_edges_for_run sc)" "reads_only (get_edge_retrieval_texts_claimed_outside_run backend sc)"
  by (auto simp: get_data_ids_for_run_def get_unique_nodes_for_run_def get_unique_edges_for_run_def
      get_edge_retrieval_texts_claimed_outside_run_def reads_retrieval_texts_where)

lemma run_actions_return:
  "returns (get_data_ids_for_run sc)" "returns (get_unique_nodes_for_run sc)"
  "returns (get_unique_edges_for_run sc)" "returns (get_edge_retrieval_texts_claimed_outside_run backend sc)"
  "returns (delete_nodes_for_run sc)" "returns (delete_edges_for_run sc)"
  unfolding get_data_ids_for_run_def get_unique_nodes_for_run_def get_unique_edges_for_run_def
    get_edge_retrieval_texts_claimed_outside_run_def retrieval_texts_where_def
    delete_nodes_for_run_def delete_edges_for_run_def
  by (intro returns_rules)+

text \<open>The rows whose slug nobody outside the scope claims.\<close>

definition exclusive :: "run_scope \<Rightarrow> 'a graph_row_scheme list \<Rightarrow> 'a graph_row_scheme set" where
  "exclusive sc tbl = {r \<in> set tbl. in_scope sc r \<and> (\<forall>q \<in> set tbl. g_slug q = g_slug r \<longrightarrow> in_scope sc q)}"

lemma exclusive_for_run:
  "get_unique_nodes_for_run sc db = (Inr ns, db') \<Longrightarrow> set ns = exclusive sc (l_nodes (db_tables db))"
  "get_unique_edges_for_run sc db = (Inr es, db') \<Longrightarrow> set es = exclusive sc (l_edges (db_tables db))"
  using selects_nothing_none
  by (auto simp: get_unique_nodes_for_run_def get_unique_edges_for_run_def ok_def exclusive_def set_unique_for_run
      split: if_splits dest!: query_ok)

lemma data_ids_for_run_ok:
  assumes "get_data_ids_for_run sc db = (Inr ids, db')"
  shows "set ids = g_data_id ` {n \<in> set (l_nodes (db_tables db)). in_scope sc n}
      \<union> g_data_id ` {e \<in> set (l_edges (db_tables db)). in_scope sc e} \<and> distinct ids"
proof (cases "selects_nothing sc")
  case True
  with assms show ?thesis by (auto simp: get_data_ids_for_run_def ok_def selects_nothing_none)
next
  case False
  with assms show ?thesis
    by (auto simp: get_data_ids_for_run_def outcomes btree_set_def dest!: query_ok)
qed

lemma holds_run_selection_fun: "holds (run_selection sc) = in_scope sc"
  by (rule ext) simp

lemma delete_for_run_ok:
  "delete_nodes_for_run sc db = (Inr n, db') \<Longrightarrow>
     db_tables db' = (db_tables db)\<lparr>l_nodes := filter (\<lambda>r. \<not> in_scope sc r) (l_nodes (db_tables db))\<rparr>
     \<and> n = length (filter (in_scope sc) (l_nodes (db_tables db)))"
  "delete_edges_for_run sc db = (Inr m, db'') \<Longrightarrow>
     db_tables db'' = (db_tables db)\<lparr>l_edges := filter (\<lambda>r. \<not> in_scope sc r) (l_edges (db_tables db))\<rparr>
     \<and> m = length (filter (in_scope sc) (l_edges (db_tables db)))"
  by (auto simp: delete_nodes_for_run_def delete_edges_for_run_def ok_def select_where_def delete_where_def
      holds_run_selection_fun selects_nothing_none split: if_splits dest!: statement_ok)

lemma delete_for_run_err:
  "delete_nodes_for_run sc db = (Inl e, db') \<Longrightarrow> db_tables db' = db_tables db"
  "delete_edges_for_run sc db = (Inl e, db') \<Longrightarrow> db_tables db' = db_tables db"
  by (auto simp: delete_nodes_for_run_def delete_edges_for_run_def ok_def split: if_splits dest: statement_err)

text \<open>With no row in the scope every action of the run is a no-op.\<close>

lemma run_actions_empty:
  assumes "db_faults db = []"
    and "filter (in_scope sc) (l_nodes (db_tables db)) = []" and "filter (in_scope sc) (l_edges (db_tables db)) = []"
  shows "get_data_ids_for_run sc db = (Inr [], db)" "get_unique_nodes_for_run sc db = (Inr [], db)"
    "get_unique_edges_for_run sc db = (Inr [], db)" "delete_nodes_for_run sc db = (Inr 0, db)"
    "delete_edges_for_run sc db = (Inr 0, db)"
proof -
  have "set (unique_for_run (l_nodes (db_tables db)) sc) = {}" "set (unique_for_run (l_edges (db_tables db)) sc) = {}"
    using assms(2,3) unfolding set_unique_for_run by (auto simp: filter_empty_conv)
  then have u: "unique_for_run (l_nodes (db_tables db)) sc = []" "unique_for_run (l_edges (db_tables db)) sc = []"
    by simp_all
  have f: "filter (\<lambda>r. \<not> in_scope sc r) (l_nodes (db_tables db)) = l_nodes (db_tables db)"
    "filter (\<lambda>r. \<not> in_scope sc r) (l_edges (db_tables db)) = l_edges (db_tables db)"
    using assms(2,3) by (auto simp: filter_empty_conv filter_id_conv)
  show "get_data_ids_for_run sc db = (Inr [], db)" "get_unique_nodes_for_run sc db = (Inr [], db)"
    "get_unique_edges_for_run sc db = (Inr [], db)" "delete_nodes_for_run sc db = (Inr 0, db)"
    "delete_edges_for_run sc db = (Inr 0, db)"
    using assms u f
    by (simp_all add: get_data_ids_for_run_def get_unique_nodes_for_run_def get_unique_edges_for_run_def
        delete_nodes_for_run_def delete_edges_for_run_def ok_def and_then_def query_no_faults btree_set_def
        select_where_def delete_where_def holds_run_selection_fun)
qed

section \<open>Properties\<close>

text \<open>
  C24: the rows a sweep may act on are exactly the run's own rows whose artifact nobody outside
  the sweep claims. A row of another run, of no run (NULL), of another dataset or, when the scope
  is narrowed, of a data item that is kept, protects its slug.
\<close>

theorem unique_for_run_exact:
  assumes "get_unique_nodes_for_run sc db = (Inr ns, db')" and "get_unique_edges_for_run sc db = (Inr es, db'')"
  shows "set ns = {n \<in> set (l_nodes (db_tables db)). in_scope sc n \<and>
             \<not> (\<exists>q \<in> set (l_nodes (db_tables db)). g_slug q = g_slug n \<and> \<not> in_scope sc q)}
    \<and> set es = {e \<in> set (l_edges (db_tables db)). in_scope sc e \<and>
             \<not> (\<exists>q \<in> set (l_edges (db_tables db)). g_slug q = g_slug e \<and> \<not> in_scope sc q)}"
proof
  show "set ns = {n \<in> set (l_nodes (db_tables db)). in_scope sc n \<and>
             \<not> (\<exists>q \<in> set (l_nodes (db_tables db)). g_slug q = g_slug n \<and> \<not> in_scope sc q)}"
    using assms(1) selects_nothing_none
    by (auto simp: get_unique_nodes_for_run_def ok_def set_unique_for_run split: if_splits dest!: query_ok)
  show "set es = {e \<in> set (l_edges (db_tables db)). in_scope sc e \<and>
             \<not> (\<exists>q \<in> set (l_edges (db_tables db)). g_slug q = g_slug e \<and> \<not> in_scope sc q)}"
    using assms(2) selects_nothing_none
    by (auto simp: get_unique_edges_for_run_def ok_def set_unique_for_run split: if_splits dest!: query_ok)
qed

theorem unique_for_run_exact_witness:
  "\<exists>db' ns. get_unique_nodes_for_run (whole_run 7 9)
       (sample_db [sample_node 1 50 2 (Some 7) 0, sample_node 2 60 2 (Some 7) 0, sample_node 3 60 4 None 0] [] [] [])
     = (Inr ns, db') \<and> g_slug ` set ns = {50}"
proof -
  let ?tbl = "[sample_node 1 50 2 (Some 7) 0, sample_node 2 60 2 (Some 7) 0, sample_node 3 60 4 None 0]"
  let ?db = "sample_db ?tbl [] [] []"
  have q: "get_unique_nodes_for_run (whole_run 7 9) ?db = (Inr (unique_for_run ?tbl (whole_run 7 9)), ?db)"
    "get_unique_edges_for_run (whole_run 7 9) ?db = (Inr (unique_for_run [] (whole_run 7 9)), ?db)"
    by (simp_all add: get_unique_nodes_for_run_def get_unique_edges_for_run_def whole_run_def
        selects_nothing_def query_def statement_def sample_db_def)
  have "set (unique_for_run ?tbl (whole_run 7 9)) = {sample_node 1 50 2 (Some 7) 0}"
    unfolding unique_for_run_exact [OF q, THEN conjunct1] by (auto simp: whole_run_def in_scope_def)
  then have "g_slug ` set (unique_for_run ?tbl (whole_run 7 9)) = {50}" by simp
  with q(1) show ?thesis by blast
qed

text \<open>
  The question which candidate texts other items still claim has the same answer on every
  backend: the batched query, whose SQL filter pre-selects rows by trimmed columns, returns
  exactly the candidates that are the retrieval text of a surviving live edge row, as reading
  every surviving row does.
\<close>

lemma claimed_texts_backend_independent:
  assumes "get_edge_retrieval_texts_claimed_outside_data backend data_id dataset_id candidates db = (Inr texts, db')"
  shows "set texts = {x \<in> set candidates. \<exists>e \<in> set (l_edges (db_tables db)).
            holds (survives_item data_id dataset_id (db_tables db)) e \<and> edge_retrieval_text e = x}"
  using claimed_outside_data_ok [OF assms] by (auto simp: claims_outside_item_def)

lemma claimed_texts_backend_independent_witness:
  "\<exists>texts db'. get_edge_retrieval_texts_claimed_outside_data Sqlite 2 9 [[97], [98]]
       (sample_db [] [sample_edge 3 5 4 None 6 7 [32, 97], sample_edge 2 8 2 None 6 7 [98]] [] [])
     = (Inr texts, db') \<and> set texts = {[97]}"
proof -
  let ?es = "[sample_edge 3 5 4 None 6 7 [32, 97], sample_edge 2 8 2 None 6 7 [98]]"
  let ?db = "sample_db [] ?es [] []"
  let ?r = "get_edge_retrieval_texts_claimed_outside_data Sqlite 2 9 [[97], [98]] ?db"
  obtain texts where r: "?r = (Inr texts, ?db)"
    by (simp add: get_edge_retrieval_texts_claimed_outside_data_def btree_set_def edge_text_sql_def
        candidate_text_batch_def chunks.simps retrieval_texts_where_def query_def and_then_def ok_def
        statement_def sample_db_def Let_def)
  have tx: "edge_retrieval_text (sample_edge 3 5 4 None 6 7 [32, 97]) = [97]"
    "edge_retrieval_text (sample_edge 2 8 2 None 6 7 [98]) = [98]"
    by (simp_all add: edge_retrieval_text_def retrieval_text_def edge_text_of_def sample_edge_def trim_def
        is_whitespace_def unicode_white_space_def)
  have "set texts = {[97]}"
    unfolding claimed_texts_backend_independent [OF r]
    by (auto simp: survives_item_def tx structural_edges_iff live_claim_iff)
  with r show ?thesis by blast
qed

text \<open>
  A structural edge row (its \<open>data_id\<close> is nil) is attributed to a data item exactly when it
  is of the dataset and one of its endpoints is a node \<open>get_unique_nodes_for_data\<close> returns, that
  is, a node the item's delete removes from the graph.
\<close>

lemma structural_edges_by_exclusive_endpoint:
  assumes "get_structural_edges_for_data data_id dataset_id db = (Inr es, db')"
    and "get_unique_nodes_for_data data_id dataset_id db = (Inr ns, db'')"
  shows "set es = {e \<in> set (l_edges (db_tables db)). g_data_id e = nil_uuid \<and> g_dataset_id e = dataset_id
           \<and> (e_source e \<in> g_slug ` set ns \<or> e_destination e \<in> g_slug ` set ns)}"
proof -
  have ns: "ns = unique_for_data (l_nodes (db_tables db)) data_id dataset_id"
    using assms(2) by (auto simp: get_unique_nodes_for_data_def dest!: query_ok)
  show ?thesis
    using assms(1) unfolding ns
    by (auto simp: get_structural_edges_for_data_def structural_edges_iff dest!: query_ok)
qed

lemma structural_edges_by_exclusive_endpoint_witness:
  "\<exists>es db'. get_structural_edges_for_data 2 9
       (sample_db [sample_node 1 50 2 None 0, sample_node 3 60 4 None 0]
          [sample_edge 1 5 0 None 50 60 [97], sample_edge 2 6 0 None 60 60 [97]] [] [])
     = (Inr es, db') \<and> g_id ` set es = {1}"
proof -
  let ?ns = "[sample_node 1 50 2 None 0, sample_node 3 60 4 None 0]"
  let ?es = "[sample_edge 1 5 0 None 50 60 [97], sample_edge 2 6 0 None 60 60 [97]]"
  let ?db = "sample_db ?ns ?es [] []"
  have q: "get_structural_edges_for_data 2 9 ?db = (Inr (select_where ?es (structural_edges_owned_by ?ns 2 9)), ?db)"
    "get_unique_nodes_for_data 2 9 ?db = (Inr (unique_for_data ?ns 2 9), ?db)"
    by (simp_all add: get_structural_edges_for_data_def get_unique_nodes_for_data_def query_def statement_def sample_db_def)
  have "set (unique_for_data ?ns 2 9) = {sample_node 1 50 2 None 0}"
    by (auto simp: set_unique_for_data)
  then have u: "g_slug ` set (unique_for_data ?ns 2 9) = {50}" by simp
  have "set (select_where ?es (structural_edges_owned_by ?ns 2 9)) = {sample_edge 1 5 0 None 50 60 [97]}"
    unfolding structural_edges_by_exclusive_endpoint [OF q] u by auto
  then have "g_id ` set (select_where ?es (structural_edges_owned_by ?ns 2 9)) = {1}" by simp
  with q(1) show ?thesis by blast
qed

end
