(* ===== verification/Markers.thy ===== *)
theory Markers
  imports Claims
begin

text \<open>
  Completion markers: the \<open>pipeline_status\<close> column of \<open>data\<close>, a JSON object
  \<open>{pipeline: {dataset: status}}\<close> kept by \<open>crates/database/src/ops/data.rs\<close>. A dataset key is
  written dashed (\<open>uuid_str\<close>, the \<open>Display\<close> of a \<open>Uuid\<close>) and read dashed or as plain hex
  (\<open>uuid_hex\<close>, its \<open>simple\<close> rendering). \<open>updated_at\<close> is not modelled.
\<close>

definition cognify_pipeline_status_key :: str where
  "cognify_pipeline_status_key = lit ''cognify_pipeline''"

definition data_item_processing_completed :: str where
  "data_item_processing_completed = lit ''DATA_ITEM_PROCESSING_COMPLETED''"

definition pipeline_status_dataset_key_variants :: "(uuid \<Rightarrow> str) \<Rightarrow> (uuid \<Rightarrow> str) \<Rightarrow> uuid \<Rightarrow> str list" where
  "pipeline_status_dataset_key_variants uuid_str uuid_hex dataset_id = [uuid_str dataset_id, uuid_hex dataset_id]"

section \<open>The status document\<close>

definition parse_or_empty :: "json_doc option \<Rightarrow> json" where
  "parse_or_empty status = (case Option.bind status parse_doc of Some j \<Rightarrow> j | None \<Rightarrow> JObject [])"

definition entries :: "json \<Rightarrow> (str \<times> json) list" where
  "entries j = (case j of JObject m \<Rightarrow> m | _ \<Rightarrow> [])"

definition mark_status :: "str \<Rightarrow> json_doc option \<Rightarrow> json_doc" where
  "mark_status dataset_key status =
     (let outer = entries (parse_or_empty status);
          inner = (case map_of outer cognify_pipeline_status_key of Some v \<Rightarrow> entries v | None \<Rightarrow> []) in
      JsonText (JObject (obj_insert cognify_pipeline_status_key
        (JObject (obj_insert dataset_key (JString data_item_processing_completed) inner)) outer)))"

definition status_marked :: "str list \<Rightarrow> json_doc option \<Rightarrow> bool" where
  "status_marked dataset_keys status \<longleftrightarrow>
     (status \<noteq> None \<and>
      (case json_get cognify_pipeline_status_key (parse_or_empty status) of
         None \<Rightarrow> False
       | Some inner \<Rightarrow> list_ex (\<lambda>key. Option.bind (json_get key inner) as_str
                                       = Some data_item_processing_completed) dataset_keys))"

definition entry_has :: "str list \<Rightarrow> json \<Rightarrow> bool" where
  "entry_has keys v \<longleftrightarrow> list_ex (\<lambda>key. map_of (entries v) key \<noteq> None) keys"

definition clear_entry :: "str list \<Rightarrow> json \<Rightarrow> json" where
  "clear_entry keys v = (case v of JObject m \<Rightarrow> JObject (fold obj_remove keys m) | _ \<Rightarrow> v)"

text \<open>
  \<open>None\<close> when nothing was removed and the row is left alone; otherwise the new column value.
  \<open>sel\<close> selects the pipelines: all of them, or \<open>cognify_pipeline\<close> only.
\<close>

definition clear_status :: "(str \<Rightarrow> bool) \<Rightarrow> str list \<Rightarrow> json_doc option \<Rightarrow> json_doc option option" where
  "clear_status sel keys status =
     (if status = None then None
      else case parse_or_empty status of
        JObject outer \<Rightarrow>
          (if list_ex (\<lambda>kv. sel (fst kv) \<and> entry_has keys (snd kv)) outer then
             (let outer' = filter (\<lambda>kv. \<not> (sel (fst kv) \<and> snd kv = JObject []))
                           (map (\<lambda>kv. (fst kv, if sel (fst kv) then clear_entry keys (snd kv) else snd kv)) outer) in
              Some (if outer' = [] then None else Some (JsonText (JObject outer'))))
           else None)
      | _ \<Rightarrow> None)"

section \<open>The operations\<close>

definition find_data :: "uuid \<Rightarrow> data_row list \<Rightarrow> data_row option" where
  "find_data data_id rows = find (\<lambda>r. d_id r = data_id) rows"

definition set_status :: "uuid \<Rightarrow> json_doc option \<Rightarrow> ledger \<Rightarrow> ledger" where
  "set_status data_id status t =
     t\<lparr>l_data := map (\<lambda>r. if d_id r = data_id then r\<lparr>d_status := status\<rparr> else r) (l_data t)\<rparr>"

definition mark_cognify_pipeline_status_complete ::
  "(uuid \<Rightarrow> str) \<Rightarrow> uuid \<Rightarrow> uuid \<Rightarrow> unit db_action" where
  "mark_cognify_pipeline_status_complete uuid_str data_id dataset_id =
     and_then (query (\<lambda>t. find_data data_id (l_data t)))
       (\<lambda>model. case model of
          None \<Rightarrow> ok ()
        | Some r \<Rightarrow> exec (set_status data_id (Some (mark_status (uuid_str dataset_id) (d_status r)))))"

definition get_cognify_completed_data_ids ::
  "(uuid \<Rightarrow> str) \<Rightarrow> (uuid \<Rightarrow> str) \<Rightarrow> uuid \<Rightarrow> uuid list \<Rightarrow> uuid list db_action" where
  "get_cognify_completed_data_ids uuid_str uuid_hex dataset_id data_ids =
     (if data_ids = [] then ok []
      else and_then
        (collect (\<lambda>chunk.
             and_then (query (\<lambda>t. select_where (l_data t) (c_in (not_null d_id) chunk)))
               (\<lambda>models. ok (map d_id (filter (\<lambda>r. status_marked
                  (pipeline_status_dataset_key_variants uuid_str uuid_hex dataset_id) (d_status r)) models))))
           (chunks 500 data_ids))
        (\<lambda>completed. ok (btree_set completed)))"

definition clear_one :: "(str \<Rightarrow> bool) \<Rightarrow> str list \<Rightarrow> data_row \<Rightarrow> nat db_action" where
  "clear_one sel keys r =
     (case clear_status sel keys (d_status r) of
        None \<Rightarrow> ok 0
      | Some status \<Rightarrow> and_then (exec (set_status (d_id r) status)) (\<lambda>_. ok 1))"

fun clear_rows :: "(str \<Rightarrow> bool) \<Rightarrow> str list \<Rightarrow> data_row list \<Rightarrow> nat db_action" where
  "clear_rows sel keys [] = ok 0"
| "clear_rows sel keys (r # rs) =
     and_then (clear_one sel keys r) (\<lambda>n. and_then (clear_rows sel keys rs) (\<lambda>k. ok (n + k)))"

definition clear_pipeline_status_for_dataset ::
  "(uuid \<Rightarrow> str) \<Rightarrow> (uuid \<Rightarrow> str) \<Rightarrow> uuid \<Rightarrow> nat db_action" where
  "clear_pipeline_status_for_dataset uuid_str uuid_hex dataset_id =
     and_then (query (\<lambda>t. select_where (l_data t) (c_eq d_dataset_id dataset_id)))
       (clear_rows (\<lambda>_. True) (pipeline_status_dataset_key_variants uuid_str uuid_hex dataset_id))"

definition clear_cognify_pipeline_status_for_data ::
  "(uuid \<Rightarrow> str) \<Rightarrow> (uuid \<Rightarrow> str) \<Rightarrow> uuid \<Rightarrow> uuid \<Rightarrow> unit db_action" where
  "clear_cognify_pipeline_status_for_data uuid_str uuid_hex data_id dataset_id =
     and_then (query (\<lambda>t. find_data data_id (l_data t)))
       (\<lambda>model. case model of
          None \<Rightarrow> ok ()
        | Some r \<Rightarrow>
            (case clear_status (\<lambda>p. p = cognify_pipeline_status_key)
                    (pipeline_status_dataset_key_variants uuid_str uuid_hex dataset_id) (d_status r) of
               None \<Rightarrow> ok ()
             | Some status \<Rightarrow> exec (set_status data_id status)))"

section \<open>What is read back\<close>

text \<open>The value stored for a pipeline and a dataset key.\<close>

definition marker :: "json_doc option \<Rightarrow> str \<Rightarrow> str \<Rightarrow> json option" where
  "marker status p k = Option.bind (json_get p (parse_or_empty status)) (json_get k)"

text \<open>The keys of a parsed object are distinct.\<close>

definition wf_status :: "json_doc option \<Rightarrow> bool" where
  "wf_status status \<longleftrightarrow> distinct (map fst (entries (parse_or_empty status)))"

lemma json_get_entries: "json_get k j = map_of (entries j) k"
  by (cases j) (auto simp: json_get_def entries_def)

lemma json_get_JObject [simp]: "json_get k (JObject m) = map_of m k"
  by (simp add: json_get_def)

lemma parse_or_empty_JsonText [simp]: "parse_or_empty (Some (JsonText j)) = j"
  by (simp add: parse_or_empty_def parse_doc_def)

lemma parse_or_empty_None [simp]: "parse_or_empty None = JObject []"
  by (simp add: parse_or_empty_def)

lemma entries_JObject [simp]: "entries (JObject m) = m"
  by (simp add: entries_def)

lemma marker_mark_status:
  "marker (Some (mark_status k0 status)) p k =
     (if p = cognify_pipeline_status_key \<and> k = k0
      then Some (JString data_item_processing_completed) else marker status p k)"
  by (auto simp: marker_def mark_status_def Let_def json_get_entries split: option.splits)

lemma wf_mark_status: "wf_status status \<Longrightarrow> wf_status (Some (mark_status k0 status))"
  by (simp add: wf_status_def mark_status_def Let_def distinct_obj_insert)

lemma map_of_fold_remove: "map_of (fold obj_remove keys m) k = (if k \<in> set keys then None else map_of m k)"
  by (induction keys arbitrary: m) auto

lemma map_of_filter_map:
  "distinct (map fst m) \<Longrightarrow>
     map_of (filter (\<lambda>kv. P (fst kv) (snd kv)) (map (\<lambda>kv. (fst kv, h (fst kv) (snd kv))) m)) k =
       Option.bind (map_of m k) (\<lambda>v. if P k (h k v) then Some (h k v) else None)"
proof (induction m)
  case (Cons kv m)
  have "map_of m k = None" if "k = fst kv" using Cons.prems that by (simp add: map_of_eq_None_iff)
  with Cons show ?case by auto
qed simp

lemma json_get_clear_entry:
  "json_get k (clear_entry keys v) = (if k \<in> set keys then None else json_get k v)"
  by (cases v) (auto simp: clear_entry_def json_get_def map_of_fold_remove)

lemma clear_entry_empty: "clear_entry keys v = JObject [] \<Longrightarrow> k \<notin> set keys \<Longrightarrow> json_get k v = None"
  using json_get_clear_entry [of k keys v] by (simp add: json_get_def)

definition cleared :: "(str \<Rightarrow> bool) \<Rightarrow> str list \<Rightarrow> json_doc option \<Rightarrow> json_doc option" where
  "cleared sel keys status = (case clear_status sel keys status of None \<Rightarrow> status | Some s \<Rightarrow> s)"

lemma marker_cleared:
  assumes "wf_status status"
  shows "marker (cleared sel keys status) p k = (if sel p \<and> k \<in> set keys then None else marker status p k)
    \<and> wf_status (cleared sel keys status)"
proof (cases "clear_status sel keys status")
  case None
  have "marker status p k = None" if "sel p" "k \<in> set keys"
  proof (cases "map_of (entries (parse_or_empty status)) p")
    case None
    then show ?thesis by (simp add: marker_def json_get_entries)
  next
    case (Some v)
    then have "(p, v) \<in> set (entries (parse_or_empty status))" by (rule map_of_SomeD)
    with None that have "map_of (entries v) k = None"
      by (cases "parse_or_empty status"; cases status)
        (auto simp: clear_status_def list_ex_iff entry_has_def entries_def Let_def split: if_splits)
    with Some show ?thesis by (simp add: marker_def json_get_entries)
  qed
  with None assms show ?thesis by (simp add: cleared_def)
next
  case (Some s)
  then obtain outer where outer: "parse_or_empty status = JObject outer"
    and s: "s = (let outer' = filter (\<lambda>kv. \<not> (sel (fst kv) \<and> snd kv = JObject []))
                           (map (\<lambda>kv. (fst kv, if sel (fst kv) then clear_entry keys (snd kv) else snd kv)) outer) in
              (if outer' = [] then None else Some (JsonText (JObject outer'))))"
    by (auto simp: clear_status_def Let_def split: if_splits json.splits)
  have d: "distinct (map fst outer)" using assms outer by (simp add: wf_status_def)
  define outer' where "outer' = filter (\<lambda>kv. \<not> (sel (fst kv) \<and> snd kv = JObject []))
                           (map (\<lambda>kv. (fst kv, if sel (fst kv) then clear_entry keys (snd kv) else snd kv)) outer)"
  have e: "parse_or_empty s = JObject outer'" using s by (auto simp: outer'_def Let_def)
  have "map_of outer' p = Option.bind (map_of outer p)
      (\<lambda>v. if \<not> (sel p \<and> (if sel p then clear_entry keys v else v) = JObject [])
           then Some (if sel p then clear_entry keys v else v) else None)"
    unfolding outer'_def
    using map_of_filter_map [OF d, of "\<lambda>k v. \<not> (sel k \<and> v = JObject [])"
        "\<lambda>k v. if sel k then clear_entry keys v else v" p] .
  then have "marker s p k = (if sel p \<and> k \<in> set keys then None else marker status p k)"
    unfolding marker_def e outer json_get_JObject
    by (cases "map_of outer p") (auto simp: json_get_clear_entry dest: clear_entry_empty)
  moreover have "distinct (map fst outer')"
    unfolding outer'_def using d by (simp add: distinct_map_filter comp_def)
  ultimately show ?thesis using Some e by (simp add: cleared_def wf_status_def)
qed

lemma bind_as_str: "Option.bind x as_str = Some s \<longleftrightarrow> x = Some (JString s)"
  by (cases x) (auto simp: as_str_def split: json.splits)

lemma status_marked_iff:
  "status_marked keys status \<longleftrightarrow>
     (\<exists>k \<in> set keys. marker status cognify_pipeline_status_key k = Some (JString data_item_processing_completed))"
proof (cases "status = None")
  case True
  then show ?thesis by (simp add: status_marked_def marker_def)
next
  case False
  then show ?thesis
    by (cases "json_get cognify_pipeline_status_key (parse_or_empty status)")
      (simp_all add: status_marked_def marker_def list_ex_iff bind_as_str)
qed

section \<open>The operations on the table\<close>

text \<open>Update the status of the rows \<open>sel_row\<close> picks.\<close>

definition update_status ::
  "(data_row \<Rightarrow> bool) \<Rightarrow> (json_doc option \<Rightarrow> json_doc option) \<Rightarrow> ledger \<Rightarrow> ledger" where
  "update_status sel_row f t =
     t\<lparr>l_data := map (\<lambda>r. if sel_row r then r\<lparr>d_status := f (d_status r)\<rparr> else r) (l_data t)\<rparr>"

definition data_keyed :: "ledger \<Rightarrow> bool" where
  "data_keyed t \<longleftrightarrow> distinct (map d_id (l_data t))"

lemma find_dataD: "find_data i rows = Some r \<Longrightarrow> r \<in> set rows \<and> d_id r = i"
  by (induction rows) (auto simp: find_data_def split: if_splits)

lemma find_data_None: "find_data i rows = None \<Longrightarrow> \<forall>r \<in> set rows. d_id r \<noteq> i"
  by (induction rows) (auto simp: find_data_def split: if_splits)

lemma same_id_same_row:
  "data_keyed t \<Longrightarrow> r \<in> set (l_data t) \<Longrightarrow> q \<in> set (l_data t) \<Longrightarrow> d_id r = d_id q \<Longrightarrow> r = q"
  by (auto simp: data_keyed_def distinct_map dest: inj_onD)

lemma set_status_update:
  assumes "data_keyed t" and "r \<in> set (l_data t)" and "d_id r = i"
  shows "set_status i (f (d_status r)) t = update_status (\<lambda>q. d_id q = i) f t"
proof -
  have "map (\<lambda>q. if d_id q = i then q\<lparr>d_status := f (d_status r)\<rparr> else q) (l_data t)
      = map (\<lambda>q. if d_id q = i then q\<lparr>d_status := f (d_status q)\<rparr> else q) (l_data t)"
    using same_id_same_row [OF assms(1,2)] assms(3) by (intro map_cong refl) auto
  then show ?thesis by (simp add: set_status_def update_status_def)
qed

lemma update_status_nothing: "\<forall>r \<in> set (l_data t). sel_row r \<longrightarrow> f (d_status r) = d_status r \<Longrightarrow> update_status sel_row f t = t"
  by (cases t) (auto simp: update_status_def intro!: map_idI)

lemma mark_ok:
  assumes "mark_cognify_pipeline_status_complete uuid_str data_id dataset_id db = (Inr x, db')"
    and "data_keyed (db_tables db)"
  shows "db_tables db' =
    update_status (\<lambda>r. d_id r = data_id) (\<lambda>s. Some (mark_status (uuid_str dataset_id) s)) (db_tables db)"
proof -
  let ?t = "db_tables db"
  from assms(1) obtain db1 where q: "query (\<lambda>t. find_data data_id (l_data t)) db = (Inr (find_data data_id (l_data ?t)), db1)"
    and t1: "db_tables db1 = ?t"
    by (auto simp: mark_cognify_pipeline_status_complete_def and_then_def split: prod.splits sum.splits dest: query_ok)
  show ?thesis
  proof (cases "find_data data_id (l_data ?t)")
    case None
    with assms(1) q t1 have "db_tables db' = ?t"
      by (auto simp: mark_cognify_pipeline_status_complete_def and_then_def ok_def)
    with update_status_nothing [of ?t] find_data_None [OF None] show ?thesis by auto
  next
    case (Some r)
    with assms(1) q t1 have "db_tables db' = set_status data_id (Some (mark_status (uuid_str dataset_id) (d_status r))) ?t"
      by (auto simp: mark_cognify_pipeline_status_complete_def and_then_def dest: exec_ok)
    with set_status_update [OF assms(2), of r data_id "\<lambda>s. Some (mark_status (uuid_str dataset_id) s)"]
      find_dataD [OF Some] show ?thesis by simp
  qed
qed

lemma clear_for_data_ok:
  assumes "clear_cognify_pipeline_status_for_data uuid_str uuid_hex data_id dataset_id db = (Inr x, db')"
    and "data_keyed (db_tables db)"
  shows "db_tables db' = update_status (\<lambda>r. d_id r = data_id)
    (cleared (\<lambda>p. p = cognify_pipeline_status_key)
       (pipeline_status_dataset_key_variants uuid_str uuid_hex dataset_id)) (db_tables db)"
proof -
  let ?t = "db_tables db"
  let ?c = "clear_status (\<lambda>p. p = cognify_pipeline_status_key)
       (pipeline_status_dataset_key_variants uuid_str uuid_hex dataset_id)"
  from assms(1) obtain db1 where q: "query (\<lambda>t. find_data data_id (l_data t)) db = (Inr (find_data data_id (l_data ?t)), db1)"
    and t1: "db_tables db1 = ?t"
    by (auto simp: clear_cognify_pipeline_status_for_data_def and_then_def split: prod.splits sum.splits dest: query_ok)
  show ?thesis
  proof (cases "find_data data_id (l_data ?t)")
    case None
    with assms(1) q t1 have "db_tables db' = ?t"
      by (auto simp: clear_cognify_pipeline_status_for_data_def and_then_def ok_def)
    with update_status_nothing [of ?t] find_data_None [OF None] show ?thesis by auto
  next
    case (Some r)
    note r = find_dataD [OF Some]
    show ?thesis
    proof (cases "?c (d_status r)")
      case None
      with assms(1) q t1 Some have "db_tables db' = ?t"
        by (auto simp: clear_cognify_pipeline_status_for_data_def and_then_def ok_def)
      moreover have "set_status data_id (d_status r) ?t = ?t"
        using set_status_update [OF assms(2), of r data_id id] r by (simp add: update_status_nothing)
      ultimately show ?thesis
        using set_status_update [OF assms(2), of r data_id "cleared (\<lambda>p. p = cognify_pipeline_status_key)
           (pipeline_status_dataset_key_variants uuid_str uuid_hex dataset_id)"] r None
        by (simp add: cleared_def)
    next
      case (Some s)
      with assms(1) q t1 \<open>find_data data_id (l_data ?t) = Some r\<close> have "db_tables db' = set_status data_id s ?t"
        by (auto simp: clear_cognify_pipeline_status_for_data_def and_then_def dest: exec_ok)
      then show ?thesis
        using set_status_update [OF assms(2), of r data_id "cleared (\<lambda>p. p = cognify_pipeline_status_key)
           (pipeline_status_dataset_key_variants uuid_str uuid_hex dataset_id)"] r Some
        by (simp add: cleared_def)
    qed
  qed
qed

lemma clear_for_data_err:
  assumes "clear_cognify_pipeline_status_for_data uuid_str uuid_hex data_id dataset_id db = (Inl e, db')"
  shows "db_tables db' = db_tables db"
  using assms
  by (auto simp: clear_cognify_pipeline_status_for_data_def and_then_def ok_def
      split: prod.splits sum.splits option.splits dest!: query_ok dest: query_err exec_err)

lemma clear_for_data_returns: "returns (clear_cognify_pipeline_status_for_data uuid_str uuid_hex data_id dataset_id)"
  unfolding clear_cognify_pipeline_status_for_data_def
  by (intro returns_rules) (auto split: option.split intro!: returns_rules)

lemma mark_err:
  assumes "mark_cognify_pipeline_status_complete uuid_str data_id dataset_id db = (Inl e, db')"
  shows "db_tables db' = db_tables db"
  using assms
  by (auto simp: mark_cognify_pipeline_status_complete_def and_then_def ok_def
      split: prod.splits sum.splits option.splits dest!: query_ok dest: query_err exec_err)

lemma update_status_keyed [simp]: "data_keyed (update_status sel_row f t) = data_keyed t"
  by (simp add: data_keyed_def update_status_def comp_def if_distrib cong: if_cong)

lemma update_status_frame [simp]:
  "l_nodes (update_status sel_row f t) = l_nodes t" "l_edges (update_status sel_row f t) = l_edges t"
  by (simp_all add: update_status_def)

lemma completed_ok:
  assumes "get_cognify_completed_data_ids uuid_str uuid_hex dataset_id data_ids db = (Inr ids, db')"
  shows "db_tables db' = db_tables db \<and> set ids = {d_id r | r. r \<in> set (l_data (db_tables db)) \<and> d_id r \<in> set data_ids
     \<and> status_marked (pipeline_status_dataset_key_variants uuid_str uuid_hex dataset_id) (d_status r)}"
proof (cases "data_ids = []")
  case True
  with assms show ?thesis by (simp add: get_cognify_completed_data_ids_def ok_def)
next
  case False
  let ?t = "db_tables db"
  let ?keys = "pipeline_status_dataset_key_variants uuid_str uuid_hex dataset_id"
  define body where "body = (\<lambda>chunk. and_then (query (\<lambda>t :: ledger. select_where (l_data t) (c_in (not_null d_id) chunk)))
               (\<lambda>models. ok (map d_id (filter (\<lambda>r. status_marked ?keys (d_status r)) models))))"
  from False assms obtain zs where c: "collect body (chunks 500 data_ids) db = (Inr zs, db')" and i: "ids = btree_set zs"
    by (auto simp: get_cognify_completed_data_ids_def and_then_def ok_def body_def split: prod.splits sum.splits)
  have "db_tables db' = ?t \<and> set zs = (\<Union>chunk \<in> set (chunks 500 data_ids).
      {d_id r | r. r \<in> set (l_data ?t) \<and> d_id r \<in> set chunk \<and> status_marked ?keys (d_status r)})"
  proof (rule collect_ok [OF c])
    fix chunk s ys s'
    assume "db_tables s = ?t" and "body chunk s = (Inr ys, s')"
    then show "db_tables s' = ?t \<and> set ys = {d_id r | r. r \<in> set (l_data ?t) \<and> d_id r \<in> set chunk \<and> status_marked ?keys (d_status r)}"
      by (auto simp: body_def and_then_def ok_def split: prod.splits sum.splits dest!: query_ok)
  qed simp
  moreover have u: "set data_ids = (\<Union>chunk \<in> set (chunks 500 data_ids). set chunk)"
    using arg_cong [OF concat_chunks [of 500 data_ids], of set] by simp
  ultimately show ?thesis unfolding i u set_btree_set by blast
qed

section \<open>Properties\<close>

text \<open>
  C29: marking a data item complete for a dataset makes \<open>get_cognify_completed_data_ids\<close> report
  it, and leaves every other marker as it was: other datasets' and other pipelines' entries of
  the item, all entries of other items, and the provenance tables.
\<close>

theorem mark_complete_reported:
  assumes "data_keyed (db_tables db)" and "r \<in> set (l_data (db_tables db))"
    and "mark_cognify_pipeline_status_complete uuid_str (d_id r) dataset_id db = (Inr x, db1)"
    and "get_cognify_completed_data_ids uuid_str uuid_hex dataset_id [d_id r] db1 = (Inr ids, db2)"
  shows "ids = [d_id r]
    \<and> (\<exists>f. db_tables db2 = update_status (\<lambda>q. d_id q = d_id r) f (db_tables db)
         \<and> (\<forall>s p k. (p, k) \<noteq> (cognify_pipeline_status_key, uuid_str dataset_id) \<longrightarrow> marker (f s) p k = marker s p k))"
proof -
  let ?f = "\<lambda>s. Some (mark_status (uuid_str dataset_id) s)"
  have t1: "db_tables db1 = update_status (\<lambda>q. d_id q = d_id r) ?f (db_tables db)"
    using mark_ok [OF assms(3,1)] .
  have "marker (?f (d_status r)) cognify_pipeline_status_key (uuid_str dataset_id) =
      Some (JString data_item_processing_completed)"
    by (simp add: marker_mark_status)
  then have m: "status_marked (pipeline_status_dataset_key_variants uuid_str uuid_hex dataset_id) (?f (d_status r))"
    unfolding status_marked_iff by (auto simp: pipeline_status_dataset_key_variants_def)
  have "r\<lparr>d_status := ?f (d_status r)\<rparr> \<in> set (l_data (db_tables db1))"
    using assms(2) unfolding t1 update_status_def by (auto simp: image_iff intro!: bexI [of _ r])
  with m have "d_id r \<in> set ids"
    using completed_ok [OF assms(4)] by (auto intro!: exI [of _ "r\<lparr>d_status := ?f (d_status r)\<rparr>"])
  moreover have "set ids \<subseteq> {d_id r}" using completed_ok [OF assms(4)] by auto
  moreover have "distinct ids"
    using assms(4) by (auto simp: get_cognify_completed_data_ids_def and_then_def ok_def btree_set_def
        split: prod.splits sum.splits)
  ultimately have "ids = [d_id r]"
    by (cases ids; cases "tl ids") auto
  moreover have "db_tables db2 = db_tables db1" using completed_ok [OF assms(4)] by simp
  ultimately show ?thesis using t1 marker_mark_status [of "uuid_str dataset_id"] by auto
qed

theorem mark_complete_reported_witness:
  "\<exists>db1 db2. mark_cognify_pipeline_status_complete (\<lambda>_. [1]) 4 9
        (sample_db [] [] [sample_data 4 (Some 9) (Some (Malformed []))] []) = (Inr (), db1)
    \<and> get_cognify_completed_data_ids (\<lambda>_. [1]) (\<lambda>_. [2]) 9 [4] db1 = (Inr [4], db2)"
proof -
  let ?r = "sample_data 4 (Some 9) (Some (Malformed []))"
  let ?db = "sample_db [] [] [?r] []"
  obtain db1 where m: "mark_cognify_pipeline_status_complete (\<lambda>_. [1]) (d_id ?r) 9 ?db = (Inr (), db1)"
    and f: "db_faults db1 = []"
    by (simp add: mark_cognify_pipeline_status_complete_def query_def exec_def statement_def and_then_def
        sample_db_def find_data_def)
  obtain ids where c: "get_cognify_completed_data_ids (\<lambda>_. [1]) (\<lambda>_. [2]) 9 [d_id ?r] db1 = (Inr ids, db1)"
    using f by (auto simp: get_cognify_completed_data_ids_def chunks.simps query_def statement_def and_then_def ok_def)
  have "data_keyed (db_tables ?db)" and "?r \<in> set (l_data (db_tables ?db))"
    by (simp_all add: data_keyed_def)
  from mark_complete_reported [OF this m c] m c show ?thesis by auto
qed

text \<open>
  Clearing the cognify marker of an item for a dataset removes it under both key encodings,
  so the item is no longer reported complete, and keeps every other entry of the document; a
  failed call has changed nothing.
\<close>

lemma clear_marker_removes:
  assumes "data_keyed (db_tables db)" and "r \<in> set (l_data (db_tables db))" and "wf_status (d_status r)"
    and "clear_cognify_pipeline_status_for_data uuid_str uuid_hex (d_id r) dataset_id db = (Inr x, db1)"
  shows "\<exists>s. r\<lparr>d_status := s\<rparr> \<in> set (l_data (db_tables db1))
    \<and> \<not> status_marked (pipeline_status_dataset_key_variants uuid_str uuid_hex dataset_id) s
    \<and> (\<forall>p k. \<not> (p = cognify_pipeline_status_key \<and> k \<in> {uuid_str dataset_id, uuid_hex dataset_id})
          \<longrightarrow> marker s p k = marker (d_status r) p k)"
proof -
  let ?sel = "\<lambda>p. p = cognify_pipeline_status_key"
  let ?keys = "pipeline_status_dataset_key_variants uuid_str uuid_hex dataset_id"
  let ?s = "cleared ?sel ?keys (d_status r)"
  have "r\<lparr>d_status := ?s\<rparr> \<in> set (l_data (db_tables db1))"
    using assms(2) unfolding clear_for_data_ok [OF assms(4,1)] update_status_def
    by (auto simp: image_iff intro!: bexI [of _ r])
  moreover have "\<not> status_marked ?keys ?s"
    unfolding status_marked_iff using marker_cleared [OF assms(3), of ?sel ?keys] by auto
  moreover have "marker ?s p k = marker (d_status r) p k"
    if "\<not> (p = cognify_pipeline_status_key \<and> k \<in> {uuid_str dataset_id, uuid_hex dataset_id})" for p k
    using that marker_cleared [OF assms(3), of ?sel ?keys p k] by (auto simp: pipeline_status_dataset_key_variants_def)
  ultimately show ?thesis by blast
qed

lemma clear_marker_removes_witness:
  "\<exists>db1 s. clear_cognify_pipeline_status_for_data (\<lambda>_. [1]) (\<lambda>_. [2]) 4 9
        (sample_db [] [] [sample_data 4 (Some 9) (Some (JsonText (JObject [(cognify_pipeline_status_key,
               JObject [([2], JString data_item_processing_completed)])])))] []) = (Inr (), db1)
    \<and> l_data (db_tables db1) = [sample_data 4 (Some 9) s]
    \<and> \<not> status_marked [[1], [2]] s"
proof -
  let ?r = "sample_data 4 (Some 9) (Some (JsonText (JObject [(cognify_pipeline_status_key,
               JObject [([2], JString data_item_processing_completed)])])))"
  let ?db = "sample_db [] [] [?r] []"
  let ?out = "clear_cognify_pipeline_status_for_data (\<lambda>_. [1]) (\<lambda>_. [2]) (d_id ?r) 9 ?db"
  have "fst ?out = Inr ()" and "length (l_data (db_tables (snd ?out))) = 1"
    by (simp_all add: clear_cognify_pipeline_status_for_data_def query_def exec_def statement_def and_then_def
        sample_db_def find_data_def clear_status_def entry_has_def pipeline_status_dataset_key_variants_def
        parse_or_empty_def parse_doc_def set_status_def)
  then obtain db1 where m: "?out = (Inr (), db1)" and t: "length (l_data (db_tables db1)) = 1"
    by (cases ?out) auto
  have "data_keyed (db_tables ?db)" and "?r \<in> set (l_data (db_tables ?db))" and "wf_status (d_status ?r)"
    by (simp_all add: data_keyed_def wf_status_def)
  from clear_marker_removes [OF this m] obtain s where
    "?r\<lparr>d_status := s\<rparr> \<in> set (l_data (db_tables db1))" "\<not> status_marked [[1], [2]] s"
    by (auto simp: pipeline_status_dataset_key_variants_def)
  with t m show ?thesis by (auto simp: length_Suc_conv)
qed

end
