(* ===== verification/Stores.thy ===== *)
theory Stores
  imports Markers
begin

text \<open>
  What the delete paths need of the graph and vector stores: the calls of the trait objects
  \<open>Arc<dyn GraphDBTrait>\<close> and \<open>Arc<dyn VectorDB>\<close> they make, as records of functions over a
  store state, and the laws they rely on, as locales.

  The laws are the traits' documented behaviour: a call that returns \<open>Ok\<close> has removed exactly
  what it was given; a call that fails may have removed part of it and nothing else; reads
  change nothing.
\<close>

type_synonym graph_hit = "str \<times> (str \<times> json) list"

record 'g graph_db =
  gdb_delete_nodes :: "str list \<Rightarrow> ('g, str, unit) action"
  gdb_delete_graph :: "('g, str, unit) action"
  gdb_get_degree_one_nodes :: "str \<Rightarrow> ('g, str, graph_hit list) action"
  gdb_get_zero_degree_edge_type_nodes :: "('g, str, graph_hit list) action"

record 'v vector_db =
  vdb_has_collection :: "str \<Rightarrow> str \<Rightarrow> ('v, str, bool) action"
  vdb_retrieve :: "str \<Rightarrow> str \<Rightarrow> uuid list \<Rightarrow> ('v, str, uuid list) action"
  vdb_delete_points :: "str \<Rightarrow> str \<Rightarrow> uuid list \<Rightarrow> ('v, str, unit) action"
  vdb_list_collections :: "('v, str, (str \<times> str) list) action"
  vdb_delete_collection :: "str \<Rightarrow> str \<Rightarrow> ('v, str, unit) action"

text \<open>The name of a collection: two pairs with the same name are one collection.\<close>

definition collection_key :: "str \<Rightarrow> str \<Rightarrow> str" where
  "collection_key data_type field_name = data_type @ lit ''_'' @ field_name"

locale graph_store =
  fixes G :: "'g graph_db" and nodes_of :: "'g \<Rightarrow> str set"
  assumes delete_nodes_ok:
      "gdb_delete_nodes G ids g = (Inr x, g') \<Longrightarrow> nodes_of g' = nodes_of g - set ids"
    and delete_nodes_err:
      "gdb_delete_nodes G ids g = (Inl e, g') \<Longrightarrow> nodes_of g - set ids \<subseteq> nodes_of g' \<and> nodes_of g' \<subseteq> nodes_of g"
    and delete_graph_ok: "gdb_delete_graph G g = (Inr x, g') \<Longrightarrow> nodes_of g' = {}"
    and delete_graph_err: "gdb_delete_graph G g = (Inl e, g') \<Longrightarrow> nodes_of g' \<subseteq> nodes_of g"
    and degree_one_reads: "gdb_get_degree_one_nodes G ty g = (hits_r, g') \<Longrightarrow> nodes_of g' = nodes_of g"
    and degree_one_ids: "gdb_get_degree_one_nodes G ty g = (Inr hits, g') \<Longrightarrow> fst ` set hits \<subseteq> nodes_of g"
    and zero_degree_reads:
      "gdb_get_zero_degree_edge_type_nodes G g = (hits_r, g') \<Longrightarrow> nodes_of g' = nodes_of g"
    and zero_degree_ids:
      "gdb_get_zero_degree_edge_type_nodes G g = (Inr hits, g') \<Longrightarrow> fst ` set hits \<subseteq> nodes_of g"
begin

lemma delete_nodes_bounds:
  "gdb_delete_nodes G ids g = (r, g') \<Longrightarrow> nodes_of g - set ids \<subseteq> nodes_of g' \<and> nodes_of g' \<subseteq> nodes_of g"
  using delete_nodes_ok delete_nodes_err by (cases r) blast+

end

locale vector_store =
  fixes V :: "'v vector_db" and points_of :: "'v \<Rightarrow> str \<Rightarrow> uuid set"
  assumes has_collection_reads:
      "vdb_has_collection V dt fn v = (r, v') \<Longrightarrow> points_of v' = points_of v"
    and has_collection_no:
      "vdb_has_collection V dt fn v = (Inr False, v') \<Longrightarrow> points_of v (collection_key dt fn) = {}"
    and retrieve_reads:
      "vdb_retrieve V dt fn ids v = (found_r, v') \<Longrightarrow> points_of v' = points_of v"
    and retrieve_ok:
      "vdb_retrieve V dt fn ids v = (Inr found, v') \<Longrightarrow>
         set found = set ids \<inter> points_of v (collection_key dt fn)"
    and delete_points_ok:
      "vdb_delete_points V dt fn ids v = (Inr x, v') \<Longrightarrow>
         points_of v' = (points_of v)(collection_key dt fn := points_of v (collection_key dt fn) - set ids)"
    and delete_points_err:
      "vdb_delete_points V dt fn ids v = (Inl e, v') \<Longrightarrow>
         points_of v' k \<subseteq> points_of v k \<and>
         points_of v k - (if k = collection_key dt fn then set ids else {}) \<subseteq> points_of v' k"
    and list_collections_reads:
      "vdb_list_collections V v = (listed_r, v') \<Longrightarrow> points_of v' = points_of v"
    and delete_collection_ok:
      "vdb_delete_collection V dt fn v = (Inr x, v') \<Longrightarrow> points_of v' = (points_of v)(collection_key dt fn := {})"
    and delete_collection_err:
      "vdb_delete_collection V dt fn v = (Inl e, v') \<Longrightarrow>
         points_of v' k \<subseteq> points_of v k \<and> (k \<noteq> collection_key dt fn \<longrightarrow> points_of v' k = points_of v k)"
begin

lemma delete_points_bounds:
  "vdb_delete_points V dt fn ids v = (r, v') \<Longrightarrow> points_of v' k \<subseteq> points_of v k \<and>
     points_of v k - (if k = collection_key dt fn then set ids else {}) \<subseteq> points_of v' k"
  using delete_points_ok [of dt fn ids v _ v'] delete_points_err [of dt fn ids v _ v' k]
  by (cases r) auto

end

end
