(* ===== verification/Vector_Memory.thy ===== *)
theory Vector_Memory
  imports Stores "HOL-Library.Multiset"
begin

text \<open>
  The in-memory vector store: \<open>crates/vector/src/brute_force_vector_db.rs\<close>, the point and fold
  functions of \<open>models.rs\<close> and the node-set filter of \<open>node_filter.rs\<close>.

  A vector component \<open>'f\<close> (\<open>f32\<close>) is opaque and \<open>similarity\<close> stands for \<open>cosine_similarity\<close>, with
  values in a linear order as \<open>total_cmp\<close> gives one. The hash map of collections is an
  association list, its metadata maps JSON objects.
\<close>

section \<open>Points\<close>

record 'f vector_point =
  vp_id :: uuid
  vp_vector :: "'f list"
  vp_metadata :: "(str \<times> json) list"

definition write_window_bytes :: nat where
  "write_window_bytes = 16 * 1024 * 1024"

definition write_window_points :: "nat \<Rightarrow> nat" where
  "write_window_points dimension = max (write_window_bytes div (max dimension 1 * 4)) 1"

definition dataset_ids_key :: str where
  "dataset_ids_key = lit ''dataset_ids''"

definition dataset_id_key :: str where
  "dataset_id_key = lit ''dataset_id''"

definition add_id :: "str \<Rightarrow> str list \<Rightarrow> str list" where
  "add_id s out = (if s \<noteq> [] \<and> s \<notin> set out then out @ [s] else out)"

definition string_items :: "json option \<Rightarrow> str list" where
  "string_items j = (case j of Some (JArray xs) \<Rightarrow> List.map_filter as_str xs | _ \<Rightarrow> [])"

definition collect_dataset_ids :: "'f vector_point \<Rightarrow> str list \<Rightarrow> str list" where
  "collect_dataset_ids p out =
     (let out1 = fold add_id (string_items (map_of (vp_metadata p) dataset_ids_key)) out in
      case Option.bind (map_of (vp_metadata p) dataset_id_key) as_str of
        Some s \<Rightarrow> add_id s out1
      | None \<Rightarrow> out1)"

definition merge_dataset_membership :: "'f vector_point \<Rightarrow> 'f vector_point \<Rightarrow> 'f vector_point" where
  "merge_dataset_membership p previous =
     (let ids = collect_dataset_ids p (collect_dataset_ids previous []) in
      if ids = [] then p
      else p\<lparr>vp_metadata := obj_insert dataset_ids_key (JArray (map JString ids)) (vp_metadata p)\<rparr>)"

text \<open>Replace the point with the same id, or append.\<close>

fun put_point :: "('f vector_point \<Rightarrow> 'f vector_point \<Rightarrow> 'f vector_point) \<Rightarrow> 'f vector_point
    \<Rightarrow> 'f vector_point list \<Rightarrow> 'f vector_point list" where
  "put_point merge p [] = [p]"
| "put_point merge p (q # qs) = (if vp_id q = vp_id p then merge p q # qs else q # put_point merge p qs)"

definition fold_by_id :: "bool \<Rightarrow> 'f vector_point list \<Rightarrow> 'f vector_point list" where
  "fold_by_id union_membership points =
     (if distinct (map vp_id points) then points
      else fold (put_point (if union_membership then merge_dataset_membership else (\<lambda>p q. p))) points [])"

definition dedup_points_by_id :: "'f vector_point list \<Rightarrow> 'f vector_point list" where
  "dedup_points_by_id points = fold_by_id True points"

definition dedup_points_by_id_last_wins :: "'f vector_point list \<Rightarrow> 'f vector_point list" where
  "dedup_points_by_id_last_wins points = fold_by_id False points"

section \<open>The node-set filter\<close>

definition set_name :: "json \<Rightarrow> str option" where
  "set_name entry = (case entry of
     JString name \<Rightarrow> Some name
   | JObject _ \<Rightarrow> Option.bind (json_get (lit ''name'') entry) as_str
   | _ \<Rightarrow> None)"

definition metadata_matches_node_filter :: "(str \<times> json) list \<Rightarrow> str list option \<Rightarrow> str \<Rightarrow> bool" where
  "metadata_matches_node_filter metadata node_name operator =
     (case node_name of
        None \<Rightarrow> True
      | Some requested \<Rightarrow>
          requested = [] \<or>
          (case map_of metadata (lit ''belongs_to_set'') of
             Some (JArray items) \<Rightarrow>
               (let payload = List.map_filter set_name items in
                if operator = lit ''AND'' then list_all (\<lambda>r. r \<in> set payload) requested
                else list_ex (\<lambda>r. r \<in> set payload) requested)
           | _ \<Rightarrow> False))"

section \<open>The store\<close>

record 'f collection =
  co_dimension :: nat
  co_points :: "'f vector_point list"

type_synonym 'f brute_force = "(str \<times> 'f collection) list"

datatype vector_error = CollectionExists str | CollectionNotFound str | DimensionMismatch str nat nat

type_synonym ('f, 'a) vector_action = "('f brute_force, vector_error, 'a) action"

definition bf_create_collection :: "str \<Rightarrow> str \<Rightarrow> nat \<Rightarrow> ('f, unit) vector_action" where
  "bf_create_collection dt fn dimension g =
     (let key = collection_key dt fn in
      if map_of g key \<noteq> None then (Inl (CollectionExists key), g)
      else (Inr (), obj_insert key \<lparr>co_dimension = dimension, co_points = []\<rparr> g))"

definition bf_has_collection :: "str \<Rightarrow> str \<Rightarrow> ('f, bool) vector_action" where
  "bf_has_collection dt fn g = (Inr (map_of g (collection_key dt fn) \<noteq> None), g)"

definition bf_index_points :: "str \<Rightarrow> str \<Rightarrow> 'f vector_point list \<Rightarrow> ('f, unit) vector_action" where
  "bf_index_points dt fn points g =
     (let key = collection_key dt fn in
      if points = [] then (Inr (), g)
      else case map_of g key of
        None \<Rightarrow> (Inl (CollectionNotFound key), g)
      | Some coll \<Rightarrow>
          (case find (\<lambda>p. length (vp_vector p) \<noteq> co_dimension coll) points of
             Some p \<Rightarrow> (Inl (DimensionMismatch key (co_dimension coll) (length (vp_vector p))), g)
           | None \<Rightarrow> (Inr (), obj_insert key
               (coll\<lparr>co_points := fold (put_point merge_dataset_membership) points (co_points coll)\<rparr>) g)))"

definition bf_upsert_raw_vectors :: "str \<Rightarrow> str \<Rightarrow> 'f vector_point list \<Rightarrow> ('f, unit) vector_action" where
  "bf_upsert_raw_vectors dt fn points g =
     (let key = collection_key dt fn in
      case points of
        [] \<Rightarrow> (Inr (), g)
      | p # _ \<Rightarrow>
          (let coll = (case map_of g key of
                Some c \<Rightarrow> c
              | None \<Rightarrow> \<lparr>co_dimension = length (vp_vector p), co_points = []\<rparr>) in
           (Inr (), obj_insert key
              (coll\<lparr>co_points := fold (put_point (\<lambda>p q. p)) points (co_points coll)\<rparr>) g)))"

text \<open>Stable sort with the larger score first.\<close>

fun insert_desc :: "('a \<Rightarrow> 's::linorder) \<Rightarrow> 'a \<Rightarrow> 'a list \<Rightarrow> 'a list" where
  "insert_desc f x [] = [x]"
| "insert_desc f x (y # ys) = (if f x < f y then y # insert_desc f x ys else x # y # ys)"

definition sort_desc :: "('a \<Rightarrow> 's::linorder) \<Rightarrow> 'a list \<Rightarrow> 'a list" where
  "sort_desc f xs = foldr (insert_desc f) xs []"

record 's search_result =
  sr_id :: uuid
  sr_score :: 's
  sr_metadata :: "(str \<times> json) list"

definition bf_search_similar_filtered ::
  "('f list \<Rightarrow> 'f list \<Rightarrow> 's::linorder) \<Rightarrow> str \<Rightarrow> str \<Rightarrow> 'f list \<Rightarrow> nat \<Rightarrow> str list option \<Rightarrow> str
     \<Rightarrow> ('f, 's search_result list) vector_action" where
  "bf_search_similar_filtered similarity dt fn query_vector top_k node_name operator g =
     (let key = collection_key dt fn in
      case map_of g key of
        None \<Rightarrow> (Inl (CollectionNotFound key), g)
      | Some coll \<Rightarrow>
          if length query_vector \<noteq> co_dimension coll
          then (Inl (DimensionMismatch key (co_dimension coll) (length query_vector)), g)
          else (Inr (take top_k (sort_desc sr_score
                 (map (\<lambda>p. \<lparr>sr_id = vp_id p, sr_score = similarity (vp_vector p) query_vector,
                             sr_metadata = vp_metadata p\<rparr>)
                   (filter (\<lambda>p. metadata_matches_node_filter (vp_metadata p) node_name operator)
                      (co_points coll))))), g))"

definition bf_search_similar ::
  "('f list \<Rightarrow> 'f list \<Rightarrow> 's::linorder) \<Rightarrow> str \<Rightarrow> str \<Rightarrow> 'f list \<Rightarrow> nat
     \<Rightarrow> ('f, 's search_result list) vector_action" where
  "bf_search_similar similarity dt fn query_vector top_k g =
     (let key = collection_key dt fn in
      case map_of g key of
        None \<Rightarrow> (Inl (CollectionNotFound key), g)
      | Some coll \<Rightarrow>
          if length query_vector \<noteq> co_dimension coll
          then (Inl (DimensionMismatch key (co_dimension coll) (length query_vector)), g)
          else (Inr (take top_k (sort_desc sr_score
                 (map (\<lambda>p. \<lparr>sr_id = vp_id p, sr_score = similarity (vp_vector p) query_vector,
                             sr_metadata = vp_metadata p\<rparr>) (co_points coll)))), g))"

text \<open>A missing collection retrieves nothing. Scores (all zero) are left out.\<close>

definition bf_retrieve :: "str \<Rightarrow> str \<Rightarrow> uuid list \<Rightarrow> ('f, (uuid \<times> (str \<times> json) list) list) vector_action" where
  "bf_retrieve dt fn ids g =
     (if ids = [] then (Inr [], g)
      else case map_of g (collection_key dt fn) of
        None \<Rightarrow> (Inr [], g)
      | Some coll \<Rightarrow> (Inr (map (\<lambda>p. (vp_id p, vp_metadata p))
                          (filter (\<lambda>p. vp_id p \<in> set ids) (co_points coll))), g))"

definition bf_score_by_ids ::
  "('f list \<Rightarrow> 'f list \<Rightarrow> 's) \<Rightarrow> str \<Rightarrow> str \<Rightarrow> uuid list \<Rightarrow> 'f list \<Rightarrow> ('f, 's search_result list option) vector_action" where
  "bf_score_by_ids similarity dt fn ids query_vector g =
     (let key = collection_key dt fn in
      if ids = [] then (Inr (Some []), g)
      else case map_of g key of
        None \<Rightarrow> (Inr (Some []), g)
      | Some coll \<Rightarrow>
          if length query_vector \<noteq> co_dimension coll
          then (Inl (DimensionMismatch key (co_dimension coll) (length query_vector)), g)
          else (Inr (Some (map (\<lambda>p. \<lparr>sr_id = vp_id p, sr_score = similarity (vp_vector p) query_vector,
                                      sr_metadata = vp_metadata p\<rparr>)
                 (filter (\<lambda>p. vp_id p \<in> set ids) (co_points coll)))), g))"

definition bf_delete_collection :: "str \<Rightarrow> str \<Rightarrow> ('f, unit) vector_action" where
  "bf_delete_collection dt fn g = (Inr (), obj_remove (collection_key dt fn) g)"

definition bf_delete_points :: "str \<Rightarrow> str \<Rightarrow> uuid list \<Rightarrow> ('f, unit) vector_action" where
  "bf_delete_points dt fn point_ids g =
     (let key = collection_key dt fn in
      case map_of g key of
        None \<Rightarrow> (Inl (CollectionNotFound key), g)
      | Some coll \<Rightarrow> (Inr (), obj_insert key
           (coll\<lparr>co_points := filter (\<lambda>p. vp_id p \<notin> set point_ids) (co_points coll)\<rparr>) g))"

definition bf_collection_size :: "str \<Rightarrow> str \<Rightarrow> ('f, nat) vector_action" where
  "bf_collection_size dt fn g =
     (let key = collection_key dt fn in
      case map_of g key of
        None \<Rightarrow> (Inl (CollectionNotFound key), g)
      | Some coll \<Rightarrow> (Inr (length (co_points coll)), g))"

definition split_once :: "uchar \<Rightarrow> str \<Rightarrow> (str \<times> str) option" where
  "split_once c s =
     (case dropWhile (\<lambda>x. x \<noteq> c) s of
        [] \<Rightarrow> None
      | _ # rest \<Rightarrow> Some (takeWhile (\<lambda>x. x \<noteq> c) s, rest))"

definition bf_list_collections :: "('f, (str \<times> str) list) vector_action" where
  "bf_list_collections g = (Inr (sort (List.map_filter (\<lambda>(k, _). split_once 95 k) g)), g)"

section \<open>The store as an interface\<close>

text \<open>The trait object over the in-memory store; \<open>display\<close> is the \<open>Display\<close> of its error.\<close>

definition brute_force_db :: "(vector_error \<Rightarrow> str) \<Rightarrow> 'f brute_force vector_db" where
  "brute_force_db display =
     \<lparr>vdb_has_collection = (\<lambda>dt fn. map_err display (bf_has_collection dt fn)),
      vdb_retrieve = (\<lambda>dt fn ids. map_err display
          (and_then (bf_retrieve dt fn ids) (\<lambda>found. ok (map fst found)))),
      vdb_delete_points = (\<lambda>dt fn ids. map_err display (bf_delete_points dt fn ids)),
      vdb_list_collections = map_err display bf_list_collections,
      vdb_delete_collection = (\<lambda>dt fn. map_err display (bf_delete_collection dt fn))\<rparr>"

definition points_in :: "'f brute_force \<Rightarrow> str \<Rightarrow> uuid set" where
  "points_in g key = (case map_of g key of None \<Rightarrow> {} | Some coll \<Rightarrow> vp_id ` set (co_points coll))"

interpretation brute_force: vector_store "brute_force_db display" points_in
proof
  fix dt fn ids v v' r
  show "points_in v' = points_in v" if "vdb_has_collection (brute_force_db display) dt fn v = (r, v')"
    using that by (simp add: brute_force_db_def bf_has_collection_def map_err_def)
next
  fix dt fn v v'
  show "points_in v (collection_key dt fn) = {}"
    if "vdb_has_collection (brute_force_db display) dt fn v = (Inr False, v')"
    using that by (auto simp: brute_force_db_def bf_has_collection_def map_err_def points_in_def)
next
  fix dt fn ids v v' r
  show "points_in v' = points_in v" if "vdb_retrieve (brute_force_db display) dt fn ids v = (r, v')"
    using that by (auto simp: brute_force_db_def bf_retrieve_def map_err_def and_then_def ok_def
        split: if_splits option.splits)
next
  fix dt fn ids v v' found
  show "set found = set ids \<inter> points_in v (collection_key dt fn)"
    if "vdb_retrieve (brute_force_db display) dt fn ids v = (Inr found, v')"
    using that by (auto simp: brute_force_db_def bf_retrieve_def map_err_def and_then_def ok_def points_in_def
        split: if_splits option.splits)
next
  fix dt fn ids v v' x
  show "points_in v' = (points_in v)(collection_key dt fn := points_in v (collection_key dt fn) - set ids)"
    if "vdb_delete_points (brute_force_db display) dt fn ids v = (Inr x, v')"
    using that by (auto simp: brute_force_db_def bf_delete_points_def map_err_def points_in_def Let_def fun_eq_iff
        split: option.splits)
next
  fix dt fn ids v v' e k
  show "points_in v' k \<subseteq> points_in v k \<and>
     points_in v k - (if k = collection_key dt fn then set ids else {}) \<subseteq> points_in v' k"
    if "vdb_delete_points (brute_force_db display) dt fn ids v = (Inl e, v')"
    using that by (auto simp: brute_force_db_def bf_delete_points_def map_err_def Let_def split: option.splits)
next
  fix v v' r
  show "points_in v' = points_in v" if "vdb_list_collections (brute_force_db display) v = (r, v')"
    using that by (simp add: brute_force_db_def bf_list_collections_def map_err_def)
next
  fix dt fn v v' x
  show "points_in v' = (points_in v)(collection_key dt fn := {})"
    if "vdb_delete_collection (brute_force_db display) dt fn v = (Inr x, v')"
    using that by (auto simp: brute_force_db_def bf_delete_collection_def map_err_def points_in_def fun_eq_iff)
next
  fix dt fn v v' e k
  show "points_in v' k \<subseteq> points_in v k \<and> (k \<noteq> collection_key dt fn \<longrightarrow> points_in v' k = points_in v k)"
    if "vdb_delete_collection (brute_force_db display) dt fn v = (Inl e, v')"
    using that by (simp add: brute_force_db_def bf_delete_collection_def map_err_def)
qed

section \<open>Ids stay unique\<close>

definition wf_points :: "'f vector_point list \<Rightarrow> bool" where
  "wf_points ps \<longleftrightarrow> distinct (map vp_id ps)"

definition wf_brute :: "'f brute_force \<Rightarrow> bool" where
  "wf_brute g \<longleftrightarrow> distinct (map fst g) \<and> list_all (\<lambda>kc. wf_points (co_points (snd kc))) g"

lemma vp_id_merge [simp]: "vp_id (merge_dataset_membership p q) = vp_id p"
  by (simp add: merge_dataset_membership_def Let_def)

lemma vp_vector_merge [simp]: "vp_vector (merge_dataset_membership p q) = vp_vector p"
  by (simp add: merge_dataset_membership_def Let_def)

text \<open>
  What \<open>put_point\<close> relies on: merging keeps the new point's id and accumulates, so that merging
  into an already merged point is merging into the original.
\<close>

locale point_merge =
  fixes merge :: "'f vector_point \<Rightarrow> 'f vector_point \<Rightarrow> 'f vector_point"
  assumes merge_id: "vp_id (merge p q) = vp_id p"
    and merge_assoc: "vp_id p = vp_id q \<Longrightarrow> merge (merge p q) r = merge p (merge q r)"
begin

lemma put_point_ids: "vp_id ` set (put_point merge p qs) = insert (vp_id p) (vp_id ` set qs)"
  by (induction qs) (auto simp: merge_id)

lemma fold_put_ids: "vp_id ` set (fold (put_point merge) ps qs) = vp_id ` set ps \<union> vp_id ` set qs"
  by (induction ps arbitrary: qs) (auto simp: put_point_ids)

lemma wf_put_point: "wf_points qs \<Longrightarrow> wf_points (put_point merge p qs)"
  by (induction qs) (use put_point_ids in \<open>auto simp: wf_points_def merge_id\<close>)

lemma wf_fold_put_point: "wf_points qs \<Longrightarrow> wf_points (fold (put_point merge) ps qs)"
  by (induction ps arbitrary: qs) (simp_all add: wf_put_point)

lemma put_same_id: "vp_id p = vp_id a \<Longrightarrow> put_point merge p (put_point merge a qs) = put_point merge (merge p a) qs"
  by (induction qs) (auto simp: merge_id merge_assoc)

lemma put_commute:
  "vp_id p \<in> vp_id ` set qs \<Longrightarrow> vp_id b \<noteq> vp_id p \<Longrightarrow>
     put_point merge p (put_point merge b qs) = put_point merge b (put_point merge p qs)"
  by (induction qs) (auto simp: merge_id)

lemma put_fold_commute:
  "vp_id p \<in> vp_id ` set qs \<Longrightarrow> vp_id p \<notin> vp_id ` set as \<Longrightarrow>
     put_point merge p (fold (put_point merge) as qs) = fold (put_point merge) as (put_point merge p qs)"
proof (induction as arbitrary: qs)
  case (Cons a as)
  then have "vp_id p \<in> vp_id ` set (put_point merge a qs)" by (simp add: put_point_ids)
  with Cons put_commute [of p qs a] show ?case by auto
qed simp

lemma fold_put_point:
  "wf_points acc \<Longrightarrow>
     fold (put_point merge) (put_point merge p acc) qs = put_point merge p (fold (put_point merge) acc qs)"
proof (induction acc arbitrary: qs)
  case (Cons a acc)
  have w: "wf_points acc" and n: "vp_id a \<notin> vp_id ` set acc" using Cons.prems by (auto simp: wf_points_def)
  show ?case
  proof (cases "vp_id a = vp_id p")
    case True
    have "vp_id p \<in> vp_id ` set (put_point merge a qs)" using True by (simp add: put_point_ids)
    with put_fold_commute [of p "put_point merge a qs" acc] n True put_same_id [of p a qs] show ?thesis by simp
  next
    case False
    with Cons.IH [OF w] show ?thesis by simp
  qed
qed simp

lemma fold_fold_put:
  "wf_points acc \<Longrightarrow>
     fold (put_point merge) (fold (put_point merge) ps acc) qs = fold (put_point merge) ps (fold (put_point merge) acc qs)"
  by (induction ps arbitrary: acc qs) (simp_all add: wf_put_point fold_put_point)

text \<open>Folding a batch to one point per id before writing it changes nothing.\<close>

lemma fold_batch_first:
  "fold (put_point merge) (fold (put_point merge) ps []) qs = fold (put_point merge) ps qs"
  using fold_fold_put [of "[]" ps qs] by (simp add: wf_points_def)

end

section \<open>Dataset membership accumulates\<close>

definition dataset_ids_of :: "'f vector_point \<Rightarrow> str list" where
  "dataset_ids_of p = string_items (map_of (vp_metadata p) dataset_ids_key) @
     (case Option.bind (map_of (vp_metadata p) dataset_id_key) as_str of Some s \<Rightarrow> [s] | None \<Rightarrow> [])"

lemma collect_dataset_ids_fold: "collect_dataset_ids p out = fold add_id (dataset_ids_of p) out"
  by (simp add: collect_dataset_ids_def dataset_ids_of_def Let_def split: option.split)

lemma add_id_mem: "s \<in> set (add_id s out) \<or> s = []"
  by (auto simp: add_id_def)

lemma set_add_id: "set out \<subseteq> set (add_id s out)"
  by (auto simp: add_id_def)

lemma add_id_noop: "s \<in> set out \<or> s = [] \<Longrightarrow> add_id s out = out"
  by (auto simp: add_id_def)

lemma fold_add_mono: "set out \<subseteq> set (fold add_id xs out)"
  by (induction xs arbitrary: out) (auto dest: subsetD [OF set_add_id])

lemma fold_add_covers: "x \<in> set xs \<Longrightarrow> x \<in> set (fold add_id xs out) \<or> x = []"
proof (induction xs arbitrary: out)
  case (Cons y ys)
  then show ?case
    using add_id_mem [of y out] subsetD [OF fold_add_mono [of "add_id y out" ys]] by auto
qed simp

lemma fold_add_noop: "\<forall>x \<in> set xs. x \<in> set out \<or> x = [] \<Longrightarrow> fold add_id xs out = out"
  by (induction xs) (simp_all add: add_id_noop)

lemma fold_add_fold: "fold add_id (fold add_id xs acc) R = fold add_id xs (fold add_id acc R)"
proof (induction xs arbitrary: acc)
  case (Cons x xs)
  have "fold add_id (add_id x acc) R = add_id x (fold add_id acc R)"
  proof (cases "x \<noteq> [] \<and> x \<notin> set acc")
    case True
    then show ?thesis by (simp add: add_id_def)
  next
    case False
    then have "x \<in> set (fold add_id acc R) \<or> x = []" using fold_add_covers [of x acc R] by auto
    with False show ?thesis by (auto simp: add_id_noop)
  qed
  with Cons show ?case by simp
qed simp

lemma map_filter_strings [simp]: "List.map_filter as_str (map JString ids) = ids"
  by (induction ids) (auto simp: List.map_filter_simps as_str_def)

lemma keys_differ [simp]: "dataset_id_key \<noteq> dataset_ids_key" "dataset_ids_key \<noteq> dataset_id_key"
  by (simp_all add: dataset_id_key_def dataset_ids_key_def lit_def)

lemma dataset_ids_of_insert:
  "dataset_ids_of (p\<lparr>vp_metadata := obj_insert dataset_ids_key (JArray (map JString ids)) (vp_metadata p)\<rparr>) =
     ids @ (case Option.bind (map_of (vp_metadata p) dataset_id_key) as_str of Some s \<Rightarrow> [s] | None \<Rightarrow> [])"
  by (simp add: dataset_ids_of_def string_items_def)

lemma obj_insert_twice [simp]: "obj_insert k v (obj_insert k w m) = obj_insert k v m"
  by (induction m) auto

text \<open>The membership a merged point carries, for any later merge.\<close>

lemma merged_ids:
  "fold add_id (dataset_ids_of (merge_dataset_membership p q)) R =
     fold add_id (dataset_ids_of p) (fold add_id (dataset_ids_of q) R)"
proof -
  let ?ids = "fold add_id (dataset_ids_of p) (fold add_id (dataset_ids_of q) [])"
  have flat: "fold add_id ?ids R = fold add_id (dataset_ids_of p) (fold add_id (dataset_ids_of q) R)"
    by (simp add: fold_add_fold)
  show ?thesis
  proof (cases "?ids = []")
    case True
    have "\<forall>x \<in> set (dataset_ids_of q). x = []"
      using fold_add_covers [of _ "dataset_ids_of q" "[]"] fold_add_mono [of "fold add_id (dataset_ids_of q) []" "dataset_ids_of p"] True
      by fastforce
    then have "fold add_id (dataset_ids_of q) R = R" by (simp add: fold_add_noop)
    with True show ?thesis by (simp add: merge_dataset_membership_def collect_dataset_ids_fold Let_def)
  next
    case False
    let ?sc = "case Option.bind (map_of (vp_metadata p) dataset_id_key) as_str of Some s \<Rightarrow> [s] | None \<Rightarrow> []"
    have "\<forall>x \<in> set ?sc. x \<in> set (fold add_id ?ids R) \<or> x = []"
    proof
      fix x
      assume "x \<in> set ?sc"
      then have "x \<in> set (dataset_ids_of p)" by (simp add: dataset_ids_of_def)
      then show "x \<in> set (fold add_id ?ids R) \<or> x = []"
        unfolding flat by (rule fold_add_covers)
    qed
    then have "fold add_id (?ids @ ?sc) R = fold add_id ?ids R" by (simp add: fold_add_noop)
    with False flat show ?thesis
      by (simp add: merge_dataset_membership_def collect_dataset_ids_fold Let_def dataset_ids_of_insert)
  qed
qed

lemma merge_dataset_membership_assoc:
  "merge_dataset_membership (merge_dataset_membership p q) r = merge_dataset_membership p (merge_dataset_membership q r)"
proof -
  let ?R = "fold add_id (dataset_ids_of r) []"
  let ?all = "fold add_id (dataset_ids_of p) (fold add_id (dataset_ids_of q) ?R)"
  have l: "collect_dataset_ids (merge_dataset_membership p q) (collect_dataset_ids r []) = ?all"
    by (simp add: collect_dataset_ids_fold merged_ids)
  have r: "collect_dataset_ids p (collect_dataset_ids (merge_dataset_membership q r) []) = ?all"
    by (simp add: collect_dataset_ids_fold merged_ids)
  have small: "?all = [] \<Longrightarrow> collect_dataset_ids p (collect_dataset_ids q []) = []"
  proof -
    assume e: "?all = []"
    have "?R = []" using e fold_add_mono [of ?R "dataset_ids_of q"] fold_add_mono [of "fold add_id (dataset_ids_of q) ?R" "dataset_ids_of p"]
      by auto
    with e show ?thesis by (simp add: collect_dataset_ids_fold)
  qed
  have meta: "vp_metadata (merge_dataset_membership p q) = vp_metadata p \<or>
      (\<exists>v. merge_dataset_membership p q = p\<lparr>vp_metadata := obj_insert dataset_ids_key v (vp_metadata p)\<rparr>)"
    by (auto simp: merge_dataset_membership_def Let_def)
  show ?thesis
  proof (cases "?all = []")
    case True
    with small have "merge_dataset_membership p q = p" by (simp add: merge_dataset_membership_def Let_def)
    with True l r show ?thesis by (simp add: merge_dataset_membership_def [of _ r] merge_dataset_membership_def [of p] Let_def)
  next
    case False
    then have "merge_dataset_membership (merge_dataset_membership p q) r =
        p\<lparr>vp_metadata := obj_insert dataset_ids_key (JArray (map JString ?all)) (vp_metadata p)\<rparr>"
      unfolding merge_dataset_membership_def [of "merge_dataset_membership p q" r] l
      by (auto simp: merge_dataset_membership_def Let_def)
    moreover have "merge_dataset_membership p (merge_dataset_membership q r) =
        p\<lparr>vp_metadata := obj_insert dataset_ids_key (JArray (map JString ?all)) (vp_metadata p)\<rparr>"
      unfolding merge_dataset_membership_def [of p "merge_dataset_membership q r"] r using False
      by (simp add: Let_def)
    ultimately show ?thesis by simp
  qed
qed

interpretation union_merge: point_merge merge_dataset_membership
  by unfold_locales (simp_all add: merge_dataset_membership_assoc)

interpretation last_wins: point_merge "\<lambda>p q. p"
  by unfold_locales simp_all

lemma wf_obj_insert:
  "wf_brute g \<Longrightarrow> wf_points (co_points c) \<Longrightarrow> wf_brute (obj_insert k c g)"
  using obj_insert_subset [of k c g] by (auto simp: wf_brute_def distinct_obj_insert list_all_iff)

lemma wf_lookup: "wf_brute g \<Longrightarrow> map_of g k = Some c \<Longrightarrow> wf_points (co_points c)"
  by (auto simp: wf_brute_def list_all_iff dest!: map_of_SomeD)

section \<open>Ranking\<close>

lemma mset_insert_desc: "mset (insert_desc f x ys) = add_mset x (mset ys)"
  by (induction ys) auto

lemma mset_sort_desc [simp]: "mset (sort_desc f xs) = mset xs"
  by (induction xs) (simp_all add: sort_desc_def mset_insert_desc)

lemma set_sort_desc [simp]: "set (sort_desc f xs) = set xs"
  using mset_eq_setD [OF mset_sort_desc [of f xs]] .

lemma length_sort_desc [simp]: "length (sort_desc f xs) = length xs"
  using mset_eq_length [OF mset_sort_desc [of f xs]] .

lemma set_insert_desc [simp]: "set (insert_desc f x ys) = insert x (set ys)"
  by (induction ys) auto

lemma sorted_insert_desc:
  "sorted_wrt (\<lambda>x y. f y \<le> f x) ys \<Longrightarrow> sorted_wrt (\<lambda>x y. f y \<le> f x) (insert_desc f x ys)"
  by (induction ys) auto

lemma sorted_sort_desc: "sorted_wrt (\<lambda>x y. f y \<le> f x) (sort_desc f xs)"
proof (induction xs)
  case (Cons x xs)
  then show ?case using sorted_insert_desc by (auto simp: sort_desc_def)
qed (simp add: sort_desc_def)

text \<open>The first \<open>k\<close> of a list sorted this way dominate the rest.\<close>

lemma take_sort_desc_best:
  assumes "x \<in> set (take k (sort_desc f xs))" and "y \<in> set (drop k (sort_desc f xs))"
  shows "f y \<le> f x"
  using sorted_sort_desc [of f xs] assms
  by (metis append_take_drop_id sorted_wrt_append)

section \<open>Properties\<close>

lemma put_point_all:
  assumes "\<And>p q. P p \<Longrightarrow> P (merge p q)" and "P p" and "list_all P qs"
  shows "list_all P (put_point merge p qs)"
  using assms(3) by (induction qs) (simp_all add: assms(1,2))

lemma fold_put_point_all:
  assumes "\<And>p q. P p \<Longrightarrow> P (merge p q)" and "list_all P ps" and "list_all P qs"
  shows "list_all P (fold (put_point merge) ps qs)"
  using assms(2,3) by (induction ps arbitrary: qs) (simp_all add: put_point_all [of P merge, OF assms(1)])

lemma put_point_nonempty: "put_point merge p qs \<noteq> []"
  by (cases qs) auto

lemma fold_put_point_nonempty: "ps \<noteq> [] \<Longrightarrow> fold (put_point merge) ps qs \<noteq> []"
  by (induction ps arbitrary: qs) (auto, metis fold_simps(1) list.exhaust put_point_nonempty)

lemma wf_points_single [simp]: "wf_points [p]"
  by (simp add: wf_points_def)

lemma find_dimension: "list_all (\<lambda>p. length (vp_vector p) = d) ps \<Longrightarrow> find (\<lambda>p. length (vp_vector p) \<noteq> d) ps = None"
  by (auto simp: find_None_iff list_all_iff)

text \<open>
  Folding a batch of points to one per id before handing it to the store, as the adapters
  that write a batch as one statement do, is invisible: the store ends in the same state as when
  it is handed the repeated points, with the union of the dataset memberships for
  \<open>index_points\<close> and the last point verbatim for \<open>upsert_raw_vectors\<close>.
\<close>

lemma batch_fold_invisible:
  assumes "map_of g (collection_key dt fn) = Some coll"
    and "list_all (\<lambda>p. length (vp_vector p) = co_dimension coll) points"
  shows "bf_index_points dt fn (dedup_points_by_id points) g = bf_index_points dt fn points g
    \<and> bf_upsert_raw_vectors dt fn (dedup_points_by_id_last_wins points) g = bf_upsert_raw_vectors dt fn points g"
proof -
  let ?fold = "\<lambda>merge. fold (put_point merge) points []"
  have "list_all (\<lambda>p. length (vp_vector p) = co_dimension coll) (?fold merge_dataset_membership)"
    by (rule fold_put_point_all) (use assms(2) in auto)
  note dims = find_dimension [OF assms(2)] find_dimension [OF this]
  have index: "bf_index_points dt fn (?fold merge_dataset_membership) g = bf_index_points dt fn points g"
    using assms(1) dims fold_put_point_nonempty [of points merge_dataset_membership "[]"]
    by (cases "points = []") (simp_all add: bf_index_points_def Let_def union_merge.fold_batch_first)
  have raw_eq: "bf_upsert_raw_vectors dt fn ps g =
      (if ps = [] then (Inr (), g)
       else (Inr (), obj_insert (collection_key dt fn)
              (coll\<lparr>co_points := fold (put_point (\<lambda>p q. p)) ps (co_points coll)\<rparr>) g))" for ps
    using assms(1) by (cases ps) (simp_all add: bf_upsert_raw_vectors_def Let_def)
  have raw: "bf_upsert_raw_vectors dt fn (?fold (\<lambda>p q. p)) g = bf_upsert_raw_vectors dt fn points g"
    using fold_put_point_nonempty [of points "\<lambda>p q. p" "[]"]
    by (cases "points = []") (simp_all add: raw_eq last_wins.fold_batch_first)
  show ?thesis
    using index raw by (simp add: dedup_points_by_id_def dedup_points_by_id_last_wins_def fold_by_id_def)
qed

lemma batch_fold_invisible_witness:
  "\<exists>g' :: nat brute_force. bf_index_points [97] [98]
       (dedup_points_by_id [\<lparr>vp_id = 1, vp_vector = [3], vp_metadata = [(dataset_id_key, JString [65])]\<rparr>,
                            \<lparr>vp_id = 1, vp_vector = [4], vp_metadata = [(dataset_id_key, JString [66])]\<rparr>])
       [(collection_key [97] [98], \<lparr>co_dimension = 1, co_points = []\<rparr>)] = (Inr (), g')
    \<and> points_in g' (collection_key [97] [98]) = {1}"
proof -
  let ?ps = "[\<lparr>vp_id = 1, vp_vector = [3 :: nat], vp_metadata = [(dataset_id_key, JString [65])]\<rparr>,
              \<lparr>vp_id = 1, vp_vector = [4], vp_metadata = [(dataset_id_key, JString [66])]\<rparr>]"
  let ?c = "\<lparr>co_dimension = 1, co_points = [] :: nat vector_point list\<rparr>"
  let ?g = "[(collection_key [97] [98], ?c)]"
  have m: "map_of ?g (collection_key [97] [98]) = Some ?c"
    and d: "list_all (\<lambda>p. length (vp_vector p) = co_dimension ?c) ?ps" by simp_all
  have "bf_index_points [97] [98] ?ps ?g =
      (Inr (), obj_insert (collection_key [97] [98])
         (?c\<lparr>co_points := fold (put_point merge_dataset_membership) ?ps []\<rparr>) ?g)"
    by (simp add: bf_index_points_def Let_def)
  moreover have "vp_id ` set (fold (put_point merge_dataset_membership) ?ps []) = {1}"
    unfolding union_merge.fold_put_ids by simp
  ultimately show ?thesis
    unfolding batch_fold_invisible [OF m d, THEN conjunct1] by (simp add: points_in_def)
qed



text \<open>
  Point ids are unique in every collection, and collection names are, after every write:
  creation, indexing, raw upserts and deletions keep the invariant, on failure as well.
\<close>

lemma vector_ids_unique:
  assumes "wf_brute g"
  shows "wf_brute (snd (bf_create_collection dt fn d g)) \<and> wf_brute (snd (bf_index_points dt fn points g))
    \<and> wf_brute (snd (bf_upsert_raw_vectors dt fn points g)) \<and> wf_brute (snd (bf_delete_points dt fn ids g))
    \<and> wf_brute (snd (bf_delete_collection dt fn g))"
proof (intro conjI)
  have empty: "wf_points []" by (simp add: wf_points_def)
  show "wf_brute (snd (bf_create_collection dt fn d g))"
    using assms wf_obj_insert [OF assms, of "\<lparr>co_dimension = d, co_points = []\<rparr>"] empty
    by (auto simp: bf_create_collection_def Let_def)
  show "wf_brute (snd (bf_index_points dt fn points g))"
    using assms by (auto simp: bf_index_points_def Let_def split: option.split
        intro!: wf_obj_insert union_merge.wf_fold_put_point dest: wf_lookup)
  show "wf_brute (snd (bf_upsert_raw_vectors dt fn points g))"
    using assms empty by (auto simp: bf_upsert_raw_vectors_def Let_def split: option.split list.split
        intro!: wf_obj_insert last_wins.wf_fold_put_point last_wins.wf_put_point dest: wf_lookup)
  have "wf_points ps \<Longrightarrow> wf_points (filter P ps)" for ps :: "'a vector_point list" and P
    by (simp add: wf_points_def distinct_map_filter)
  then show "wf_brute (snd (bf_delete_points dt fn ids g))"
    using assms by (auto simp: bf_delete_points_def Let_def split: option.split intro!: wf_obj_insert dest: wf_lookup)
  show "wf_brute (snd (bf_delete_collection dt fn g))"
    using assms distinct_obj_remove [of g] by (auto simp: bf_delete_collection_def wf_brute_def obj_remove_def list_all_iff)
qed

lemma vector_ids_unique_witness:
  "wf_brute (snd (bf_index_points [97] [98] [\<lparr>vp_id = 1, vp_vector = [3 :: nat], vp_metadata = []\<rparr>]
      [(collection_key [97] [98], \<lparr>co_dimension = 1, co_points = []\<rparr>)]))"
proof -
  have "wf_brute [(collection_key [97] [98], \<lparr>co_dimension = 1, co_points = [] :: nat vector_point list\<rparr>)]"
    by (simp add: wf_brute_def wf_points_def)
  from vector_ids_unique [OF this] show ?thesis by blast
qed

end
