(* ===== verification/Graph_Memory.thy ===== *)
theory Graph_Memory
  imports Stores
begin

text \<open>
  The in-memory graph store: \<open>MockGraphDB\<close> of \<open>crates/graph/src/mock.rs\<close>, the backend the
  repository checks the delete and traversal contracts of \<open>GraphDBTrait\<close> against. Hash maps and
  sets are lists without repetition; where the code iterates over one, the model takes insertion
  order. The call log, the truth-state and the temporal queries are not modelled.
\<close>

section \<open>State\<close>

type_synonym node_data = "(str \<times> json) list"
type_synonym edge_data = "str \<times> str \<times> str \<times> (str \<times> json) list"

record graph_mem =
  gm_nodes :: "(str \<times> node_data) list"
  gm_edges :: "edge_data list"
  gm_add_nodes_error :: "str option"
  gm_add_edges_error :: "str option"
  gm_delete_nodes_error :: "str option"

datatype graph_error = NodeError str | EdgeError str

type_synonym 'a graph_action = "(graph_mem, graph_error, 'a) action"

definition graph_new :: graph_mem where
  "graph_new = \<lparr>gm_nodes = [], gm_edges = [], gm_add_nodes_error = None, gm_add_edges_error = None,
     gm_delete_nodes_error = None\<rparr>"

section \<open>Writes\<close>

definition node_id_of :: "node_data \<Rightarrow> str option" where
  "node_id_of data = Option.bind (map_of data (lit ''id'')) as_str"

definition add_node_raw :: "json \<Rightarrow> unit graph_action" where
  "add_node_raw node g =
     (case gm_add_nodes_error g of
        Some msg \<Rightarrow> (Inl (NodeError msg), g)
      | None \<Rightarrow>
          (let data = entries node in
           case node_id_of data of
             None \<Rightarrow> (Inl (NodeError (lit ''Node missing 'id' field'')), g)
           | Some i \<Rightarrow> (Inr (), g\<lparr>gm_nodes := obj_insert i data (gm_nodes g)\<rparr>)))"

definition add_nodes_raw :: "json list \<Rightarrow> unit graph_action" where
  "add_nodes_raw nodes = for_each add_node_raw nodes"

definition add_edge :: "str \<Rightarrow> str \<Rightarrow> str \<Rightarrow> (str \<times> json) list option \<Rightarrow> unit graph_action" where
  "add_edge source_id target_id relationship_name properties g =
     (Inr (), g\<lparr>gm_edges := gm_edges g @
        [(source_id, target_id, relationship_name, case properties of None \<Rightarrow> [] | Some p \<Rightarrow> p)]\<rparr>)"

definition add_edges :: "edge_data list \<Rightarrow> unit graph_action" where
  "add_edges edges g =
     (case gm_add_edges_error g of
        Some msg \<Rightarrow> (Inl (EdgeError msg), g)
      | None \<Rightarrow> (Inr (), g\<lparr>gm_edges := gm_edges g @ edges\<rparr>))"

definition detach_delete :: "str list \<Rightarrow> graph_mem \<Rightarrow> graph_mem" where
  "detach_delete node_ids g =
     g\<lparr>gm_nodes := fold obj_remove node_ids (gm_nodes g),
       gm_edges := filter (\<lambda>(src, tgt, _, _). src \<notin> set node_ids \<and> tgt \<notin> set node_ids) (gm_edges g)\<rparr>"

definition delete_node :: "str \<Rightarrow> unit graph_action" where
  "delete_node node_id g = (Inr (), detach_delete [node_id] g)"

definition graph_delete_nodes :: "str list \<Rightarrow> unit graph_action" where
  "graph_delete_nodes node_ids g =
     (case gm_delete_nodes_error g of
        Some msg \<Rightarrow> (Inl (NodeError msg), g)
      | None \<Rightarrow> (Inr (), detach_delete node_ids g))"

definition delete_graph :: "unit graph_action" where
  "delete_graph g = (Inr (), g\<lparr>gm_nodes := [], gm_edges := []\<rparr>)"

section \<open>Reads\<close>

definition graph_is_empty :: "graph_mem \<Rightarrow> bool" where
  "graph_is_empty g \<longleftrightarrow> gm_nodes g = []"

definition has_node :: "str \<Rightarrow> graph_mem \<Rightarrow> bool" where
  "has_node node_id g \<longleftrightarrow> map_of (gm_nodes g) node_id \<noteq> None"

definition get_node :: "str \<Rightarrow> graph_mem \<Rightarrow> node_data option" where
  "get_node node_id g = map_of (gm_nodes g) node_id"

definition get_nodes :: "str list \<Rightarrow> graph_mem \<Rightarrow> node_data list" where
  "get_nodes node_ids g = List.map_filter (\<lambda>i. map_of (gm_nodes g) i) node_ids"

definition has_edge :: "str \<Rightarrow> str \<Rightarrow> str \<Rightarrow> graph_mem \<Rightarrow> bool" where
  "has_edge source_id target_id relationship_name g =
     list_ex (\<lambda>(src, tgt, rel, _). src = source_id \<and> tgt = target_id \<and> rel = relationship_name) (gm_edges g)"

definition has_edges :: "edge_data list \<Rightarrow> graph_mem \<Rightarrow> edge_data list" where
  "has_edges edges g = filter (\<lambda>(src, tgt, rel, _). has_edge src tgt rel g) edges"

definition get_edges :: "str \<Rightarrow> graph_mem \<Rightarrow> edge_data list" where
  "get_edges node_id g = filter (\<lambda>(src, tgt, _, _). src = node_id \<or> tgt = node_id) (gm_edges g)"

definition get_neighbors :: "str \<Rightarrow> graph_mem \<Rightarrow> node_data list" where
  "get_neighbors node_id g =
     List.map_filter (\<lambda>i. map_of (gm_nodes g) i)
       (List.map_filter (\<lambda>(src, tgt, _, _).
          if src = node_id then Some tgt else if tgt = node_id then Some src else None) (gm_edges g))"

definition get_connections :: "str \<Rightarrow> graph_mem \<Rightarrow> (node_data \<times> (str \<times> json) list \<times> node_data) list" where
  "get_connections node_id g =
     List.map_filter (\<lambda>(src, tgt, _, props).
       if src = node_id \<or> tgt = node_id then
         (case (map_of (gm_nodes g) src, map_of (gm_nodes g) tgt) of
            (Some s, Some t) \<Rightarrow> Some (s, props, t)
          | _ \<Rightarrow> None)
       else None) (gm_edges g)"

definition degree :: "edge_data list \<Rightarrow> str \<Rightarrow> nat" where
  "degree edges i =
     sum_list (map (\<lambda>(src, tgt, _, _). (if src = i then 1 else 0) + (if tgt = i then 1 else 0)) edges)"

definition text_of :: "str \<Rightarrow> node_data \<Rightarrow> str option" where
  "text_of key data = Option.bind (map_of data key) as_str"

definition get_degree_one_nodes :: "str \<Rightarrow> graph_mem \<Rightarrow> (str \<times> node_data) list" where
  "get_degree_one_nodes node_type g =
     filter (\<lambda>(i, data). text_of (lit ''type'') data = Some node_type \<and> degree (gm_edges g) i = 1) (gm_nodes g)"

definition get_all_relationship_names :: "graph_mem \<Rightarrow> str list" where
  "get_all_relationship_names g = remdups (map (\<lambda>(_, _, rel, _). rel) (gm_edges g))"

definition get_zero_degree_edge_type_nodes :: "graph_mem \<Rightarrow> (str \<times> node_data) list" where
  "get_zero_degree_edge_type_nodes g =
     filter (\<lambda>(i, data). text_of (lit ''type'') data = Some (lit ''EdgeType'')
          \<and> \<not> 0 < degree (gm_edges g) i
          \<and> (case text_of (lit ''relationship_name'') data of None \<Rightarrow> [] | Some r \<Rightarrow> r)
              \<notin> set (map (\<lambda>(_, _, rel, _). rel) (gm_edges g)))
       (gm_nodes g)"

section \<open>Subgraphs\<close>

definition add_name :: "str \<Rightarrow> str list \<Rightarrow> str list" where
  "add_name i ids = (if i \<in> set ids then ids else ids @ [i])"

definition get_nodeset_subgraph ::
  "str \<Rightarrow> str list \<Rightarrow> str \<Rightarrow> graph_mem \<Rightarrow> (str \<times> node_data) list \<times> edge_data list" where
  "get_nodeset_subgraph node_type node_names operator g =
     (if node_names = [] then ([], [])
      else
        (let or_empty = (\<lambda>k data. case text_of k data of None \<Rightarrow> [] | Some t \<Rightarrow> t);
             primary = map fst (filter (\<lambda>(_, data). or_empty (lit ''type'') data = node_type
                          \<and> or_empty (lit ''name'') data \<in> set node_names) (gm_nodes g));
             linked = (\<lambda>p q. list_ex (\<lambda>(src, tgt, _, _). (src = p \<and> tgt = q) \<or> (src = q \<and> tgt = p)) (gm_edges g));
             endpoints = concat (map (\<lambda>(src, tgt, _, _). [tgt, src]) (gm_edges g));
             reached = (if operator = lit ''AND''
                        then filter (\<lambda>q. q \<notin> set primary \<and> list_ex (\<lambda>p. linked p q) primary
                                        \<and> list_all (\<lambda>p. linked p q) primary) endpoints
                        else filter (\<lambda>q. list_ex (\<lambda>p. linked p q) primary) endpoints);
             included = fold add_name reached primary in
         (List.map_filter (\<lambda>i. map_option (\<lambda>data. (i, data)) (map_of (gm_nodes g) i)) included,
          filter (\<lambda>(src, tgt, _, _). src \<in> set included \<and> tgt \<in> set included) (gm_edges g))))"

text \<open>One breadth-first pass: \<open>resolved\<close> grows during the pass, \<open>frontier\<close> does not.\<close>

fun bfs_pass :: "str list \<Rightarrow> edge_data list \<Rightarrow> str list \<Rightarrow> str list \<Rightarrow> str list \<times> str list" where
  "bfs_pass frontier [] resolved next = (resolved, next)"
| "bfs_pass frontier ((src, tgt, _, _) # es) resolved next =
     (let (resolved1, next1) = (if src \<in> set frontier \<and> tgt \<notin> set resolved
                                then (resolved @ [tgt], next @ [tgt]) else (resolved, next));
          (resolved2, next2) = (if tgt \<in> set frontier \<and> src \<notin> set resolved1
                                then (resolved1 @ [src], next1 @ [src]) else (resolved1, next1))
      in bfs_pass frontier es resolved2 next2)"

fun bfs :: "edge_data list \<Rightarrow> nat \<Rightarrow> str list \<Rightarrow> str list \<Rightarrow> str list" where
  "bfs edges 0 resolved frontier = resolved"
| "bfs edges (Suc depth) resolved frontier =
     (let (resolved', next) = bfs_pass frontier edges resolved [] in
      if next = [] then resolved' else bfs edges depth resolved' next)"

text \<open>Keep the first edge of each (source, target, relationship).\<close>

fun dedup_edges :: "(str \<times> str \<times> str) list \<Rightarrow> edge_data list \<Rightarrow> edge_data list" where
  "dedup_edges seen [] = []"
| "dedup_edges seen ((s, t, r, p) # es) =
     (if (s, t, r) \<in> set seen then dedup_edges seen es
      else (s, t, r, p) # dedup_edges ((s, t, r) # seen) es)"

definition get_neighborhood ::
  "str list \<Rightarrow> nat \<Rightarrow> graph_mem \<Rightarrow> (str \<times> node_data) list \<times> edge_data list" where
  "get_neighborhood node_ids depth g =
     (if node_ids = [] then ([], [])
      else
        (let seeds = remdups node_ids;
             resolved = bfs (gm_edges g) depth seeds seeds in
         (List.map_filter (\<lambda>i. map_option (\<lambda>data. (i, data)) (map_of (gm_nodes g) i)) resolved,
          dedup_edges [] (filter (\<lambda>(src, tgt, _, _). src \<in> set resolved \<and> tgt \<in> set resolved) (gm_edges g)))))"

section \<open>The store as an interface\<close>

definition graph_memory_db :: "(graph_error \<Rightarrow> str) \<Rightarrow> graph_mem graph_db" where
  "graph_memory_db display = 
     \<lparr>gdb_delete_nodes = (\<lambda>ids. map_err display (graph_delete_nodes ids)),
      gdb_delete_graph = map_err display delete_graph,
      gdb_get_degree_one_nodes = (\<lambda>ty. gets (get_degree_one_nodes ty)),
      gdb_get_zero_degree_edge_type_nodes = gets get_zero_degree_edge_type_nodes\<rparr>"

definition node_ids_in :: "graph_mem \<Rightarrow> str set" where
  "node_ids_in g = fst ` set (gm_nodes g)"

lemma fst_fold_obj_remove: "fst ` set (fold obj_remove ids m) = fst ` set m - set ids"
proof (induction ids arbitrary: m)
  case (Cons i ids)
  have "fst ` set (obj_remove i m) = fst ` set m - {i}" by (auto simp: obj_remove_def)
  with Cons show ?case by auto
qed simp

lemma node_ids_cleared [simp]: "node_ids_in (g\<lparr>gm_nodes := [], gm_edges := []\<rparr>) = {}"
  by (simp add: node_ids_in_def)

lemma degree_hits_are_nodes:
  "fst ` set (get_degree_one_nodes ty g) \<subseteq> node_ids_in g"
  "fst ` set (get_zero_degree_edge_type_nodes g) \<subseteq> node_ids_in g"
  by (auto simp: get_degree_one_nodes_def get_zero_degree_edge_type_nodes_def node_ids_in_def)

lemma node_ids_detach [simp]: "node_ids_in (detach_delete ids g) = node_ids_in g - set ids"
  by (simp add: node_ids_in_def detach_delete_def fst_fold_obj_remove)

interpretation graph_memory: graph_store "graph_memory_db display" node_ids_in
  by unfold_locales
    (use degree_hits_are_nodes in \<open>auto simp: graph_memory_db_def map_err_def graph_delete_nodes_def delete_graph_def
       gets_def split: option.splits\<close>)

section \<open>Breadth-first search\<close>

definition adjacent :: "edge_data list \<Rightarrow> str \<Rightarrow> str \<Rightarrow> bool" where
  "adjacent edges x y \<longleftrightarrow> (\<exists>r p. (x, y, r, p) \<in> set edges \<or> (y, x, r, p) \<in> set edges)"

text \<open>The nodes at most \<open>k\<close> edges away, in either direction.\<close>

fun within_distance :: "edge_data list \<Rightarrow> nat \<Rightarrow> str set \<Rightarrow> str set" where
  "within_distance edges 0 S = S"
| "within_distance edges (Suc k) S =
     within_distance edges k (S \<union> {y. \<exists>x \<in> S. adjacent edges x y})"

lemma adjacent_Cons:
  "adjacent ((s, t, r, p) # es) x y \<longleftrightarrow> (x = s \<and> y = t) \<or> (x = t \<and> y = s) \<or> adjacent es x y"
  by (auto simp: adjacent_def)

lemma bfs_pass_sets:
  assumes "bfs_pass frontier es resolved next = (resolved', next')"
  shows "set resolved' = set resolved \<union> {y. \<exists>x \<in> set frontier. adjacent es x y}
    \<and> set next' = set next \<union> (set resolved' - set resolved)"
  using assms
proof (induction es arbitrary: resolved "next")
  case Nil
  then show ?case by (auto simp: adjacent_def)
next
  case (Cons e es)
  obtain s t r p where e: "e = (s, t, r, p)" by (cases e)
  define r1 n1 r2 n2 where
    "r1 = (if s \<in> set frontier \<and> t \<notin> set resolved then resolved @ [t] else resolved)"
    "n1 = (if s \<in> set frontier \<and> t \<notin> set resolved then next @ [t] else next)"
    "r2 = (if t \<in> set frontier \<and> s \<notin> set r1 then r1 @ [s] else r1)"
    "n2 = (if t \<in> set frontier \<and> s \<notin> set r1 then n1 @ [s] else n1)"
  have "bfs_pass frontier es r2 n2 = (resolved', next')"
    using Cons.prems by (auto simp: e Let_def r1_n1_r2_n2_def split: if_splits)
  from Cons.IH [OF this]
  have IH: "set resolved' = set r2 \<union> {y. \<exists>x \<in> set frontier. adjacent es x y}"
    "set next' = set n2 \<union> (set resolved' - set r2)" by auto
  have r2: "set r2 = set resolved \<union> {y. (s \<in> set frontier \<and> y = t) \<or> (t \<in> set frontier \<and> y = s)}"
    and n2: "set n2 = set next \<union> (set r2 - set resolved)"
    by (auto simp: r1_n1_r2_n2_def)
  have "set resolved' = set resolved \<union> {y. \<exists>x \<in> set frontier. adjacent (e # es) x y}"
    unfolding IH(1) r2 e adjacent_Cons by auto
  moreover have "set next' = set next \<union> (set resolved' - set resolved)"
    unfolding IH(2) n2 using IH(1) r2 by auto
  ultimately show ?case by blast
qed

lemma within_distance_fixed:
  "{y. \<exists>x \<in> S. adjacent edges x y} \<subseteq> S \<Longrightarrow> within_distance edges k S = S"
  by (induction k) (simp_all add: Un_absorb2)

lemma bfs_correct:
  assumes "set frontier \<subseteq> set resolved"
    and "\<forall>x \<in> set resolved - set frontier. \<forall>y. adjacent edges x y \<longrightarrow> y \<in> set resolved"
  shows "set (bfs edges depth resolved frontier) = within_distance edges depth (set resolved)"
  using assms
proof (induction depth arbitrary: resolved frontier)
  case (Suc depth)
  obtain resolved' next' where p: "bfs_pass frontier edges resolved [] = (resolved', next')"
    by (cases "bfs_pass frontier edges resolved []")
  from bfs_pass_sets [OF p]
  have r: "set resolved' = set resolved \<union> {y. \<exists>x \<in> set frontier. adjacent edges x y}"
    and n: "set next' = set resolved' - set resolved" by auto
  have all: "set resolved' = set resolved \<union> {y. \<exists>x \<in> set resolved. adjacent edges x y}"
    unfolding r using Suc.prems by blast
  show ?case
  proof (cases "next' = []")
    case True
    with n r have same: "set resolved' = set resolved" by auto
    with all have "{y. \<exists>x \<in> set resolved. adjacent edges x y} \<subseteq> set resolved" by blast
    from within_distance_fixed [OF this, of "Suc depth"] same p True show ?thesis
      by simp
  next
    case False
    have "set next' \<subseteq> set resolved'" using n by blast
    moreover have "\<forall>x \<in> set resolved' - set next'. \<forall>y. adjacent edges x y \<longrightarrow> y \<in> set resolved'"
      using n all by blast
    ultimately have "set (bfs edges depth resolved' next') = within_distance edges depth (set resolved')"
      by (rule Suc.IH)
    with p False all show ?thesis by simp
  qed
qed simp

fun edge_key :: "edge_data \<Rightarrow> str \<times> str \<times> str" where
  "edge_key (s, t, r, p) = (s, t, r)"

lemma set_dedup_edges_keys: "edge_key ` set (dedup_edges seen es) = edge_key ` set es - set seen"
proof (induction seen es rule: dedup_edges.induct)
  case (2 seen s t r p es)
  then show ?case by (cases "(s, t, r) \<in> set seen") (simp_all, blast+)
qed simp

lemma dedup_edges_subset: "set (dedup_edges seen es) \<subseteq> set es"
  by (induction seen es rule: dedup_edges.induct) auto

lemma distinct_dedup_edges: "distinct (map edge_key (dedup_edges seen es))"
proof (induction seen es rule: dedup_edges.induct)
  case (2 seen s t r p es)
  then show ?case
    using set_dedup_edges_keys [of "(s, t, r) # seen" es] by simp
qed simp

lemma set_map_filter: "set (List.map_filter f xs) = {y. \<exists>x \<in> set xs. f x = Some y}"
  by (induction xs) (auto simp: List.map_filter_simps split: option.splits)

section \<open>Properties\<close>

text \<open>
  C31: \<open>get_neighborhood\<close> returns the induced subgraph of the ball of radius \<open>depth\<close> around the
  seeds: exactly the stored nodes that at most \<open>depth\<close> edges, followed in either direction,
  separate from a seed, and every (source, target, relationship) stored between two ids of the
  ball, once, in its stored direction.
\<close>

theorem neighborhood_is_induced_ball:
  assumes "node_ids \<noteq> []" and "get_neighborhood node_ids depth g = (ns, es)"
    and "ball = within_distance (gm_edges g) depth (set node_ids)"
  shows "set ns = {(i, data). i \<in> ball \<and> map_of (gm_nodes g) i = Some data}
    \<and> set es \<subseteq> set (gm_edges g) \<and> distinct (map edge_key es)
    \<and> edge_key ` set es = {(s, t, r). s \<in> ball \<and> t \<in> ball \<and> (\<exists>p. (s, t, r, p) \<in> set (gm_edges g))}"
proof -
  let ?seeds = "remdups node_ids"
  let ?resolved = "bfs (gm_edges g) depth ?seeds ?seeds"
  have ball: "set ?resolved = ball"
    using bfs_correct [of ?seeds ?seeds "gm_edges g" depth] assms(3) by simp
  have ns: "ns = List.map_filter (\<lambda>i. map_option (\<lambda>data. (i, data)) (map_of (gm_nodes g) i)) ?resolved"
    and es: "es = dedup_edges [] (filter (\<lambda>(src, tgt, _, _). src \<in> set ?resolved \<and> tgt \<in> set ?resolved) (gm_edges g))"
    using assms(1,2) by (simp_all add: get_neighborhood_def Let_def)
  have "set ns = {(i, data). i \<in> ball \<and> map_of (gm_nodes g) i = Some data}"
    unfolding ns by (auto simp: set_map_filter ball)
  moreover have "set es \<subseteq> set (gm_edges g)"
    unfolding es using dedup_edges_subset by fastforce
  moreover have "distinct (map edge_key es)" unfolding es by (rule distinct_dedup_edges)
  moreover have "edge_key ` set es = {(s, t, r). s \<in> ball \<and> t \<in> ball \<and> (\<exists>p. (s, t, r, p) \<in> set (gm_edges g))}"
    unfolding es set_dedup_edges_keys ball by (force simp: image_iff)
  ultimately show ?thesis by blast
qed

theorem neighborhood_is_induced_ball_witness:
  "\<exists>ns es. get_neighborhood [[97]] 1 (graph_new\<lparr>gm_nodes := [([97], []), ([98], []), ([99], [])],
        gm_edges := [([98], [97], [], []), ([98], [99], [], [])]\<rparr>) = (ns, es)
     \<and> fst ` set ns = {[97], [98]} \<and> edge_key ` set es = {([98], [97], [])}"
proof -
  let ?g = "graph_new\<lparr>gm_nodes := [([97], []), ([98], []), ([99], [])],
        gm_edges := [([98], [97], [], []), ([98], [99], [], [])]\<rparr>"
  obtain ns es where n: "get_neighborhood [[97]] 1 ?g = (ns, es)"
    by (cases "get_neighborhood [[97]] 1 ?g")
  have b: "within_distance (gm_edges ?g) 1 (set [[97]]) = {[97], [98]}"
    by (auto simp: adjacent_def graph_new_def)
  from neighborhood_is_induced_ball [OF _ n refl] have
    "set ns = {(i, data). i \<in> {[97], [98]} \<and> map_of (gm_nodes ?g) i = Some data}"
    "edge_key ` set es = {(s, t, r). s \<in> {[97], [98]} \<and> t \<in> {[97], [98]} \<and> (\<exists>p. (s, t, r, p) \<in> set (gm_edges ?g))}"
    unfolding b by simp_all
  moreover have "{(i, data). i \<in> {[97], [98]} \<and> map_of (gm_nodes ?g) i = Some data} = {([97], []), ([98], [])}"
    by (auto simp: graph_new_def)
  moreover have "{(s, t, r). s \<in> {[97], [98]} \<and> t \<in> {[97], [98]} \<and> (\<exists>p. (s, t, r, p) \<in> set (gm_edges ?g))}
      = {([98], [97], [])}"
    by (auto simp: graph_new_def)
  ultimately have "set ns = {([97], []), ([98], [])}" and "edge_key ` set es = {([98], [97], [])}"
    by simp_all
  then have "fst ` set ns = {[97], [98]} \<and> edge_key ` set es = {([98], [97], [])}" by simp
  with n show ?thesis by blast
qed

text \<open>
  Deleting nodes detaches them: when \<open>delete_nodes\<close> returns, exactly the named nodes are
  gone, no edge touches a named id any more, stored endpoint or not, and every other edge is
  kept in order; when it fails the graph is unchanged.
\<close>

lemma delete_nodes_detaches:
  "case graph_delete_nodes node_ids g of
     (Inl e, g') \<Rightarrow> g' = g
   | (Inr _, g') \<Rightarrow> node_ids_in g' = node_ids_in g - set node_ids
       \<and> gm_edges g' = filter (\<lambda>(s, t, r, p). s \<notin> set node_ids \<and> t \<notin> set node_ids) (gm_edges g)
       \<and> (if i \<in> set node_ids then get_node i g' = None \<and> get_edges i g' = [] \<and> degree (gm_edges g') i = 0
          else get_node i g' = get_node i g)"
proof -
  have get: "map_of (fold obj_remove node_ids m) i = (if i \<in> set node_ids then None else map_of m i)" for m :: "(str \<times> node_data) list"
    by (induction node_ids arbitrary: m) auto
  have deg: "degree (filter (\<lambda>(s, t, r, p). s \<notin> set node_ids \<and> t \<notin> set node_ids) es) i = 0" if "i \<in> set node_ids" for es
    using that by (induction es) (auto simp: degree_def)
  show ?thesis
  proof (cases "gm_delete_nodes_error g")
    case None
    then show ?thesis
      using get deg by (auto simp: graph_delete_nodes_def detach_delete_def node_ids_in_def fst_fold_obj_remove
          get_node_def get_edges_def filter_empty_conv)
  next
    case (Some msg)
    then show ?thesis by (simp add: graph_delete_nodes_def)
  qed
qed

end
