(* ===== verification/Artifacts.thy ===== *)
theory Artifacts
  imports Vector_Memory Graph_Memory
begin

text \<open>
  The artifact deletion shared by the delete paths and the run sweep: the last section of
  \<open>crates/delete/src/lib.rs\<close>. Given ledger rows, it deletes the graph nodes and the vector
  points that the rows stand for.

  What the code is handed at run time is one record: the two stores, the database backend, the
  renderings of an id (\<open>Display\<close> and \<open>simple\<close>), the name-based UUID, lowercasing, the \<open>Display\<close>
  of a database error, and the order in which a hash set and a hash map are iterated.
\<close>

section \<open>Errors and results\<close>

record delete_result =
  dr_datasets :: nat
  dr_dataset_links :: nat
  dr_data :: nat
  dr_storage_files :: nat
  dr_graph_nodes :: nat
  dr_vector_points :: nat
  dr_provenance_nodes :: nat
  dr_provenance_edges :: nat
  dr_orphan_entities :: nat
  dr_orphan_entity_types :: nat
  dr_orphan_edge_types :: nat
  dr_pipeline_runs :: nat
  dr_pipeline_statuses :: nat
  dr_search_queries :: nat
  dr_pruned_sessions :: bool
  dr_warnings :: "str list"
  dr_data_id :: "uuid option"

datatype delete_error =
    Validation str | Runtime str | GraphCleanup str | VectorCleanup str | PermissionDenied str
  | Partial delete_result uuid delete_error

text \<open>\<open>DeleteResult += rhs\<close>.\<close>

definition add_result :: "delete_result \<Rightarrow> delete_result \<Rightarrow> delete_result" where
  "add_result a b =
     \<lparr>dr_datasets = dr_datasets a + dr_datasets b,
      dr_dataset_links = dr_dataset_links a + dr_dataset_links b,
      dr_data = dr_data a + dr_data b,
      dr_storage_files = dr_storage_files a + dr_storage_files b,
      dr_graph_nodes = dr_graph_nodes a + dr_graph_nodes b,
      dr_vector_points = dr_vector_points a + dr_vector_points b,
      dr_provenance_nodes = dr_provenance_nodes a + dr_provenance_nodes b,
      dr_provenance_edges = dr_provenance_edges a + dr_provenance_edges b,
      dr_orphan_entities = dr_orphan_entities a + dr_orphan_entities b,
      dr_orphan_entity_types = dr_orphan_entity_types a + dr_orphan_entity_types b,
      dr_orphan_edge_types = dr_orphan_edge_types a + dr_orphan_edge_types b,
      dr_pipeline_runs = dr_pipeline_runs a + dr_pipeline_runs b,
      dr_pipeline_statuses = dr_pipeline_statuses a + dr_pipeline_statuses b,
      dr_search_queries = dr_search_queries a + dr_search_queries b,
      dr_pruned_sessions = (dr_pruned_sessions a \<or> dr_pruned_sessions b),
      dr_warnings = dr_warnings a @ dr_warnings b,
      dr_data_id = (case dr_data_id a of Some i \<Rightarrow> Some i | None \<Rightarrow> dr_data_id b)\<rparr>"

section \<open>The environment\<close>

type_synonym collection_pair = "str \<times> str"

record ('g, 'v) delete_env =
  en_graph :: "'g graph_db"
  en_vector :: "'v vector_db"
  en_backend :: db_backend
  en_uuid_str :: "uuid \<Rightarrow> str"
  en_uuid_hex :: "uuid \<Rightarrow> str"
  en_u5 :: "str \<Rightarrow> uuid"
  en_lower :: "str \<Rightarrow> str"
  en_show :: "db_error \<Rightarrow> str"
  en_id_order :: "str list \<Rightarrow> str list"
  en_map_order :: "(collection_pair \<times> uuid list) list \<Rightarrow> (collection_pair \<times> uuid list) list"

definition triplet_data_type :: str where "triplet_data_type = lit ''Triplet''"
definition triplet_field :: str where "triplet_field = lit ''text''"
definition edge_type_data_type :: str where "edge_type_data_type = lit ''EdgeType''"
definition edge_type_field :: str where "edge_type_field = lit ''relationship_name''"

section \<open>What a row stands for\<close>

definition parse_indexed_fields :: "json \<Rightarrow> str list" where
  "parse_indexed_fields v = (case v of JArray arr \<Rightarrow> List.map_filter as_str arr | _ \<Rightarrow> [])"

definition edge_type_vector_id :: "('g, 'v) delete_env \<Rightarrow> graph_edge \<Rightarrow> uuid option" where
  "edge_type_vector_id E e =
     (let t = edge_retrieval_text e in
      if t = [] then None else Some (edge_type_deterministic_id (en_lower E) (en_u5 E) t))"

definition triplet_vector_id :: "('g, 'v) delete_env \<Rightarrow> graph_edge \<Rightarrow> uuid" where
  "triplet_vector_id E e =
     (let raw = en_uuid_str E (e_source e) @ e_relationship e @ en_uuid_str E (e_destination e) in
      en_u5 E (replace_char 39 [] (replace_char 32 (lit ''_'') (en_lower E raw))))"

definition unchecked_edge_type_vector_ids :: "('g, 'v) delete_env \<Rightarrow> graph_edge list \<Rightarrow> uuid list" where
  "unchecked_edge_type_vector_ids E edges = List.map_filter (edge_type_vector_id E) edges"

section \<open>Graph nodes\<close>

definition delete_graph_artifacts ::
  "('g, 'v) delete_env \<Rightarrow> 'g graph_db option \<Rightarrow> graph_node list \<Rightarrow> ('g, delete_error, nat \<times> str list) action" where
  "delete_graph_artifacts E graph_db nodes =
     (case graph_db of
        None \<Rightarrow> ok (0, if nodes \<noteq> []
                  then [lit ''Graph DB not configured; graph artifacts were not cleaned up.''] else [])
      | Some G \<Rightarrow>
          (let node_ids = en_id_order E (remdups (map (\<lambda>n. en_uuid_str E (g_slug n)) nodes)) in
           and_then
             (if node_ids = [] then ok ()
              else map_err (\<lambda>e. GraphCleanup (lit ''Failed to delete '' @ decimal (length node_ids)
                     @ lit '' graph nodes: '' @ e)) (gdb_delete_nodes G node_ids))
             (\<lambda>_. ok (length node_ids, []))))"

section \<open>Vector points\<close>

definition existing_vector_ids ::
  "'v vector_db \<Rightarrow> str \<Rightarrow> str \<Rightarrow> uuid list \<Rightarrow> ('v, str, uuid list) action" where
  "existing_vector_ids V data_type field_name candidates =
     (if candidates = [] then ok []
      else and_then
        (map_err (\<lambda>e. lit ''Failed to check vector collection '' @ collection_key data_type field_name
                       @ lit '': '' @ e) (vdb_has_collection V data_type field_name))
        (\<lambda>present. if \<not> present then ok []
           else and_then
             (map_err (\<lambda>e. lit ''Failed to look up vector points in '' @ collection_key data_type field_name
                            @ lit '': '' @ e) (vdb_retrieve V data_type field_name candidates))
             (\<lambda>found. ok (btree_set found))))"

definition existing_triplet_vector_ids ::
  "('g, 'v) delete_env \<Rightarrow> 'v vector_db \<Rightarrow> graph_edge list \<Rightarrow> ('v, str, uuid list) action" where
  "existing_triplet_vector_ids E V edges =
     existing_vector_ids V triplet_data_type triplet_field (btree_set (map (triplet_vector_id E) edges))"

definition existing_edge_type_vector_ids ::
  "('g, 'v) delete_env \<Rightarrow> 'v vector_db \<Rightarrow> graph_edge list \<Rightarrow> ('v, str, uuid list) action" where
  "existing_edge_type_vector_ids E V edges =
     existing_vector_ids V edge_type_data_type edge_type_field
       (btree_set (List.map_filter (edge_type_vector_id E) edges))"

text \<open>\<open>map.entry(k).or_default().extend(xs)\<close>.\<close>

fun group_extend :: "'k \<Rightarrow> 'a list \<Rightarrow> ('k \<times> 'a list) list \<Rightarrow> ('k \<times> 'a list) list" where
  "group_extend k xs [] = [(k, xs)]"
| "group_extend k xs ((k', ys) # m) = (if k' = k then (k', ys @ xs) # m else (k', ys) # group_extend k xs m)"

definition node_groups :: "graph_node list \<Rightarrow> (collection_pair \<times> uuid list) list" where
  "node_groups nodes =
     fold (\<lambda>n. fold (\<lambda>f. group_extend (n_type n, f) [g_slug n]) (parse_indexed_fields (n_indexed_fields n))) nodes []"

definition point_groups ::
  "graph_node list \<Rightarrow> uuid list \<Rightarrow> uuid list \<Rightarrow> (collection_pair \<times> uuid list) list" where
  "point_groups nodes edge_type_ids triplet_ids =
     (let by_node = node_groups nodes;
          with_edge_types = (if edge_type_ids = [] then by_node
                             else group_extend (edge_type_data_type, edge_type_field) edge_type_ids by_node) in
      if triplet_ids = [] then with_edge_types
      else group_extend (triplet_data_type, triplet_field) triplet_ids with_edge_types)"

text \<open>The deletion loop; a failure on the legacy \<open>Triplet_text\<close> collection is only a warning.\<close>

fun delete_groups ::
  "'v vector_db \<Rightarrow> (collection_pair \<times> uuid list) list \<Rightarrow> nat \<Rightarrow> str list \<Rightarrow> ('v, delete_error, nat \<times> str list) action" where
  "delete_groups V [] total_deleted warnings = ok (total_deleted, warnings)"
| "delete_groups V (((data_type, field_name), ids) # groups) total_deleted warnings =
     (if ids = [] then delete_groups V groups total_deleted warnings
      else and_then
        (map_err (\<lambda>e. VectorCleanup (lit ''Failed to check vector collection ''
                        @ collection_key data_type field_name @ lit '': '' @ e))
          (vdb_has_collection V data_type field_name))
        (\<lambda>present. if \<not> present then delete_groups V groups total_deleted warnings
           else and_then (recover (vdb_delete_points V data_type field_name ids))
             (\<lambda>deleted. case deleted of
                Inr _ \<Rightarrow> delete_groups V groups (total_deleted + length ids) warnings
              | Inl e \<Rightarrow>
                  (let message = lit ''Failed to delete vector points from ''
                                 @ collection_key data_type field_name @ lit '': '' @ e in
                   if data_type = triplet_data_type \<and> field_name = triplet_field
                   then delete_groups V groups total_deleted
                          (warnings @ [message @ lit ''; legacy Triplet_text points were not cleaned up''])
                   else fail (VectorCleanup message)))))"

definition delete_vector_artifacts ::
  "('g, 'v) delete_env \<Rightarrow> 'v vector_db option \<Rightarrow> graph_node list \<Rightarrow> graph_edge list \<Rightarrow> uuid list
     \<Rightarrow> ('v, delete_error, nat \<times> str list) action" where
  "delete_vector_artifacts E vector_db nodes edges edge_type_ids =
     (case vector_db of
        None \<Rightarrow> ok (0, if nodes \<noteq> [] \<or> edges \<noteq> []
                  then [lit ''Vector DB not configured; vector artifacts were not cleaned up.''] else [])
      | Some V \<Rightarrow>
          and_then
            (map_err VectorCleanup
              (existing_vector_ids V edge_type_data_type edge_type_field (btree_set edge_type_ids)))
            (\<lambda>existing_edge_type_ids.
               and_then (recover (existing_triplet_vector_ids E V edges))
                 (\<lambda>probe.
                    (let triplet_ids = (case probe of Inr ids \<Rightarrow> ids | Inl _ \<Rightarrow> []);
                         warnings = (case probe of
                             Inr _ \<Rightarrow> []
                           | Inl e \<Rightarrow> [e @ lit ''; legacy Triplet_text points were not cleaned up'']) in
                     delete_groups V (en_map_order E (point_groups nodes existing_edge_type_ids triplet_ids))
                       0 warnings))))"

section \<open>What a delete reports\<close>

definition ledger_node_counts :: "graph_node list \<Rightarrow> nat \<times> nat" where
  "ledger_node_counts nodes =
     (length (remdups (map g_slug nodes)),
      sum_list (map (\<lambda>n. length (parse_indexed_fields (n_indexed_fields n))) nodes))"

definition ledger_edge_point_count ::
  "('g, 'v) delete_env \<Rightarrow> 'v vector_db option \<Rightarrow> graph_edge list \<Rightarrow> ('v, delete_error, nat) action" where
  "ledger_edge_point_count E store edges =
     (case store of
        None \<Rightarrow> ok (length (btree_set (List.map_filter (edge_type_vector_id E) edges)))
      | Some V \<Rightarrow>
          and_then (recover (existing_edge_type_vector_ids E V edges))
            (\<lambda>edge_types. and_then (recover (existing_triplet_vector_ids E V edges))
               (\<lambda>triplets. ok ((case edge_types of Inr ids \<Rightarrow> length ids | Inl _ \<Rightarrow> 0)
                                + (case triplets of Inr ids \<Rightarrow> length ids | Inl _ \<Rightarrow> 0)))))"

definition ledger_artifact_counts ::
  "('g, 'v) delete_env \<Rightarrow> 'v vector_db option \<Rightarrow> graph_node list \<Rightarrow> graph_edge list
     \<Rightarrow> ('v, delete_error, nat \<times> nat) action" where
  "ledger_artifact_counts E store nodes edges =
     (let (graph_nodes, node_points) = ledger_node_counts nodes in
      and_then (ledger_edge_point_count E store edges) (\<lambda>n. ok (graph_nodes, node_points + n)))"

section \<open>The contract with the stores\<close>

text \<open>
  What the delete paths rely on: the laws of both stores, a rendering of ids that tells them
  apart, and that iterating over a set or a map visits every entry once.
\<close>

locale delete_env_laws = graph_store "en_graph E" nodes_of + vector_store "en_vector E" points_of
  for E :: "('g, 'v) delete_env" and nodes_of :: "'g \<Rightarrow> str set" and points_of :: "'v \<Rightarrow> str \<Rightarrow> uuid set" +
  assumes uuid_str_inj: "inj (en_uuid_str E)"
    and id_order: "mset (en_id_order E ids) = mset ids"
    and map_order: "mset (en_map_order E groups) = mset groups"
begin

lemma set_id_order [simp]: "set (en_id_order E ids) = set ids"
  using id_order mset_eq_setD by blast

lemma set_map_order [simp]: "set (en_map_order E groups) = set groups"
  using map_order mset_eq_setD by blast

end

text \<open>The in-memory stores, with any rendering of errors and any hash.\<close>

definition memory_env ::
  "(graph_error \<Rightarrow> str) \<Rightarrow> (vector_error \<Rightarrow> str) \<Rightarrow> (str \<Rightarrow> uuid) \<Rightarrow> (str \<Rightarrow> str) \<Rightarrow> (graph_mem, 'f brute_force) delete_env" where
  "memory_env show_graph show_vector u5 lower =
     \<lparr>en_graph = graph_memory_db show_graph, en_vector = brute_force_db show_vector, en_backend = Sqlite,
      en_uuid_str = decimal, en_uuid_hex = (\<lambda>i. 104 # decimal i), en_u5 = u5, en_lower = lower,
      en_show = (\<lambda>e. case e of NotFound m \<Rightarrow> m | UniqueViolation m \<Rightarrow> m | QueryError m \<Rightarrow> m),
      en_id_order = (\<lambda>ids. ids), en_map_order = (\<lambda>groups. groups)\<rparr>"

interpretation memory: delete_env_laws "memory_env show_graph show_vector u5 lower" node_ids_in points_in
proof -
  have "graph_store (en_graph (memory_env show_graph show_vector u5 lower)) node_ids_in"
    by (simp add: memory_env_def graph_memory.graph_store_axioms)
  moreover have "vector_store (en_vector (memory_env show_graph show_vector u5 lower)) points_in"
    by (simp add: memory_env_def brute_force.vector_store_axioms)
  ultimately show "delete_env_laws (memory_env show_graph show_vector u5 lower) node_ids_in points_in"
    by (intro delete_env_laws.intro delete_env_laws_axioms.intro) (simp_all add: memory_env_def inj_decimal)
qed

section \<open>What the deletion loop removes\<close>

text \<open>The points named by a list of groups, per collection name.\<close>

definition group_points :: "(collection_pair \<times> uuid list) list \<Rightarrow> str \<Rightarrow> uuid set" where
  "group_points groups key =
     {i. \<exists>data_type field_name ids. ((data_type, field_name), ids) \<in> set groups
          \<and> collection_key data_type field_name = key \<and> i \<in> set ids}"

lemma group_points_Nil [simp]: "group_points [] key = {}"
  by (simp add: group_points_def)

lemma group_points_Cons [simp]:
  "group_points (((data_type, field_name), ids) # groups) key =
     (if collection_key data_type field_name = key then set ids else {}) \<union> group_points groups key"
  by (auto simp: group_points_def)

lemma group_points_cong: "set groups = set groups' \<Longrightarrow> group_points groups = group_points groups'"
  by (simp add: group_points_def fun_eq_iff)

text \<open>A group as the pairs (collection, id) it names.\<close>

definition named_pairs :: "('k \<times> 'a list) list \<Rightarrow> ('k \<times> 'a) set" where
  "named_pairs groups = {(k, i). \<exists>ids. (k, ids) \<in> set groups \<and> i \<in> set ids}"

lemma named_pairs_simps [simp]:
  "named_pairs [] = {}" "named_pairs ((k, ids) # m) = {k} \<times> set ids \<union> named_pairs m"
  by (auto simp: named_pairs_def)

lemma named_pairs_extend [simp]: "named_pairs (group_extend k xs m) = {k} \<times> set xs \<union> named_pairs m"
  by (induction m rule: group_extend.induct) auto

lemma group_points_pairs: "group_points groups key = {i. \<exists>k. (k, i) \<in> named_pairs groups \<and> collection_key (fst k) (snd k) = key}"
  by (auto simp: group_points_def named_pairs_def)

definition node_points :: "graph_node list \<Rightarrow> (collection_pair \<times> uuid) set" where
  "node_points nodes = {((n_type n, f), g_slug n) | n f. n \<in> set nodes \<and> f \<in> set (parse_indexed_fields (n_indexed_fields n))}"

lemma named_pairs_fields:
  "named_pairs (fold (\<lambda>f. group_extend (n_type n, f) [g_slug n]) fs m) = (\<lambda>f. ((n_type n, f), g_slug n)) ` set fs \<union> named_pairs m"
  by (induction fs arbitrary: m) auto

lemma named_pairs_nodes:
  "named_pairs (fold (\<lambda>n. fold (\<lambda>f. group_extend (n_type n, f) [g_slug n]) (parse_indexed_fields (n_indexed_fields n))) nodes m)
     = node_points nodes \<union> named_pairs m"
proof (induction nodes arbitrary: m)
  case (Cons n nodes)
  show ?case by (simp add: Cons named_pairs_fields) (auto simp: node_points_def)
qed (simp add: node_points_def)

lemma named_pairs_point_groups:
  "named_pairs (point_groups nodes edge_type_ids triplet_ids) = node_points nodes
     \<union> {(edge_type_data_type, edge_type_field)} \<times> set edge_type_ids \<union> {(triplet_data_type, triplet_field)} \<times> set triplet_ids"
  by (auto simp: point_groups_def node_groups_def Let_def named_pairs_nodes)

context delete_env_laws
begin

lemma existing_vector_ids_reads:
  "existing_vector_ids (en_vector E) dt fn ids v = (r, v') \<Longrightarrow> points_of v' = points_of v"
  by (cases r) (auto simp: existing_vector_ids_def outcomes dest!: has_collection_reads retrieve_reads split: if_splits)

lemma existing_vector_ids_ok:
  assumes "existing_vector_ids (en_vector E) dt fn ids v = (Inr found, v')"
  shows "set found = set ids \<inter> points_of v (collection_key dt fn)"
proof (cases "ids = []")
  case True
  with assms show ?thesis by (simp add: existing_vector_ids_def outcomes)
next
  case False
  with assms obtain present v1 where h: "vdb_has_collection (en_vector E) dt fn v = (Inr present, v1)"
    and rest: "(if \<not> present then ok [] else and_then
             (map_err (\<lambda>e. lit ''Failed to look up vector points in '' @ collection_key dt fn
                            @ lit '': '' @ e) (vdb_retrieve (en_vector E) dt fn ids))
             (\<lambda>found. ok (btree_set found))) v1 = (Inr found, v')"
    by (auto simp: existing_vector_ids_def outcomes)
  show ?thesis
  proof (cases present)
    case True
    with rest obtain fs where "vdb_retrieve (en_vector E) dt fn ids v1 = (Inr fs, v')" and "found = btree_set fs"
      by (auto simp: outcomes)
    with retrieve_ok [of dt fn ids v1 fs v'] has_collection_reads [OF h] show ?thesis by simp
  next
    case False
    with h have "points_of v (collection_key dt fn) = {}" using has_collection_no by simp
    with False rest show ?thesis by (simp add: outcomes)
  qed
qed

text \<open>Whatever the outcome, the loop removes named points only.\<close>

lemma delete_groups_bounds:
  "delete_groups (en_vector E) groups n ws v = (r, v') \<Longrightarrow>
     points_of v' key \<subseteq> points_of v key \<and> points_of v key - group_points groups key \<subseteq> points_of v' key"
proof (induction groups arbitrary: n ws v)
  case Nil
  then show ?case by (simp add: ok_def)
next
  case (Cons g groups)
  obtain dt fn ids where g: "g = ((dt, fn), ids)" by (metis surj_pair)
  let ?here = "if collection_key dt fn = key then set ids else {}"
  have rest: "?case" if r: "delete_groups (en_vector E) groups m us v1 = (r, v')"
    and b: "points_of v1 key \<subseteq> points_of v key" "points_of v key - ?here \<subseteq> points_of v1 key" for m us v1
    using Cons.IH [OF r] b unfolding g group_points_Cons by blast
  show ?case
  proof (cases "ids = []")
    case True
    show ?thesis by (rule rest [of n ws v]) (use Cons.prems True in \<open>auto simp: g\<close>)
  next
    case False
    obtain p v1 where h: "vdb_has_collection (en_vector E) dt fn v = (p, v1)" by fastforce
    note p1 = has_collection_reads [OF h]
    show ?thesis
    proof (cases "p = Inr True")
      case True
      obtain d v2 where d: "vdb_delete_points (en_vector E) dt fn ids v1 = (d, v2)" by fastforce
      note p2 = delete_points_bounds [OF d, of key, unfolded p1]
      have "points_of v key - ?here \<subseteq> points_of v2 key" using p2 by (auto split: if_splits)
      then have b: "points_of v2 key \<subseteq> points_of v key" "points_of v key - ?here \<subseteq> points_of v2 key"
        using p2 by auto
      show ?thesis
        using Cons.prems False True h d rest [OF _ b] b
        by (cases d) (auto simp: g and_then_def map_err_def recover_def fail_def Let_def split: if_splits)
    next
      case False
      then show ?thesis
        using Cons.prems \<open>ids \<noteq> []\<close> h rest [of n ws v1] p1
        by (cases p) (auto simp: g and_then_def map_err_def)
    qed
  qed
qed

text \<open>When it returns, every named point is gone, the legacy triplet collection aside.\<close>

lemma delete_groups_ok:
  "delete_groups (en_vector E) groups n ws v = (Inr out, v') \<Longrightarrow> (k, i) \<in> named_pairs groups \<Longrightarrow>
     k \<noteq> (triplet_data_type, triplet_field) \<Longrightarrow> i \<notin> points_of v' (collection_key (fst k) (snd k))"
proof (induction groups arbitrary: n ws v)
  case (Cons g groups)
  obtain dt fn ids where g: "g = ((dt, fn), ids)" by (metis surj_pair)
  have later: "?case" if r: "delete_groups (en_vector E) groups m us v1 = (Inr out, v')"
    and here: "(k, i) \<notin> named_pairs groups \<Longrightarrow> i \<notin> points_of v1 (collection_key (fst k) (snd k))" for m us v1
  proof (cases "(k, i) \<in> named_pairs groups")
    case True
    show ?thesis by (rule Cons.IH [OF r True Cons.prems(3)])
  next
    case False
    with here delete_groups_bounds [OF r, of "collection_key (fst k) (snd k)"] show ?thesis by blast
  qed
  show ?case
  proof (cases "ids = []")
    case True
    show ?thesis by (rule later [of n ws v]) (use Cons.prems True in \<open>auto simp: g\<close>)
  next
    case False
    with Cons.prems obtain present v1 where h: "vdb_has_collection (en_vector E) dt fn v = (Inr present, v1)"
      by (auto simp: g outcomes)
    note p1 = has_collection_reads [OF h]
    show ?thesis
    proof (cases present)
      case False
      with Cons.prems h \<open>ids \<noteq> []\<close> have r: "delete_groups (en_vector E) groups n ws v1 = (Inr out, v')"
        by (auto simp: g outcomes)
      show ?thesis
      proof (rule later [OF r])
        assume "(k, i) \<notin> named_pairs groups"
        then have "k = (dt, fn)" using Cons.prems(2) by (auto simp: g)
        with has_collection_no [of dt fn v v1] h False p1 show "i \<notin> points_of v1 (collection_key (fst k) (snd k))"
          by simp
      qed
    next
      case True
      obtain d v2 where d: "vdb_delete_points (en_vector E) dt fn ids v1 = (d, v2)" by fastforce
      have gone: "i \<notin> points_of v2 (collection_key (fst k) (snd k))"
        if "d = Inr x" "(k, i) \<notin> named_pairs groups" for x
        using Cons.prems(2) that delete_points_ok [of dt fn ids v1 x v2] d by (auto simp: g)
      show ?thesis
      proof (cases d)
        case (Inr x)
        with Cons.prems h d True False have r: "delete_groups (en_vector E) groups (n + length ids) ws v2 = (Inr out, v')"
          by (auto simp: g and_then_def map_err_def recover_def)
        show ?thesis by (rule later [OF r gone [OF Inr]])
      next
        case (Inl e)
        with Cons.prems h d True False obtain us where "(dt, fn) = (triplet_data_type, triplet_field)"
          and r: "delete_groups (en_vector E) groups n us v2 = (Inr out, v')"
          by (auto simp: g and_then_def map_err_def recover_def fail_def Let_def split: if_splits)
        then have "(k, i) \<in> named_pairs groups" using Cons.prems(2,3) by (auto simp: g)
        with later [OF r] show ?thesis by blast
      qed
    qed
  qed
qed simp

end

section \<open>What the two deletions remove\<close>

text \<open>The points that rows name: their nodes' indexed fields, the given edge types, the triplets.\<close>

definition named_points ::
  "('g, 'v) delete_env \<Rightarrow> graph_node list \<Rightarrow> graph_edge list \<Rightarrow> uuid list \<Rightarrow> str \<Rightarrow> uuid set" where
  "named_points E nodes edges edge_type_ids key =
     {i. \<exists>k. collection_key (fst k) (snd k) = key \<and>
        ((k, i) \<in> node_points nodes
         \<or> k = (edge_type_data_type, edge_type_field) \<and> i \<in> set edge_type_ids
         \<or> k = (triplet_data_type, triplet_field) \<and> i \<in> triplet_vector_id E ` set edges)}"

context delete_env_laws
begin

lemma graph_artifacts_bounds:
  assumes "delete_graph_artifacts E (Some (en_graph E)) nodes g = (r, g')"
  shows "nodes_of g' \<subseteq> nodes_of g \<and> nodes_of g - en_uuid_str E ` g_slug ` set nodes \<subseteq> nodes_of g'"
proof -
  let ?ids = "en_id_order E (remdups (map (\<lambda>n. en_uuid_str E (g_slug n)) nodes))"
  have ids: "set ?ids = en_uuid_str E ` g_slug ` set nodes" by auto
  show ?thesis
  proof (cases "?ids = []")
    case True
    with assms show ?thesis by (simp add: delete_graph_artifacts_def Let_def and_then_def ok_def)
  next
    case False
    obtain d where "gdb_delete_nodes (en_graph E) ?ids g = (d, g')"
      using assms False
      by (auto simp: delete_graph_artifacts_def Let_def and_then_def ok_def map_err_def split: prod.splits sum.splits)
    from delete_nodes_bounds [OF this] ids show ?thesis by auto
  qed
qed

lemma graph_artifacts_ok:
  assumes "delete_graph_artifacts E (Some (en_graph E)) nodes g = (Inr out, g')"
  shows "nodes_of g' = nodes_of g - en_uuid_str E ` g_slug ` set nodes
    \<and> fst out = card (g_slug ` set nodes) \<and> snd out = []"
proof -
  let ?ids = "en_id_order E (remdups (map (\<lambda>n. en_uuid_str E (g_slug n)) nodes))"
  have ids: "set ?ids = en_uuid_str E ` g_slug ` set nodes" by auto
  have "length ?ids = size (mset ?ids)" by (simp only: size_mset)
  also have "\<dots> = card (set (map (\<lambda>n. en_uuid_str E (g_slug n)) nodes))"
    by (simp only: id_order size_mset length_remdups_card_conv)
  also have "\<dots> = card (en_uuid_str E ` g_slug ` set nodes)" by (simp add: image_image)
  also have "\<dots> = card (g_slug ` set nodes)"
    by (rule card_image) (rule inj_on_subset [OF uuid_str_inj], simp)
  finally have len: "length ?ids = card (g_slug ` set nodes)" .
  show ?thesis
  proof (cases "?ids = []")
    case True
    then have "set ?ids = {}" by simp
    with True assms len ids show ?thesis
      by (simp add: delete_graph_artifacts_def Let_def outcomes)
  next
    case False
    with assms have "gdb_delete_nodes (en_graph E) ?ids g = (Inr (), g')" and "out = (length ?ids, [])"
      by (auto simp: delete_graph_artifacts_def Let_def outcomes)
    with delete_nodes_ok [of ?ids g "()" g'] ids len show ?thesis by simp
  qed
qed

lemma vector_artifacts_bounds:
  assumes "delete_vector_artifacts E (Some (en_vector E)) nodes edges edge_type_ids v = (r, v')"
  shows "points_of v' key \<subseteq> points_of v key
    \<and> points_of v key - named_points E nodes edges edge_type_ids key \<subseteq> points_of v' key"
proof -
  obtain et v1 where et: "existing_vector_ids (en_vector E) edge_type_data_type edge_type_field
      (btree_set edge_type_ids) v = (et, v1)" by fastforce
  note p1 = existing_vector_ids_reads [OF et]
  show ?thesis
  proof (cases et)
    case (Inl e)
    with assms et p1 show ?thesis by (auto simp: delete_vector_artifacts_def and_then_def map_err_def)
  next
    case (Inr ets)
    obtain tr v2 where tr: "existing_triplet_vector_ids E (en_vector E) edges v1 = (tr, v2)" by fastforce
    note p2 = existing_vector_ids_reads [OF tr [unfolded existing_triplet_vector_ids_def]]
    define ts where "ts = (case tr of Inr ids \<Rightarrow> ids | Inl _ \<Rightarrow> [])"
    let ?groups = "point_groups nodes ets ts"
    from assms et Inr tr obtain ws where
      d: "delete_groups (en_vector E) (en_map_order E ?groups) 0 ws v2 = (r, v')"
      by (auto simp: delete_vector_artifacts_def and_then_def map_err_def recover_def ts_def Let_def
          split: sum.splits)
    have "set ets \<subseteq> set edge_type_ids"
      using existing_vector_ids_ok [OF et [unfolded Inr]] by auto
    moreover have "set ts \<subseteq> triplet_vector_id E ` set edges"
      using existing_vector_ids_ok [of triplet_data_type triplet_field _ v1 ts v2] tr
      by (auto simp: ts_def existing_triplet_vector_ids_def split: sum.splits)
    ultimately have "(k, i) \<in> node_points nodes \<or> k = (edge_type_data_type, edge_type_field) \<and> i \<in> set edge_type_ids
         \<or> k = (triplet_data_type, triplet_field) \<and> i \<in> triplet_vector_id E ` set edges"
      if "(k, i) \<in> named_pairs ?groups" for k i
      using that unfolding named_pairs_point_groups by (elim UnE) auto
    then have "group_points ?groups key \<subseteq> named_points E nodes edges edge_type_ids key"
      unfolding group_points_pairs named_points_def by blast
    moreover have "group_points (en_map_order E ?groups) key = group_points ?groups key"
      by (simp add: group_points_cong [OF set_map_order])
    ultimately show ?thesis using delete_groups_bounds [OF d, of key] p1 p2 by auto
  qed
qed

lemma vector_artifacts_ok:
  assumes "delete_vector_artifacts E (Some (en_vector E)) nodes edges edge_type_ids v = (Inr out, v')"
  shows "\<And>k i. (k, i) \<in> node_points nodes \<Longrightarrow> k \<noteq> (triplet_data_type, triplet_field) \<Longrightarrow>
      i \<notin> points_of v' (collection_key (fst k) (snd k))"
    and "\<And>i. i \<in> set edge_type_ids \<Longrightarrow> i \<notin> points_of v' (collection_key edge_type_data_type edge_type_field)"
proof -
  from assms obtain ets v1 where et: "existing_vector_ids (en_vector E) edge_type_data_type edge_type_field
      (btree_set edge_type_ids) v = (Inr ets, v1)"
    by (auto simp: delete_vector_artifacts_def outcomes)
  obtain tr v2 where tr: "existing_triplet_vector_ids E (en_vector E) edges v1 = (tr, v2)" by fastforce
  define ts where "ts = (case tr of Inr ids \<Rightarrow> ids | Inl _ \<Rightarrow> [])"
  from assms et tr obtain ws where
    d: "delete_groups (en_vector E) (en_map_order E (point_groups nodes ets ts)) 0 ws v2 = (Inr out, v')"
    by (auto simp: delete_vector_artifacts_def and_then_def map_err_def recover_def ts_def Let_def
        split: sum.splits)
  have pairs: "named_pairs (en_map_order E (point_groups nodes ets ts)) = named_pairs (point_groups nodes ets ts)"
    by (simp add: named_pairs_def)
  show "i \<notin> points_of v' (collection_key (fst k) (snd k))"
    if "(k, i) \<in> node_points nodes" "k \<noteq> (triplet_data_type, triplet_field)" for k i
    by (rule delete_groups_ok [OF d _ that(2)]) (simp add: pairs named_pairs_point_groups that(1))
  show "i \<notin> points_of v' (collection_key edge_type_data_type edge_type_field)" if "i \<in> set edge_type_ids" for i
  proof (cases "i \<in> set ets")
    case True
    have "(edge_type_data_type, edge_type_field) \<noteq> (triplet_data_type, triplet_field)"
      by (simp add: edge_type_data_type_def triplet_data_type_def lit_def)
    from delete_groups_ok [OF d _ this, of i] True show ?thesis
      by (simp add: pairs named_pairs_point_groups)
  next
    case False
    with that existing_vector_ids_ok [OF et]
    have "i \<notin> points_of v (collection_key edge_type_data_type edge_type_field)" by auto
    with vector_artifacts_bounds [OF assms] show ?thesis by blast
  qed
qed

end

end
