(* ===== verification/Sweep.thy ===== *)
theory Sweep
  imports Artifacts
begin

text \<open>
  The run sweep: \<open>crates/delete/src/sweep.rs\<close>. It rolls back what one pipeline run contributed to a
  dataset: the artifacts no row outside the scope claims, then the run's ownership rows, then the
  completion markers of the data items it touched.

  The state is the ledger database and the two stores. The task-local dataset scope the code
  enters first only routes the handles to a dataset's own stores and is not modelled.
\<close>

section \<open>State\<close>

record ('g, 'v) world =
  w_db :: "ledger database"
  w_graph :: 'g
  w_vector :: 'v

record sweep_outcome =
  so_graph_nodes :: nat
  so_vector_points :: nat
  so_provenance_nodes :: nat
  so_provenance_edges :: nat
  so_unmarked :: nat
  so_warnings :: "str list"

record ('g, 'v) sweep_state =
  ss_world :: "('g, 'v) world"
  ss_outcome :: sweep_outcome

type_synonym ('g, 'v, 'a) world_action = "(('g, 'v) world, delete_error, 'a) action"
type_synonym ('g, 'v, 'a) sweep_action = "(('g, 'v) sweep_state, delete_error, 'a) action"

definition no_outcome :: sweep_outcome where
  "no_outcome = \<lparr>so_graph_nodes = 0, so_vector_points = 0, so_provenance_nodes = 0,
     so_provenance_edges = 0, so_unmarked = 0, so_warnings = []\<rparr>"

text \<open>A ledger call whose error is wrapped: \<open>map_err(|e| DeleteError::Runtime(format!("..: {e}")))\<close>.\<close>

definition on_db :: "('g, 'v) delete_env \<Rightarrow> str \<Rightarrow> 'a db_action \<Rightarrow> ('g, 'v, 'a) world_action" where
  "on_db E what m = within w_db (\<lambda>d w. w\<lparr>w_db := d\<rparr>) (map_err (\<lambda>e. Runtime (what @ lit '': '' @ en_show E e)) m)"

definition on_graph :: "('g, delete_error, 'a) action \<Rightarrow> ('g, 'v, 'a) world_action" where
  "on_graph m = within w_graph (\<lambda>g w. w\<lparr>w_graph := g\<rparr>) m"

definition on_vector :: "('v, delete_error, 'a) action \<Rightarrow> ('g, 'v, 'a) world_action" where
  "on_vector m = within w_vector (\<lambda>v w. w\<lparr>w_vector := v\<rparr>) m"

definition on_world :: "('g, 'v, 'a) world_action \<Rightarrow> ('g, 'v, 'a) sweep_action" where
  "on_world m = within ss_world (\<lambda>w s. s\<lparr>ss_world := w\<rparr>) m"

definition note_outcome :: "(sweep_outcome \<Rightarrow> sweep_outcome) \<Rightarrow> ('g, 'v, unit) sweep_action" where
  "note_outcome f = modify (\<lambda>s. s\<lparr>ss_outcome := f (ss_outcome s)\<rparr>)"

section \<open>The phases\<close>

definition deletable_edge_type_ids ::
  "('g, 'v) delete_env \<Rightarrow> run_scope \<Rightarrow> graph_edge list \<Rightarrow> ('g, 'v, uuid list) world_action" where
  "deletable_edge_type_ids E sc edges =
     (if edges = [] then ok []
      else and_then
        (on_db E (lit ''Failed to get the edge retrieval texts claimed outside run '' @ en_uuid_str E (rs_run sc))
          (get_edge_retrieval_texts_claimed_outside_run (en_backend E) sc))
        (\<lambda>claimed. ok (List.map_filter (edge_type_vector_id E)
                        (filter (\<lambda>e. edge_retrieval_text e \<notin> set claimed) edges))))"

text \<open>Steps 1, 2 and 2b: what to unmark and what may go.\<close>

definition sweep_select ::
  "('g, 'v) delete_env \<Rightarrow> run_scope \<Rightarrow> ('g, 'v, uuid list \<times> graph_node list \<times> graph_edge list \<times> uuid list) world_action" where
  "sweep_select E sc =
     (let run_id = en_uuid_str E (rs_run sc) in
      and_then (on_db E (lit ''Failed to get provenance data ids for run '' @ run_id) (get_data_ids_for_run sc))
        (\<lambda>affected. and_then
          (on_db E (lit ''Failed to get exclusively-owned provenance nodes for run '' @ run_id)
            (get_unique_nodes_for_run sc))
          (\<lambda>nodes. and_then
            (on_db E (lit ''Failed to get exclusively-owned provenance edges for run '' @ run_id)
              (get_unique_edges_for_run sc))
            (\<lambda>edges. and_then (deletable_edge_type_ids E sc edges)
              (\<lambda>edge_type_ids. ok (affected, nodes, edges, edge_type_ids))))))"

text \<open>Step 3: the artifacts.\<close>

definition sweep_artifacts ::
  "('g, 'v) delete_env \<Rightarrow> graph_node list \<Rightarrow> graph_edge list \<Rightarrow> uuid list \<Rightarrow> ('g, 'v, unit) sweep_action" where
  "sweep_artifacts E nodes edges edge_type_ids =
     and_then (on_world (on_graph (delete_graph_artifacts E (Some (en_graph E)) nodes)))
       (\<lambda>(graph_nodes, graph_warnings). and_then
         (note_outcome (\<lambda>out. out\<lparr>so_graph_nodes := graph_nodes, so_warnings := so_warnings out @ graph_warnings\<rparr>))
         (\<lambda>_. and_then
           (on_world (on_vector (delete_vector_artifacts E (Some (en_vector E)) nodes edges edge_type_ids)))
           (\<lambda>(vector_points, vector_warnings).
             note_outcome (\<lambda>out. out\<lparr>so_vector_points := vector_points,
                                      so_warnings := so_warnings out @ vector_warnings\<rparr>))))"

text \<open>Step 4: the ownership rows, all of the selection.\<close>

definition sweep_ledger :: "('g, 'v) delete_env \<Rightarrow> run_scope \<Rightarrow> ('g, 'v, unit) sweep_action" where
  "sweep_ledger E sc =
     (let run_id = en_uuid_str E (rs_run sc) in
      and_then
        (on_world (on_db E (lit ''Failed to delete provenance edges for run '' @ run_id) (delete_edges_for_run sc)))
        (\<lambda>n. and_then (note_outcome (\<lambda>out. out\<lparr>so_provenance_edges := n\<rparr>))
          (\<lambda>_. and_then
            (on_world (on_db E (lit ''Failed to delete provenance nodes for run '' @ run_id) (delete_nodes_for_run sc)))
            (\<lambda>n. note_outcome (\<lambda>out. out\<lparr>so_provenance_nodes := n\<rparr>)))))"

text \<open>Step 5: the markers; every item is attempted, the result is the number of failures.\<close>

fun clear_markers ::
  "('g, 'v) delete_env \<Rightarrow> uuid \<Rightarrow> uuid list \<Rightarrow> nat \<Rightarrow> ('g, 'v, nat) sweep_action" where
  "clear_markers E dataset_id [] failures = ok failures"
| "clear_markers E dataset_id (data_id # rest) failures =
     and_then
       (on_world (within w_db (\<lambda>d w. w\<lparr>w_db := d\<rparr>) (recover
          (clear_cognify_pipeline_status_for_data (en_uuid_str E) (en_uuid_hex E) data_id dataset_id))))
       (\<lambda>cleared. case cleared of
          Inr _ \<Rightarrow> and_then (note_outcome (\<lambda>out. out\<lparr>so_unmarked := so_unmarked out + 1\<rparr>))
                    (\<lambda>_. clear_markers E dataset_id rest failures)
        | Inl e \<Rightarrow> and_then
            (note_outcome (\<lambda>out. out\<lparr>so_warnings := so_warnings out @
               [lit ''Failed to clear the cognify completion marker for data '' @ en_uuid_str E data_id
                @ lit '': '' @ en_show E e]\<rparr>))
            (\<lambda>_. clear_markers E dataset_id rest (failures + 1)))"

definition run_in_scope :: "('g, 'v) delete_env \<Rightarrow> run_scope \<Rightarrow> ('g, 'v, unit) sweep_action" where
  "run_in_scope E sc =
     and_then (on_world (sweep_select E sc))
       (\<lambda>(affected, nodes, edges, edge_type_ids). and_then (sweep_artifacts E nodes edges edge_type_ids)
         (\<lambda>_. and_then (sweep_ledger E sc)
           (\<lambda>_. and_then (clear_markers E (rs_dataset sc) affected 0)
             (\<lambda>failures. if 0 < failures
                then fail (Runtime (lit ''Failed to clear '' @ decimal failures @ lit '' of '' @ decimal (length affected)
                       @ lit '' cognify completion markers for run '' @ en_uuid_str E (rs_run sc)
                       @ lit ''; those data items are still marked complete but their artifacts are gone''))
                else ok ()))))"

definition sweep :: "('g, 'v) delete_env \<Rightarrow> run_scope \<Rightarrow> ('g, 'v, sweep_outcome) world_action" where
  "sweep E sc w =
     (case run_in_scope E sc \<lparr>ss_world = w, ss_outcome = no_outcome\<rparr> of
        (Inl e, s) \<Rightarrow> (Inl e, ss_world s)
      | (Inr _, s) \<Rightarrow> (Inr (ss_outcome s), ss_world s))"

text \<open>\<open>Display\<close> of a \<open>DeleteError\<close>.\<close>

fun show_delete_error :: "('g, 'v) delete_env \<Rightarrow> delete_error \<Rightarrow> str" where
  "show_delete_error E (Validation m) = m"
| "show_delete_error E (Runtime m) = m"
| "show_delete_error E (GraphCleanup m) = lit ''Graph cleanup failed: '' @ m"
| "show_delete_error E (VectorCleanup m) = lit ''Vector cleanup failed: '' @ m"
| "show_delete_error E (PermissionDenied m) = lit ''Permission denied: '' @ m"
| "show_delete_error E (Partial completed dataset_id source) =
     lit ''delete stopped at dataset '' @ en_uuid_str E dataset_id @ lit '' after deleting ''
     @ decimal (dr_datasets completed) @ lit '' dataset(s): '' @ show_delete_error E source"

definition sweep_logging_failure ::
  "('g, 'v) delete_env \<Rightarrow> run_scope \<Rightarrow> ('g, 'v) world \<Rightarrow> sweep_outcome \<times> ('g, 'v) world" where
  "sweep_logging_failure E sc w =
     (case run_in_scope E sc \<lparr>ss_world = w, ss_outcome = no_outcome\<rparr> of
        (Inl e, s) \<Rightarrow> ((ss_outcome s)\<lparr>so_warnings := so_warnings (ss_outcome s) @
                        [lit ''Run sweep failed: '' @ show_delete_error E e]\<rparr>, ss_world s)
      | (Inr _, s) \<Rightarrow> (ss_outcome s, ss_world s))"

section \<open>What each phase does\<close>

abbreviation tables :: "('g, 'v) world \<Rightarrow> ledger" where
  "tables w \<equiv> db_tables (w_db w)"

text \<open>Everything but the completion markers and the outcome is as in \<open>w\<close>.\<close>

definition same_stores :: "('g, 'v) world \<Rightarrow> ('g, 'v) world \<Rightarrow> bool" where
  "same_stores w w' \<longleftrightarrow> w_graph w' = w_graph w \<and> w_vector w' = w_vector w"

lemma on_db_frame: "on_db E what m w = (r, w') \<Longrightarrow> same_stores w w'"
  by (auto simp: on_db_def within_outcome same_stores_def)

lemma on_db_reads: "reads_only m \<Longrightarrow> on_db E what m w = (r, w') \<Longrightarrow> same_stores w w' \<and> tables w' = tables w"
  by (cases r) (auto simp: on_db_def outcomes same_stores_def dest: reads_onlyD)

lemma on_db_ok: "on_db E what m w = (Inr x, w') \<Longrightarrow> m (w_db w) = (Inr x, w_db w')"
  by (auto simp: on_db_def outcomes)

lemma on_db_err: "on_db E what m w = (Inl e, w') \<Longrightarrow> \<exists>e'. m (w_db w) = (Inl e', w_db w')"
  by (auto simp: on_db_def outcomes)

definition reads_world :: "('g, 'v, 'a) world_action \<Rightarrow> bool" where
  "reads_world m \<longleftrightarrow> (\<forall>w. same_stores w (snd (m w)) \<and> tables (snd (m w)) = tables w)"

lemma reads_worldD: "reads_world m \<Longrightarrow> m w = (r, w') \<Longrightarrow> same_stores w w' \<and> tables w' = tables w"
  by (metis reads_world_def snd_conv)

lemma reads_world_ok [intro]: "reads_world (ok x)"
  by (simp add: reads_world_def ok_def same_stores_def)

lemma reads_world_on_db [intro]: "reads_only m \<Longrightarrow> reads_world (on_db E what m)"
  unfolding reads_world_def using on_db_reads [of m E what] by (metis prod.collapse)

lemma reads_world_and_then [intro]: "reads_world m \<Longrightarrow> (\<And>x. reads_world (k x)) \<Longrightarrow> reads_world (and_then m k)"
  by (simp add: reads_world_def and_then_def same_stores_def split: prod.split sum.split) (metis snd_conv)

lemma reads_world_if [intro]: "reads_world m \<Longrightarrow> reads_world m' \<Longrightarrow> reads_world (if b then m else m')"
  by simp

lemma reads_deletable_edge_type_ids: "reads_world (deletable_edge_type_ids E sc edges)"
  unfolding deletable_edge_type_ids_def
  by (intro reads_world_if reads_world_and_then reads_world_ok reads_world_on_db run_queries_read)

lemma reads_sweep_select: "reads_world (sweep_select E sc)"
  unfolding sweep_select_def Let_def
  by (intro reads_world_and_then reads_world_ok reads_world_on_db run_queries_read reads_deletable_edge_type_ids)

text \<open>The edge-type points nobody outside the scope claims by retrieval text.\<close>

definition free_edge_type_ids :: "('g, 'v) delete_env \<Rightarrow> run_scope \<Rightarrow> graph_edge list \<Rightarrow> uuid set" where
  "free_edge_type_ids E sc tbl =
     {i. \<exists>e \<in> exclusive sc tbl. edge_type_vector_id E e = Some i
          \<and> (\<forall>q \<in> set tbl. edge_retrieval_text q = edge_retrieval_text e \<longrightarrow> in_scope sc q)}"

lemma set_map_filter_iff: "y \<in> set (List.map_filter f xs) \<longleftrightarrow> (\<exists>x \<in> set xs. f x = Some y)"
  by (simp add: set_map_filter)

lemma deletable_edge_type_ids_ok:
  assumes "deletable_edge_type_ids E sc edges w = (Inr ids, w')" and "set edges = exclusive sc (l_edges (tables w))"
  shows "set ids = free_edge_type_ids E sc (l_edges (tables w))"
proof (cases "edges = []")
  case True
  with assms show ?thesis by (auto simp: deletable_edge_type_ids_def ok_def free_edge_type_ids_def)
next
  case False
  with assms(1) obtain claimed w1 where c: "on_db E (lit ''Failed to get the edge retrieval texts claimed outside run '' @ en_uuid_str E (rs_run sc))
          (get_edge_retrieval_texts_claimed_outside_run (en_backend E) sc) w = (Inr claimed, w1)"
    and ids: "ids = List.map_filter (edge_type_vector_id E) (filter (\<lambda>e. edge_retrieval_text e \<notin> set claimed) edges)"
    by (auto simp: deletable_edge_type_ids_def outcomes)
  have claimed: "set claimed = edge_retrieval_text ` {e \<in> set (l_edges (tables w)). \<not> in_scope sc e}"
    using claimed_outside_run_ok [OF on_db_ok [OF c]] by simp
  have "edge_retrieval_text e \<notin> set claimed \<longleftrightarrow>
      (\<forall>q \<in> set (l_edges (tables w)). edge_retrieval_text q = edge_retrieval_text e \<longrightarrow> in_scope sc q)" for e
    unfolding claimed by (auto simp: image_iff)
  then show ?thesis
    unfolding ids free_edge_type_ids_def set_map_filter by (auto simp: assms(2))
qed

lemma sweep_select_ok:
  assumes "sweep_select E sc w = (Inr (affected, nodes, edges, edge_type_ids), w')"
  shows "set affected = g_data_id ` {n \<in> set (l_nodes (tables w)). in_scope sc n}
           \<union> g_data_id ` {e \<in> set (l_edges (tables w)). in_scope sc e} \<and> distinct affected
    \<and> set nodes = exclusive sc (l_nodes (tables w)) \<and> set edges = exclusive sc (l_edges (tables w))
    \<and> set edge_type_ids = free_edge_type_ids E sc (l_edges (tables w))"
proof -
  from assms obtain m1 m2 m3 w1 w2 w3
    where 1: "on_db E m1 (get_data_ids_for_run sc) w = (Inr affected, w1)"
      and 2: "on_db E m2 (get_unique_nodes_for_run sc) w1 = (Inr nodes, w2)"
      and 3: "on_db E m3 (get_unique_edges_for_run sc) w2 = (Inr edges, w3)"
      and 4: "deletable_edge_type_ids E sc edges w3 = (Inr edge_type_ids, w')"
    by (auto simp: sweep_select_def outcomes Let_def)
  have t: "tables w1 = tables w" "tables w2 = tables w1" "tables w3 = tables w2"
    using on_db_reads [OF _ 1] on_db_reads [OF _ 2] on_db_reads [OF _ 3] by (simp_all add: run_queries_read)
  have e: "set edges = exclusive sc (l_edges (tables w3))"
    using exclusive_for_run(2) [OF on_db_ok [OF 3]] t by simp
  from data_ids_for_run_ok [OF on_db_ok [OF 1]] exclusive_for_run(1) [OF on_db_ok [OF 2]] e
    deletable_edge_type_ids_ok [OF 4 e] t
  show ?thesis by simp
qed

section \<open>The writing phases\<close>

lemma on_world_outcome: "on_world m s = (r, s') \<longleftrightarrow> (\<exists>w'. m (ss_world s) = (r, w') \<and> s' = s\<lparr>ss_world := w'\<rparr>)"
  by (auto simp: on_world_def within_outcome)

lemma on_graph_outcome: "on_graph m w = (r, w') \<longleftrightarrow> (\<exists>g'. m (w_graph w) = (r, g') \<and> w' = w\<lparr>w_graph := g'\<rparr>)"
  by (auto simp: on_graph_def within_outcome)

lemma on_vector_outcome: "on_vector m w = (r, w') \<longleftrightarrow> (\<exists>v'. m (w_vector w) = (r, v') \<and> w' = w\<lparr>w_vector := v'\<rparr>)"
  by (auto simp: on_vector_def within_outcome)

lemma note_outcome_outcome: "note_outcome f s = (Inr x, s') \<longleftrightarrow> s' = s\<lparr>ss_outcome := f (ss_outcome s)\<rparr>"
  "note_outcome f s \<noteq> (Inl e, s')"
  by (auto simp: note_outcome_def modify_def)

lemmas sweep_outcomes = outcomes on_world_outcome on_graph_outcome on_vector_outcome note_outcome_outcome

text \<open>An artifact that the ledger no longer needs: the node and its points, or an edge's point.\<close>

definition node_gone ::
  "('g, 'v) delete_env \<Rightarrow> ('g \<Rightarrow> str set) \<Rightarrow> ('v \<Rightarrow> str \<Rightarrow> uuid set) \<Rightarrow> ('g, 'v) world \<Rightarrow> graph_node \<Rightarrow> bool" where
  "node_gone E nodes_of points_of w n \<longleftrightarrow>
     en_uuid_str E (g_slug n) \<notin> nodes_of (w_graph w)
     \<and> (\<forall>f \<in> set (parse_indexed_fields (n_indexed_fields n)).
          (n_type n, f) = (triplet_data_type, triplet_field)
          \<or> g_slug n \<notin> points_of (w_vector w) (collection_key (n_type n) f))"

definition edge_type_key :: str where
  "edge_type_key = collection_key edge_type_data_type edge_type_field"

definition triplet_key :: str where
  "triplet_key = collection_key triplet_data_type triplet_field"

context delete_env_laws
begin

lemma sweep_artifacts_bounds:
  assumes "sweep_artifacts E nodes edges ids s = (r, s')"
  shows "w_db (ss_world s') = w_db (ss_world s)
    \<and> nodes_of (w_graph (ss_world s')) \<subseteq> nodes_of (w_graph (ss_world s))
    \<and> nodes_of (w_graph (ss_world s)) - en_uuid_str E ` g_slug ` set nodes \<subseteq> nodes_of (w_graph (ss_world s'))
    \<and> points_of (w_vector (ss_world s')) key \<subseteq> points_of (w_vector (ss_world s)) key
    \<and> points_of (w_vector (ss_world s)) key - named_points E nodes edges ids key \<subseteq> points_of (w_vector (ss_world s')) key"
proof -
  obtain rg g' where g: "delete_graph_artifacts E (Some (en_graph E)) nodes (w_graph (ss_world s)) = (rg, g')" by fastforce
  obtain rv v' where v: "delete_vector_artifacts E (Some (en_vector E)) nodes edges ids (w_vector (ss_world s)) = (rv, v')" by fastforce
  show ?thesis
  proof (cases rg)
    case (Inl e)
    with assms g graph_artifacts_bounds [OF g] show ?thesis
      by (cases r) (auto simp: sweep_artifacts_def sweep_outcomes)
  next
    case (Inr out)
    have "ss_world s' = (ss_world s)\<lparr>w_graph := g', w_vector := v'\<rparr>"
      using assms g v Inr
      by (cases r; cases out) (auto simp: sweep_artifacts_def sweep_outcomes split: prod.splits)
    with graph_artifacts_bounds [OF g] vector_artifacts_bounds [OF v, of key] show ?thesis by simp
  qed
qed

lemma sweep_artifacts_ok:
  assumes "sweep_artifacts E nodes edges ids s = (Inr x, s')"
  shows "(\<forall>n \<in> set nodes. node_gone E nodes_of points_of (ss_world s') n)
    \<and> set ids \<inter> points_of (w_vector (ss_world s')) edge_type_key = {}"
proof -
  from assms obtain og g' ov v' where g: "delete_graph_artifacts E (Some (en_graph E)) nodes (w_graph (ss_world s)) = (Inr og, g')"
    and v: "delete_vector_artifacts E (Some (en_vector E)) nodes edges ids (w_vector (ss_world s)) = (Inr ov, v')"
    and w: "ss_world s' = (ss_world s)\<lparr>w_graph := g', w_vector := v'\<rparr>"
    by (auto simp: sweep_artifacts_def sweep_outcomes)
  have "g_slug n \<notin> points_of v' (collection_key (n_type n) f)"
    if "n \<in> set nodes" "f \<in> set (parse_indexed_fields (n_indexed_fields n))"
      "(n_type n, f) \<noteq> (triplet_data_type, triplet_field)" for n f
    using vector_artifacts_ok(1) [OF v, of "(n_type n, f)" "g_slug n"] that by (auto simp: node_points_def)
  with graph_artifacts_ok [OF g] vector_artifacts_ok(2) [OF v] show ?thesis
    unfolding w node_gone_def edge_type_key_def by auto
qed

end

text \<open>The rows of the scope, deleted.\<close>

definition edges_swept :: "run_scope \<Rightarrow> ledger \<Rightarrow> ledger" where
  "edges_swept sc t = t\<lparr>l_edges := filter (\<lambda>r. \<not> in_scope sc r) (l_edges t)\<rparr>"

definition nodes_swept :: "run_scope \<Rightarrow> ledger \<Rightarrow> ledger" where
  "nodes_swept sc t = t\<lparr>l_nodes := filter (\<lambda>r. \<not> in_scope sc r) (l_nodes t)\<rparr>"

lemma sweep_ledger_ok:
  assumes "sweep_ledger E sc s = (Inr x, s')"
  shows "same_stores (ss_world s) (ss_world s')
    \<and> tables (ss_world s') = nodes_swept sc (edges_swept sc (tables (ss_world s)))"
proof -
  from assms obtain m1 m2 n1 n2 w1 w2
    where 1: "on_db E m1 (delete_edges_for_run sc) (ss_world s) = (Inr n1, w1)"
      and 2: "on_db E m2 (delete_nodes_for_run sc) w1 = (Inr n2, w2)" and w: "ss_world s' = w2"
    by (auto simp: sweep_ledger_def sweep_outcomes Let_def)
  from delete_for_run_ok(2) [OF on_db_ok [OF 1]] delete_for_run_ok(1) [OF on_db_ok [OF 2]]
    on_db_frame [OF 1] on_db_frame [OF 2]
  show ?thesis unfolding w by (simp add: same_stores_def nodes_swept_def edges_swept_def)
qed

lemma sweep_ledger_err:
  assumes "sweep_ledger E sc s = (Inl e, s')"
  shows "same_stores (ss_world s) (ss_world s')
    \<and> tables (ss_world s') \<in> {tables (ss_world s), edges_swept sc (tables (ss_world s))}"
proof -
  from assms consider
      (first) m1 where "on_db E m1 (delete_edges_for_run sc) (ss_world s) = (Inl e, ss_world s')"
    | (second) m1 m2 n1 w1 where "on_db E m1 (delete_edges_for_run sc) (ss_world s) = (Inr n1, w1)"
        and "on_db E m2 (delete_nodes_for_run sc) w1 = (Inl e, ss_world s')"
    by (auto simp: sweep_ledger_def sweep_outcomes Let_def)
  then show ?thesis
  proof cases
    case first
    from on_db_err [OF first] on_db_frame [OF first] show ?thesis by (auto dest: delete_for_run_err)
  next
    case second
    note 1 = second(1) and 2 = second(2)
    from on_db_err [OF 2] have "tables (ss_world s') = tables w1" by (auto dest: delete_for_run_err)
    with delete_for_run_ok(2) [OF on_db_ok [OF 1]] on_db_frame [OF 1] on_db_frame [OF 2] show ?thesis
      by (simp add: same_stores_def edges_swept_def)
  qed
qed

section \<open>The markers\<close>

lemma clear_for_data_frame:
  "clear_cognify_pipeline_status_for_data us uh data_id dataset_id db = (r, db') \<Longrightarrow>
     l_nodes (db_tables db') = l_nodes (db_tables db) \<and> l_edges (db_tables db') = l_edges (db_tables db)"
  by (cases r) (auto simp: clear_cognify_pipeline_status_for_data_def and_then_def ok_def set_status_def
      split: prod.splits sum.splits option.splits dest!: query_ok query_err exec_ok exec_err)

definition unmark :: "('g, 'v) delete_env \<Rightarrow> uuid \<Rightarrow> json_doc option \<Rightarrow> json_doc option" where
  "unmark E dataset_id = cleared (\<lambda>p. p = cognify_pipeline_status_key)
     (pipeline_status_dataset_key_variants (en_uuid_str E) (en_uuid_hex E) dataset_id)"

lemma update_status_twice:
  "x \<notin> A \<Longrightarrow> update_status (\<lambda>r. d_id r \<in> A) f (update_status (\<lambda>r. d_id r = x) f t) = update_status (\<lambda>r. d_id r \<in> insert x A) f t"
  by (auto simp: update_status_def intro!: map_cong)

text \<open>One pass of the loop.\<close>

lemma clear_markers_step:
  assumes "clear_markers E ds (x # xs) k s = (r, s')"
  obtains rc d s1 where "clear_cognify_pipeline_status_for_data (en_uuid_str E) (en_uuid_hex E) x ds (w_db (ss_world s)) = (rc, d)"
    and "ss_world s1 = (ss_world s)\<lparr>w_db := d\<rparr>"
    and "clear_markers E ds xs (if isl rc then k + 1 else k) s1 = (r, s')"
proof -
  obtain rc d where c: "clear_cognify_pipeline_status_for_data (en_uuid_str E) (en_uuid_hex E) x ds (w_db (ss_world s)) = (rc, d)"
    by fastforce
  have "\<exists>f. clear_markers E ds xs (if isl rc then k + 1 else k)
      (s\<lparr>ss_world := (ss_world s)\<lparr>w_db := d\<rparr>, ss_outcome := f\<rparr>) = (r, s')"
    using assms c by (cases rc) (auto simp: and_then_def on_world_def within_def recover_def note_outcome_def modify_def)
  then show ?thesis by (elim exE) (rule that [OF c], auto)
qed

lemma clear_markers_frame:
  "clear_markers E ds xs k s = (r, s') \<Longrightarrow>
     same_stores (ss_world s) (ss_world s') \<and> l_nodes (tables (ss_world s')) = l_nodes (tables (ss_world s))
     \<and> l_edges (tables (ss_world s')) = l_edges (tables (ss_world s)) \<and> (\<exists>n. r = Inr n \<and> k \<le> n)"
proof (induction xs arbitrary: k s)
  case Nil
  then show ?case by (auto simp: ok_def same_stores_def)
next
  case (Cons x xs)
  from Cons.prems obtain rc d s1
    where c: "clear_cognify_pipeline_status_for_data (en_uuid_str E) (en_uuid_hex E) x ds (w_db (ss_world s)) = (rc, d)"
      and w: "ss_world s1 = (ss_world s)\<lparr>w_db := d\<rparr>"
      and r: "clear_markers E ds xs (if isl rc then k + 1 else k) s1 = (r, s')"
    by (rule clear_markers_step)
  from Cons.IH [OF r] clear_for_data_frame [OF c] show ?case
    unfolding w by (auto simp: same_stores_def split: if_splits)
qed

lemma clear_markers_done:
  "clear_markers E ds xs k s = (Inr k, s') \<Longrightarrow> data_keyed (tables (ss_world s)) \<Longrightarrow> distinct xs \<Longrightarrow>
     tables (ss_world s') = update_status (\<lambda>r. d_id r \<in> set xs) (unmark E ds) (tables (ss_world s))"
proof (induction xs arbitrary: s)
  case Nil
  then show ?case by (simp add: ok_def update_status_nothing)
next
  case (Cons x xs)
  from Cons.prems(1) obtain rc d s1
    where c: "clear_cognify_pipeline_status_for_data (en_uuid_str E) (en_uuid_hex E) x ds (w_db (ss_world s)) = (rc, d)"
      and w: "ss_world s1 = (ss_world s)\<lparr>w_db := d\<rparr>"
      and r: "clear_markers E ds xs (if isl rc then k + 1 else k) s1 = (Inr k, s')"
    by (rule clear_markers_step)
  have "\<not> isl rc" using clear_markers_frame [OF r] by auto
  then have c: "clear_cognify_pipeline_status_for_data (en_uuid_str E) (en_uuid_hex E) x ds (w_db (ss_world s)) = (Inr (), d)"
    and r: "clear_markers E ds xs k s1 = (Inr k, s')" using c r by (cases rc; simp)+
  have t1: "tables (ss_world s1) = update_status (\<lambda>r. d_id r = x) (unmark E ds) (tables (ss_world s))"
    using clear_for_data_ok [OF c Cons.prems(2)] by (simp add: w unmark_def)
  have "tables (ss_world s') = update_status (\<lambda>r. d_id r \<in> set xs) (unmark E ds) (tables (ss_world s1))"
    by (rule Cons.IH [OF r]) (use t1 Cons.prems in auto)
  with t1 update_status_twice [of x "set xs"] Cons.prems(3) show ?case by simp
qed

section \<open>The whole sweep\<close>

definition scope_points :: "('g, 'v) delete_env \<Rightarrow> run_scope \<Rightarrow> ledger \<Rightarrow> str \<Rightarrow> uuid set" where
  "scope_points E sc t key =
     {i. (\<exists>n \<in> exclusive sc (l_nodes t). i = g_slug n \<and>
             (\<exists>f \<in> set (parse_indexed_fields (n_indexed_fields n)). collection_key (n_type n) f = key))
         \<or> key = edge_type_key \<and> i \<in> free_edge_type_ids E sc (l_edges t)
         \<or> key = triplet_key \<and> i \<in> triplet_vector_id E ` exclusive sc (l_edges t)}"

lemma named_points_scope:
  assumes "set nodes = exclusive sc (l_nodes t)" and "set edges = exclusive sc (l_edges t)"
    and "set ids = free_edge_type_ids E sc (l_edges t)"
  shows "named_points E nodes edges ids key = scope_points E sc t key"
  unfolding named_points_def scope_points_def node_points_def edge_type_key_def triplet_key_def assms
  by (intro set_eqI iffI) (force+)

text \<open>How far a sweep got.\<close>

lemma run_in_scope_cases:
  assumes "run_in_scope E sc s = (r, s')" and t: "t = tables (ss_world s)"
  obtains
    (unselected) e where "r = Inl e" and "same_stores (ss_world s) (ss_world s')" and "tables (ss_world s') = t"
  | (artifacts) nodes edges ids s1 e
      where "set nodes = exclusive sc (l_nodes t)" and "set edges = exclusive sc (l_edges t)"
        and "set ids = free_edge_type_ids E sc (l_edges t)"
        and "same_stores (ss_world s) (ss_world s1)" and "tables (ss_world s1) = t"
        and "r = Inl e" and "sweep_artifacts E nodes edges ids s1 = (Inl e, s')"
  | (ledger) nodes edges ids s1 s2 e
      where "set nodes = exclusive sc (l_nodes t)" and "set edges = exclusive sc (l_edges t)"
        and "set ids = free_edge_type_ids E sc (l_edges t)"
        and "same_stores (ss_world s) (ss_world s1)" and "tables (ss_world s1) = t"
        and "r = Inl e" and "sweep_artifacts E nodes edges ids s1 = (Inr (), s2)"
        and "sweep_ledger E sc s2 = (Inl e, s')"
  | (markers) affected nodes edges ids s1 s2 s3 failures
      where "set affected = g_data_id ` {n \<in> set (l_nodes t). in_scope sc n} \<union> g_data_id ` {e \<in> set (l_edges t). in_scope sc e}"
        and "distinct affected"
        and "set nodes = exclusive sc (l_nodes t)" and "set edges = exclusive sc (l_edges t)"
        and "set ids = free_edge_type_ids E sc (l_edges t)"
        and "same_stores (ss_world s) (ss_world s1)" and "tables (ss_world s1) = t"
        and "sweep_artifacts E nodes edges ids s1 = (Inr (), s2)" and "sweep_ledger E sc s2 = (Inr (), s3)"
        and "clear_markers E (rs_dataset sc) affected 0 s3 = (Inr failures, s')"
        and "(failures = 0 \<and> r = Inr ()) \<or> (0 < failures \<and> isl r)"
proof -
  obtain rs w1 where sel: "sweep_select E sc (ss_world s) = (rs, w1)" by fastforce
  note rd = reads_worldD [OF reads_sweep_select sel]
  let ?s1 = "s\<lparr>ss_world := w1\<rparr>"
  show thesis
  proof (cases rs)
    case (Inl e)
    with assms(1) sel rd show thesis
      by (intro unselected [of e]) (auto simp: run_in_scope_def and_then_def on_world_def within_def t)
  next
    case (Inr out)
    obtain affected nodes edges ids where out: "out = (affected, nodes, edges, ids)" by (cases out)
    note sets = sweep_select_ok [OF sel [unfolded Inr out], folded t]
    obtain ra s2 where a: "sweep_artifacts E nodes edges ids ?s1 = (ra, s2)" by fastforce
    obtain rl s3 where l: "sweep_ledger E sc s2 = (rl, s3)" by fastforce
    obtain rm s4 where m: "clear_markers E (rs_dataset sc) affected 0 s3 = (rm, s4)" by fastforce
    obtain failures where f: "rm = Inr failures" using clear_markers_frame [OF m] by blast
    note run = assms(1) [unfolded run_in_scope_def and_then_def on_world_def within_def sel Inr out, simplified, unfolded a]
    show thesis
    proof (cases ra)
      case (Inl e)
      with run a sets rd show thesis by (intro artifacts [of nodes edges ids ?s1 e]) (auto simp: t)
    next
      case (Inr u)
      note ra = this
      show thesis
      proof (cases rl)
        case (Inl e)
        with run a l ra sets rd show thesis by (intro ledger [of nodes edges ids ?s1 e s2]) (auto simp: t)
      next
        case (Inr u')
        with run ra l m f have "s' = s4" and "(failures = 0 \<and> r = Inr ()) \<or> (0 < failures \<and> isl r)"
          by (auto simp: fail_def ok_def split: if_splits)
        with sets rd a l m f ra Inr show thesis
          by (intro markers [of affected nodes edges ids ?s1 s2 s3 failures]) (auto simp: t)
      qed
    qed
  qed
qed

text \<open>The ledger after a sweep: the rows outside the scope stay, in order.\<close>

definition rows_outside_kept :: "run_scope \<Rightarrow> ledger \<Rightarrow> ledger \<Rightarrow> bool" where
  "rows_outside_kept sc t t' \<longleftrightarrow>
     filter (\<lambda>r. \<not> in_scope sc r) (l_nodes t') = filter (\<lambda>r. \<not> in_scope sc r) (l_nodes t)
     \<and> filter (\<lambda>r. \<not> in_scope sc r) (l_edges t') = filter (\<lambda>r. \<not> in_scope sc r) (l_edges t)"

lemma rows_outside_kept_swept [simp]:
  "rows_outside_kept sc t t" "rows_outside_kept sc t (edges_swept sc t)"
  "rows_outside_kept sc t (nodes_swept sc (edges_swept sc t))"
  by (simp_all add: rows_outside_kept_def edges_swept_def nodes_swept_def)

lemma run_in_scope_rows:
  assumes "run_in_scope E sc s = (r, s')"
  shows "rows_outside_kept sc (tables (ss_world s)) (tables (ss_world s'))"
  using assms refl
proof (cases rule: run_in_scope_cases)
  case unselected
  then show ?thesis by simp
next
  case (artifacts nodes edges ids s1 e)
  have "w_db (ss_world s') = w_db (ss_world s1)"
    using artifacts(7) by (auto simp: sweep_artifacts_def sweep_outcomes)
  with artifacts show ?thesis by simp
next
  case (ledger nodes edges ids s1 s2 e)
  have "w_db (ss_world s2) = w_db (ss_world s1)"
    using ledger(7) by (auto simp: sweep_artifacts_def sweep_outcomes)
  with ledger sweep_ledger_err [OF ledger(8)] show ?thesis by auto
next
  case (markers affected nodes edges ids s1 s2 s3 failures)
  have "w_db (ss_world s2) = w_db (ss_world s1)"
    using markers(8) by (auto simp: sweep_artifacts_def sweep_outcomes)
  with markers sweep_ledger_ok [OF markers(9)]
  have "rows_outside_kept sc (tables (ss_world s)) (tables (ss_world s3))" by simp
  with clear_markers_frame [OF markers(10)] show ?thesis by (simp add: rows_outside_kept_def)
qed

context delete_env_laws
begin

lemma run_in_scope_bounds:
  assumes "run_in_scope E sc s = (r, s')" and t: "t = tables (ss_world s)"
  shows "nodes_of (w_graph (ss_world s')) \<subseteq> nodes_of (w_graph (ss_world s))
    \<and> nodes_of (w_graph (ss_world s)) - en_uuid_str E ` g_slug ` exclusive sc (l_nodes t) \<subseteq> nodes_of (w_graph (ss_world s'))
    \<and> points_of (w_vector (ss_world s')) key \<subseteq> points_of (w_vector (ss_world s)) key
    \<and> points_of (w_vector (ss_world s)) key - scope_points E sc t key \<subseteq> points_of (w_vector (ss_world s')) key"
  using assms
proof (cases rule: run_in_scope_cases)
  case unselected
  then show ?thesis by (simp add: same_stores_def)
next
  case (artifacts nodes edges ids s1 e)
  from sweep_artifacts_bounds [OF artifacts(7), of key] artifacts(4) named_points_scope [OF artifacts(1-3), of key]
  show ?thesis by (simp add: same_stores_def artifacts(1))
next
  case (ledger nodes edges ids s1 s2 e)
  from sweep_artifacts_bounds [OF ledger(7), of key] ledger(4) named_points_scope [OF ledger(1-3), of key]
    sweep_ledger_err [OF ledger(8)]
  show ?thesis by (simp add: same_stores_def ledger(1))
next
  case (markers affected nodes edges ids s1 s2 s3 failures)
  from sweep_artifacts_bounds [OF markers(8), of key] markers(6) named_points_scope [OF markers(3-5), of key]
    sweep_ledger_ok [OF markers(9)] clear_markers_frame [OF markers(10)]
  show ?thesis by (simp add: same_stores_def markers(3))
qed

text \<open>A row leaves the ledger only when what it alone names is gone.\<close>

definition swept_clean :: "run_scope \<Rightarrow> ledger \<Rightarrow> ('g, 'v) world \<Rightarrow> bool" where
  "swept_clean sc t w \<longleftrightarrow> (\<forall>n \<in> exclusive sc (l_nodes t). node_gone E nodes_of points_of w n)
     \<and> free_edge_type_ids E sc (l_edges t) \<inter> points_of (w_vector w) edge_type_key = {}"

lemma run_in_scope_clean:
  assumes "run_in_scope E sc s = (r, s')" and t: "t = tables (ss_world s)"
  shows "tables (ss_world s') = t \<or> swept_clean sc t (ss_world s')"
  using assms
proof (cases rule: run_in_scope_cases)
  case unselected
  then show ?thesis by simp
next
  case (artifacts nodes edges ids s1 e)
  from sweep_artifacts_bounds [OF artifacts(7)] artifacts(5) show ?thesis by simp
next
  case (ledger nodes edges ids s1 s2 e)
  from sweep_artifacts_ok [OF ledger(7)] ledger(1-3) sweep_ledger_err [OF ledger(8)]
  show ?thesis by (auto simp: swept_clean_def node_gone_def same_stores_def)
next
  case (markers affected nodes edges ids s1 s2 s3 failures)
  from sweep_artifacts_ok [OF markers(8)] markers(3-5) sweep_ledger_ok [OF markers(9)] clear_markers_frame [OF markers(10)]
  show ?thesis by (auto simp: swept_clean_def node_gone_def same_stores_def)
qed

lemma run_in_scope_ok:
  assumes "run_in_scope E sc s = (Inr u, s')" and t: "t = tables (ss_world s)"
  shows "swept_clean sc t (ss_world s')
    \<and> l_nodes (tables (ss_world s')) = filter (\<lambda>r. \<not> in_scope sc r) (l_nodes t)
    \<and> l_edges (tables (ss_world s')) = filter (\<lambda>r. \<not> in_scope sc r) (l_edges t)
    \<and> (data_keyed t \<longrightarrow> l_data (tables (ss_world s')) =
         l_data (update_status (\<lambda>r. d_id r \<in> g_data_id ` {n \<in> set (l_nodes t). in_scope sc n}
                                     \<union> g_data_id ` {e \<in> set (l_edges t). in_scope sc e})
                  (unmark E (rs_dataset sc)) t))"
  using assms
proof (cases rule: run_in_scope_cases)
  case (markers affected nodes edges ids s1 s2 s3 failures)
  have f: "failures = 0" using markers(11) by auto
  have t3: "tables (ss_world s3) = nodes_swept sc (edges_swept sc t)"
    using sweep_ledger_ok [OF markers(9)] sweep_artifacts_bounds [OF markers(8)] markers(7) by simp
  have "l_data (tables (ss_world s')) = l_data (update_status (\<lambda>r. d_id r \<in> set affected) (unmark E (rs_dataset sc)) t)"
    if "data_keyed t"
    using clear_markers_done [OF markers(10) [unfolded f]] that markers(2) unfolding t3
    by (simp add: data_keyed_def update_status_def nodes_swept_def edges_swept_def)
  moreover have "swept_clean sc t (ss_world s')"
    using sweep_artifacts_ok [OF markers(8)] markers(3-5) sweep_ledger_ok [OF markers(9)] clear_markers_frame [OF markers(10)]
    by (auto simp: swept_clean_def node_gone_def same_stores_def)
  ultimately show ?thesis
    using clear_markers_frame [OF markers(10)] t3 unfolding markers(1)
    by (auto simp: nodes_swept_def edges_swept_def)
qed auto

end

lemma sweep_run:
  assumes "sweep E sc w = (r, w')"
  obtains r' s' where "run_in_scope E sc \<lparr>ss_world = w, ss_outcome = no_outcome\<rparr> = (r', s')" and "w' = ss_world s'"
    and "\<And>out. r = Inr out \<Longrightarrow> r' = Inr () \<and> out = ss_outcome s'"
  using assms by (auto simp: sweep_def split: prod.splits sum.splits)

section \<open>Returning\<close>

text \<open>Nothing is set to fail: no statement fault, no error armed in the in-memory graph.\<close>

definition ready :: "(graph_mem, 'f brute_force) world \<Rightarrow> bool" where
  "ready w \<longleftrightarrow> db_faults (w_db w) = [] \<and> gm_delete_nodes_error (w_graph w) = None"

definition completes :: "((graph_mem, 'f brute_force) world, 'e, 'a) action \<Rightarrow> bool" where
  "completes m \<longleftrightarrow> (\<forall>w. ready w \<longrightarrow> (\<exists>x w'. m w = (Inr x, w') \<and> ready w'))"

lemma completesD: "completes m \<Longrightarrow> ready w \<Longrightarrow> \<exists>x w'. m w = (Inr x, w') \<and> ready w'"
  by (simp add: completes_def)

lemma completes_ok: "completes (ok x)"
  by (simp add: completes_def ok_def)

lemma completes_and_then: "completes m \<Longrightarrow> (\<And>x. completes (k x)) \<Longrightarrow> completes (and_then m k)"
  unfolding completes_def and_then_def by (metis (no_types, lifting) case_prod_conv old.sum.simps(6))

lemma completes_if: "completes m \<Longrightarrow> completes m' \<Longrightarrow> completes (if b then m else m')"
  by simp

lemma completes_on_db: "returns m \<Longrightarrow> completes (on_db E what m)"
  by (fastforce simp: completes_def ready_def on_db_def within_def map_err_def dest: returnsD)

lemma completes_select: "completes (sweep_select E sc)"
  unfolding sweep_select_def deletable_edge_type_ids_def Let_def
  by (intro completes_and_then completes_if completes_ok completes_on_db run_actions_return)

lemma memory_delete_graph:
  "gm_delete_nodes_error g = None \<Longrightarrow> \<exists>k g'. delete_graph_artifacts (memory_env sg sv u5 lower)
     (Some (en_graph (memory_env sg sv u5 lower))) nodes g = (Inr (k, []), g') \<and> gm_delete_nodes_error g' = None"
  by (auto simp: delete_graph_artifacts_def memory_env_def graph_memory_db_def graph_delete_nodes_def
      detach_delete_def and_then_def map_err_def ok_def Let_def)

lemma memory_delete_groups:
  "\<exists>k v'. delete_groups (brute_force_db sv) groups n ws v = (Inr (k, ws), v')"
proof (induction groups arbitrary: n ws v)
  case (Cons g groups)
  obtain dt fn ids where g: "g = ((dt, fn), ids)" by (metis surj_pair)
  show ?case
    using Cons.IH
    by (cases "map_of v (collection_key dt fn)")
      (auto simp: g brute_force_db_def bf_has_collection_def bf_delete_points_def and_then_def map_err_def
        recover_def Let_def)
qed (simp add: ok_def)

lemma memory_existing: "\<exists>ids. existing_vector_ids (brute_force_db sv) dt fn cs v = (Inr ids, v)"
  by (cases "map_of v (collection_key dt fn)")
    (auto simp: existing_vector_ids_def brute_force_db_def bf_has_collection_def bf_retrieve_def and_then_def
      map_err_def ok_def)

lemma memory_env_vector: "en_vector (memory_env sg sv u5 lower) = brute_force_db sv"
  by (simp add: memory_env_def)

lemma memory_delete_vector:
  fixes E :: "(graph_mem, 'f brute_force) delete_env"
  assumes E: "E = memory_env sg sv u5 lower"
  shows "\<exists>k v'. delete_vector_artifacts E (Some (en_vector E)) nodes edges ids v = (Inr (k, []), v')"
proof -
  obtain a where a: "existing_vector_ids (brute_force_db sv) edge_type_data_type edge_type_field (btree_set ids) v = (Inr a, v)"
    using memory_existing by blast
  obtain b where b: "existing_vector_ids (brute_force_db sv) triplet_data_type triplet_field
      (btree_set (map (triplet_vector_id E) edges)) v = (Inr b, v)"
    using memory_existing by blast
  have "en_vector E = brute_force_db sv" by (simp add: E memory_env_vector)
  with a b memory_delete_groups show ?thesis
    by (simp add: delete_vector_artifacts_def existing_triplet_vector_ids_def and_then_def map_err_def recover_def Let_def)
qed

lemma memory_artifacts:
  fixes E :: "(graph_mem, 'f brute_force) delete_env"
  assumes E: "E = memory_env sg sv u5 lower" and "ready (ss_world s)"
  shows "\<exists>s'. sweep_artifacts E nodes edges ids s = (Inr (), s') \<and> ready (ss_world s')
    \<and> so_warnings (ss_outcome s') = so_warnings (ss_outcome s)"
proof -
  obtain og g' where g: "delete_graph_artifacts E (Some (en_graph E)) nodes (w_graph (ss_world s)) = (Inr (og, []), g')"
    and g': "gm_delete_nodes_error g' = None"
    using memory_delete_graph [of "w_graph (ss_world s)"] assms unfolding ready_def by blast
  obtain ov v' where v: "delete_vector_artifacts E (Some (en_vector E)) nodes edges ids (w_vector (ss_world s)) = (Inr (ov, []), v')"
    using memory_delete_vector [OF E] by blast
  from g v g' assms show ?thesis
    by (auto simp: sweep_artifacts_def and_then_def on_world_def on_graph_def on_vector_def
        within_def note_outcome_def modify_def ready_def)
qed

lemma ready_ledger:
  fixes E :: "('g, 'v) delete_env"
  assumes "db_faults (w_db (ss_world s)) = []"
  shows "\<exists>s'. sweep_ledger E sc s = (Inr (), s') \<and> db_faults (w_db (ss_world s')) = [] \<and> same_stores (ss_world s) (ss_world s')
    \<and> so_warnings (ss_outcome s') = so_warnings (ss_outcome s)"
proof -
  obtain n1 d1 where 1: "delete_edges_for_run sc (w_db (ss_world s)) = (Inr n1, d1)" and "db_faults d1 = []"
    using returnsD [OF run_actions_return(6) assms] by blast
  obtain n2 d2 where "delete_nodes_for_run sc d1 = (Inr n2, d2)" and "db_faults d2 = []"
    using returnsD [OF run_actions_return(5) \<open>db_faults d1 = []\<close>] by blast
  with 1 show ?thesis
    by (auto simp: sweep_ledger_def and_then_def on_world_def on_db_def within_def map_err_def note_outcome_def
        modify_def Let_def same_stores_def)
qed

lemma ready_clear:
  "ready (ss_world s) \<Longrightarrow> \<exists>s'. clear_markers E ds xs k s = (Inr k, s') \<and> ready (ss_world s')
     \<and> so_warnings (ss_outcome s') = so_warnings (ss_outcome s)"
proof (induction xs arbitrary: s)
  case (Cons x xs)
  obtain d where c: "clear_cognify_pipeline_status_for_data (en_uuid_str E) (en_uuid_hex E) x ds (w_db (ss_world s)) = (Inr (), d)"
    and "db_faults d = []"
    using returnsD [OF clear_for_data_returns] Cons.prems unfolding ready_def by fastforce
  then have "ready ((ss_world s)\<lparr>w_db := d\<rparr>)" using Cons.prems by (simp add: ready_def)
  then obtain s' where "clear_markers E ds xs k (s\<lparr>ss_world := (ss_world s)\<lparr>w_db := d\<rparr>,
        ss_outcome := (ss_outcome s)\<lparr>so_unmarked := so_unmarked (ss_outcome s) + 1\<rparr>\<rparr>) = (Inr k, s')"
    and "ready (ss_world s')" and "so_warnings (ss_outcome s') = so_warnings (ss_outcome s)"
    using Cons.IH [of "s\<lparr>ss_world := (ss_world s)\<lparr>w_db := d\<rparr>,
        ss_outcome := (ss_outcome s)\<lparr>so_unmarked := so_unmarked (ss_outcome s) + 1\<rparr>\<rparr>"] by auto
  with c show ?case
    by (simp add: and_then_def on_world_def within_def recover_def note_outcome_def modify_def)
qed (simp add: ok_def)

text \<open>On the in-memory stores a sweep that nothing is set to fail returns.\<close>

lemma memory_sweep_returns:
  fixes E :: "(graph_mem, 'f brute_force) delete_env"
  assumes E: "E = memory_env sg sv u5 lower" and "ready w"
  shows "\<exists>out w'. sweep E sc w = (Inr out, w') \<and> ready w' \<and> so_warnings out = []"
proof -
  obtain affected nodes edges ids w1 where sel: "sweep_select E sc w = (Inr (affected, nodes, edges, ids), w1)"
    and "ready w1"
    using completesD [OF completes_select assms(2), of E sc] by (metis prod_cases4)
  obtain s2 where 2: "sweep_artifacts E nodes edges ids \<lparr>ss_world = w1, ss_outcome = no_outcome\<rparr> = (Inr (), s2)"
    and "ready (ss_world s2)" and q2: "so_warnings (ss_outcome s2) = []"
    using memory_artifacts [OF E, of "\<lparr>ss_world = w1, ss_outcome = no_outcome\<rparr>" nodes edges ids] \<open>ready w1\<close>
    by (auto simp: no_outcome_def)
  obtain s3 where 3: "sweep_ledger E sc s2 = (Inr (), s3)" and "ready (ss_world s3)" and q3: "so_warnings (ss_outcome s3) = []"
    using ready_ledger [of s2 E sc] \<open>ready (ss_world s2)\<close> q2 unfolding ready_def same_stores_def by auto
  obtain s4 where 4: "clear_markers E (rs_dataset sc) affected 0 s3 = (Inr 0, s4)" and "ready (ss_world s4)"
    and q4: "so_warnings (ss_outcome s4) = []"
    using ready_clear [OF \<open>ready (ss_world s3)\<close>] q3 by force
  from sel 2 3 4 \<open>ready (ss_world s4)\<close> q4 show ?thesis
    by (simp add: sweep_def run_in_scope_def and_then_def on_world_def within_def ok_def)
qed

section \<open>Sweeping again\<close>

context delete_env_laws
begin

lemma order_Nil [simp]: "en_id_order E [] = []" "en_map_order E [] = []"
  using id_order [of "[]"] map_order [of "[]"] by simp_all

lemma sweep_nothing:
  assumes "db_faults (w_db w) = []"
    and "filter (in_scope sc) (l_nodes (tables w)) = []" and "filter (in_scope sc) (l_edges (tables w)) = []"
  shows "sweep E sc w = (Inr no_outcome, w)"
proof -
  note none = run_actions_empty [OF assms]
  have "sweep_select E sc w = (Inr ([], [], [], []), w)"
    using none by (simp add: sweep_select_def and_then_def on_db_def within_def map_err_def
        deletable_edge_type_ids_def ok_def Let_def)
  moreover have "sweep_artifacts E [] [] [] s = (Inr (), s)" if "ss_outcome s = no_outcome" for s
    using that by (simp add: sweep_artifacts_def delete_graph_artifacts_def delete_vector_artifacts_def
        existing_vector_ids_def existing_triplet_vector_ids_def point_groups_def node_groups_def btree_set_def
        and_then_def on_world_def on_graph_def on_vector_def within_def note_outcome_def modify_def map_err_def
        recover_def ok_def no_outcome_def Let_def)
  moreover have "sweep_ledger E sc \<lparr>ss_world = w, ss_outcome = no_outcome\<rparr> = (Inr (), \<lparr>ss_world = w, ss_outcome = no_outcome\<rparr>)"
    using none by (simp add: sweep_ledger_def and_then_def on_world_def on_db_def within_def map_err_def
        note_outcome_def modify_def no_outcome_def Let_def)
  ultimately show ?thesis
    by (simp add: sweep_def run_in_scope_def and_then_def on_world_def within_def ok_def)
qed

end

lemma exclusive_outside: "q \<in> set tbl \<Longrightarrow> \<not> in_scope sc q \<Longrightarrow> g_slug q \<notin> g_slug ` exclusive sc tbl"
  by (auto simp: exclusive_def)

lemma keys_distinct [simp]: "edge_type_key \<noteq> triplet_key" "triplet_key \<noteq> edge_type_key"
  by (simp_all add: edge_type_key_def triplet_key_def collection_key_def edge_type_data_type_def edge_type_field_def
      triplet_data_type_def triplet_field_def lit_def)

lemma filter_kept: "filter P xs = filter P ys \<Longrightarrow> P x \<Longrightarrow> x \<in> set ys \<Longrightarrow> x \<in> set xs"
  using filter_set [of P xs] filter_set [of P ys] by (metis (mono_tags, lifting) mem_Collect_eq set_filter)

lemma kept_node:
  "rows_outside_kept sc t t' \<Longrightarrow> \<not> in_scope sc q \<Longrightarrow> q \<in> set (l_nodes t) \<Longrightarrow> q \<in> set (l_nodes t')"
  unfolding rows_outside_kept_def using filter_kept by fastforce

lemma kept_edge:
  "rows_outside_kept sc t t' \<Longrightarrow> \<not> in_scope sc e \<Longrightarrow> e \<in> set (l_edges t) \<Longrightarrow> e \<in> set (l_edges t')"
  unfolding rows_outside_kept_def using filter_kept by fastforce

section \<open>A sample\<close>

text \<open>
  Run 7 wrote nodes 50 and 60 for item 2, item 4 still claims 60; one edge type of the run's own
  and one of item 4; item 2 is marked complete.
\<close>

definition sample_edge_points :: "uuid list \<Rightarrow> nat brute_force" where
  "sample_edge_points ids = [(edge_type_key, \<lparr>co_dimension = 1,
     co_points = map (\<lambda>i. \<lparr>vp_id = i, vp_vector = [0], vp_metadata = []\<rparr>) ids\<rparr>)]"

definition sample_world :: "uuid list \<Rightarrow> (graph_mem, nat brute_force) world" where
  "sample_world ids =
     \<lparr>w_db = sample_db
        [sample_node 11 50 2 (Some 7) 0, sample_node 12 60 2 (Some 7) 0, sample_node 13 60 4 None 0]
        [sample_edge 21 70 2 (Some 7) 50 60 (lit ''works at''), sample_edge 22 80 4 None 60 60 (lit ''is_a'')]
        [sample_data 2 (Some 9) (Some (mark_status (decimal 9) None))] [],
      w_graph = graph_new\<lparr>gm_nodes := [(decimal 50, []), (decimal 60, [])]\<rparr>,
      w_vector = sample_edge_points ids\<rparr>"

abbreviation sample_env :: "(graph_mem, nat brute_force) delete_env" where
  "sample_env \<equiv> memory_env (\<lambda>_. []) (\<lambda>_. []) sum_list (\<lambda>s. s)"

lemma sample_ready [simp]: "ready (sample_world ids)"
  by (simp add: ready_def sample_world_def graph_new_def)

lemma sample_laws: "delete_env_laws sample_env node_ids_in points_in"
  by (rule memory.delete_env_laws_axioms)

lemma sample_returns: "\<exists>out w'. sweep sample_env sc (sample_world ids) = (Inr out, w')"
  using memory_sweep_returns [OF refl sample_ready] by blast

lemma sample_tables [simp]:
  "tables (sample_world ids) = \<lparr>l_nodes = [sample_node 11 50 2 (Some 7) 0, sample_node 12 60 2 (Some 7) 0, sample_node 13 60 4 None 0],
     l_edges = [sample_edge 21 70 2 (Some 7) 50 60 (lit ''works at''), sample_edge 22 80 4 None 60 60 (lit ''is_a'')],
     l_data = [sample_data 2 (Some 9) (Some (mark_status (decimal 9) None))]\<rparr>"
  "w_graph (sample_world ids) = graph_new\<lparr>gm_nodes := [(decimal 50, []), (decimal 60, [])]\<rparr>"
  "w_vector (sample_world ids) = sample_edge_points ids"
  by (simp_all add: sample_world_def)

lemma sample_scope [simp]: "in_scope (whole_run r d) q \<longleftrightarrow> g_run q = Some r \<and> g_dataset_id q = d"
  by (auto simp: in_scope_def whole_run_def)

section \<open>Properties\<close>

text \<open>
  C3: a sweep, however it ends, spares what others claim: a node row outside its scope stays in
  the ledger, its node stays in the graph and its points stay in every collection but the two
  that hold edges.
\<close>

theorem sweep_spares_claimed:
  assumes "delete_env_laws E nodes_of points_of" and "sweep E sc w = (r, w')"
    and "q \<in> set (l_nodes (tables w))" and "\<not> in_scope sc q"
  shows "q \<in> set (l_nodes (tables w'))
    \<and> (en_uuid_str E (g_slug q) \<in> nodes_of (w_graph w) \<longrightarrow> en_uuid_str E (g_slug q) \<in> nodes_of (w_graph w'))
    \<and> (g_slug q \<in> points_of (w_vector w) key \<longrightarrow> g_slug q \<in> points_of (w_vector w') key
        \<or> key = edge_type_key \<or> key = triplet_key)"
proof -
  obtain r' s' where run: "run_in_scope E sc \<lparr>ss_world = w, ss_outcome = no_outcome\<rparr> = (r', s')" and w': "w' = ss_world s'"
    using assms(2) by (rule sweep_run)
  note b = delete_env_laws.run_in_scope_bounds [OF assms(1) run refl, of key]
  note out = exclusive_outside [OF assms(3,4)]
  have "en_uuid_str E (g_slug q) \<notin> en_uuid_str E ` g_slug ` exclusive sc (l_nodes (tables w))"
    using out delete_env_laws.uuid_str_inj [OF assms(1)] by (auto dest: injD)
  moreover have "key = edge_type_key \<or> key = triplet_key" if "g_slug q \<in> scope_points E sc (tables w) key"
    using that out by (auto simp: scope_points_def)
  moreover have "q \<in> set (l_nodes (tables w'))"
    using kept_node [OF run_in_scope_rows [OF run] assms(4)] assms(3) w' by simp
  ultimately show ?thesis using b unfolding w' by auto
qed

theorem sweep_spares_claimed_witness:
  "\<exists>out w'. sweep sample_env (whole_run 7 9) (sample_world []) = (Inr out, w') \<and> decimal 60 \<in> node_ids_in (w_graph w')"
proof -
  obtain out w' where s: "sweep sample_env (whole_run 7 9) (sample_world []) = (Inr out, w')"
    using sample_returns by blast
  let ?q = "sample_node 13 60 4 None 0"
  have "?q \<in> set (l_nodes (tables (sample_world [])))" "\<not> in_scope (whole_run 7 9) ?q" by simp_all
  from sweep_spares_claimed [OF sample_laws s this, THEN conjunct2, THEN conjunct1] s show ?thesis
    by (auto simp: memory_env_def node_ids_in_def)
qed

text \<open>
  C13: the ledger forgets last: however a sweep ends, either no table has changed, so a re-run
  sees the same rows, or everything that only the swept rows name is gone from both stores: their
  nodes, their nodes' points (the legacy triplet collection aside) and their edge-type points.
\<close>

theorem sweep_forgets_last:
  assumes "delete_env_laws E nodes_of points_of" and "sweep E sc w = (r, w')"
  shows "tables w' = tables w \<or>
      (list_all (\<lambda>n. n \<notin> exclusive sc (l_nodes (tables w)) \<or> node_gone E nodes_of points_of w' n) (l_nodes (tables w))
       \<and> free_edge_type_ids E sc (l_edges (tables w)) \<inter> points_of (w_vector w') edge_type_key = {})"
proof -
  obtain r' s' where run: "run_in_scope E sc \<lparr>ss_world = w, ss_outcome = no_outcome\<rparr> = (r', s')" and w': "w' = ss_world s'"
    using assms(2) by (rule sweep_run)
  from delete_env_laws.run_in_scope_clean [OF assms(1) run refl] show ?thesis
    unfolding w' delete_env_laws.swept_clean_def [OF assms(1)] by (auto simp: list_all_iff)
qed

theorem sweep_forgets_last_witness:
  "\<exists>out w'. sweep sample_env (whole_run 7 9) (sample_world []) = (Inr out, w') \<and> decimal 50 \<notin> node_ids_in (w_graph w')"
proof -
  obtain out w' where s: "sweep sample_env (whole_run 7 9) (sample_world []) = (Inr out, w')"
    using sample_returns by blast
  obtain s' where run: "run_in_scope sample_env (whole_run 7 9) \<lparr>ss_world = sample_world [], ss_outcome = no_outcome\<rparr> = (Inr (), s')"
    and w': "w' = ss_world s'"
    using sweep_run [OF s] by metis
  have "tables w' \<noteq> tables (sample_world [])"
    using delete_env_laws.run_in_scope_ok [OF sample_laws run refl] by (auto simp: w' filter_id_conv dest: arg_cong [of _ _ l_nodes])
  moreover have "sample_node 11 50 2 (Some 7) 0 \<in> exclusive (whole_run 7 9) (l_nodes (tables (sample_world [])))"
    by (auto simp: exclusive_def)
  ultimately have "node_gone sample_env node_ids_in points_in w' (sample_node 11 50 2 (Some 7) 0)"
    using sweep_forgets_last [OF sample_laws s] by (auto simp: list_all_iff)
  with s show ?thesis by (auto simp: node_gone_def memory_env_def)
qed



text \<open>
  C23: when a sweep returns, every data item that one of its rows named is no longer marked
  complete for the dataset, under either encoding of its key, and every other data row is as it
  was.
\<close>

theorem sweep_unmarks:
  assumes "delete_env_laws E nodes_of points_of" and "sweep E sc w = (Inr out, w')"
    and "data_keyed (tables w)" and "q \<in> set (l_data (tables w))" and "wf_status (d_status q)"
  shows "if d_id q \<in> g_data_id ` {n \<in> set (l_nodes (tables w)). in_scope sc n}
                 \<union> g_data_id ` {e \<in> set (l_edges (tables w)). in_scope sc e}
    then \<exists>st. q\<lparr>d_status := st\<rparr> \<in> set (l_data (tables w')) \<and> \<not> status_marked
           (pipeline_status_dataset_key_variants (en_uuid_str E) (en_uuid_hex E) (rs_dataset sc)) st
    else q \<in> set (l_data (tables w'))"
proof -
  let ?touched = "g_data_id ` {n \<in> set (l_nodes (tables w)). in_scope sc n} \<union> g_data_id ` {e \<in> set (l_edges (tables w)). in_scope sc e}"
  obtain s' where run: "run_in_scope E sc \<lparr>ss_world = w, ss_outcome = no_outcome\<rparr> = (Inr (), s')" and w': "w' = ss_world s'"
    using sweep_run [OF assms(2)] by metis
  have d: "set (l_data (tables w')) = (\<lambda>r. if d_id r \<in> ?touched then r\<lparr>d_status := unmark E (rs_dataset sc) (d_status r)\<rparr> else r)
      ` set (l_data (tables w))"
    using delete_env_laws.run_in_scope_ok [OF assms(1) run refl] assms(3) by (simp add: w' update_status_def)
  have "\<not> status_marked (pipeline_status_dataset_key_variants (en_uuid_str E) (en_uuid_hex E) (rs_dataset sc))
      (unmark E (rs_dataset sc) (d_status q))"
    using marker_cleared [OF assms(5)] by (simp add: status_marked_iff unmark_def)
  with assms(4) show ?thesis unfolding d by (auto simp: image_iff)
qed

theorem sweep_unmarks_witness:
  "\<exists>out w' st. sweep sample_env (whole_run 7 9) (sample_world []) = (Inr out, w')
     \<and> sample_data 2 (Some 9) st \<in> set (l_data (tables w')) \<and> \<not> status_marked [decimal 9] st"
proof -
  obtain out w' where s: "sweep sample_env (whole_run 7 9) (sample_world []) = (Inr out, w')"
    using sample_returns by blast
  let ?q = "sample_data 2 (Some 9) (Some (mark_status (decimal 9) None))"
  have "data_keyed (tables (sample_world []))" "?q \<in> set (l_data (tables (sample_world [])))" "wf_status (d_status ?q)"
    using wf_mark_status [of None] by (simp_all add: data_keyed_def wf_status_def)
  note unmarked = sweep_unmarks [OF sample_laws s this]
  have "d_id ?q \<in> g_data_id ` {n \<in> set (l_nodes (tables (sample_world []))). in_scope (whole_run 7 9) n}
      \<union> g_data_id ` {e \<in> set (l_edges (tables (sample_world []))). in_scope (whole_run 7 9) e}"
    by (auto simp: image_iff)
  from unmarked [unfolded if_P [OF this]] obtain st where "?q\<lparr>d_status := st\<rparr> \<in> set (l_data (tables w'))"
    and "\<not> status_marked (pipeline_status_dataset_key_variants decimal (\<lambda>i. 104 # decimal i) 9) st"
    by (auto simp: memory_env_def whole_run_def)
  then have "sample_data 2 (Some 9) st \<in> set (l_data (tables w'))" and "\<not> status_marked [decimal 9] st"
    by (simp_all add: pipeline_status_dataset_key_variants_def status_marked_iff)
  with s show ?thesis by blast
qed

text \<open>
  A sweep is idempotent: once it has returned, and no statement fails, sweeping the same
  scope again returns a zero outcome and leaves ledger, graph and vector store exactly as they
  are.
\<close>

lemma sweep_idempotent:
  assumes "delete_env_laws E nodes_of points_of" and "sweep E sc w = (Inr out, w')" and "db_faults (w_db w') = []"
  shows "sweep E sc w' = (Inr no_outcome, w')"
proof -
  obtain s' where run: "run_in_scope E sc \<lparr>ss_world = w, ss_outcome = no_outcome\<rparr> = (Inr (), s')" and w': "w' = ss_world s'"
    using sweep_run [OF assms(2)] by metis
  have "filter (in_scope sc) (l_nodes (tables w')) = []" "filter (in_scope sc) (l_edges (tables w')) = []"
    using delete_env_laws.run_in_scope_ok [OF assms(1) run refl] by (auto simp: w' filter_empty_conv)
  from delete_env_laws.sweep_nothing [OF assms(1,3) this] show ?thesis .
qed

lemma sweep_idempotent_witness:
  "\<exists>out w'. sweep sample_env (whole_run 7 9) (sample_world []) = (Inr out, w')
     \<and> sweep sample_env (whole_run 7 9) w' = (Inr no_outcome, w')"
proof -
  obtain out w' where s: "sweep sample_env (whole_run 7 9) (sample_world []) = (Inr out, w')" and "ready w'"
    using memory_sweep_returns [OF refl sample_ready] by blast
  then have "db_faults (w_db w') = []" by (simp add: ready_def)
  from sweep_idempotent [OF sample_laws s this] s show ?thesis by blast
qed

text \<open>
  A sweep, however it ends, spares the edge-type point of every surviving edge row, provided
  different retrieval texts in the ledger have different point ids and no node is indexed in the
  edge-type collection.
\<close>

lemma sweep_spares_edge_points:
  assumes "delete_env_laws E nodes_of points_of" and "sweep E sc w = (r, w')"
    and "q \<in> set (l_edges (tables w))" and "\<not> in_scope sc q" and "edge_type_vector_id E q = Some i"
    and "list_all (\<lambda>e. edge_type_vector_id E e = Some i \<longrightarrow> edge_retrieval_text e = edge_retrieval_text q) (l_edges (tables w))"
    and "list_all (\<lambda>n. list_all (\<lambda>f. collection_key (n_type n) f \<noteq> edge_type_key) (parse_indexed_fields (n_indexed_fields n)))
           (l_nodes (tables w))"
  shows "q \<in> set (l_edges (tables w'))
    \<and> (i \<in> points_of (w_vector w') edge_type_key \<longleftrightarrow> i \<in> points_of (w_vector w) edge_type_key)"
proof -
  obtain r' s' where run: "run_in_scope E sc \<lparr>ss_world = w, ss_outcome = no_outcome\<rparr> = (r', s')" and w': "w' = ss_world s'"
    using assms(2) by (rule sweep_run)
  have "i \<notin> free_edge_type_ids E sc (l_edges (tables w))"
    using assms(3,4,6) by (auto simp: free_edge_type_ids_def exclusive_def list_all_iff)
  then have "i \<notin> scope_points E sc (tables w) edge_type_key"
    using assms(7) by (auto simp: scope_points_def list_all_iff exclusive_def)
  with delete_env_laws.run_in_scope_bounds [OF assms(1) run refl, of edge_type_key]
    kept_edge [OF run_in_scope_rows [OF run] assms(4)] assms(3)
  show ?thesis unfolding w' by auto
qed

lemma sample_edge_type_ids:
  "edge_type_vector_id sample_env (sample_edge 22 80 4 None 60 60 (lit ''is_a'')) = Some 1261"
  "edge_type_vector_id sample_env (sample_edge 21 70 2 (Some 7) 50 60 (lit ''works at'')) = Some 1723"
  by (simp_all add: edge_type_vector_id_def edge_retrieval_text_def edge_text_of_def sample_edge_def retrieval_text_def
      memory_env_def edge_type_deterministic_id_def data_point_id_for_def normalize_identifier_def replace_char_def
      lit_def trim_def is_whitespace_def unicode_white_space_def)

lemma sweep_spares_edge_points_witness:
  "\<exists>out w'. sweep sample_env (whole_run 7 9) (sample_world [1261, 1723]) = (Inr out, w')
     \<and> 1261 \<in> points_in (w_vector w') edge_type_key"
proof -
  obtain out w' where s: "sweep sample_env (whole_run 7 9) (sample_world [1261, 1723]) = (Inr out, w')"
    using sample_returns by blast
  let ?q = "sample_edge 22 80 4 None 60 60 (lit ''is_a'')"
  have q: "?q \<in> set (l_edges (tables (sample_world [1261, 1723])))" "\<not> in_scope (whole_run 7 9) ?q"
    "edge_type_vector_id sample_env ?q = Some 1261"
    by (simp_all add: sample_edge_type_ids)
  have "list_all (\<lambda>e. edge_type_vector_id sample_env e = Some 1261 \<longrightarrow> edge_retrieval_text e = edge_retrieval_text ?q)
      (l_edges (tables (sample_world [1261, 1723])))"
    and "list_all (\<lambda>n. list_all (\<lambda>f. collection_key (n_type n) f \<noteq> edge_type_key) (parse_indexed_fields (n_indexed_fields n)))
      (l_nodes (tables (sample_world [1261, 1723])))"
    by (simp_all add: sample_edge_type_ids parse_indexed_fields_def sample_node_def)
  from sweep_spares_edge_points [OF sample_laws s q this] s show ?thesis
    by (simp add: points_in_def sample_edge_points_def)
qed

section \<open>A shared point that a sweep deletes\<close>

text \<open>
  The claimed texts are compared as they are, while the point id is derived from the normalised
  text (lowercased, blanks to underscores, apostrophes dropped). Two surviving rows of different
  runs with the texts \<open>works at\<close> and \<open>works_at\<close> name one point; sweeping the first run deletes it
  although the row of the other still needs it. So the collision hypothesis of
  \<open>sweep_spares_edge_points\<close> cannot be dropped.
\<close>

lemma normalised_clash:
  assumes "lower (lit ''works at'') = lit ''works at''" and "lower (lit ''works_at'') = lit ''works_at''"
  shows "edge_type_deterministic_id lower u5 (lit ''works at'') = edge_type_deterministic_id lower u5 (lit ''works_at'')"
  using assms by (simp add: edge_type_deterministic_id_def data_point_id_for_def normalize_identifier_def
      replace_char_def lit_def)

lemma plain_edge_text:
  "edge_retrieval_text (sample_edge i s d run src dst (lit ''works at'')) = lit ''works at''"
  "edge_retrieval_text (sample_edge i s d run src dst (lit ''works_at'')) = lit ''works_at''"
  by (simp_all add: edge_retrieval_text_def edge_text_of_def sample_edge_def retrieval_text_def
      lit_def trim_def is_whitespace_def unicode_white_space_def)

theorem sweep_drops_claimed_edge_point:
  fixes E :: "(graph_mem, nat brute_force) delete_env"
  assumes "lower (lit ''works at'') = lit ''works at''" and "lower (lit ''works_at'') = lit ''works_at''"
    and E: "E = memory_env sg sv u5 lower"
  shows "\<exists>w w' out q i. sweep E (whole_run 7 9) w = (Inr out, w') \<and> q \<in> set (l_edges (tables w'))
     \<and> edge_type_vector_id E q = Some i
     \<and> i \<in> points_in (w_vector w) edge_type_key \<and> i \<notin> points_in (w_vector w') edge_type_key"
proof -
  let ?e = "sample_edge 21 70 2 (Some 7) 50 60 (lit ''works at'')"
  let ?q = "sample_edge 22 80 4 None 60 60 (lit ''works_at'')"
  define i where "i = edge_type_deterministic_id lower u5 (lit ''works at'')"
  define w :: "(graph_mem, nat brute_force) world" where
    "w = \<lparr>w_db = sample_db [] [?e, ?q] [] [], w_graph = graph_new, w_vector = sample_edge_points [i]\<rparr>"
  have "lit ''works at'' \<noteq> lit ''works_at''" by (simp add: lit_def)
  have "lit ''works at'' \<noteq> []" "lit ''works_at'' \<noteq> []" by (simp_all add: lit_def)
  then have ids: "edge_type_vector_id E ?e = Some i" "edge_type_vector_id E ?q = Some i"
    using normalised_clash [OF assms(1,2), of u5]
    by (simp_all add: edge_type_vector_id_def plain_edge_text E memory_env_def i_def Let_def)
  have "ready w" by (simp add: ready_def w_def graph_new_def)
  then obtain out w' where s: "sweep E (whole_run 7 9) w = (Inr out, w')"
    using memory_sweep_returns [OF E] by blast
  obtain s' where run: "run_in_scope E (whole_run 7 9) \<lparr>ss_world = w, ss_outcome = no_outcome\<rparr> = (Inr (), s')" and w': "w' = ss_world s'"
    using sweep_run [OF s] by metis
  have laws: "delete_env_laws E node_ids_in points_in"
    unfolding E by (rule memory.delete_env_laws_axioms)
  have "?e \<in> exclusive (whole_run 7 9) (l_edges (tables w))"
    by (auto simp: exclusive_def w_def)
  moreover have "\<forall>p \<in> set (l_edges (tables w)). edge_retrieval_text p = edge_retrieval_text ?e \<longrightarrow> in_scope (whole_run 7 9) p"
    using \<open>lit ''works at'' \<noteq> lit ''works_at''\<close> by (auto simp: w_def plain_edge_text)
  ultimately have "i \<in> free_edge_type_ids E (whole_run 7 9) (l_edges (tables w))"
    using ids unfolding free_edge_type_ids_def by blast
  then have "i \<notin> points_in (w_vector w') edge_type_key"
    using delete_env_laws.run_in_scope_ok [OF laws run refl] unfolding w' delete_env_laws.swept_clean_def [OF laws] by auto
  moreover have "?q \<in> set (l_edges (tables w'))"
    using kept_edge [OF run_in_scope_rows [OF run]] by (simp add: w' w_def)
  moreover have "i \<in> points_in (w_vector w) edge_type_key"
    by (simp add: w_def points_in_def sample_edge_points_def)
  ultimately show ?thesis using s ids by blast
qed

section \<open>Reporting instead of failing\<close>

text \<open>
  \<open>sweep_logging_failure\<close> does exactly what \<open>sweep\<close> does to ledger and stores and never fails:
  it reports the outcome of a sweep that returns, and for one that fails adds exactly one
  warning with the text of the error.
\<close>

lemma sweep_logging_failure_same_effect:
  "case sweep E sc w of
     (Inr out, w') \<Rightarrow> sweep_logging_failure E sc w = (out, w')
   | (Inl e, w') \<Rightarrow> snd (sweep_logging_failure E sc w) = w'
       \<and> last (so_warnings (fst (sweep_logging_failure E sc w))) = lit ''Run sweep failed: '' @ show_delete_error E e"
  by (auto simp: sweep_def sweep_logging_failure_def split: prod.split sum.split)

end
