(* ===== verification/Failure.thy ===== *)
theory Failure
  imports Sql
begin

text \<open>
  What a cognify run learned about its failures, and whether it is fatal:
  \<open>crates/cognify/src/failure.rs\<close>. A \<open>BTreeSet\<close> of ids is a set. The failure ratio is an \<open>f64\<close>
  quotient; \<open>quot\<close> stands for \<open>a as f64 / b as f64\<close> and its values are only compared.
\<close>

section \<open>Vocabulary\<close>

datatype failure_stop = FailFast | RunToEnd

datatype rollback_scope = WholeRun | FailedItems | KeepAll

datatype failure_stage = Chunking | GraphExtraction | Summarization

definition from_raise_errors :: "bool \<Rightarrow> failure_stop" where
  "from_raise_errors raise = (if raise then FailFast else RunToEnd)"

definition ascii_lower :: "str \<Rightarrow> str" where
  "ascii_lower s = map (\<lambda>c. if 65 \<le> c \<and> c \<le> 90 then c + 32 else c) s"

text \<open>\<open>KeepAll\<close> (the code's \<open>Nothing\<close>) has no spelling.\<close>

definition parse_rollback_scope :: "str \<Rightarrow> rollback_scope option" where
  "parse_rollback_scope raw =
     (let s = map (\<lambda>c. if c = 45 \<or> c = 32 then 95 else c) (ascii_lower (trim raw)) in
      if s \<in> set [lit ''whole_run'', lit ''wholerun'', lit ''run''] then Some WholeRun
      else if s \<in> set [lit ''failed_items'', lit ''faileditems'', lit ''items''] then Some FailedItems
      else None)"

fun failure_stage_name :: "failure_stage \<Rightarrow> str" where
  "failure_stage_name Chunking = lit ''chunking''"
| "failure_stage_name GraphExtraction = lit ''graph extraction''"
| "failure_stage_name Summarization = lit ''summarization''"

record stage_failure =
  sf_stage :: failure_stage
  sf_data_id :: uuid
  sf_chunk_id :: "uuid option"
  sf_error :: str
  sf_fails_item :: bool

definition show_stage_failure :: "(uuid \<Rightarrow> str) \<Rightarrow> stage_failure \<Rightarrow> str" where
  "show_stage_failure uuid_str f =
     (case sf_chunk_id f of
        Some chunk_id \<Rightarrow> failure_stage_name (sf_stage f) @ lit '' failed for data '' @ uuid_str (sf_data_id f)
          @ lit '' chunk '' @ uuid_str chunk_id @ lit '': '' @ sf_error f
      | None \<Rightarrow> failure_stage_name (sf_stage f) @ lit '' failed for data '' @ uuid_str (sf_data_id f)
          @ lit '': '' @ sf_error f)"

record 'f failure_policy =
  fp_stop :: failure_stop
  fp_scope :: rollback_scope
  fp_tolerate_summarization :: bool
  fp_ratio_threshold :: 'f
  fp_report_cap :: nat

definition default_report_cap :: nat where
  "default_report_cap = 100"

section \<open>The report\<close>

record failure_report =
  fr_entries :: "stage_failure list"
  fr_total :: nat
  fr_failed_items :: "uuid set"
  fr_unreached_items :: "uuid set"
  fr_failed_chunks :: "uuid set"
  fr_summarization_failures :: nat
  fr_total_chunks :: nat
  fr_total_items :: nat
  fr_cap :: nat
  fr_budget_exhausted :: bool

definition default_report :: failure_report where
  "default_report = \<lparr>fr_entries = [], fr_total = 0, fr_failed_items = {}, fr_unreached_items = {},
     fr_failed_chunks = {}, fr_summarization_failures = 0, fr_total_chunks = 0, fr_total_items = 0,
     fr_cap = default_report_cap, fr_budget_exhausted = False\<rparr>"

definition with_policy :: "'f failure_policy \<Rightarrow> failure_report" where
  "with_policy p = default_report\<lparr>fr_cap := fp_report_cap p\<rparr>"

definition record_failure :: "stage_failure \<Rightarrow> failure_report \<Rightarrow> failure_report" where
  "record_failure f r =
     r\<lparr>fr_total := fr_total r + 1,
       fr_summarization_failures := fr_summarization_failures r + (if sf_stage f = Summarization then 1 else 0),
       fr_failed_items := (if sf_fails_item f then insert (sf_data_id f) (fr_failed_items r) else fr_failed_items r),
       fr_unreached_items := (if sf_fails_item f then fr_unreached_items r - {sf_data_id f} else fr_unreached_items r),
       fr_failed_chunks := (if sf_fails_item f then fr_failed_chunks r \<union> set_option (sf_chunk_id f) else fr_failed_chunks r),
       fr_entries := (if length (fr_entries r) < fr_cap r then fr_entries r @ [f] else fr_entries r)\<rparr>"

definition record_error :: "stage_failure \<Rightarrow> bool \<Rightarrow> failure_report \<Rightarrow> failure_report" where
  "record_error f budget r =
     record_failure f (if budget then r\<lparr>fr_budget_exhausted := True\<rparr> else r)"

definition retain_failed_chunks :: "uuid set \<Rightarrow> failure_report \<Rightarrow> failure_report" where
  "retain_failed_chunks keep r = r\<lparr>fr_failed_chunks := {c \<in> fr_failed_chunks r. c \<in> keep}\<rparr>"

definition mark_unreached :: "uuid \<Rightarrow> failure_report \<Rightarrow> failure_report" where
  "mark_unreached data_id r =
     (if data_id \<in> fr_failed_items r then r
      else r\<lparr>fr_unreached_items := insert data_id (fr_unreached_items r)\<rparr>)"

definition absorb :: "failure_report \<Rightarrow> failure_report \<Rightarrow> failure_report" where
  "absorb r other =
     (let failed = fr_failed_items r \<union> fr_failed_items other;
          room = fr_cap r - length (fr_entries r) in
      r\<lparr>fr_total := fr_total r + fr_total other,
        fr_summarization_failures := fr_summarization_failures r + fr_summarization_failures other,
        fr_budget_exhausted := (fr_budget_exhausted r \<or> fr_budget_exhausted other),
        fr_failed_chunks := fr_failed_chunks r \<union> fr_failed_chunks other,
        fr_failed_items := failed,
        fr_unreached_items := {i \<in> fr_unreached_items r \<union> fr_unreached_items other. i \<notin> failed},
        fr_entries := fr_entries r @ take room (fr_entries other),
        fr_total_items := (if fr_total_items r = 0 then fr_total_items other else fr_total_items r),
        fr_total_chunks := (if fr_total_chunks r = 0 then fr_total_chunks other else fr_total_chunks r)\<rparr>)"

definition note_totals :: "nat \<Rightarrow> nat \<Rightarrow> failure_report \<Rightarrow> failure_report" where
  "note_totals items n_chunks r = r\<lparr>fr_total_items := items, fr_total_chunks := n_chunks\<rparr>"

definition report_is_empty :: "failure_report \<Rightarrow> bool" where
  "report_is_empty r \<longleftrightarrow> fr_total r = 0 \<and> fr_unreached_items r = {}"

definition truncated :: "failure_report \<Rightarrow> nat" where
  "truncated r = fr_total r - length (fr_entries r)"

definition chunk_failure_ratio :: "(nat \<Rightarrow> nat \<Rightarrow> 'f::{linorder,zero}) \<Rightarrow> failure_report \<Rightarrow> 'f" where
  "chunk_failure_ratio quot r =
     (if fr_total_chunks r = 0 then 0 else quot (card (fr_failed_chunks r)) (fr_total_chunks r))"

definition is_fatal :: "(nat \<Rightarrow> nat \<Rightarrow> 'f::{linorder,zero}) \<Rightarrow> 'f failure_policy \<Rightarrow> failure_report \<Rightarrow> bool" where
  "is_fatal quot policy r =
     (if fr_failed_items r = {} then False
      else case fp_scope policy of
        WholeRun \<Rightarrow> True
      | KeepAll \<Rightarrow> True
      | FailedItems \<Rightarrow>
          (let survived = fr_total_items r - (card (fr_failed_items r) + card (fr_unreached_items r)) in
           if 0 < fr_total_items r \<and> survived = 0 then True
           else fp_ratio_threshold policy < chunk_failure_ratio quot r))"

definition show_report :: "(uuid \<Rightarrow> str) \<Rightarrow> failure_report \<Rightarrow> str" where
  "show_report uuid_str r =
     decimal (fr_total r) @ lit '' failure(s) ('' @ decimal (length (fr_entries r)) @ lit '' shown, ''
     @ decimal (truncated r) @ lit '' omitted)''
     @ concat (map (\<lambda>f. lit ''; '' @ show_stage_failure uuid_str f) (fr_entries r))
     @ (if fr_unreached_items r = {} then []
        else lit ''; '' @ decimal (card (fr_unreached_items r)) @ lit '' item(s) never attempted'')"

section \<open>What a history leaves\<close>

text \<open>A report as the stages build it: one history of recordings, folded with its siblings'.\<close>

inductive built :: "nat \<Rightarrow> failure_report \<Rightarrow> bool" where
  fresh: "built cap (default_report\<lparr>fr_cap := cap\<rparr>)"
| recorded: "built cap r \<Longrightarrow> built cap (record_error f budget r)"
| unreached: "built cap r \<Longrightarrow> built cap (mark_unreached i r)"
| retained: "built cap r \<Longrightarrow> built cap (retain_failed_chunks keep r)"
| totals: "built cap r \<Longrightarrow> built cap (note_totals n m r)"
| absorbed: "built cap r \<Longrightarrow> built cap' s \<Longrightarrow> built cap (absorb r s)"

inductive_cases built_absorbE: "built cap (absorb r s)"

definition wf_report :: "failure_report \<Rightarrow> bool" where
  "wf_report r \<longleftrightarrow> length (fr_entries r) \<le> fr_cap r \<and> length (fr_entries r) \<le> fr_total r
     \<and> fr_summarization_failures r \<le> fr_total r
     \<and> fr_failed_items r \<inter> fr_unreached_items r = {}
     \<and> finite (fr_failed_items r) \<and> finite (fr_unreached_items r) \<and> finite (fr_failed_chunks r)
     \<and> card (fr_failed_items r) \<le> fr_total r \<and> card (fr_failed_chunks r) \<le> fr_total r"

named_theorems report_defs \<open>the operations of a failure report\<close>

declare with_policy_def [report_defs] default_report_def [report_defs] record_error_def [report_defs]
  record_failure_def [report_defs] mark_unreached_def [report_defs] retain_failed_chunks_def [report_defs]
  note_totals_def [report_defs] absorb_def [report_defs]

lemma card_insert_le: "card A \<le> n \<Longrightarrow> finite A \<Longrightarrow> card (insert x A) \<le> Suc n"
  by (simp add: card_insert_if)

lemma card_Un_set_option: "card A \<le> n \<Longrightarrow> finite A \<Longrightarrow> card (A \<union> set_option x) \<le> Suc n"
  by (cases x) (simp_all add: card_insert_le)

lemma card_Un_le_add: "card A \<le> n \<Longrightarrow> card B \<le> m \<Longrightarrow> card (A \<union> B) \<le> n + m"
  using card_Un_le [of A B] by linarith

lemma wf_record_failure: "wf_report r \<Longrightarrow> wf_report (record_failure f r)"
  by (auto simp: wf_report_def record_failure_def card_insert_le card_Un_set_option)

lemma wf_record_error: "wf_report r \<Longrightarrow> wf_report (record_error f budget r)"
  unfolding record_error_def by (rule wf_record_failure) (simp add: wf_report_def)

lemma wf_absorb: "wf_report r \<Longrightarrow> wf_report s \<Longrightarrow> wf_report (absorb r s)"
  by (auto simp: wf_report_def absorb_def Let_def card_Un_le_add)

lemma wf_retain: "wf_report r \<Longrightarrow> wf_report (retain_failed_chunks keep r)"
proof -
  have "card {c \<in> fr_failed_chunks r. c \<in> keep} \<le> card (fr_failed_chunks r)" if "finite (fr_failed_chunks r)"
    by (rule card_mono) (use that in auto)
  then show "wf_report r \<Longrightarrow> wf_report (retain_failed_chunks keep r)"
    by (auto simp: wf_report_def retain_failed_chunks_def)
qed

lemma built_wf: "built cap r \<Longrightarrow> wf_report r \<and> fr_cap r = cap"
proof (induction rule: built.induct)
  case (recorded cap r f budget)
  then show ?case using wf_record_error [of r f budget] by (simp add: record_error_def record_failure_def)
next
  case (absorbed cap r cap' s)
  then show ?case using wf_absorb [of r s] by (simp add: absorb_def Let_def)
next
  case (retained cap r keep)
  then show ?case using wf_retain [of r keep] by (simp add: retain_failed_chunks_def)
qed (auto simp: wf_report_def report_defs)

section \<open>Concurrent siblings\<close>

definition record_all :: "stage_failure list \<Rightarrow> failure_report \<Rightarrow> failure_report" where
  "record_all fs r = fold record_failure fs r"

lemma record_all_simps [simp]:
  "record_all [] r = r" "record_all (f # fs) r = record_all fs (record_failure f r)"
  by (simp_all add: record_all_def)

text \<open>What a list of failures adds, field by field.\<close>

lemma record_all_counts [simp]:
  "fr_total (record_all fs r) = fr_total r + length fs"
  "fr_summarization_failures (record_all fs r) =
     fr_summarization_failures r + length (filter (\<lambda>f. sf_stage f = Summarization) fs)"
  "fr_total_chunks (record_all fs r) = fr_total_chunks r" "fr_total_items (record_all fs r) = fr_total_items r"
  "fr_cap (record_all fs r) = fr_cap r" "fr_budget_exhausted (record_all fs r) = fr_budget_exhausted r"
  by (induction fs arbitrary: r) (simp_all add: record_failure_def)

lemma record_all_sets [simp]:
  "fr_failed_items (record_all fs r) = fr_failed_items r \<union> sf_data_id ` {f \<in> set fs. sf_fails_item f}"
  "fr_unreached_items (record_all fs r) = fr_unreached_items r - sf_data_id ` {f \<in> set fs. sf_fails_item f}"
  "fr_failed_chunks (record_all fs r) =
     fr_failed_chunks r \<union> (\<Union>f \<in> {f \<in> set fs. sf_fails_item f}. set_option (sf_chunk_id f))"
  by (induction fs arbitrary: r) (auto simp: record_failure_def)

lemma record_all_entries:
  "length (fr_entries r) \<le> fr_cap r \<Longrightarrow>
     fr_entries (record_all fs r) = fr_entries r @ take (fr_cap r - length (fr_entries r)) fs"
proof (induction fs arbitrary: r)
  case (Cons f fs)
  have "length (fr_entries (record_failure f r)) \<le> fr_cap (record_failure f r)"
    using Cons.prems by (simp add: record_failure_def)
  from Cons.IH [OF this] show ?case by (auto simp: record_failure_def take_Cons' Suc_diff_Suc)
qed simp

section \<open>Properties\<close>

text \<open>
  C33: whatever a run records, marks, prunes and folds in, the report stays consistent: never more
  entries than the cap it was created with nor than failures that happened, so that the shown and
  the omitted ones add up to the total, and no item both failed and unreached.
\<close>

theorem report_consistent:
  assumes "built cap r"
  shows "fr_cap r = cap \<and> length (fr_entries r) \<le> cap \<and> length (fr_entries r) + truncated r = fr_total r
    \<and> fr_failed_items r \<inter> fr_unreached_items r = {}
    \<and> card (fr_failed_items r) \<le> fr_total r \<and> card (fr_failed_chunks r) \<le> fr_total r
    \<and> fr_summarization_failures r \<le> fr_total r"
  using built_wf [OF assms] by (auto simp: wf_report_def truncated_def)

definition sample_failure :: "uuid \<Rightarrow> uuid option \<Rightarrow> bool \<Rightarrow> stage_failure" where
  "sample_failure d ch fails = \<lparr>sf_stage = GraphExtraction, sf_data_id = d, sf_chunk_id = ch, sf_error = [], sf_fails_item = fails\<rparr>"

theorem report_consistent_witness:
  "truncated (record_error (sample_failure 2 None True) False
     (mark_unreached 2 (record_error (sample_failure 3 None True) False (default_report\<lparr>fr_cap := 1\<rparr>)))) = 1"
proof -
  let ?r = "record_error (sample_failure 2 None True) False
     (mark_unreached 2 (record_error (sample_failure 3 None True) False (default_report\<lparr>fr_cap := 1\<rparr>)))"
  have "built 1 ?r" by (intro built.intros)
  from report_consistent [OF this] show ?thesis by (simp add: report_defs sample_failure_def)
qed

text \<open>
  Folding in the report of a concurrent sibling is invisible: two stages that each record
  their failures in a report of their own, the second starting from an empty one, leave exactly
  what one stage recording all of them would have left, entry list, cap and counters included.
\<close>

lemma absorb_sibling:
  assumes "built cap r" and "fp_report_cap p = cap"
  shows "absorb (record_all xs r) (record_all ys (with_policy p)) = record_all (xs @ ys) r"
proof (rule failure_report.equality)
  let ?l = "length (fr_entries r)"
  have w: "?l \<le> fr_cap r" "fr_cap r = cap" using built_wf [OF assms(1)] by (auto simp: wf_report_def)
  have e: "fr_entries (record_all ys (with_policy p)) = take cap ys"
    using assms(2) record_all_entries [of "with_policy p" ys] by (simp add: report_defs)
  show "fr_entries (absorb (record_all xs r) (record_all ys (with_policy p))) = fr_entries (record_all (xs @ ys) r)"
    using w record_all_entries [of r xs] record_all_entries [of r "xs @ ys"]
    by (simp add: absorb_def Let_def e min_def)
qed (use built_wf [OF assms(1)] in \<open>auto simp: absorb_def Let_def wf_report_def with_policy_def default_report_def image_Un\<close>)

lemma absorb_sibling_witness:
  "absorb (record_all [sample_failure 2 (Some 5) True] (mark_unreached 3 (default_report\<lparr>fr_cap := 1\<rparr>)))
      (record_all [sample_failure 3 (Some 5) True] (with_policy \<lparr>fp_stop = FailFast, fp_scope = FailedItems,
         fp_tolerate_summarization = False, fp_ratio_threshold = (0 :: nat), fp_report_cap = 1\<rparr>))
     = record_all [sample_failure 2 (Some 5) True, sample_failure 3 (Some 5) True] (mark_unreached 3 (default_report\<lparr>fr_cap := 1\<rparr>))"
proof -
  have "built 1 (mark_unreached 3 (default_report\<lparr>fr_cap := 1\<rparr>))" by (intro built.intros)
  from absorb_sibling [OF this, of "\<lparr>fp_stop = FailFast, fp_scope = FailedItems,
         fp_tolerate_summarization = False, fp_ratio_threshold = (0 :: nat), fp_report_cap = 1\<rparr>"
      "[sample_failure 2 (Some 5) True]" "[sample_failure 3 (Some 5) True]"]
  show ?thesis by simp
qed

text \<open>
  A fatal run stays fatal: recording one more failure, or marking one more item unreached,
  never turns a fatal report into a survivable one, under every scope, as long as the quotient
  grows with its numerator.
\<close>

lemma fatal_is_stable:
  assumes "built cap r" and "is_fatal quot policy r"
    and "\<And>a b n. a \<le> b \<Longrightarrow> quot a n \<le> quot b n"
  shows "is_fatal quot policy (record_error f budget r) \<and> is_fatal quot policy (mark_unreached i r)"
proof -
  have wf: "wf_report r" using built_wf [OF assms(1)] by simp
  let ?r = "record_error f budget r"
  have chunks: "card (fr_failed_chunks r) \<le> card (fr_failed_chunks ?r)"
    using wf by (intro card_mono) (auto simp: wf_report_def record_error_def record_failure_def)
  have outstanding: "fr_failed_items s \<union> fr_unreached_items s \<supseteq> fr_failed_items r \<union> fr_unreached_items r \<Longrightarrow> wf_report s \<Longrightarrow>
      card (fr_failed_items r) + card (fr_unreached_items r) \<le> card (fr_failed_items s) + card (fr_unreached_items s)" for s
    using wf card_mono [of "fr_failed_items s \<union> fr_unreached_items s" "fr_failed_items r \<union> fr_unreached_items r"]
    by (simp add: wf_report_def card_Un_disjoint)
  have 1: "card (fr_failed_items r) + card (fr_unreached_items r) \<le> card (fr_failed_items ?r) + card (fr_unreached_items ?r)"
    by (rule outstanding [OF _ wf_record_error [OF wf]]) (auto simp: record_error_def record_failure_def)
  have "wf_report (mark_unreached i r)" using wf by (auto simp: wf_report_def mark_unreached_def)
  then have 2: "card (fr_failed_items r) + card (fr_unreached_items r)
      \<le> card (fr_failed_items (mark_unreached i r)) + card (fr_unreached_items (mark_unreached i r))"
    by (rule outstanding [rotated]) (auto simp: mark_unreached_def)
  have same: "fr_total_items ?r = fr_total_items r" "fr_total_chunks ?r = fr_total_chunks r"
    "fr_failed_items r \<noteq> {} \<Longrightarrow> fr_failed_items ?r \<noteq> {}"
    "fr_total_items (mark_unreached i r) = fr_total_items r" "fr_total_chunks (mark_unreached i r) = fr_total_chunks r"
    "fr_failed_items (mark_unreached i r) = fr_failed_items r" "fr_failed_chunks (mark_unreached i r) = fr_failed_chunks r"
    by (auto simp: record_error_def record_failure_def mark_unreached_def)
  from assms(2) same 1 2 assms(3) [OF chunks, of "fr_total_chunks r"] show ?thesis
    by (auto simp: is_fatal_def chunk_failure_ratio_def Let_def split: rollback_scope.splits if_splits)
qed

lemma fatal_is_stable_witness:
  "is_fatal (\<lambda>a b. a) \<lparr>fp_stop = FailFast, fp_scope = FailedItems, fp_tolerate_summarization = False,
      fp_ratio_threshold = (0 :: nat), fp_report_cap = 1\<rparr>
     (record_error (sample_failure 4 None False) False
        (record_error (sample_failure 2 None True) False (note_totals 1 0 (default_report\<lparr>fr_cap := 1\<rparr>))))"
proof -
  let ?p = "\<lparr>fp_stop = FailFast, fp_scope = FailedItems, fp_tolerate_summarization = False,
      fp_ratio_threshold = (0 :: nat), fp_report_cap = 1\<rparr>"
  let ?r = "record_error (sample_failure 2 None True) False (note_totals 1 0 (default_report\<lparr>fr_cap := 1\<rparr>))"
  have "built 1 ?r" by (intro built.intros)
  moreover have "is_fatal (\<lambda>a b. a) ?p ?r" by (simp add: is_fatal_def report_defs sample_failure_def)
  ultimately show ?thesis by (rule fatal_is_stable [THEN conjunct1]) simp
qed

end
