(* ===== verification/Runs.thy ===== *)
theory Runs
  imports Sql "HOL-Library.Multiset"
begin

text \<open>
  The audit trail of pipeline runs: \<open>crates/database/src/pipelines/sea_orm_impl.rs\<close>, one row per
  status transition, and the \<open>run_info\<close> payloads of
  \<open>crates/core/src/pipeline_run_registry/run_info.rs\<close>.

  The tables carry the stream of fresh row ids and the clock: insertion number \<open>k\<close> gets id
  \<open>rt_ids k\<close> and time \<open>rt_now k\<close> (microseconds). SQL leaves the order of rows with one
  \<open>created_at\<close> open where \<open>id\<close> does not break the tie; \<open>tie\<close> is the order the database then
  uses. Ids are stored as 32 hex digits; a hex id sorts as the number it writes.
\<close>

section \<open>Tables\<close>

datatype run_status = Initiated | Started | Completed | Errored

record pipeline_run =
  pr_id :: uuid
  pr_created_at :: int
  pr_status :: run_status
  pr_run_id :: uuid
  pr_name :: str
  pr_pipeline_id :: uuid
  pr_dataset_id :: "uuid option"
  pr_run_info :: "json option"
  pr_user_id :: "uuid option"

record dataset_row =
  ds_id :: uuid
  ds_name :: str
  ds_owner_id :: uuid
  ds_tenant_id :: "uuid option"
  ds_created_at :: int

record payload_row =
  pf_run_id :: uuid
  pf_key :: str
  pf_value :: json
  pf_created_at :: int
  pf_updated_at :: int

record run_tables =
  rt_runs :: "pipeline_run list"
  rt_datasets :: "dataset_row list"
  rt_payload :: "payload_row list"
  rt_tick :: nat
  rt_ids :: "nat \<Rightarrow> uuid"
  rt_now :: "nat \<Rightarrow> int"

type_synonym 'a run_action = "(run_tables database, db_error, 'a) action"
type_synonym tie_order = "pipeline_run list \<Rightarrow> pipeline_run list"

record pipeline_run_entry =
  pe_run_id :: uuid
  pe_pipeline_id :: uuid
  pe_name :: str
  pe_dataset_id :: "uuid option"
  pe_status :: run_status
  pe_run_info :: "json option"
  pe_user_id :: "uuid option"

section \<open>The payloads\<close>

definition run_info_for_started :: "(uuid \<Rightarrow> str) \<Rightarrow> uuid option \<Rightarrow> json" where
  "run_info_for_started uuid_str recovery_lock =
     JObject (case recovery_lock of
       Some token \<Rightarrow> obj_insert (lit ''recovery_lock'') (JString (uuid_str token)) []
     | None \<Rightarrow> [])"

definition recovery_lock_of :: "(str \<Rightarrow> uuid option) \<Rightarrow> json option \<Rightarrow> uuid option" where
  "recovery_lock_of parse_uuid run_info =
     Option.bind run_info (\<lambda>info. Option.bind (json_get (lit ''recovery_lock'') info)
       (\<lambda>v. Option.bind (as_str v) parse_uuid))"

definition run_info_for_completed :: json where
  "run_info_for_completed = JObject []"

definition run_info_for_errored :: "str \<Rightarrow> json" where
  "run_info_for_errored error = JObject (obj_insert (lit ''error'') (JString error) [])"

definition run_info_error :: "json option \<Rightarrow> str option" where
  "run_info_error run_info =
     Option.bind run_info (\<lambda>info. Option.bind (json_get (lit ''error'') info) as_str)"

section \<open>Writing\<close>

definition insert_run :: "pipeline_run_entry \<Rightarrow> run_tables \<Rightarrow> uuid \<times> run_tables" where
  "insert_run en t =
     (let row_id = rt_ids t (rt_tick t) in
      (row_id, t\<lparr>rt_runs := rt_runs t @
         [\<lparr>pr_id = row_id, pr_created_at = rt_now t (rt_tick t), pr_status = pe_status en,
           pr_run_id = pe_run_id en, pr_name = pe_name en, pr_pipeline_id = pe_pipeline_id en,
           pr_dataset_id = pe_dataset_id en, pr_run_info = map_option sanitize_json (pe_run_info en),
           pr_user_id = pe_user_id en\<rparr>],
         rt_tick := rt_tick t + 1\<rparr>))"

definition log_pipeline_run_entry :: "pipeline_run_entry \<Rightarrow> uuid run_action" where
  "log_pipeline_run_entry en = statement (insert_run en)"

definition log_pipeline_run ::
  "uuid \<Rightarrow> uuid \<Rightarrow> str \<Rightarrow> uuid option \<Rightarrow> run_status \<Rightarrow> json option \<Rightarrow> uuid run_action" where
  "log_pipeline_run run_id pipeline_id name dataset_id status run_info =
     log_pipeline_run_entry \<lparr>pe_run_id = run_id, pe_pipeline_id = pipeline_id, pe_name = name,
       pe_dataset_id = dataset_id, pe_status = status, pe_run_info = run_info, pe_user_id = None\<rparr>"

section \<open>Orders\<close>

text \<open>\<open>ORDER BY created_at DESC\<close>, and with \<open>id DESC\<close> as the tie-break.\<close>

definition newest_first :: "tie_order \<Rightarrow> pipeline_run list \<Rightarrow> pipeline_run list" where
  "newest_first tie rows = sort_key (\<lambda>r. - pr_created_at r) (tie rows)"

definition newest_key :: "pipeline_run \<Rightarrow> int \<times> int" where
  "newest_key r = (- pr_created_at r, - int (pr_id r))"

definition newest_first_by_id :: "pipeline_run list \<Rightarrow> pipeline_run list" where
  "newest_first_by_id rows = sort_key newest_key rows"

definition runs_where :: "pipeline_run cond list \<Rightarrow> run_tables \<Rightarrow> pipeline_run list" where
  "runs_where cs t = select_where (rt_runs t) (c_all cs)"

text \<open>\<open>one\<close>: the first row, if any.\<close>

fun first :: "'a list \<Rightarrow> 'a option" where
  "first [] = None"
| "first (x # xs) = Some x"

section \<open>Reading runs\<close>

definition in_flight :: "pipeline_run \<Rightarrow> bool" where
  "in_flight r \<longleftrightarrow> pr_status r = Initiated \<or> pr_status r = Started"

text \<open>The first row seen per key, as \<open>entry(k).or_insert(row)\<close> gathers them.\<close>

definition or_insert :: "'k \<Rightarrow> 'v \<Rightarrow> ('k \<times> 'v) list \<Rightarrow> ('k \<times> 'v) list" where
  "or_insert k v m = (if map_of m k = None then m @ [(k, v)] else m)"

definition first_per :: "('r \<Rightarrow> 'k) \<Rightarrow> 'r list \<Rightarrow> ('k \<times> 'r) list" where
  "first_per key rows = fold (\<lambda>r. or_insert (key r) r) rows []"

text \<open>\<open>map_order\<close> is the order in which the hash map is drained.\<close>

definition latest_in_flight_rows ::
  "tie_order \<Rightarrow> tie_order \<Rightarrow> pipeline_run list run_action" where
  "latest_in_flight_rows tie map_order =
     and_then (query (\<lambda>t. newest_first tie (rt_runs t)))
       (\<lambda>all_rows. ok (filter in_flight (map_order (map snd (first_per pr_run_id all_rows)))))"

definition list_unterminated_runs :: "tie_order \<Rightarrow> tie_order \<Rightarrow> pipeline_run list run_action" where
  "list_unterminated_runs tie map_order = latest_in_flight_rows tie map_order"

definition latest_status ::
  "tie_order \<Rightarrow> uuid list \<Rightarrow> str \<Rightarrow> (uuid \<times> run_status) list run_action" where
  "latest_status tie dataset_ids name =
     (if dataset_ids = [] then ok []
      else and_then
        (query (\<lambda>t. newest_first tie (runs_where [c_eq (not_null pr_name) name, c_in pr_dataset_id dataset_ids] t)))
        (\<lambda>rows. ok (fold (\<lambda>r m. case pr_dataset_id r of Some d \<Rightarrow> or_insert d (pr_status r) m | None \<Rightarrow> m) rows [])))"

definition dataset_filter :: "uuid option \<Rightarrow> pipeline_run cond list" where
  "dataset_filter dataset_id = (case dataset_id of Some d \<Rightarrow> [c_eq pr_dataset_id d] | None \<Rightarrow> [])"

definition list_recent :: "tie_order \<Rightarrow> uuid option \<Rightarrow> nat \<Rightarrow> pipeline_run list run_action" where
  "list_recent tie dataset_id limit =
     query (\<lambda>t. take limit (newest_first tie (runs_where (dataset_filter dataset_id) t)))"

definition get_pipeline_run :: "tie_order \<Rightarrow> uuid \<Rightarrow> pipeline_run option run_action" where
  "get_pipeline_run tie run_id =
     query (\<lambda>t. first (newest_first tie (runs_where [c_eq (not_null pr_run_id) run_id] t)))"

definition get_pipeline_run_by_dataset :: "tie_order \<Rightarrow> uuid \<Rightarrow> str \<Rightarrow> pipeline_run option run_action" where
  "get_pipeline_run_by_dataset tie dataset_id name =
     query (\<lambda>t. first (newest_first tie
       (runs_where [c_eq pr_dataset_id dataset_id, c_eq (not_null pr_name) name] t)))"

fun keep_unseen :: "('r \<Rightarrow> 'k) \<Rightarrow> 'k set \<Rightarrow> 'r list \<Rightarrow> 'r list" where
  "keep_unseen key seen [] = []"
| "keep_unseen key seen (r # rs) =
     (if key r \<in> seen then keep_unseen key seen rs
      else r # keep_unseen key (insert (key r) seen) rs)"

definition get_pipeline_runs_by_dataset :: "tie_order \<Rightarrow> uuid \<Rightarrow> pipeline_run list run_action" where
  "get_pipeline_runs_by_dataset tie dataset_id =
     and_then (query (\<lambda>t. newest_first tie (runs_where [c_eq pr_dataset_id dataset_id] t)))
       (\<lambda>rows. ok (keep_unseen pr_name {} rows))"

definition count_runs_created_after ::
  "int \<Rightarrow> uuid option \<Rightarrow> str list \<Rightarrow> uuid list \<Rightarrow> nat run_action" where
  "count_runs_created_after since dataset_id exclude_names exclude_run_ids =
     query (\<lambda>t. length (runs_where
       ([\<lambda>r. Some (since < pr_created_at r)] @ dataset_filter dataset_id
        @ (if exclude_names = [] then [] else [c_not_in (not_null pr_name) exclude_names])
        @ (if exclude_run_ids = [] then [] else [c_not_in (not_null pr_run_id) exclude_run_ids])) t))"

section \<open>Listing with attribution\<close>

record attributed_run =
  at_id :: uuid
  at_created_at :: int
  at_status :: run_status
  at_run_id :: uuid
  at_name :: str
  at_pipeline_id :: uuid
  at_dataset_id :: "uuid option"
  at_dataset_name :: "str option"
  at_owner_id :: "uuid option"
  at_user_id :: "uuid option"

record visibility =
  vi_user_ids :: "uuid list"
  vi_dataset_ids :: "uuid list"

record list_query =
  lq_dataset_id :: "uuid option"
  lq_name :: "str option"
  lq_visibility :: "visibility option"
  lq_limit :: nat
  lq_offset :: nat

definition visibility_is_empty :: "visibility \<Rightarrow> bool" where
  "visibility_is_empty v \<longleftrightarrow> vi_user_ids v = [] \<and> vi_dataset_ids v = []"

definition admits :: "visibility \<Rightarrow> attributed_run \<Rightarrow> bool" where
  "admits v row \<longleftrightarrow>
     (case at_user_id row of Some u \<Rightarrow> u \<in> set (vi_user_ids v) | None \<Rightarrow> False)
     \<or> (case at_dataset_id row of Some d \<Rightarrow> d \<in> set (vi_dataset_ids v) | None \<Rightarrow> False)"

text \<open>The \<open>LEFT JOIN\<close> with \<open>datasets\<close> on its primary key.\<close>

definition attribute :: "dataset_row list \<Rightarrow> pipeline_run \<Rightarrow> attributed_run" where
  "attribute datasets r =
     (let d = Option.bind (pr_dataset_id r) (\<lambda>i. find (\<lambda>d. ds_id d = i) datasets) in
      \<lparr>at_id = pr_id r, at_created_at = pr_created_at r, at_status = pr_status r, at_run_id = pr_run_id r,
       at_name = pr_name r, at_pipeline_id = pr_pipeline_id r, at_dataset_id = pr_dataset_id r,
       at_dataset_name = map_option ds_name d, at_owner_id = map_option ds_owner_id d,
       at_user_id = pr_user_id r\<rparr>)"

definition fetch_runs ::
  "uuid option \<Rightarrow> str option \<Rightarrow> pipeline_run cond option \<Rightarrow> nat \<Rightarrow> nat \<Rightarrow> attributed_run list run_action" where
  "fetch_runs dataset_id name visible limit offset =
     query (\<lambda>t. map (attribute (rt_datasets t)) (take limit (drop offset (newest_first_by_id (runs_where
       (dataset_filter dataset_id
        @ (case name of Some n \<Rightarrow> [c_eq (not_null pr_name) n] | None \<Rightarrow> [])
        @ (case visible of Some c \<Rightarrow> [c] | None \<Rightarrow> [])) t)))))"

definition list_runs_max_binds :: nat where "list_runs_max_binds = 30000"
definition list_runs_chunked_window :: nat where "list_runs_chunked_window = 5000"

definition with_list_bind_limit :: "nat \<Rightarrow> nat" where
  "with_list_bind_limit binds = max binds 1"

definition saturating_add64 :: "nat \<Rightarrow> nat \<Rightarrow> nat" where
  "saturating_add64 a b = min (a + b) (2 ^ 64 - 1)"

text \<open>\<open>BTreeMap\<close> keyed by row id: \<open>entry(row.id).or_insert(row)\<close>, then the values in key order.\<close>

fun merge_chunks ::
  "uuid option \<Rightarrow> str option \<Rightarrow> nat \<Rightarrow> pipeline_run cond list \<Rightarrow> (uuid \<times> attributed_run) list
   \<Rightarrow> (uuid \<times> attributed_run) list run_action" where
  "merge_chunks dataset_id name window [] merged = ok merged"
| "merge_chunks dataset_id name window (c # cs) merged =
     and_then (fetch_runs dataset_id name (Some c) window 0)
       (\<lambda>rows. merge_chunks dataset_id name window cs (fold (\<lambda>row. or_insert (at_id row) row) rows merged))"

definition chunk_conditions :: "nat \<Rightarrow> visibility \<Rightarrow> pipeline_run cond list" where
  "chunk_conditions per v =
     map (c_in pr_user_id) (chunks per (vi_user_ids v)) @ map (c_in pr_dataset_id) (chunks per (vi_dataset_ids v))"

definition attributed_key :: "attributed_run \<Rightarrow> int \<times> int" where
  "attributed_key row = (- at_created_at row, - int (at_id row))"

definition list_runs :: "nat \<Rightarrow> list_query \<Rightarrow> attributed_run list run_action" where
  "list_runs bind_limit q =
     (case lq_visibility q of
        None \<Rightarrow> fetch_runs (lq_dataset_id q) (lq_name q) None (lq_limit q) (lq_offset q)
      | Some v \<Rightarrow>
          (if visibility_is_empty v then ok []
           else if length (vi_user_ids v) + length (vi_dataset_ids v) \<le> bind_limit then
             fetch_runs (lq_dataset_id q) (lq_name q)
               (Some (c_any ((if vi_user_ids v = [] then [] else [c_in pr_user_id (vi_user_ids v)])
                             @ (if vi_dataset_ids v = [] then [] else [c_in pr_dataset_id (vi_dataset_ids v)]))))
               (lq_limit q) (lq_offset q)
           else
             (let window = saturating_add64 (lq_offset q) (lq_limit q) in
              if list_runs_chunked_window < window then
                fail (QueryError (lit ''pipeline-runs listing: offset + limit ('' @ decimal window
                  @ lit '') exceeds '' @ decimal list_runs_chunked_window @ lit '' for a visibility set of ''
                  @ decimal (length (vi_user_ids v) + length (vi_dataset_ids v)) @ lit '' ids''))
              else and_then
                (merge_chunks (lq_dataset_id q) (lq_name q) window (chunk_conditions bind_limit v) [])
                (\<lambda>merged. ok (take (lq_limit q) (drop (lq_offset q)
                   (sort_key attributed_key (map snd (sort_key fst merged)))))))))"

section \<open>Payload fields\<close>

text \<open>Insert, or on a conflict on (run, key) update value and \<open>updated_at\<close>.\<close>

fun put_field :: "payload_row \<Rightarrow> payload_row list \<Rightarrow> payload_row list" where
  "put_field p [] = [p]"
| "put_field p (q # qs) =
     (if pf_run_id q = pf_run_id p \<and> pf_key q = pf_key p
      then q\<lparr>pf_value := pf_value p, pf_updated_at := pf_updated_at p\<rparr> # qs
      else q # put_field p qs)"

definition set_payload_field :: "uuid \<Rightarrow> str \<Rightarrow> json \<Rightarrow> unit run_action" where
  "set_payload_field run_id key v =
     exec (\<lambda>t. t\<lparr>rt_payload := put_field
         \<lparr>pf_run_id = run_id, pf_key = key, pf_value = sanitize_json v,
          pf_created_at = rt_now t (rt_tick t), pf_updated_at = rt_now t (rt_tick t)\<rparr> (rt_payload t),
       rt_tick := rt_tick t + 1\<rparr>)"

definition get_payload :: "uuid \<Rightarrow> (str \<times> json) list run_action" where
  "get_payload run_id =
     query (\<lambda>t. fold (\<lambda>p. obj_insert (pf_key p) (pf_value p))
       (select_where (rt_payload t) (c_eq (not_null pf_run_id) run_id)) [])"

section \<open>Stamped runs\<close>

record stamped_run =
  st_run_id :: uuid
  st_stamp :: json

definition stamped_page :: nat where
  "stamped_page = 64"

definition completed_runs :: "uuid \<Rightarrow> str \<Rightarrow> run_tables \<Rightarrow> pipeline_run list" where
  "completed_runs dataset_id name t =
     newest_first_by_id (runs_where [c_eq pr_dataset_id dataset_id, c_eq (not_null pr_name) name,
       c_eq (not_null pr_status) Completed, c_not (c_is_null pr_run_info)] t)"

definition stamp_of :: "str \<Rightarrow> pipeline_run \<Rightarrow> stamped_run option" where
  "stamp_of key r =
     (case Option.bind (pr_run_info r) (json_get key) of
        Some stamp \<Rightarrow> (if is_object stamp then Some \<lparr>st_run_id = pr_run_id r, st_stamp = stamp\<rparr> else None)
      | None \<Rightarrow> None)"

fun first_stamp :: "str \<Rightarrow> pipeline_run list \<Rightarrow> stamped_run option" where
  "first_stamp key [] = None"
| "first_stamp key (r # rs) = (case stamp_of key r of Some s \<Rightarrow> Some s | None \<Rightarrow> first_stamp key rs)"

text \<open>
  The paging loop. It ends because a full page means that \<open>offset\<close> has not passed the last
  matching row.
\<close>

function stamped_pages ::
  "uuid \<Rightarrow> str \<Rightarrow> str \<Rightarrow> nat \<Rightarrow> run_tables database \<Rightarrow> (db_error + stamped_run option) \<times> run_tables database" where
  "stamped_pages dataset_id name key offset db =
     (case query (\<lambda>t. take stamped_page (drop offset (completed_runs dataset_id name t))) db of
        (Inl e, db') \<Rightarrow> (Inl e, db')
      | (Inr rows, db') \<Rightarrow>
          (case first_stamp key rows of
             Some s \<Rightarrow> (Inr (Some s), db')
           | None \<Rightarrow> if length rows < stamped_page then (Inr None, db')
                     else stamped_pages dataset_id name key (offset + stamped_page) db'))"
  by pat_completeness auto
termination
  by (relation "measure (\<lambda>(d, n, k, offset, db). length (completed_runs d n (db_tables db)) - offset)")
    (auto dest!: query_ok [OF sym] simp: stamped_page_def)

declare stamped_pages.simps [simp del]

definition latest_stamped_run :: "uuid \<Rightarrow> str \<Rightarrow> str \<Rightarrow> stamped_run option run_action" where
  "latest_stamped_run dataset_id name key db = stamped_pages dataset_id name key 0 db"

section \<open>Evidence of a built graph\<close>

record graph_build_evidence =
  ge_graph_built :: bool
  ge_latest_build_error :: "str option option"
  ge_any_run :: bool

definition run_exists :: "uuid list \<Rightarrow> run_status option \<Rightarrow> str list \<Rightarrow> bool run_action" where
  "run_exists dataset_ids status excluded =
     query (\<lambda>t. runs_where ([c_in pr_dataset_id dataset_ids]
       @ (case status of Some s \<Rightarrow> [c_eq (not_null pr_status) s] | None \<Rightarrow> [])
       @ (if excluded = [] then [] else [c_not_in (not_null pr_name) excluded])) t \<noteq> [])"

definition latest_errored_run_info :: "uuid list \<Rightarrow> str list \<Rightarrow> json option option run_action" where
  "latest_errored_run_info dataset_ids excluded =
     query (\<lambda>t. map_option pr_run_info (first (newest_first_by_id (runs_where
       ([c_in pr_dataset_id dataset_ids, c_eq (not_null pr_status) Errored]
        @ (if excluded = [] then [] else [c_not_in (not_null pr_name) excluded])) t))))"

definition graph_build_evidence_of :: "uuid list \<Rightarrow> str list \<Rightarrow> str list \<Rightarrow> graph_build_evidence run_action" where
  "graph_build_evidence_of dataset_ids staging_names ignored_names =
     (if dataset_ids = [] then ok \<lparr>ge_graph_built = False, ge_latest_build_error = None, ge_any_run = False\<rparr>
      else (let non_graph = staging_names @ ignored_names in
        and_then (run_exists dataset_ids (Some Completed) non_graph)
          (\<lambda>graph_built. and_then (latest_errored_run_info dataset_ids non_graph)
            (\<lambda>info. and_then (run_exists dataset_ids None ignored_names)
              (\<lambda>any_run. ok \<lparr>ge_graph_built = graph_built,
                 ge_latest_build_error = map_option run_info_error info, ge_any_run = any_run\<rparr>)))))"

section \<open>Closing an abandoned run\<close>

text \<open>The \<open>Errored\<close> successor: the row's own ids, and the reason.\<close>

definition closing_entry :: "pipeline_run \<Rightarrow> str \<Rightarrow> pipeline_run_entry" where
  "closing_entry r reason = \<lparr>pe_run_id = pr_run_id r, pe_pipeline_id = pr_pipeline_id r, pe_name = pr_name r,
     pe_dataset_id = pr_dataset_id r, pe_status = Errored, pe_run_info = Some (run_info_for_errored reason),
     pe_user_id = pr_user_id r\<rparr>"

definition reset_orphan_run :: "tie_order \<Rightarrow> uuid \<Rightarrow> str \<Rightarrow> uuid \<Rightarrow> str \<Rightarrow> bool run_action" where
  "reset_orphan_run tie dataset_id name run_row_id reason =
     and_then (query (\<lambda>t. first (runs_where [c_eq (not_null pr_id) run_row_id] t)))
       (\<lambda>found. case found of
          None \<Rightarrow> ok False
        | Some observed \<Rightarrow>
            (if pr_dataset_id observed \<noteq> Some dataset_id \<or> pr_name observed \<noteq> name then ok False
             else and_then (get_pipeline_run tie (pr_run_id observed))
               (\<lambda>latest. case latest of
                  None \<Rightarrow> ok False
                | Some latest \<Rightarrow>
                    (if pr_id latest \<noteq> run_row_id then ok False
                     else if \<not> in_flight latest then ok False
                     else and_then (log_pipeline_run_entry (closing_entry latest reason)) (\<lambda>_. ok True)))))"

section \<open>Windows of sorted lists\<close>

lemma insort_key_map: "insort_key f (g x) (map g xs) = map g (insort_key (f \<circ> g) x xs)"
  by (induction xs) auto

lemma sort_key_map: "sort_key f (map g xs) = map g (sort_key (f \<circ> g) xs)"
  by (induction xs) (simp_all add: insort_key_map comp_def insort_key_map [unfolded comp_def])

lemma take_filter_all: "\<forall>x \<in> set (take w xs). P x \<Longrightarrow> take w (filter P xs) = take w xs"
proof -
  assume a: "\<forall>x \<in> set (take w xs). P x"
  have "filter P xs = take w xs @ filter P (drop w xs)"
    using filter_append [of P "take w xs" "drop w xs"] a by simp
  then show ?thesis by (cases "w \<le> length xs") (simp_all add: min_def)
qed

lemma take_filter_mem:
  assumes "x \<in> set (take w xs)" and "P x"
  shows "x \<in> set (take w (filter P xs))"
proof -
  have "filter P xs = filter P (take w xs) @ filter P (drop w xs)"
    using filter_append [of P "take w xs" "drop w xs"] by simp
  moreover have "length (filter P (take w xs)) \<le> w"
    using length_filter_le [of P "take w xs"] by simp
  ultimately show ?thesis using assms by (simp add: take_append)
qed

lemma sort_key_determined:
  assumes "inj_on f (set xs)" and "distinct xs" and "distinct ys" and "set ys = set xs"
  shows "sort_key f xs = sort_key f ys"
proof (rule sort_key_inj_key_eq)
  show "mset xs = mset (sort_key f ys)" using assms by (simp add: set_eq_iff_mset_eq_distinct)
qed (use assms in auto)

text \<open>The best \<open>w\<close> of a list are found among any of its elements that include them.\<close>

lemma window_of_superset:
  assumes "inj_on f (set xs)" and "distinct xs" and "distinct ys" and "set ys \<subseteq> set xs"
    and "set (take w (sort_key f xs)) \<subseteq> set ys"
  shows "take w (sort_key f ys) = take w (sort_key f xs)"
proof -
  have "sort_key f ys = sort_key f (filter (\<lambda>x. x \<in> set ys) xs)"
    by (rule sort_key_determined) (use assms in \<open>auto intro: inj_on_subset\<close>)
  also have "\<dots> = filter (\<lambda>x. x \<in> set ys) (sort_key f xs)" by (simp add: filter_sort)
  finally show ?thesis using assms(5) by (simp add: take_filter_all subset_iff)
qed

section \<open>Gathering\<close>

text \<open>Rows under their own key: a map whose keys are determined by the values.\<close>

definition keyed_by :: "('r \<Rightarrow> 'k) \<Rightarrow> ('k \<times> 'r) list \<Rightarrow> bool" where
  "keyed_by key m \<longleftrightarrow> distinct (map fst m) \<and> (\<forall>(k, r) \<in> set m. k = key r)"

lemma keyed_by_Nil [simp]: "keyed_by key []"
  by (simp add: keyed_by_def)

lemma keyed_by_or_insert: "keyed_by key m \<Longrightarrow> keyed_by key (or_insert (key r) r m)"
  by (auto simp: keyed_by_def or_insert_def map_of_eq_None_iff)

lemma keyed_by_distinct: "keyed_by key m \<Longrightarrow> distinct (map snd m)"
  by (induction m) (force simp: keyed_by_def)+

lemma keyed_by_fold: "keyed_by key m \<Longrightarrow> keyed_by key (fold (\<lambda>r. or_insert (key r) r) rows m)"
  by (induction rows arbitrary: m) (auto intro: keyed_by_or_insert)

lemma or_insert_values:
  assumes "keyed_by key m" and "inj_on key U" and "snd ` set m \<subseteq> U" and "r \<in> U"
  shows "snd ` set (or_insert (key r) r m) = insert r (snd ` set m)"
proof (cases "map_of m (key r)")
  case (Some r')
  then have "(key r, r') \<in> set m" by (rule map_of_SomeD)
  moreover from this have "r' = r" using assms by (force simp: keyed_by_def dest: inj_onD)
  ultimately show ?thesis using Some by (force simp: or_insert_def)
qed (simp add: or_insert_def)

lemma fold_or_insert_values:
  "keyed_by key m \<Longrightarrow> inj_on key U \<Longrightarrow> snd ` set m \<subseteq> U \<Longrightarrow> set rows \<subseteq> U \<Longrightarrow>
     snd ` set (fold (\<lambda>r. or_insert (key r) r) rows m) = set rows \<union> snd ` set m"
proof (induction rows arbitrary: m)
  case (Cons r rows)
  have v: "snd ` set (or_insert (key r) r m) = insert r (snd ` set m)"
    using or_insert_values [of key m U r] Cons.prems by simp
  have "snd ` set (fold (\<lambda>r. or_insert (key r) r) rows (or_insert (key r) r m))
      = set rows \<union> snd ` set (or_insert (key r) r m)"
    by (rule Cons.IH [OF keyed_by_or_insert [OF Cons.prems(1)] Cons.prems(2)]) (use v Cons.prems in auto)
  with v show ?case by auto
qed simp

section \<open>The listing\<close>

text \<open>What one statement returns.\<close>

definition base_filter :: "uuid option \<Rightarrow> str option \<Rightarrow> pipeline_run \<Rightarrow> bool" where
  "base_filter d n r \<longleftrightarrow> (case d of Some i \<Rightarrow> pr_dataset_id r = Some i | None \<Rightarrow> True)
     \<and> (case n of Some x \<Rightarrow> pr_name r = x | None \<Rightarrow> True)"

definition visible_runs :: "uuid option \<Rightarrow> str option \<Rightarrow> (pipeline_run \<Rightarrow> bool) \<Rightarrow> run_tables \<Rightarrow> attributed_run list" where
  "visible_runs d n P t = map (attribute (rt_datasets t)) (filter (\<lambda>r. base_filter d n r \<and> P r) (rt_runs t))"

lemma attributed_key_attribute: "attributed_key \<circ> attribute ds = newest_key"
  by (simp add: fun_eq_iff attributed_key_def newest_key_def attribute_def Let_def)

lemma fetch_runs_ok:
  assumes "db_faults db = []"
  shows "fetch_runs d n vis limit offset db =
    (Inr (take limit (drop offset (sort_key attributed_key
       (visible_runs d n (\<lambda>r. case vis of Some c \<Rightarrow> holds c r | None \<Rightarrow> True) (db_tables db))))), db)"
proof -
  let ?cs = "dataset_filter d @ (case n of Some n \<Rightarrow> [c_eq (not_null pr_name) n] | None \<Rightarrow> [])
        @ (case vis of Some c \<Rightarrow> [c] | None \<Rightarrow> [])"
  have "holds (c_all ?cs) r \<longleftrightarrow> base_filter d n r \<and> (case vis of Some c \<Rightarrow> holds c r | None \<Rightarrow> True)" for r
    by (cases d; cases n; cases vis) (auto simp: dataset_filter_def base_filter_def)
  then have "runs_where ?cs t = filter (\<lambda>r. base_filter d n r \<and> (case vis of Some c \<Rightarrow> holds c r | None \<Rightarrow> True)) (rt_runs t)" for t
    unfolding runs_where_def select_where_def by (intro filter_cong refl)
  then show ?thesis
    using assms by (simp add: fetch_runs_def query_no_faults visible_runs_def newest_first_by_id_def sort_key_map
        attributed_key_attribute take_map drop_map)
qed

definition runs_keyed :: "run_tables \<Rightarrow> bool" where
  "runs_keyed t \<longleftrightarrow> distinct (map pr_id (rt_runs t))"

lemma at_id_attribute: "at_id \<circ> attribute ds = pr_id"
  by (simp add: fun_eq_iff attribute_def Let_def)

lemma visible_runs_keyed:
  assumes "runs_keyed t"
  shows "distinct (map at_id (visible_runs d n P t))"
  using assms by (simp add: visible_runs_def runs_keyed_def at_id_attribute distinct_map_filter)

lemma attributed_key_inj: "inj_on at_id A \<Longrightarrow> inj_on attributed_key A"
  by (auto simp: inj_on_def attributed_key_def)

lemma visible_runs_filter:
  "visible_runs d n P t = map (attribute (rt_datasets t)) (filter P (filter (base_filter d n) (rt_runs t)))"
  by (simp add: visible_runs_def conj_commute)

lemma set_visible_runs:
  "set (visible_runs d n P t) = attribute (rt_datasets t) ` {r \<in> set (rt_runs t). base_filter d n r \<and> P r}"
  by (auto simp: visible_runs_def)

lemma visible_runs_mono: "(\<And>r. P r \<Longrightarrow> Q r) \<Longrightarrow> set (visible_runs d n P t) \<subseteq> set (visible_runs d n Q t)"
  by (auto simp: set_visible_runs)

lemma window_member:
  assumes "inj_on f (set xs)" and "distinct xs" and "distinct ys" and "set ys \<subseteq> set xs"
    and "x \<in> set (take w (sort_key f xs))" and "x \<in> set ys"
  shows "x \<in> set (take w (sort_key f ys))"
proof -
  have "sort_key f ys = sort_key f (filter (\<lambda>x. x \<in> set ys) xs)"
    by (rule sort_key_determined) (use assms in \<open>auto intro: inj_on_subset\<close>)
  also have "\<dots> = filter (\<lambda>x. x \<in> set ys) (sort_key f xs)" by (simp add: filter_sort)
  finally show ?thesis using take_filter_mem [OF assms(5)] assms(6) by simp
qed

text \<open>Chunk by chunk, the newest \<open>window\<close> rows of each.\<close>

lemma merge_chunks_ok:
  assumes "db_faults db = []" and "runs_keyed (db_tables db)"
    and "keyed_by at_id m" and "snd ` set m \<subseteq> set (visible_runs d n (\<lambda>_. True) (db_tables db))"
  shows "\<exists>m'. merge_chunks d n w cs m db = (Inr m', db) \<and> keyed_by at_id m'
    \<and> snd ` set m' = snd ` set m \<union>
        (\<Union>c \<in> set cs. set (take w (sort_key attributed_key (visible_runs d n (holds c) (db_tables db)))))"
  using assms(3,4)
proof (induction cs arbitrary: m)
  case Nil
  then show ?case by (simp add: ok_def)
next
  case (Cons c cs)
  let ?U = "set (visible_runs d n (\<lambda>_. True) (db_tables db))"
  let ?rows = "take w (sort_key attributed_key (visible_runs d n (holds c) (db_tables db)))"
  let ?m = "fold (\<lambda>row. or_insert (at_id row) row) ?rows m"
  have sub: "set ?rows \<subseteq> ?U"
    using set_take_subset [of w] visible_runs_mono [of "holds c" "\<lambda>_. True"] by fastforce
  have inj: "inj_on at_id ?U" using visible_runs_keyed [OF assms(2)] by (simp add: distinct_map)
  have v: "snd ` set ?m = set ?rows \<union> snd ` set m"
    by (rule fold_or_insert_values [OF Cons.prems(1) inj Cons.prems(2) sub])
  have f: "fetch_runs d n (Some c) w 0 db = (Inr ?rows, db)"
    using fetch_runs_ok [OF assms(1), of d n "Some c" w 0] by simp
  have "snd ` set ?m \<subseteq> ?U" using v sub Cons.prems(2) by simp
  from Cons.IH [OF keyed_by_fold [OF Cons.prems(1)] this] obtain m'
    where "merge_chunks d n w cs ?m db = (Inr m', db)" and "keyed_by at_id m'"
    and "snd ` set m' = snd ` set ?m \<union>
        (\<Union>c \<in> set cs. set (take w (sort_key attributed_key (visible_runs d n (holds c) (db_tables db)))))"
    by blast
  with f v show ?case by (intro exI [of _ m']) (simp add: and_then_def Un_ac)
qed

lemma in_some_chunk: "0 < n \<Longrightarrow> (\<exists>c \<in> set (chunks n xs). x \<in> set c) \<longleftrightarrow> x \<in> set xs"
  using arg_cong [OF concat_chunks [of n xs], of set] by auto

lemma chunk_conditions_holds:
  assumes "0 < per"
  shows "(\<exists>c \<in> set (chunk_conditions per v). holds c r) \<longleftrightarrow>
    (\<exists>u \<in> set (vi_user_ids v). pr_user_id r = Some u) \<or> (\<exists>d \<in> set (vi_dataset_ids v). pr_dataset_id r = Some d)"
proof -
  have "(\<exists>c \<in> set (chunks per xs). holds (c_in f c) r) \<longleftrightarrow> (\<exists>x \<in> set xs. f r = Some x)"
    for f :: "pipeline_run \<Rightarrow> uuid option" and xs
    using in_some_chunk [OF assms, of xs] by (simp add: set_eq_iff) blast
  then show ?thesis by (simp add: chunk_conditions_def bex_Un)
qed

text \<open>The rows a visibility admits, and the page both paths are to return.\<close>

definition run_visible :: "visibility \<Rightarrow> pipeline_run \<Rightarrow> bool" where
  "run_visible v r \<longleftrightarrow> (\<exists>u \<in> set (vi_user_ids v). pr_user_id r = Some u)
     \<or> (\<exists>d \<in> set (vi_dataset_ids v). pr_dataset_id r = Some d)"

lemma run_visible_admits: "run_visible v r \<longleftrightarrow> admits v (attribute ds r)"
  by (auto simp: run_visible_def admits_def attribute_def Let_def split: option.split)

definition listed :: "list_query \<Rightarrow> visibility \<Rightarrow> run_tables \<Rightarrow> attributed_run list" where
  "listed q v t = take (lq_limit q) (drop (lq_offset q)
     (sort_key attributed_key (visible_runs (lq_dataset_id q) (lq_name q) (run_visible v) t)))"

lemma take_drop_window: "take w xs = take w ys \<Longrightarrow> off + lim \<le> w \<Longrightarrow> take lim (drop off xs) = take lim (drop off ys)"
proof -
  assume a: "take w xs = take w ys" and b: "off + lim \<le> w"
  have "take (off + lim) zs = take (off + lim) (take w zs)" for zs :: "'a list" using b by (simp add: min_def)
  with a have "take (off + lim) xs = take (off + lim) ys" by metis
  then show ?thesis by (metis drop_take diff_add_inverse)
qed

lemma list_runs_chunked:
  assumes "db_faults db = []" and "runs_keyed (db_tables db)" and "0 < b"
    and "lq_offset q + lq_limit q \<le> w"
  shows "\<exists>m. merge_chunks (lq_dataset_id q) (lq_name q) w (chunk_conditions b v) [] db = (Inr m, db)
    \<and> take (lq_limit q) (drop (lq_offset q) (sort_key attributed_key (map snd (sort_key fst m)))) = listed q v (db_tables db)"
proof -
  let ?t = "db_tables db"
  let ?V = "visible_runs (lq_dataset_id q) (lq_name q) (run_visible v) ?t"
  let ?A = "\<lambda>c. visible_runs (lq_dataset_id q) (lq_name q) (holds c) ?t"
  obtain m where m: "merge_chunks (lq_dataset_id q) (lq_name q) w (chunk_conditions b v) [] db = (Inr m, db)"
    and k: "keyed_by at_id m"
    and vals: "snd ` set m = (\<Union>c \<in> set (chunk_conditions b v). set (take w (sort_key attributed_key (?A c))))"
    using merge_chunks_ok [OF assms(1,2), of "[]" "lq_dataset_id q" "lq_name q" w "chunk_conditions b v"] by auto
  have vis: "run_visible v r \<longleftrightarrow> (\<exists>c \<in> set (chunk_conditions b v). holds c r)" for r
    using chunk_conditions_holds [OF assms(3)] by (simp add: run_visible_def)
  have dist: "distinct (visible_runs (lq_dataset_id q) (lq_name q) P ?t)" for P
    using visible_runs_keyed [OF assms(2)] distinct_map by blast
  have inj: "inj_on attributed_key (set ?V)"
    using visible_runs_keyed [OF assms(2)] by (auto intro: attributed_key_inj simp: distinct_map)
  have sub: "set (?A c) \<subseteq> set ?V" if "c \<in> set (chunk_conditions b v)" for c
    using that vis by (intro visible_runs_mono) auto
  have upper: "snd ` set m \<subseteq> set ?V"
    unfolding vals using sub by (fastforce dest: in_set_takeD)
  have lower: "x \<in> snd ` set m" if x: "x \<in> set (take w (sort_key attributed_key ?V))" for x
  proof -
    have "x \<in> set ?V" using in_set_takeD [OF x] by simp
    then obtain c where c: "c \<in> set (chunk_conditions b v)" and "x \<in> set (?A c)"
      by (auto simp: set_visible_runs vis)
    then show ?thesis unfolding vals using window_member [OF inj dist dist sub [OF c] x] by blast
  qed
  have d: "distinct (map snd (sort_key fst m))"
    using keyed_by_distinct [OF k] by (simp add: distinct_map inj_on_def)
  have "take w (sort_key attributed_key (map snd (sort_key fst m))) = take w (sort_key attributed_key ?V)"
    by (rule window_of_superset [OF inj dist d]) (use upper lower in auto)
  with m take_drop_window [OF _ assms(4)] show ?thesis unfolding listed_def by blast
qed

text \<open>The page, read off the joined rows.\<close>

definition listing :: "list_query \<Rightarrow> run_tables \<Rightarrow> attributed_run list" where
  "listing q t = take (lq_limit q) (drop (lq_offset q) (sort_key attributed_key
     (filter (\<lambda>row. (case lq_dataset_id q of Some d \<Rightarrow> at_dataset_id row = Some d | None \<Rightarrow> True)
                   \<and> (case lq_name q of Some n \<Rightarrow> at_name row = n | None \<Rightarrow> True)
                   \<and> (case lq_visibility q of Some v \<Rightarrow> admits v row | None \<Rightarrow> True))
        (map (attribute (rt_datasets t)) (rt_runs t)))))"

lemma listing_visible_runs:
  assumes "\<And>r. P r \<longleftrightarrow> (case lq_visibility q of Some v \<Rightarrow> run_visible v r | None \<Rightarrow> True)"
  shows "take (lq_limit q) (drop (lq_offset q) (sort_key attributed_key (visible_runs (lq_dataset_id q) (lq_name q) P t)))
    = listing q t"
proof -
  have "at_dataset_id (attribute ds r) = pr_dataset_id r \<and> at_name (attribute ds r) = pr_name r" for ds r
    by (simp add: attribute_def Let_def)
  then show ?thesis
    unfolding listing_def visible_runs_def filter_map comp_def base_filter_def assms
    by (cases "lq_visibility q"; cases "lq_dataset_id q"; cases "lq_name q")
      (simp_all add: run_visible_admits [of _ _ "rt_datasets t"])
qed

lemma no_one_visible: "visibility_is_empty v \<Longrightarrow> \<not> run_visible v r"
  by (simp add: visibility_is_empty_def run_visible_def)

lemma holds_visibility:
  "holds (c_any ((if vi_user_ids v = [] then [] else [c_in pr_user_id (vi_user_ids v)])
          @ (if vi_dataset_ids v = [] then [] else [c_in pr_dataset_id (vi_dataset_ids v)]))) r \<longleftrightarrow> run_visible v r"
  by (auto simp: run_visible_def)

section \<open>The trail of one run\<close>

text \<open>The database orders rows of one time somehow; no row is lost or invented.\<close>

definition any_order :: "('a list \<Rightarrow> 'a list) \<Rightarrow> bool" where
  "any_order f \<longleftrightarrow> (\<forall>xs. mset (f xs) = mset xs)"

lemma any_order_set: "any_order f \<Longrightarrow> set (f xs) = set xs"
  using set_mset_mset unfolding any_order_def by metis

lemma any_order_id: "any_order (\<lambda>xs. xs)" "any_order rev"
  by (simp_all add: any_order_def)

lemma set_newest_first [simp]: "any_order tie \<Longrightarrow> set (newest_first tie rows) = set rows"
  by (simp add: newest_first_def any_order_set)

lemma newest_first_head:
  assumes "newest_first tie rows = r # rs" and "any_order tie" and "q \<in> set rows"
  shows "pr_created_at q \<le> pr_created_at r"
proof -
  have "sorted (map (\<lambda>r. - pr_created_at r) (r # rs))" unfolding assms(1) [symmetric] newest_first_def by simp
  moreover have "q \<in> set (r # rs)" using assms by (metis set_newest_first)
  ultimately show ?thesis by auto
qed

text \<open>The last row of a run: strictly newer than its other rows.\<close>

definition latest_of_run :: "run_tables \<Rightarrow> pipeline_run \<Rightarrow> bool" where
  "latest_of_run t r \<longleftrightarrow> r \<in> set (rt_runs t)
     \<and> (\<forall>q \<in> set (rt_runs t). pr_run_id q = pr_run_id r \<longrightarrow> q = r \<or> pr_created_at q < pr_created_at r)"

lemma latest_of_run_unique:
  "latest_of_run t r \<Longrightarrow> latest_of_run t q \<Longrightarrow> pr_run_id q = pr_run_id r \<Longrightarrow> q = r"
  unfolding latest_of_run_def by (metis less_asym)

lemma first_newest:
  assumes "any_order tie" and "first (newest_first tie rows) = Some r"
  shows "r \<in> set rows \<and> (\<forall>q \<in> set rows. pr_created_at q \<le> pr_created_at r)"
proof -
  obtain rs where rs: "newest_first tie rows = r # rs" using assms(2) by (cases "newest_first tie rows") auto
  moreover have "r \<in> set rows" using rs assms(1) by (metis list.set_intros(1) set_newest_first)
  ultimately show ?thesis using newest_first_head [OF rs assms(1)] by blast
qed

lemma first_None: "first xs = None \<longleftrightarrow> xs = []"
  by (cases xs) auto

lemma get_pipeline_run_ok:
  assumes "get_pipeline_run tie i db = (Inr out, db')" and "any_order tie"
  shows "db_tables db' = db_tables db
    \<and> (case out of None \<Rightarrow> \<forall>q \<in> set (rt_runs (db_tables db)). pr_run_id q \<noteq> i
       | Some r \<Rightarrow> r \<in> set (rt_runs (db_tables db)) \<and> pr_run_id r = i
           \<and> (\<forall>q \<in> set (rt_runs (db_tables db)). pr_run_id q = i \<longrightarrow> pr_created_at q \<le> pr_created_at r))"
proof -
  let ?rows = "runs_where [c_eq (not_null pr_run_id) i] (db_tables db)"
  have rows: "set ?rows = {q \<in> set (rt_runs (db_tables db)). pr_run_id q = i}"
    by (auto simp: runs_where_def)
  from assms(1) have o: "out = first (newest_first tie ?rows)" and t: "db_tables db' = db_tables db"
    by (auto simp: get_pipeline_run_def dest: query_ok)
  show ?thesis
  proof (cases out)
    case None
    then have "newest_first tie ?rows = []" using o by (simp add: first_None)
    then have "set ?rows = {}" using set_newest_first [OF assms(2), of ?rows] by simp
    with None rows t show ?thesis by auto
  next
    case (Some r)
    then have "r \<in> set ?rows" "\<forall>q \<in> set ?rows. pr_created_at q \<le> pr_created_at r"
      using first_newest [OF assms(2), of ?rows r] o by simp_all
    with Some rows t show ?thesis by simp
  qed
qed

lemma get_pipeline_run_latest:
  assumes "latest_of_run (db_tables db) r" and "any_order tie"
    and "get_pipeline_run tie (pr_run_id r) db = (Inr out, db')"
  shows "out = Some r"
proof (cases out)
  case None
  with get_pipeline_run_ok [OF assms(3,2)] assms(1) show ?thesis by (auto simp: latest_of_run_def)
next
  case (Some q)
  with get_pipeline_run_ok [OF assms(3,2)] assms(1)
  have "q = r \<or> pr_created_at q < pr_created_at r" "pr_created_at r \<le> pr_created_at q"
    by (auto simp: latest_of_run_def)
  with Some show ?thesis by auto
qed

lemma first_per_keyed: "keyed_by key (first_per key rows)"
  by (simp add: first_per_def keyed_by_fold)

lemma map_of_first_per: "map_of (first_per key rows) k = find (\<lambda>x. key x = k) rows"
proof -
  have "map_of (fold (\<lambda>r. or_insert (key r) r) rows m) k =
      (case map_of m k of Some r \<Rightarrow> Some r | None \<Rightarrow> find (\<lambda>x. key x = k) rows)" for m
    by (induction rows arbitrary: m) (auto simp: or_insert_def map_of_append map_add_def split: option.splits)
  then show ?thesis by (simp add: first_per_def)
qed

lemma find_split:
  "find P xs = Some x \<Longrightarrow> \<exists>us vs. xs = us @ x # vs \<and> P x \<and> (\<forall>u \<in> set us. \<not> P u)"
proof (induction xs)
  case (Cons y xs)
  show ?case
  proof (cases "P y")
    case True
    with Cons.prems show ?thesis by (intro exI [of _ "[]"] exI [of _ xs]) simp
  next
    case False
    with Cons obtain us vs where "xs = us @ x # vs \<and> P x \<and> (\<forall>u \<in> set us. \<not> P u)" by auto
    with False show ?thesis by (intro exI [of _ "y # us"] exI [of _ vs]) simp
  qed
qed simp

section \<open>The runs left in flight\<close>

lemma unterminated_ok:
  assumes "list_unterminated_runs tie map_order db = (Inr out, db')" and "any_order tie" and "any_order map_order"
  shows "db_tables db' = db_tables db \<and> distinct out
    \<and> (\<forall>r \<in> set out. in_flight r \<and> r \<in> set (rt_runs (db_tables db))
         \<and> (\<forall>q \<in> set (rt_runs (db_tables db)). pr_run_id q = pr_run_id r \<longrightarrow> pr_created_at q \<le> pr_created_at r))
    \<and> (\<forall>r. latest_of_run (db_tables db) r \<and> in_flight r \<longrightarrow> r \<in> set out)"
proof -
  let ?rows = "newest_first tie (rt_runs (db_tables db))"
  let ?m = "first_per pr_run_id ?rows"
  from assms(1) have t: "db_tables db' = db_tables db" and out: "out = filter in_flight (map_order (map snd ?m))"
    by (auto simp: list_unterminated_runs_def latest_in_flight_rows_def outcomes dest: query_ok)
  have k: "keyed_by pr_run_id ?m" by (rule first_per_keyed)
  have "distinct (map_order (map snd ?m))"
    using keyed_by_distinct [OF k] assms(3) mset_eq_imp_distinct_iff [of "map_order (map snd ?m)" "map snd ?m"]
    by (simp add: any_order_def)
  then have d: "distinct out" and s: "set out = {r \<in> snd ` set ?m. in_flight r}"
    using any_order_set [OF assms(3), of "map snd ?m"] by (simp_all add: out)
  have head: "r \<in> set (rt_runs (db_tables db))
      \<and> (\<forall>q \<in> set (rt_runs (db_tables db)). pr_run_id q = pr_run_id r \<longrightarrow> pr_created_at q \<le> pr_created_at r)"
    if "r \<in> snd ` set ?m" for r
  proof -
    from that k have "map_of ?m (pr_run_id r) = Some r" by (auto simp: keyed_by_def)
    then obtain us vs where split: "?rows = us @ r # vs" and none: "\<forall>q \<in> set us. pr_run_id q \<noteq> pr_run_id r"
      using find_split [of "\<lambda>x. pr_run_id x = pr_run_id r" ?rows r] unfolding map_of_first_per by blast
    have mem: "set ?rows = set (rt_runs (db_tables db))" using assms(2) by simp
    have "sorted (map (\<lambda>r. - pr_created_at r) ?rows)" by (simp add: newest_first_def)
    then have "\<forall>q \<in> set vs. pr_created_at q \<le> pr_created_at r" unfolding split by (simp add: sorted_append)
    with none split mem show ?thesis by (metis Un_iff list.set_intros(1) order_refl set_ConsD set_append)
  qed
  have "r \<in> snd ` set ?m" if l: "latest_of_run (db_tables db) r" for r
  proof -
    have "r \<in> set ?rows" using l assms(2) by (simp add: latest_of_run_def)
    then have "find (\<lambda>x. pr_run_id x = pr_run_id r) ?rows \<noteq> None" by (auto simp: find_None_iff)
    then have "map_of ?m (pr_run_id r) \<noteq> None" by (simp add: map_of_first_per)
    then obtain q where q: "(pr_run_id r, q) \<in> set ?m" using map_of_SomeD by fast
    with k have "pr_run_id q = pr_run_id r" by (auto simp: keyed_by_def)
    with head [of q] q l have "q = r" unfolding latest_of_run_def by (metis imageI linorder_not_less snd_conv)
    with q show ?thesis by force
  qed
  with t d s head show ?thesis by auto
qed

section \<open>A well-kept trail\<close>

text \<open>
  Row ids are unique, the rows of a run have different times, and what is inserted next gets a
  fresh id and a later time than every row there is.
\<close>

definition trail_ok :: "run_tables \<Rightarrow> bool" where
  "trail_ok t \<longleftrightarrow> runs_keyed t
     \<and> (\<forall>q \<in> set (rt_runs t). \<forall>r \<in> set (rt_runs t). pr_run_id q = pr_run_id r \<and> pr_created_at q = pr_created_at r \<longrightarrow> q = r)
     \<and> (\<forall>k \<ge> rt_tick t. \<forall>r \<in> set (rt_runs t). rt_ids t k \<noteq> pr_id r \<and> pr_created_at r < rt_now t k)
     \<and> inj (rt_ids t) \<and> strict_mono (rt_now t)"

text \<open>The row an insertion adds.\<close>

definition next_row :: "pipeline_run_entry \<Rightarrow> run_tables \<Rightarrow> pipeline_run" where
  "next_row en t =
     \<lparr>pr_id = rt_ids t (rt_tick t), pr_created_at = rt_now t (rt_tick t), pr_status = pe_status en,
      pr_run_id = pe_run_id en, pr_name = pe_name en, pr_pipeline_id = pe_pipeline_id en,
      pr_dataset_id = pe_dataset_id en, pr_run_info = map_option sanitize_json (pe_run_info en),
      pr_user_id = pe_user_id en\<rparr>"

definition with_row :: "pipeline_run_entry \<Rightarrow> run_tables \<Rightarrow> run_tables" where
  "with_row en t = t\<lparr>rt_runs := rt_runs t @ [next_row en t], rt_tick := rt_tick t + 1\<rparr>"

lemma with_row_simps [simp]:
  "rt_runs (with_row en t) = rt_runs t @ [next_row en t]" "rt_tick (with_row en t) = rt_tick t + 1"
  "rt_ids (with_row en t) = rt_ids t" "rt_now (with_row en t) = rt_now t" "rt_datasets (with_row en t) = rt_datasets t"
  by (simp_all add: with_row_def)

lemma next_row_simps [simp]:
  "pr_id (next_row en t) = rt_ids t (rt_tick t)" "pr_created_at (next_row en t) = rt_now t (rt_tick t)"
  "pr_status (next_row en t) = pe_status en" "pr_run_id (next_row en t) = pe_run_id en"
  "pr_name (next_row en t) = pe_name en" "pr_dataset_id (next_row en t) = pe_dataset_id en"
  "pr_run_info (next_row en t) = map_option sanitize_json (pe_run_info en)"
  by (simp_all add: next_row_def)

lemma log_entry_ok:
  "log_pipeline_run_entry en db = (Inr i, db') \<Longrightarrow> db_tables db' = with_row en (db_tables db)"
  unfolding log_pipeline_run_entry_def
  by (drule statement_ok, drule arg_cong [of _ _ snd]) (simp add: insert_run_def next_row_def with_row_def Let_def)

lemma log_entry_err: "log_pipeline_run_entry en db = (Inl e, db') \<Longrightarrow> db_tables db' = db_tables db"
  unfolding log_pipeline_run_entry_def by (rule statement_err)

lemma trail_with_row:
  assumes "trail_ok t"
  shows "trail_ok (with_row en t) \<and> latest_of_run (with_row en t) (next_row en t)"
proof -
  have later: "\<forall>r \<in> set (rt_runs t). rt_ids t (rt_tick t) \<noteq> pr_id r \<and> pr_created_at r < rt_now t (rt_tick t)"
    using assms by (simp add: trail_ok_def)
  then have ne: "\<forall>r \<in> set (rt_runs t). rt_now t (rt_tick t) \<noteq> pr_created_at r" by force
  have fresh: "rt_ids t k \<noteq> rt_ids t (rt_tick t) \<and> rt_now t (rt_tick t) < rt_now t k" if "Suc (rt_tick t) \<le> k" for k
    using assms that by (simp add: trail_ok_def inj_eq strict_mono_less)
  have "runs_keyed (with_row en t)"
    using assms later by (force simp: trail_ok_def runs_keyed_def)
  then show ?thesis
    using assms later fresh ne unfolding trail_ok_def latest_of_run_def by auto
qed

lemma trail_latest:
  assumes "trail_ok t" and "r \<in> set (rt_runs t)"
    and "\<forall>q \<in> set (rt_runs t). pr_run_id q = pr_run_id r \<longrightarrow> pr_created_at q \<le> pr_created_at r"
  shows "latest_of_run t r"
  using assms unfolding trail_ok_def latest_of_run_def by (metis order_le_less)

text \<open>An insertion for one run leaves the latest row of every other.\<close>

lemma latest_other_run:
  "pr_run_id r \<noteq> pe_run_id en \<Longrightarrow> latest_of_run (with_row en t) r \<longleftrightarrow> latest_of_run t r"
  unfolding latest_of_run_def by (auto simp: ball_Un)

lemma latest_this_run:
  assumes "trail_ok t" and "latest_of_run (with_row en t) r" and "pr_run_id r = pe_run_id en"
  shows "r = next_row en t"
  using latest_of_run_unique [OF trail_with_row [OF assms(1), THEN conjunct2] assms(2)] assms(3) by simp

lemma closing_entry_simps [simp]:
  "pe_run_id (closing_entry r reason) = pr_run_id r" "pe_status (closing_entry r reason) = Errored"
  "pe_run_info (closing_entry r reason) = Some (run_info_for_errored reason)"
  by (simp_all add: closing_entry_def)

lemma keyed_row: "runs_keyed t \<Longrightarrow> q \<in> set (rt_runs t) \<Longrightarrow> r \<in> set (rt_runs t) \<Longrightarrow> pr_id q = pr_id r \<Longrightarrow> q = r"
  by (auto simp: runs_keyed_def distinct_map dest: inj_onD)

lemma select_by_id:
  assumes "runs_keyed t"
  shows "first (runs_where [c_eq (not_null pr_id) i] t) = find (\<lambda>r. pr_id r = i) (rt_runs t)"
proof -
  have "first (filter P xs) = find P xs" for P and xs :: "pipeline_run list" by (induction xs) auto
  moreover have "holds (c_all [c_eq (not_null pr_id) i]) = (\<lambda>r :: pipeline_run. pr_id r = i)" by (rule ext) simp
  ultimately show ?thesis by (simp add: runs_where_def select_where_def)
qed

lemma find_by_id:
  assumes "runs_keyed t" and "r \<in> set (rt_runs t)"
  shows "find (\<lambda>x. pr_id x = pr_id r) (rt_runs t) = Some r"
proof (cases "find (\<lambda>x. pr_id x = pr_id r) (rt_runs t)")
  case None
  with assms(2) show ?thesis by (auto simp: find_None_iff)
next
  case (Some q)
  then have "q \<in> set (rt_runs t)" "pr_id q = pr_id r" by (auto dest: find_split)
  with keyed_row [OF assms(1) _ assms(2)] Some show ?thesis by simp
qed

lemma reset_ok:
  assumes "trail_ok (db_tables db)" and "any_order tie" and "r \<in> set (rt_runs (db_tables db))"
    and "reset_orphan_run tie d n (pr_id r) reason db = (Inr closed, db')"
  shows "(closed \<longleftrightarrow> pr_dataset_id r = Some d \<and> pr_name r = n \<and> latest_of_run (db_tables db) r \<and> in_flight r)
    \<and> db_tables db' = (if closed then with_row (closing_entry r reason) (db_tables db) else db_tables db)"
proof -
  let ?t = "db_tables db"
  have keyed: "runs_keyed ?t" using assms(1) by (simp add: trail_ok_def)
  from assms(4) obtain f db1 where q: "query (\<lambda>t. first (runs_where [c_eq (not_null pr_id) (pr_id r)] t)) db = (Inr f, db1)"
    and rest: "(case f of None \<Rightarrow> ok False | Some observed \<Rightarrow>
        (if pr_dataset_id observed \<noteq> Some d \<or> pr_name observed \<noteq> n then ok False
         else and_then (get_pipeline_run tie (pr_run_id observed))
           (\<lambda>latest. case latest of None \<Rightarrow> ok False | Some latest \<Rightarrow>
              (if pr_id latest \<noteq> pr_id r then ok False else if \<not> in_flight latest then ok False
               else and_then (log_pipeline_run_entry (closing_entry latest reason)) (\<lambda>_. ok True))))) db1 = (Inr closed, db')"
    unfolding reset_orphan_run_def and_then_Inr by blast
  have t1: "db_tables db1 = ?t" and f: "f = Some r"
    using query_ok [OF q] find_by_id [OF keyed assms(3)] by (simp_all add: select_by_id [OF keyed])
  show ?thesis
  proof (cases "pr_dataset_id r \<noteq> Some d \<or> pr_name r \<noteq> n")
    case True
    with rest t1 f show ?thesis by (auto simp: ok_outcome)
  next
    case False
    with rest f obtain l db2 where g: "get_pipeline_run tie (pr_run_id r) db1 = (Inr l, db2)"
      and k: "(case l of None \<Rightarrow> ok False | Some latest \<Rightarrow>
              (if pr_id latest \<noteq> pr_id r then ok False else if \<not> in_flight latest then ok False
               else and_then (log_pipeline_run_entry (closing_entry latest reason)) (\<lambda>_. ok True))) db2 = (Inr closed, db')"
      by (auto simp: and_then_Inr)
    note l = get_pipeline_run_ok [OF g assms(2), unfolded t1]
    obtain q where q: "l = Some q" using l assms(3) by (cases l) auto
    with l have qt: "q \<in> set (rt_runs ?t)" "pr_run_id q = pr_run_id r" "db_tables db2 = ?t"
      and newest: "\<forall>x \<in> set (rt_runs ?t). pr_run_id x = pr_run_id r \<longrightarrow> pr_created_at x \<le> pr_created_at q" by auto
    have latest: "latest_of_run ?t q" using trail_latest [OF assms(1) qt(1)] newest qt(2) by simp
    show ?thesis
    proof (cases "q = r")
      case True
      with k q False latest qt(3) show ?thesis
        by (auto simp: ok_outcome and_then_Inr split: if_splits dest: log_entry_ok)
    next
      case other: False
      then have "pr_id q \<noteq> pr_id r" using keyed_row [OF keyed qt(1) assms(3)] by blast
      moreover have "\<not> latest_of_run ?t r" using latest_of_run_unique [OF latest] qt(2) other by metis
      ultimately show ?thesis using k q qt(3) by (simp add: ok_outcome)
    qed
  qed
qed

lemma reset_err:
  assumes "reset_orphan_run tie d n i reason db = (Inl e, db')"
  shows "db_tables db' = db_tables db"
proof -
  let ?k = "\<lambda>latest. case latest of None \<Rightarrow> ok False | Some latest \<Rightarrow>
      (if pr_id latest \<noteq> i then ok False else if \<not> in_flight latest then ok False
       else and_then (log_pipeline_run_entry (closing_entry latest reason)) (\<lambda>_. ok True))"
  from assms consider "query (\<lambda>t. first (runs_where [c_eq (not_null pr_id) i] t)) db = (Inl e, db')"
    | f db1 where "query (\<lambda>t. first (runs_where [c_eq (not_null pr_id) i] t)) db = (Inr f, db1)"
      and "(case f of None \<Rightarrow> ok False | Some observed \<Rightarrow>
          (if pr_dataset_id observed \<noteq> Some d \<or> pr_name observed \<noteq> n then ok False
           else and_then (get_pipeline_run tie (pr_run_id observed)) ?k)) db1 = (Inl e, db')"
    unfolding reset_orphan_run_def and_then_Inl by blast
  then show ?thesis
  proof cases
    case 2
    from 2(2) obtain x where "and_then (get_pipeline_run tie x) ?k db1 = (Inl e, db')"
      by (auto simp: ok_outcome split: option.splits if_splits)
    then consider "get_pipeline_run tie x db1 = (Inl e, db')"
      | l db2 where "get_pipeline_run tie x db1 = (Inr l, db2)" and "?k l db2 = (Inl e, db')"
      unfolding and_then_Inl by blast
    then have "db_tables db' = db_tables db1"
    proof cases
      case (2 l db2)
      from 2(2) have "db_tables db' = db_tables db2"
        by (auto simp: ok_outcome and_then_Inl split: option.splits if_splits dest: log_entry_err)
      with 2(1) show ?thesis by (simp add: get_pipeline_run_def query_ok)
    qed (simp add: get_pipeline_run_def query_err)
    with 2(1) show ?thesis by (simp add: query_ok)
  qed (rule query_err)
qed

section \<open>Properties\<close>

lemma first_stamp_append:
  "first_stamp key (xs @ ys) = (case first_stamp key xs of Some s \<Rightarrow> Some s | None \<Rightarrow> first_stamp key ys)"
  by (induction xs) (auto split: option.split)

lemma query_fault: "query f db = (Inl e, db') \<Longrightarrow> Some e \<in> set (db_faults db) \<and> set (db_faults db') \<subseteq> set (db_faults db)"
  by (auto simp: query_def statement_def split: list.splits option.splits)

lemma query_faults_left: "query f db = (Inr x, db') \<Longrightarrow> set (db_faults db') \<subseteq> set (db_faults db)"
  by (auto simp: query_def statement_def dest: list.set_sel(2) split: list.splits option.splits)

lemma stamped_pages_result:
  "case stamped_pages d n key offset db of
     (Inl e, db') \<Rightarrow> Some e \<in> set (db_faults db) \<and> db_tables db' = db_tables db
   | (Inr s, db') \<Rightarrow> s = first_stamp key (drop offset (completed_runs d n (db_tables db))) \<and> db_tables db' = db_tables db"
proof (induction d n key offset db rule: stamped_pages.induct)
  case (1 d n key offset db)
  let ?all = "drop offset (completed_runs d n (db_tables db))"
  obtain r db1 where q: "query (\<lambda>t. take stamped_page (drop offset (completed_runs d n t))) db = (r, db1)" by fastforce
  show ?case
  proof (cases r)
    case (Inl e)
    with q query_fault [OF q [unfolded Inl]] query_err [OF q [unfolded Inl]] show ?thesis
      by (subst stamped_pages.simps) simp
  next
    case (Inr rows)
    note ok = query_ok [OF q [unfolded Inr]] and left = query_faults_left [OF q [unfolded Inr]]
    have rows: "rows = take stamped_page ?all" and t: "db_tables db1 = db_tables db" using ok by simp_all
    have "?all = rows @ drop (offset + stamped_page) (completed_runs d n (db_tables db))"
      by (simp add: rows add.commute flip: drop_drop)
    then have split: "first_stamp key ?all = (case first_stamp key rows of Some s \<Rightarrow> Some s
        | None \<Rightarrow> first_stamp key (drop (offset + stamped_page) (completed_runs d n (db_tables db))))"
      by (simp only: first_stamp_append)
    show ?thesis
    proof (cases "first_stamp key rows")
      case (Some s)
      with q Inr split t show ?thesis by (subst stamped_pages.simps) simp
    next
      case none: None
      show ?thesis
      proof (cases "length rows < stamped_page")
        case True
        then have "drop (offset + stamped_page) (completed_runs d n (db_tables db)) = []" by (simp add: rows)
        with q Inr split t none True show ?thesis by (subst stamped_pages.simps) simp
      next
        case False
        from "1.IH" [OF q [symmetric] Inr none False] have "case stamped_pages d n key (offset + stamped_page) db1 of
            (Inl e, db') \<Rightarrow> Some e \<in> set (db_faults db1) \<and> db_tables db' = db_tables db1
          | (Inr s, db') \<Rightarrow> s = first_stamp key (drop (offset + stamped_page) (completed_runs d n (db_tables db1)))
              \<and> db_tables db' = db_tables db1" .
        with q Inr none False split t left show ?thesis
          by (subst stamped_pages.simps) (auto split: prod.splits sum.splits)
      qed
    qed
  qed
qed

text \<open>
  C34: the paging search for a stamp always returns, and pages are invisible: unless a statement
  fails, the answer is the first stamped row of one newest-first scan of all completed runs of
  the dataset and pipeline, \<open>None\<close> when no row is stamped; nothing is written.
\<close>

theorem latest_stamped_run_returns:
  "case latest_stamped_run d n key db of
     (Inl e, db') \<Rightarrow> Some e \<in> set (db_faults db) \<and> db_tables db' = db_tables db
   | (Inr s, db') \<Rightarrow> s = first_stamp key (completed_runs d n (db_tables db)) \<and> db_tables db' = db_tables db"
  unfolding latest_stamped_run_def using stamped_pages_result [where offset = 0 and d = d and n = n and key = key and db = db] by (simp only: drop_0)

text \<open>
  C15: the bind limit is invisible: whether the visibility lists fit one statement or are split
  into chunks whose newest rows are merged, a page of the runs listing is that page of all joined
  rows that pass the filters, newest first, as long as the window is one the chunked path serves.
\<close>

theorem list_runs_bind_limit_invisible:
  assumes "db_faults db = []" and "runs_keyed (db_tables db)" and "0 < bind_limit"
    and "lq_offset q + lq_limit q \<le> list_runs_chunked_window"
  shows "list_runs bind_limit q db = (Inr (listing q (db_tables db)), db)"
proof (cases "lq_visibility q")
  case None
  then show ?thesis
    using listing_visible_runs [of "\<lambda>_. True" q "db_tables db"]
    by (simp add: list_runs_def fetch_runs_ok [OF assms(1)])
next
  case (Some v)
  have vis: "listing q (db_tables db) = listed q v (db_tables db)"
    using listing_visible_runs [of "run_visible v" q "db_tables db"] Some by (simp add: listed_def)
  have "saturating_add64 (lq_offset q) (lq_limit q) = lq_offset q + lq_limit q"
    using assms(4) by (simp add: saturating_add64_def list_runs_chunked_window_def)
  moreover obtain m where "merge_chunks (lq_dataset_id q) (lq_name q) (lq_offset q + lq_limit q)
        (chunk_conditions bind_limit v) [] db = (Inr m, db)"
    and "take (lq_limit q) (drop (lq_offset q) (sort_key attributed_key (map snd (sort_key fst m)))) = listed q v (db_tables db)"
    using list_runs_chunked [OF assms(1-3) order_refl] by blast
  moreover have "visibility_is_empty v \<Longrightarrow> listed q v (db_tables db) = []"
    by (simp add: listed_def visible_runs_def no_one_visible)
  ultimately show ?thesis
    unfolding vis list_runs_def Some
    using assms(4) by (simp add: ok_def and_then_def fetch_runs_ok [OF assms(1)] listed_def Let_def
        holds_visibility del: holds_any)
qed

definition sample_run :: "uuid \<Rightarrow> int \<Rightarrow> run_status \<Rightarrow> uuid \<Rightarrow> uuid option \<Rightarrow> uuid option \<Rightarrow> json option \<Rightarrow> pipeline_run" where
  "sample_run i time status run dataset user info =
     \<lparr>pr_id = i, pr_created_at = time, pr_status = status, pr_run_id = run, pr_name = lit ''cognify_pipeline'',
      pr_pipeline_id = 1, pr_dataset_id = dataset, pr_run_info = info, pr_user_id = user\<rparr>"

definition sample_runs :: "pipeline_run list \<Rightarrow> run_tables database" where
  "sample_runs rows = \<lparr>db_tables = \<lparr>rt_runs = rows, rt_datasets = [], rt_payload = [], rt_tick = 0,
     rt_ids = (\<lambda>k. 100 + k), rt_now = (\<lambda>k. 1000 + int k)\<rparr>, db_faults = []\<rparr>"

definition sample_listing :: "list_query" where
  "sample_listing = \<lparr>lq_dataset_id = None, lq_name = None,
     lq_visibility = Some \<lparr>vi_user_ids = [2, 3], vi_dataset_ids = [9]\<rparr>, lq_limit = 1, lq_offset = 1\<rparr>"

theorem list_runs_bind_limit_invisible_witness:
  "list_runs 1 sample_listing (sample_runs [sample_run 11 5 Started 7 (Some 9) None None, sample_run 12 6 Completed 7 None (Some 3) None])
   = list_runs 30000 sample_listing (sample_runs [sample_run 11 5 Started 7 (Some 9) None None, sample_run 12 6 Completed 7 None (Some 3) None])"
proof -
  let ?db = "sample_runs [sample_run 11 5 Started 7 (Some 9) None None, sample_run 12 6 Completed 7 None (Some 3) None]"
  have "db_faults ?db = []" "runs_keyed (db_tables ?db)"
    by (simp_all add: sample_runs_def sample_run_def runs_keyed_def)
  moreover have "lq_offset sample_listing + lq_limit sample_listing \<le> list_runs_chunked_window"
    by (simp add: sample_listing_def list_runs_chunked_window_def)
  ultimately show ?thesis
    using list_runs_bind_limit_invisible [of ?db "1 :: nat" sample_listing]
      list_runs_bind_limit_invisible [of ?db "30000 :: nat" sample_listing] by simp
qed

end
