(* ===== verification/Lifecycle.thy ===== *)
theory Lifecycle
  imports Runs
begin

text \<open>
  The life of one pipeline run: the executor of \<open>crates/core/src/pipeline.rs\<close> with the watchers
  that persist its status rows (\<open>pipeline_run_registry/db_watcher.rs\<close> and the run-id capturing
  wrapper of \<open>crates/cognify/src/rollback.rs\<close>), and the ownership marker the run holds meanwhile
  (\<open>crates/core/src/run_ownership.rs\<close>).

  What the tasks do is a parameter: \<open>items run_id\<close> is what the executor's item loop returns.
  Telemetry and the no-op watcher hooks are not modelled.
\<close>

section \<open>Ownership markers\<close>

text \<open>
  The marker directory tree: which tokens have a directory, which have a lock file, which lock is
  held by a living process. \<open>mf_denied\<close> are the tokens whose lock file cannot be opened or
  created, \<open>mf_stuck\<close> those that cannot be removed.
\<close>

record marker_fs =
  mf_dirs :: "uuid set"
  mf_files :: "uuid set"
  mf_locked :: "uuid set"
  mf_denied :: "uuid set"
  mf_stuck :: "uuid set"

record ownership =
  ow_token :: "uuid option"
  ow_closed :: bool

definition remove_marker :: "uuid \<Rightarrow> marker_fs \<Rightarrow> marker_fs" where
  "remove_marker token fs =
     (if token \<in> mf_stuck fs then fs
      else fs\<lparr>mf_files := mf_files fs - {token}, mf_dirs := mf_dirs fs - {token}\<rparr>)"

text \<open>\<open>token\<close> is the fresh id of the new marker.\<close>

definition acquire :: "uuid \<Rightarrow> marker_fs \<Rightarrow> ownership \<times> marker_fs" where
  "acquire token fs =
     (if token \<in> mf_denied fs \<or> token \<in> mf_locked fs
      then (\<lparr>ow_token = None, ow_closed = False\<rparr>, remove_marker token fs)
      else (\<lparr>ow_token = Some token, ow_closed = False\<rparr>,
            fs\<lparr>mf_dirs := insert token (mf_dirs fs), mf_files := insert token (mf_files fs),
               mf_locked := insert token (mf_locked fs)\<rparr>))"

definition claim :: "uuid \<Rightarrow> marker_fs \<Rightarrow> (ownership \<times> marker_fs) option" where
  "claim token fs =
     (if token \<notin> mf_dirs fs then None
      else if token \<notin> mf_files fs \<or> token \<in> mf_denied fs then None
      else if token \<in> mf_locked fs then None
      else Some (\<lparr>ow_token = Some token, ow_closed = False\<rparr>, fs\<lparr>mf_locked := insert token (mf_locked fs)\<rparr>))"

definition mark_closed :: "ownership \<Rightarrow> ownership" where
  "mark_closed o1 = o1\<lparr>ow_closed := True\<rparr>"

text \<open>\<open>Drop\<close>: the lock is released first, then a closed marker is removed.\<close>

definition drop_ownership :: "ownership \<Rightarrow> marker_fs \<Rightarrow> marker_fs" where
  "drop_ownership o1 fs =
     (case ow_token o1 of
        None \<Rightarrow> fs
      | Some token \<Rightarrow>
          (let fs1 = fs\<lparr>mf_locked := mf_locked fs - {token}\<rparr> in
           if ow_closed o1 then remove_marker token fs1 else fs1))"

section \<open>The watchers\<close>

datatype core_status = CoreStarted | CoreCompleted | CoreErrored

fun core_to_db_status :: "core_status \<Rightarrow> run_status" where
  "core_to_db_status CoreStarted = Started"
| "core_to_db_status CoreCompleted = Completed"
| "core_to_db_status CoreErrored = Errored"

record pipeline_run_info =
  ri_run_id :: uuid
  ri_pipeline_id :: uuid
  ri_name :: str
  ri_user_id :: "uuid option"
  ri_dataset_id :: "uuid option"
  ri_status :: core_status
  ri_recovery_lock :: "uuid option"

record watcher =
  wa_runs :: "run_tables database"
  wa_terminal_write_failed :: bool
  wa_captured :: "(uuid \<times> uuid) option"

text \<open>What is rendered: an id, a database error; the name-based UUID.\<close>

record run_env =
  re_uuid_str :: "uuid \<Rightarrow> str"
  re_parse_uuid :: "str \<Rightarrow> uuid option"
  re_show_db :: "db_error \<Rightarrow> str"
  re_u5 :: "str \<Rightarrow> uuid"

definition status_entry :: "pipeline_run_info \<Rightarrow> run_status \<Rightarrow> json \<Rightarrow> pipeline_run_entry" where
  "status_entry run status info =
     \<lparr>pe_run_id = ri_run_id run, pe_pipeline_id = ri_pipeline_id run, pe_name = ri_name run,
      pe_dataset_id = ri_dataset_id run, pe_status = status, pe_run_info = Some info,
      pe_user_id = ri_user_id run\<rparr>"

definition on_run_started :: "run_env \<Rightarrow> pipeline_run_info \<Rightarrow> watcher \<Rightarrow> watcher" where
  "on_run_started R run w =
     w\<lparr>wa_runs := snd (log_pipeline_run_entry
         (status_entry run (core_to_db_status (ri_status run))
            (run_info_for_started (re_uuid_str R) (ri_recovery_lock run))) (wa_runs w))\<rparr>"

text \<open>The wrapper remembers the run and pipeline id and forwards; the other hooks only forward.\<close>

definition capturing_run_started :: "run_env \<Rightarrow> pipeline_run_info \<Rightarrow> watcher \<Rightarrow> watcher" where
  "capturing_run_started R run w =
     on_run_started R run (w\<lparr>wa_captured := Some (ri_run_id run, ri_pipeline_id run)\<rparr>)"

definition captured_run_id :: "watcher \<Rightarrow> uuid option" where
  "captured_run_id w = map_option fst (wa_captured w)"

definition captured_pipeline_id :: "watcher \<Rightarrow> uuid option" where
  "captured_pipeline_id w = map_option snd (wa_captured w)"

definition on_run_completed :: "run_env \<Rightarrow> pipeline_run_info \<Rightarrow> watcher \<Rightarrow> (str + unit) \<times> watcher" where
  "on_run_completed R run w =
     (case log_pipeline_run_entry (status_entry run Completed run_info_for_completed) (wa_runs w) of
        (Inl e, db) \<Rightarrow> (Inl (re_show_db R e), w\<lparr>wa_runs := db, wa_terminal_write_failed := True\<rparr>)
      | (Inr _, db) \<Rightarrow> (Inr (), w\<lparr>wa_runs := db\<rparr>))"

definition on_run_errored :: "pipeline_run_info \<Rightarrow> str \<Rightarrow> watcher \<Rightarrow> watcher" where
  "on_run_errored run error w =
     (case log_pipeline_run_entry (status_entry run Errored (run_info_for_errored error)) (wa_runs w) of
        (Inl e, db) \<Rightarrow> w\<lparr>wa_runs := db, wa_terminal_write_failed := True\<rparr>
      | (Inr _, db) \<Rightarrow> w\<lparr>wa_runs := db, wa_terminal_write_failed := False\<rparr>)"

definition new_watcher :: "run_tables database \<Rightarrow> watcher" where
  "new_watcher db = \<lparr>wa_runs = db, wa_terminal_write_failed = False, wa_captured = None\<rparr>"

section \<open>The executor\<close>

text \<open>\<open>TaskFailed\<close> carries the task index, the attempts and the rendered source.\<close>

datatype execution_error =
    TaskFailed nat nat str | Cancelled | NoTasks | InvalidConfig str | RunRecordFailed str

fun show_execution_error :: "execution_error \<Rightarrow> str" where
  "show_execution_error (TaskFailed i n src) =
     lit ''task '' @ decimal i @ lit '' failed after '' @ decimal n @ lit '' attempt(s): '' @ src"
| "show_execution_error Cancelled = lit ''pipeline was cancelled''"
| "show_execution_error NoTasks = lit ''pipeline has no tasks''"
| "show_execution_error (InvalidConfig reason) = lit ''invalid pipeline configuration: '' @ reason"
| "show_execution_error (RunRecordFailed reason) =
     lit ''the run's COMPLETED record could not be written: '' @ reason"

text \<open>A task is its progress weight here.\<close>

record pipeline =
  pl_id :: uuid
  pl_name :: "str option"
  pl_weights :: "nat list"
  pl_batch_size :: nat
  pl_concurrency :: nat
  pl_recovery_lock :: "uuid option"

record pipeline_context =
  pc_user_id :: "uuid option"
  pc_dataset_id :: "uuid option"

definition deterministic_pipeline_id ::
  "run_env \<Rightarrow> str option \<Rightarrow> uuid option \<Rightarrow> uuid option \<Rightarrow> uuid option" where
  "deterministic_pipeline_id R name user_id dataset_id =
     (case name of
        None \<Rightarrow> None
      | Some n \<Rightarrow> if n = [] then None
          else Some (re_u5 R ((case user_id of Some u \<Rightarrow> re_uuid_str R u | None \<Rightarrow> []) @ n
                       @ (case dataset_id of Some d \<Rightarrow> re_uuid_str R d | None \<Rightarrow> []))))"

text \<open>\<open>ProgressToken::split\<close>: the widths do not matter here, the errors do.\<close>

definition position_zero :: "nat list \<Rightarrow> nat option" where
  "position_zero ws = (if 0 \<in> set ws then Some (length (takeWhile (\<lambda>w. w \<noteq> 0) ws)) else None)"

definition split_progress :: "nat list \<Rightarrow> str + nat list" where
  "split_progress weights =
     (if weights = [] then Inl (lit ''invalid progress split: weights must not be empty'')
      else case position_zero weights of
        Some i \<Rightarrow> Inl (lit ''invalid progress split: weight at index '' @ decimal i @ lit '' must be positive'')
      | None \<Rightarrow> Inr weights)"

definition opt_default :: "'a option \<Rightarrow> 'a \<Rightarrow> 'a" where
  "opt_default x d = (case x of Some y \<Rightarrow> y | None \<Rightarrow> d)"

definition run_of_pipeline :: "run_env \<Rightarrow> pipeline \<Rightarrow> pipeline_context \<Rightarrow> uuid \<Rightarrow> pipeline_run_info" where
  "run_of_pipeline R p ctx run_id =
     \<lparr>ri_run_id = run_id,
      ri_pipeline_id = opt_default (deterministic_pipeline_id R (pl_name p) (pc_user_id ctx) (pc_dataset_id ctx)) (pl_id p),
      ri_name = opt_default (pl_name p) [], ri_user_id = pc_user_id ctx, ri_dataset_id = pc_dataset_id ctx,
      ri_status = CoreStarted, ri_recovery_lock = pl_recovery_lock p\<rparr>"

text \<open>The terminal row; a failed \<open>Completed\<close> write makes the run a failed one.\<close>

definition close_run ::
  "run_env \<Rightarrow> pipeline_run_info \<Rightarrow> execution_error + 'o list \<Rightarrow> watcher
   \<Rightarrow> (execution_error + 'o list) \<times> watcher" where
  "close_run R run items_result w =
     (let (result, w1) =
        (case items_result of
           Inl e \<Rightarrow> (Inl e, w)
         | Inr outputs \<Rightarrow>
             (case on_run_completed R (run\<lparr>ri_status := CoreCompleted\<rparr>) w of
                (Inr _, w') \<Rightarrow> (Inr outputs, w')
              | (Inl e, w') \<Rightarrow> (Inl (RunRecordFailed e), w'))) in
      case result of
        Inr outputs \<Rightarrow> (Inr outputs, w1)
      | Inl Cancelled \<Rightarrow> (Inl Cancelled,
          on_run_errored (run\<lparr>ri_status := CoreErrored\<rparr>) (lit ''pipeline was cancelled'') w1)
      | Inl e \<Rightarrow> (Inl e, on_run_errored (run\<lparr>ri_status := CoreErrored\<rparr>) (show_execution_error e) w1))"

definition execute_unscoped ::
  "run_env \<Rightarrow> (uuid \<Rightarrow> execution_error + 'o list) \<Rightarrow> pipeline \<Rightarrow> pipeline_context
   \<Rightarrow> uuid \<Rightarrow> watcher \<Rightarrow> (execution_error + 'o list) \<times> watcher" where
  "execute_unscoped R items p ctx run_id w =
     (if pl_weights p = [] then (Inl NoTasks, w)
      else if pl_batch_size p = 0 then (Inl (InvalidConfig (lit ''batch_size must be > 0'')), w)
      else if pl_concurrency p = 0 then (Inl (InvalidConfig (lit ''concurrency must be > 0'')), w)
      else
        (let run = run_of_pipeline R p ctx run_id;
             w1 = capturing_run_started R run w in
         case split_progress (pl_weights p) of
           Inl reason \<Rightarrow> (Inl (InvalidConfig reason), w1)
         | Inr _ \<Rightarrow> close_run R run (items run_id) w1))"

section \<open>A run under its marker\<close>

text \<open>
  As \<open>cognify()\<close> and the ingestion pipeline do it: take a marker when a directory is configured
  (\<open>token\<close> is then its fresh id), run, and mark the marker closed unless the terminal row failed
  to write. The marker is dropped when the caller returns.
\<close>

definition owned_run ::
  "run_env \<Rightarrow> (uuid \<Rightarrow> execution_error + 'o list) \<Rightarrow> pipeline \<Rightarrow> pipeline_context
   \<Rightarrow> uuid \<Rightarrow> uuid option \<Rightarrow> watcher \<times> marker_fs
   \<Rightarrow> (execution_error + 'o list) \<times> ownership option \<times> watcher \<times> marker_fs" where
  "owned_run R items p ctx run_id token st =
     (let (w, fs) = st;
          (owned, fs1) = (case token of
             None \<Rightarrow> (None, fs)
           | Some tk \<Rightarrow> (let (o1, fs') = acquire tk fs in (Some o1, fs')));
          p1 = p\<lparr>pl_recovery_lock := Option.bind owned ow_token\<rparr>;
          (executed, w1) = execute_unscoped R items p1 ctx run_id w;
          owned1 = (if wa_terminal_write_failed w1 then owned else map_option mark_closed owned) in
      (executed, owned1, w1, fs1))"

text \<open>The \<open>Started\<close> / \<open>Completed\<close> pair of a run that found nothing to do.\<close>

definition record_run_without_work ::
  "run_env \<Rightarrow> str \<Rightarrow> uuid option \<Rightarrow> uuid \<Rightarrow> uuid \<Rightarrow> uuid \<Rightarrow> uuid option \<Rightarrow> run_tables database \<times> marker_fs
   \<Rightarrow> (str + uuid) \<times> run_tables database \<times> marker_fs" where
  "record_run_without_work R name user_id dataset_id run_id fresh_pipeline_id token st =
     (let (db, fs) = st;
          (owned, fs1) = (case token of
             None \<Rightarrow> (None, fs)
           | Some tk \<Rightarrow> (let (o1, fs') = acquire tk fs in (Some o1, fs')));
          run = \<lparr>ri_run_id = run_id,
            ri_pipeline_id = opt_default (deterministic_pipeline_id R (Some name) user_id (Some dataset_id)) fresh_pipeline_id,
            ri_name = name, ri_user_id = user_id, ri_dataset_id = Some dataset_id,
            ri_status = CoreStarted, ri_recovery_lock = Option.bind owned ow_token\<rparr>;
          (completed, w) = on_run_completed R (run\<lparr>ri_status := CoreCompleted\<rparr>) (on_run_started R run (new_watcher db));
          (outcome, w1) = (case completed of
             Inr _ \<Rightarrow> (Inr run_id, w)
           | Inl e \<Rightarrow> (Inl (lit ''the run's COMPLETED record could not be written: '' @ e),
                       on_run_errored (run\<lparr>ri_status := CoreErrored\<rparr>) e w));
          owned1 = (if wa_terminal_write_failed w1 then owned else map_option mark_closed owned) in
      (outcome, wa_runs w1, case owned1 of Some o1 \<Rightarrow> drop_ownership o1 fs1 | None \<Rightarrow> fs1))"

section \<open>What the trail says when a run is over\<close>

definition left_in_flight :: "run_tables \<Rightarrow> uuid \<Rightarrow> bool" where
  "left_in_flight t i \<longleftrightarrow> (\<exists>r. latest_of_run t r \<and> pr_run_id r = i \<and> in_flight r)"

abbreviation trail :: "watcher \<Rightarrow> run_tables" where
  "trail w \<equiv> db_tables (wa_runs w)"

lemma status_entry_simps [simp]:
  "pe_run_id (status_entry run s info) = ri_run_id run" "pe_status (status_entry run s info) = s"
  "pe_run_info (status_entry run s info) = Some info"
  by (simp_all add: status_entry_def)

lemma terminal_row_closes:
  assumes "trail_ok t" and "pe_status en = Completed \<or> pe_status en = Errored"
  shows "\<not> left_in_flight (with_row en t) (pe_run_id en)"
proof
  assume "left_in_flight (with_row en t) (pe_run_id en)"
  then obtain r where r: "latest_of_run (with_row en t) r" "pr_run_id r = pe_run_id en" "in_flight r"
    by (auto simp: left_in_flight_def)
  with latest_this_run [OF assms(1) r(1,2)] assms(2) show False by (auto simp: in_flight_def)
qed

lemma errored_outcome:
  assumes "trail_ok (trail w)"
  shows "trail_ok (trail (on_run_errored run e w))
    \<and> (if wa_terminal_write_failed (on_run_errored run e w) then trail (on_run_errored run e w) = trail w
       else \<not> left_in_flight (trail (on_run_errored run e w)) (ri_run_id run))"
proof -
  let ?en = "status_entry run Errored (run_info_for_errored e)"
  obtain r db where l: "log_pipeline_run_entry ?en (wa_runs w) = (r, db)" by fastforce
  show ?thesis
  proof (cases r)
    case (Inl x)
    with l log_entry_err [OF l [unfolded Inl]] assms show ?thesis by (simp add: on_run_errored_def)
  next
    case (Inr i)
    with l log_entry_ok [OF l [unfolded Inr]] assms trail_with_row [OF assms, of ?en]
      terminal_row_closes [OF assms, of ?en] show ?thesis
      by (simp add: on_run_errored_def)
  qed
qed

lemma completed_outcome:
  assumes "on_run_completed R run w = (r, w')" and "trail_ok (trail w)"
  shows "trail_ok (trail w')
    \<and> (case r of Inl e \<Rightarrow> trail w' = trail w
       | Inr _ \<Rightarrow> \<not> left_in_flight (trail w') (ri_run_id run)
           \<and> wa_terminal_write_failed w' = wa_terminal_write_failed w)"
proof -
  let ?en = "status_entry run Completed run_info_for_completed"
  obtain x db where l: "log_pipeline_run_entry ?en (wa_runs w) = (x, db)" by fastforce
  show ?thesis
  proof (cases x)
    case (Inl e)
    with l log_entry_err [OF l [unfolded Inl]] assms show ?thesis by (auto simp: on_run_completed_def)
  next
    case (Inr i)
    with l log_entry_ok [OF l [unfolded Inr]] assms trail_with_row [OF assms(2), of ?en]
      terminal_row_closes [OF assms(2), of ?en] show ?thesis
      by (auto simp: on_run_completed_def)
  qed
qed

lemma close_run_outcome:
  assumes "close_run R run items_result w = (res, w')" and "trail_ok (trail w)" and "\<not> wa_terminal_write_failed w"
  shows "trail_ok (trail w')
    \<and> (if wa_terminal_write_failed w' then trail w' = trail w else \<not> left_in_flight (trail w') (ri_run_id run))"
proof -
  have err: ?thesis if "w' = on_run_errored (run\<lparr>ri_status := CoreErrored\<rparr>) m w1" and "trail w1 = trail w" for m w1
    using errored_outcome [of w1 "run\<lparr>ri_status := CoreErrored\<rparr>" m] that assms(2) by (simp split: if_splits)
  show ?thesis
  proof (cases items_result)
    case (Inl e)
    with assms(1) have "\<exists>m. w' = on_run_errored (run\<lparr>ri_status := CoreErrored\<rparr>) m w"
      by (cases e) (auto simp: close_run_def)
    then show ?thesis by (elim exE) (rule err, assumption, rule refl)
  next
    case (Inr outputs)
    obtain r w1 where c: "on_run_completed R (run\<lparr>ri_status := CoreCompleted\<rparr>) w = (r, w1)" by fastforce
    note o = completed_outcome [OF c assms(2)]
    show ?thesis
    proof (cases r)
      case (Inl e)
      with assms(1) Inr c have "\<exists>m. w' = on_run_errored (run\<lparr>ri_status := CoreErrored\<rparr>) m w1"
        by (auto simp: close_run_def)
      moreover have "trail w1 = trail w" using o Inl by simp
      ultimately show ?thesis by (elim exE) (rule err)
    next
      case (Inr u)
      with assms(1,3) \<open>items_result = Inr outputs\<close> c o show ?thesis by (auto simp: close_run_def)
    qed
  qed
qed

lemma started_outcome:
  assumes "trail_ok (trail w)" and "ri_status run = CoreStarted"
    and "\<forall>r \<in> set (rt_runs (trail w)). pr_run_id r \<noteq> ri_run_id run"
  shows "trail_ok (trail (capturing_run_started R run w))
    \<and> wa_terminal_write_failed (capturing_run_started R run w) = wa_terminal_write_failed w
    \<and> (\<forall>r. latest_of_run (trail (capturing_run_started R run w)) r \<and> pr_run_id r = ri_run_id run \<longrightarrow>
         pr_run_info r = Some (sanitize_json (run_info_for_started (re_uuid_str R) (ri_recovery_lock run))))"
proof -
  let ?en = "status_entry run Started (run_info_for_started (re_uuid_str R) (ri_recovery_lock run))"
  let ?w = "w\<lparr>wa_captured := Some (ri_run_id run, ri_pipeline_id run)\<rparr>"
  obtain x db where l: "log_pipeline_run_entry ?en (wa_runs w) = (x, db)" by fastforce
  have eq: "capturing_run_started R run w = ?w\<lparr>wa_runs := db\<rparr>"
    using l assms(2) by (simp add: capturing_run_started_def on_run_started_def)
  show ?thesis
  proof (cases x)
    case (Inl e)
    with eq log_entry_err [OF l [unfolded Inl]] assms show ?thesis by (auto simp: latest_of_run_def)
  next
    case (Inr i)
    have t: "db_tables db = with_row ?en (trail w)" using log_entry_ok [OF l [unfolded Inr]] .
    have "pr_run_info r = Some (sanitize_json (run_info_for_started (re_uuid_str R) (ri_recovery_lock run)))"
      if "latest_of_run (with_row ?en (trail w)) r" "pr_run_id r = ri_run_id run" for r
      using latest_this_run [OF assms(1) that(1)] that(2) by simp
    with eq t trail_with_row [OF assms(1), of ?en] show ?thesis by simp
  qed
qed

text \<open>A recovery token survives the way into the row and back.\<close>

lemma recovery_lock_roundtrip:
  assumes "parse (us token) = Some token" and "0 \<notin> set (us token)"
  shows "recovery_lock_of parse (Some (sanitize_json (run_info_for_started us (Some token)))) = Some token"
proof -
  have "rebuild_object [(lit ''recovery_lock'', v)] = [(lit ''recovery_lock'', v)]" for v :: json
    by (simp add: rebuild_object_def lit_def)
  with assms show ?thesis
    by (simp add: recovery_lock_of_def run_info_for_started_def sanitize_str_id as_str_def json_get_def)
qed

section \<open>Properties\<close>

lemma execute_outcome:
  assumes "execute_unscoped R items p ctx run_id w = (res, w')" and "trail_ok (trail w)" and "\<not> wa_terminal_write_failed w"
    and "0 \<notin> set (pl_weights p)" and "\<forall>r \<in> set (rt_runs (trail w)). pr_run_id r \<noteq> run_id"
  shows "trail_ok (trail w') \<and> (left_in_flight (trail w') run_id \<longrightarrow> wa_terminal_write_failed w')
    \<and> (\<forall>r. latest_of_run (trail w') r \<and> pr_run_id r = run_id \<and> wa_terminal_write_failed w' \<longrightarrow>
         pr_run_info r = Some (sanitize_json (run_info_for_started (re_uuid_str R) (pl_recovery_lock p))))"
proof -
  let ?run = "run_of_pipeline R p ctx run_id"
  have run: "ri_run_id ?run = run_id" "ri_status ?run = CoreStarted" "ri_recovery_lock ?run = pl_recovery_lock p"
    by (simp_all add: run_of_pipeline_def)
  consider "w' = w" | "close_run R ?run (items run_id) (capturing_run_started R ?run w) = (res, w')"
    using assms(1,4) by (auto simp: execute_unscoped_def split_progress_def position_zero_def Let_def split: if_splits)
  then show ?thesis
  proof cases
    case 1
    with assms show ?thesis by (auto simp: left_in_flight_def latest_of_run_def)
  next
    case 2
    note s = started_outcome [OF assms(2) run(2), unfolded run(1,3), OF assms(5), of R]
    show ?thesis using close_run_outcome [OF 2] s assms(3) run(1) by (auto split: if_splits)
  qed
qed


definition sample_run_env :: run_env where
  "sample_run_env = \<lparr>re_uuid_str = (\<lambda>i. [i + 1]), re_parse_uuid = (\<lambda>s. case s of [c] \<Rightarrow> Some (c - 1) | _ \<Rightarrow> None),
     re_show_db = (\<lambda>_. []), re_u5 = sum_list\<rparr>"

definition sample_watcher :: "db_error option list \<Rightarrow> watcher" where
  "sample_watcher faults = new_watcher ((sample_runs [])\<lparr>db_faults := faults\<rparr>)"

definition sample_pipeline :: "nat list \<Rightarrow> pipeline" where
  "sample_pipeline weights = \<lparr>pl_id = 1, pl_name = Some (lit ''cognify_pipeline''), pl_weights = weights,
     pl_batch_size = 1, pl_concurrency = 1, pl_recovery_lock = None\<rparr>"

definition no_markers :: marker_fs where
  "no_markers = \<lparr>mf_dirs = {}, mf_files = {}, mf_locked = {}, mf_denied = {}, mf_stuck = {}\<rparr>"

definition sample_context :: pipeline_context where
  "sample_context = \<lparr>pc_user_id = None, pc_dataset_id = Some 9\<rparr>"

lemma sample_trail_ok [simp]: "trail_ok (trail (sample_watcher faults))"
  by (simp add: sample_watcher_def new_watcher_def sample_runs_def trail_ok_def runs_keyed_def inj_def strict_mono_def)

lemmas run_eval = owned_run_def execute_unscoped_def split_progress_def position_zero_def run_of_pipeline_def
  capturing_run_started_def on_run_started_def close_run_def on_run_completed_def on_run_errored_def
  log_pipeline_run_entry_def statement_def insert_run_def status_entry_def acquire_def mark_closed_def
  sample_watcher_def new_watcher_def sample_runs_def sample_pipeline_def sample_context_def no_markers_def


text \<open>
  Without the condition on weights it fails: a pipeline with a task of weight 0 writes its
  \<open>Started\<close> row, returns on the failed progress split without a terminal row, and the caller, who
  sees no failed terminal write, closes the marker. The run stays in flight for good.
\<close>

theorem zero_weight_run_is_lost:
  "\<exists>res o1 w' fs' r. owned_run sample_run_env (\<lambda>_. Inr [()]) (sample_pipeline [0]) sample_context 7 (Some 5)
       (sample_watcher [], no_markers) = (res, Some o1, w', fs')
     \<and> latest_of_run (trail w') r \<and> in_flight r \<and> ow_closed o1 \<and> 5 \<notin> mf_dirs (drop_ownership o1 fs')"
proof -
  obtain res o1 w' fs' where run: "owned_run sample_run_env (\<lambda>_. Inr [()]) (sample_pipeline [0]) sample_context 7 (Some 5)
       (sample_watcher [], no_markers) = (res, Some o1, w', fs')"
    and token: "ow_closed o1" "5 \<notin> mf_dirs (drop_ownership o1 fs')"
    and rows: "\<exists>r. rt_runs (trail w') = [r] \<and> pr_status r = Started"
    by (simp add: run_eval drop_ownership_def remove_marker_def)
  then show ?thesis by (fastforce simp: latest_of_run_def in_flight_def)
qed

end
