(* ===== verification/Rollback.thy ===== *)
theory Rollback
  imports Sweep Failure Lifecycle
begin

text \<open>
  What a finished cognify run does about its failures: \<open>crates/cognify/src/rollback.rs\<close>. It
  decides what to sweep, marks the survivors complete and appends to the run's trail; the next
  run drops the items that are marked.

  The state is the world of the sweep and the table of pipeline runs. Log lines are not modelled.
\<close>

section \<open>The decision\<close>

datatype run_ending = RunFailed | RunCompleted failure_report

datatype sweep_decision = SweepNothing | SweepWholeRun | SweepItems "uuid list"

text \<open>The union of two \<open>BTreeSet\<close>s, in order.\<close>

definition outstanding_items :: "failure_report \<Rightarrow> uuid list" where
  "outstanding_items r = sorted_list_of_set (fr_failed_items r \<union> fr_unreached_items r)"

fun decide_sweep :: "rollback_scope \<Rightarrow> run_ending \<Rightarrow> sweep_decision" where
  "decide_sweep KeepAll _ = SweepNothing"
| "decide_sweep WholeRun RunFailed = SweepWholeRun"
| "decide_sweep WholeRun (RunCompleted _) = SweepNothing"
| "decide_sweep FailedItems RunFailed = SweepWholeRun"
| "decide_sweep FailedItems (RunCompleted report) =
     (let items = outstanding_items report in if items = [] then SweepNothing else SweepItems items)"

section \<open>The two exit paths\<close>

record run_context =
  rc_dataset_id :: uuid
  rc_pipeline_run_id :: "uuid option"
  rc_pipeline_id :: "uuid option"
  rc_pipeline_name :: str
  rc_processed :: "uuid list"
  rc_rollback_scope :: rollback_scope
  rc_incremental_loading :: bool

record ('g, 'v) run_world =
  rn_world :: "('g, 'v) world"
  rn_runs :: "run_tables database"

definition sweepable_run_id :: "run_context \<Rightarrow> uuid option" where
  "sweepable_run_id ctx = rc_pipeline_run_id ctx"

definition sweep_scope :: "('g, 'v) delete_env \<Rightarrow> run_scope \<Rightarrow> ('g, 'v) run_world \<Rightarrow> ('g, 'v) run_world" where
  "sweep_scope E sc s = s\<lparr>rn_world := snd (sweep_logging_failure E sc (rn_world s))\<rparr>"

text \<open>The loop over the survivors; a failed write is only logged.\<close>

fun mark_each :: "('g, 'v) delete_env \<Rightarrow> uuid \<Rightarrow> uuid list \<Rightarrow> ('g, 'v) world \<Rightarrow> ('g, 'v) world" where
  "mark_each E dataset_id [] w = w"
| "mark_each E dataset_id (i # ids) w =
     mark_each E dataset_id ids (w\<lparr>w_db :=
       snd (mark_cognify_pipeline_status_complete (en_uuid_str E) i dataset_id (w_db w))\<rparr>)"

definition mark_complete ::
  "('g, 'v) delete_env \<Rightarrow> run_context \<Rightarrow> uuid list \<Rightarrow> ('g, 'v) run_world \<Rightarrow> ('g, 'v) run_world" where
  "mark_complete E ctx ids s =
     (if \<not> rc_incremental_loading ctx \<or> ids = [] then s
      else s\<lparr>rn_world := mark_each E (rc_dataset_id ctx) ids (rn_world s)\<rparr>)"

definition append_run_row ::
  "run_context \<Rightarrow> run_status \<Rightarrow> json \<Rightarrow> ('g, 'v) run_world \<Rightarrow> ('g, 'v) run_world" where
  "append_run_row ctx status run_info s =
     (case (rc_pipeline_run_id ctx, rc_pipeline_id ctx) of
        (Some run_id, Some pipeline_id) \<Rightarrow>
          s\<lparr>rn_runs := snd (log_pipeline_run run_id pipeline_id (rc_pipeline_name ctx)
                            (Some (rc_dataset_id ctx)) status (Some run_info) (rn_runs s))\<rparr>
      | _ \<Rightarrow> s)"

definition on_run_failed ::
  "('g, 'v) delete_env \<Rightarrow> run_context \<Rightarrow> str \<Rightarrow> bool \<Rightarrow> ('g, 'v) run_world \<Rightarrow> ('g, 'v) run_world" where
  "on_run_failed E ctx error executor_recorded_the_error s =
     (let s1 = (case (decide_sweep (rc_rollback_scope ctx) RunFailed, sweepable_run_id ctx) of
                  (SweepWholeRun, Some run_id) \<Rightarrow> sweep_scope E (whole_run run_id (rc_dataset_id ctx)) s
                | _ \<Rightarrow> s) in
      if executor_recorded_the_error then s1
      else append_run_row ctx Errored (run_info_for_errored error) s1)"

definition on_run_completed ::
  "('g, 'v) delete_env \<Rightarrow> run_context \<Rightarrow> failure_report \<Rightarrow> ('g, 'v) run_world \<Rightarrow> ('g, 'v) run_world" where
  "on_run_completed E ctx report s =
     (let outstanding = outstanding_items report;
          s1 = (case (decide_sweep (rc_rollback_scope ctx) (RunCompleted report), sweepable_run_id ctx) of
                  (SweepItems items, Some run_id) \<Rightarrow>
                    sweep_scope E (scope_for_data run_id (rc_dataset_id ctx) items) s
                | _ \<Rightarrow> s);
          survivors = filter (\<lambda>i. i \<notin> set outstanding) (rc_processed ctx) in
      mark_complete E ctx survivors s1)"

section \<open>The next run\<close>

text \<open>\<open>item_id\<close> is the id of a \<open>Data\<close>; nothing else of it is read.\<close>

definition drop_already_complete ::
  "('g, 'v) delete_env \<Rightarrow> ('d \<Rightarrow> uuid) \<Rightarrow> uuid \<Rightarrow> 'd list \<Rightarrow> (ledger database, str, 'd list) action" where
  "drop_already_complete E item_id dataset_id items =
     and_then (map_err (en_show E)
         (get_cognify_completed_data_ids (en_uuid_str E) (en_uuid_hex E) dataset_id (map item_id items)))
       (\<lambda>completed. if completed = [] then ok items
          else ok (filter (\<lambda>item. item_id item \<notin> set completed) items))"

section \<open>What stays marked\<close>

definition dataset_keys :: "('g, 'v) delete_env \<Rightarrow> uuid \<Rightarrow> str list" where
  "dataset_keys E = pipeline_status_dataset_key_variants (en_uuid_str E) (en_uuid_hex E)"

text \<open>The items whose row is marked complete for the dataset, and the items with a row at all.\<close>

definition complete_items :: "('g, 'v) delete_env \<Rightarrow> uuid \<Rightarrow> ledger \<Rightarrow> uuid set" where
  "complete_items E ds t = {i. \<exists>r \<in> set (l_data t). d_id r = i \<and> status_marked (dataset_keys E ds) (d_status r)}"

definition known_items :: "ledger \<Rightarrow> uuid set" where
  "known_items t = d_id ` set (l_data t)"

text \<open>The items a run's ownership rows name.\<close>

definition touched_items :: "uuid \<Rightarrow> uuid \<Rightarrow> ledger \<Rightarrow> uuid set" where
  "touched_items run ds t =
     g_data_id ` {n \<in> set (l_nodes t). in_scope (whole_run run ds) n}
     \<union> g_data_id ` {e \<in> set (l_edges t). in_scope (whole_run run ds) e}"

definition statuses_ok :: "ledger \<Rightarrow> bool" where
  "statuses_ok t \<longleftrightarrow> data_keyed t \<and> (\<forall>r \<in> set (l_data t). wf_status (d_status r))"

lemma set_update_status:
  "set (l_data (update_status P f t)) = (\<lambda>r. if P r then r\<lparr>d_status := f (d_status r)\<rparr> else r) ` set (l_data t)"
  by (simp add: update_status_def)

lemma known_update_status [simp]: "known_items (update_status P f t) = known_items t"
  unfolding known_items_def set_update_status image_image by (rule image_cong) simp_all

lemma complete_update_status:
  "i \<in> complete_items E ds (update_status P f t) \<longleftrightarrow>
     (\<exists>r \<in> set (l_data t). d_id r = i \<and> status_marked (dataset_keys E ds) (if P r then f (d_status r) else d_status r))"
  unfolding complete_items_def set_update_status mem_Collect_eq bex_simps(7)
  by (rule bex_cong [OF refl]) simp

lemma unmark_not_marked: "wf_status st \<Longrightarrow> \<not> status_marked (dataset_keys E ds) (unmark E ds st)"
  unfolding status_marked_iff unmark_def dataset_keys_def by (auto simp: marker_cleared)

lemma complete_unmark:
  assumes "statuses_ok t"
  shows "complete_items E ds (update_status (\<lambda>r. d_id r \<in> A) (unmark E ds) t) = complete_items E ds t - A"
proof (rule set_eqI)
  fix i
  have "status_marked (dataset_keys E ds) (if d_id r \<in> A then unmark E ds (d_status r) else d_status r)
      \<longleftrightarrow> status_marked (dataset_keys E ds) (d_status r) \<and> d_id r \<notin> A" if "r \<in> set (l_data t)" for r
    using assms that unmark_not_marked [of "d_status r" E ds] by (simp add: statuses_ok_def)
  then show "i \<in> complete_items E ds (update_status (\<lambda>r. d_id r \<in> A) (unmark E ds) t)
      \<longleftrightarrow> i \<in> complete_items E ds t - A"
    unfolding complete_update_status by (auto simp: complete_items_def)
qed

lemma mark_is_marked:
  "status_marked (dataset_keys E ds) (Some (mark_status (en_uuid_str E ds) st))"
  unfolding status_marked_iff dataset_keys_def
  by (auto simp: marker_mark_status pipeline_status_dataset_key_variants_def)

lemma complete_mark:
  "complete_items E ds (update_status (\<lambda>r. d_id r = i) (\<lambda>s. Some (mark_status (en_uuid_str E ds) s)) t)
     = complete_items E ds t \<union> ({i} \<inter> known_items t)"
  by (rule set_eqI, unfold complete_update_status)
    (auto simp: complete_items_def known_items_def mark_is_marked split: if_splits)

lemma statuses_unmark: "statuses_ok t \<Longrightarrow> statuses_ok (update_status P (unmark E ds) t)"
  by (auto simp: statuses_ok_def set_update_status unmark_def marker_cleared)

lemma statuses_mark: "statuses_ok t \<Longrightarrow> statuses_ok (update_status P (\<lambda>s. Some (mark_status k s)) t)"
  by (auto simp: statuses_ok_def set_update_status wf_mark_status)

lemma touched_update_status [simp]: "touched_items run ds (update_status P f t) = touched_items run ds t"
  by (simp add: touched_items_def)

section \<open>Stores that do not fail\<close>

text \<open>What the exit paths rely on when nothing is set to fail: a sweep returns and leaves it so.\<close>

locale reliable_stores = delete_env_laws E nodes_of points_of
  for E :: "('g, 'v) delete_env" and nodes_of :: "'g \<Rightarrow> str set" and points_of :: "'v \<Rightarrow> str \<Rightarrow> uuid set" +
  fixes reliable :: "('g, 'v) world \<Rightarrow> bool"
  assumes sweep_returns: "reliable w \<Longrightarrow> \<exists>out w'. sweep E sc w = (Inr out, w') \<and> reliable w'"
    and reliable_db: "reliable w \<Longrightarrow> db_faults (w_db w) = []"
    and reliable_update: "reliable w \<Longrightarrow> db_faults d = [] \<Longrightarrow> reliable (w\<lparr>w_db := d\<rparr>)"

lemma mark_returns: "returns (mark_cognify_pipeline_status_complete uuid_str data_id dataset_id)"
  unfolding mark_cognify_pipeline_status_complete_def
  by (intro returns_rules) (auto split: option.split intro!: returns_rules)

lemma completed_returns: "returns (get_cognify_completed_data_ids us uh ds ids)"
  unfolding get_cognify_completed_data_ids_def by (intro returns_rules)

lemma logging_failure_world: "snd (sweep_logging_failure E sc w) = snd (sweep E sc w)"
  by (auto simp: sweep_logging_failure_def sweep_def split: prod.splits sum.splits)

definition touched_by :: "run_scope \<Rightarrow> ledger \<Rightarrow> uuid set" where
  "touched_by sc t = g_data_id ` {n \<in> set (l_nodes t). in_scope sc n} \<union> g_data_id ` {e \<in> set (l_edges t). in_scope sc e}"

lemma in_scope_for_data: "in_scope (scope_for_data run ds items) q \<longleftrightarrow> in_scope (whole_run run ds) q \<and> g_data_id q \<in> set items"
  by (auto simp: in_scope_def scope_for_data_def whole_run_def)

lemma touched_by_scopes:
  "touched_by (whole_run run ds) t = touched_items run ds t"
  "touched_by (scope_for_data run ds items) t = touched_items run ds t \<inter> set items"
  by (auto simp: touched_by_def touched_items_def in_scope_for_data)

lemma scope_dataset [simp]: "rs_dataset (whole_run run ds) = ds" "rs_dataset (scope_for_data run ds items) = ds"
  by (simp_all add: whole_run_def scope_for_data_def)

text \<open>The ledger without the rows of the scope and without the marks of the items they name.\<close>

definition swept_ledger :: "('g, 'v) delete_env \<Rightarrow> run_scope \<Rightarrow> ledger \<Rightarrow> ledger" where
  "swept_ledger E sc t =
     update_status (\<lambda>r. d_id r \<in> touched_by sc t) (unmark E (rs_dataset sc)) (nodes_swept sc (edges_swept sc t))"

lemma swept_frame [simp]:
  "l_data (nodes_swept sc (edges_swept sc t)) = l_data t" "known_items (nodes_swept sc (edges_swept sc t)) = known_items t"
  "complete_items E ds (nodes_swept sc (edges_swept sc t)) = complete_items E ds t"
  "statuses_ok (nodes_swept sc (edges_swept sc t)) = statuses_ok t"
  by (simp_all add: nodes_swept_def edges_swept_def known_items_def complete_items_def statuses_ok_def data_keyed_def)

lemma swept_ledger_view:
  assumes "statuses_ok t"
  shows "known_items (swept_ledger E sc t) = known_items t \<and> statuses_ok (swept_ledger E sc t)
    \<and> complete_items E (rs_dataset sc) (swept_ledger E sc t) = complete_items E (rs_dataset sc) t - touched_by sc t"
  using complete_unmark [of "nodes_swept sc (edges_swept sc t)" E "rs_dataset sc" "touched_by sc t"]
    statuses_unmark [of "nodes_swept sc (edges_swept sc t)"] assms
  by (simp add: swept_ledger_def)

lemma swept_touched:
  "touched_items run ds (swept_ledger E (whole_run run ds) t) = {}"
  "touched_items run ds (swept_ledger E (scope_for_data run ds items) t) = touched_items run ds t - set items"
  by (auto simp: touched_items_def swept_ledger_def nodes_swept_def edges_swept_def in_scope_for_data)

context reliable_stores
begin

lemma sweep_scope_ok:
  assumes "reliable (rn_world s)" and "statuses_ok (tables (rn_world s))"
  shows "reliable (rn_world (sweep_scope E sc s))
    \<and> tables (rn_world (sweep_scope E sc s)) = swept_ledger E sc (tables (rn_world s))
    \<and> rn_runs (sweep_scope E sc s) = rn_runs s"
proof -
  obtain out w' where s: "sweep E sc (rn_world s) = (Inr out, w')" and "reliable w'"
    using sweep_returns [OF assms(1)] by blast
  obtain s' where run: "run_in_scope E sc \<lparr>ss_world = rn_world s, ss_outcome = no_outcome\<rparr> = (Inr (), s')" and w': "w' = ss_world s'"
    using sweep_run [OF s] by metis
  have "tables w' = swept_ledger E sc (tables (rn_world s))"
    unfolding w'
    by (rule ledger.equality)
      (use run_in_scope_ok [OF run refl] assms(2) in \<open>simp_all add: swept_ledger_def touched_by_def statuses_ok_def
        nodes_swept_def edges_swept_def update_status_def\<close>)
  with s \<open>reliable w'\<close> show ?thesis by (simp add: sweep_scope_def logging_failure_world)
qed

lemma mark_each_ok:
  assumes "reliable w" and "statuses_ok (tables w)"
  shows "reliable (mark_each E ds ids w)
    \<and> complete_items E ds (tables (mark_each E ds ids w)) = complete_items E ds (tables w) \<union> (set ids \<inter> known_items (tables w))
    \<and> known_items (tables (mark_each E ds ids w)) = known_items (tables w)
    \<and> touched_items run ds' (tables (mark_each E ds ids w)) = touched_items run ds' (tables w)"
  using assms
proof (induction ids arbitrary: w)
  case (Cons i ids)
  obtain x d where m: "mark_cognify_pipeline_status_complete (en_uuid_str E) i ds (w_db w) = (Inr x, d)" and f: "db_faults d = []"
    using returnsD [OF mark_returns reliable_db [OF Cons.prems(1)]] by blast
  have t: "db_tables d = update_status (\<lambda>r. d_id r = i) (\<lambda>s. Some (mark_status (en_uuid_str E ds) s)) (tables w)"
    using mark_ok [OF m] Cons.prems(2) by (simp add: statuses_ok_def)
  have "statuses_ok (tables (w\<lparr>w_db := d\<rparr>))" using t statuses_mark [OF Cons.prems(2)] by simp
  from Cons.IH [OF reliable_update [OF Cons.prems(1) f] this] show ?case
    using complete_mark [of E ds i "tables w"] by (auto simp: m t)
qed simp

lemma mark_complete_ok:
  assumes "reliable (rn_world s)" and "statuses_ok (tables (rn_world s))" and "ds = rc_dataset_id ctx"
  shows "reliable (rn_world (mark_complete E ctx ids s))
    \<and> complete_items E ds (tables (rn_world (mark_complete E ctx ids s)))
        = complete_items E ds (tables (rn_world s)) \<union> (if rc_incremental_loading ctx then set ids \<inter> known_items (tables (rn_world s)) else {})
    \<and> known_items (tables (rn_world (mark_complete E ctx ids s))) = known_items (tables (rn_world s))
    \<and> touched_items run ds (tables (rn_world (mark_complete E ctx ids s))) = touched_items run ds (tables (rn_world s))
    \<and> rn_runs (mark_complete E ctx ids s) = rn_runs s"
  using mark_each_ok [OF assms(1,2), of ds ids run ds] assms by (auto simp: mark_complete_def)

end

interpretation memory_reliable:
  reliable_stores "memory_env show_graph show_vector u5 lower" node_ids_in points_in ready
  by unfold_locales (metis memory_sweep_returns [OF refl], simp_all add: ready_def)

section \<open>Abstractly\<close>

text \<open>
  What the exit paths promise, said over two sets: the items marked complete for the dataset, and
  the items the run still has ownership rows for.
\<close>

record run_view =
  rv_complete :: "uuid set"
  rv_touched :: "uuid set"

definition run_view_of :: "('g, 'v) delete_env \<Rightarrow> uuid \<Rightarrow> uuid \<Rightarrow> ('g, 'v) run_world \<Rightarrow> run_view" where
  "run_view_of E run ds s = \<lparr>rv_complete = complete_items E ds (tables (rn_world s)),
     rv_touched = touched_items run ds (tables (rn_world s))\<rparr>"

definition forget_items :: "uuid set \<Rightarrow> run_view \<Rightarrow> run_view" where
  "forget_items A v = \<lparr>rv_complete = rv_complete v - (rv_touched v \<inter> A), rv_touched = rv_touched v - A\<rparr>"

definition failed_view :: "rollback_scope \<Rightarrow> run_view \<Rightarrow> run_view" where
  "failed_view sc v = (if sc = KeepAll then v else forget_items UNIV v)"

definition completed_view ::
  "rollback_scope \<Rightarrow> bool \<Rightarrow> uuid set \<Rightarrow> uuid set \<Rightarrow> run_view \<Rightarrow> run_view" where
  "completed_view sc incremental processed outstanding v =
     (let v1 = (if sc = FailedItems then forget_items outstanding v else v) in
      if incremental then v1\<lparr>rv_complete := rv_complete v1 \<union> (processed - outstanding)\<rparr> else v1)"

lemma set_outstanding:
  "finite (fr_failed_items r) \<Longrightarrow> finite (fr_unreached_items r) \<Longrightarrow>
     set (outstanding_items r) = fr_failed_items r \<union> fr_unreached_items r"
  by (simp add: outstanding_items_def)

lemma append_run_row_world [simp]: "rn_world (append_run_row ctx status info s) = rn_world s"
  by (simp add: append_run_row_def split: option.split)

context reliable_stores
begin

lemma failed_refines:
  assumes "reliable (rn_world s)" and "statuses_ok (tables (rn_world s))"
    and "rc_pipeline_run_id ctx = Some run" and "rc_dataset_id ctx = ds"
  shows "run_view_of E run ds (on_run_failed E ctx error recorded s) = failed_view (rc_rollback_scope ctx) (run_view_of E run ds s)"
  using sweep_scope_ok [OF assms(1,2), of "whole_run run ds"] swept_ledger_view [OF assms(2), of E "whole_run run ds"]
  by (cases "rc_rollback_scope ctx")
    (simp_all add: on_run_failed_def sweepable_run_id_def assms(3,4) failed_view_def run_view_of_def
      forget_items_def swept_touched touched_by_scopes Let_def)

lemma completed_refines:
  assumes "reliable (rn_world s)" and "statuses_ok (tables (rn_world s))"
    and "rc_pipeline_run_id ctx = Some run" and "rc_dataset_id ctx = ds"
    and "set (rc_processed ctx) \<subseteq> known_items (tables (rn_world s))"
  shows "run_view_of E run ds (on_run_completed E ctx report s)
    = completed_view (rc_rollback_scope ctx) (rc_incremental_loading ctx) (set (rc_processed ctx))
        (set (outstanding_items report)) (run_view_of E run ds s)
    \<and> reliable (rn_world (on_run_completed E ctx report s))"
proof -
  let ?out = "outstanding_items report"
  let ?sc = "scope_for_data run ds ?out"
  define s1 where "s1 = (case (decide_sweep (rc_rollback_scope ctx) (RunCompleted report), sweepable_run_id ctx) of
                  (SweepItems items, Some run_id) \<Rightarrow> sweep_scope E (scope_for_data run_id (rc_dataset_id ctx) items) s
                | _ \<Rightarrow> s)"
  have s1: "s1 = (if rc_rollback_scope ctx = FailedItems \<and> ?out \<noteq> [] then sweep_scope E ?sc s else s)"
    by (cases "rc_rollback_scope ctx") (simp_all add: s1_def sweepable_run_id_def assms(3,4) Let_def)
  have rel: "reliable (rn_world s1)" and st: "statuses_ok (tables (rn_world s1))"
    and known: "known_items (tables (rn_world s1)) = known_items (tables (rn_world s))"
    and view: "run_view_of E run ds s1 = (if rc_rollback_scope ctx = FailedItems then forget_items (set ?out) (run_view_of E run ds s)
                                     else run_view_of E run ds s)"
    unfolding s1
    using sweep_scope_ok [OF assms(1,2), of ?sc] swept_ledger_view [OF assms(2), of E ?sc] assms(1,2)
    by (auto simp: run_view_of_def forget_items_def swept_touched touched_by_scopes)
  let ?ids = "filter (\<lambda>i. i \<notin> set ?out) (rc_processed ctx)"
  have run: "on_run_completed E ctx report s = mark_complete E ctx ?ids s1"
    by (simp add: on_run_completed_def s1_def Let_def)
  have ids: "set ?ids \<inter> known_items (tables (rn_world s)) = set (rc_processed ctx) - set ?out"
    using assms(5) by auto
  note marked = mark_complete_ok [OF rel st assms(4) [symmetric], of ?ids run, unfolded known ids]
  have "run_view_of E run ds (mark_complete E ctx ?ids s1) =
      (if rc_incremental_loading ctx
       then (run_view_of E run ds s1)\<lparr>rv_complete := rv_complete (run_view_of E run ds s1) \<union> (set (rc_processed ctx) - set ?out)\<rparr>
       else run_view_of E run ds s1)"
    using marked by (simp add: run_view_of_def)
  with marked show ?thesis unfolding run view completed_view_def by (simp add: Let_def)
qed

lemma drop_ok:
  assumes "reliable w"
  shows "\<exists>db'. drop_already_complete E item_id ds items (w_db w)
    = (Inr (filter (\<lambda>i. item_id i \<notin> complete_items E ds (tables w)) items), db')"
proof -
  obtain ids db' where c: "get_cognify_completed_data_ids (en_uuid_str E) (en_uuid_hex E) ds (map item_id items) (w_db w) = (Inr ids, db')"
    using returnsD [OF completed_returns reliable_db [OF assms]] by blast
  have s: "set ids = {i \<in> item_id ` set items. i \<in> complete_items E ds (tables w)}"
    using completed_ok [OF c] by (force simp: complete_items_def dataset_keys_def)
  have "filter (\<lambda>i. item_id i \<notin> complete_items E ds (tables w)) items = (if ids = [] then items else filter (\<lambda>i. item_id i \<notin> set ids) items)"
    unfolding s using s by (auto intro!: filter_cong simp: filter_id_conv)
  with c show ?thesis by (auto simp: drop_already_complete_def and_then_def map_err_def ok_def)
qed

end

section \<open>Whatever fails\<close>

text \<open>A step that marks no item but those of \<open>A\<close>.\<close>

definition marks_only :: "('g, 'v) delete_env \<Rightarrow> uuid \<Rightarrow> uuid set \<Rightarrow> ledger \<Rightarrow> ledger \<Rightarrow> bool" where
  "marks_only E ds A t t' \<longleftrightarrow>
     (statuses_ok t \<longrightarrow> statuses_ok t' \<and> complete_items E ds t' \<subseteq> complete_items E ds t \<union> A)"

lemma marks_only_refl [simp]: "marks_only E ds A t t"
  by (simp add: marks_only_def)

lemma marks_only_trans: "marks_only E ds A t t' \<Longrightarrow> marks_only E ds B t' t'' \<Longrightarrow> marks_only E ds (A \<union> B) t t''"
  by (auto simp: marks_only_def)

lemma marks_only_data: "l_data t' = l_data t \<Longrightarrow> marks_only E ds A t t'"
  by (simp add: marks_only_def complete_items_def statuses_ok_def data_keyed_def)

lemma clear_marks_only:
  assumes "clear_cognify_pipeline_status_for_data (en_uuid_str E) (en_uuid_hex E) i ds db = (r, db')"
  shows "marks_only E ds {} (db_tables db) (db_tables db')"
proof (cases r)
  case (Inl e)
  with assms clear_for_data_err show ?thesis by fastforce
next
  case (Inr u)
  have "db_tables db' = update_status (\<lambda>r. d_id r \<in> {i}) (unmark E ds) (db_tables db)" if "statuses_ok (db_tables db)"
    using clear_for_data_ok [OF assms [unfolded Inr]] that by (simp add: unmark_def statuses_ok_def)
  then show ?thesis
    using complete_unmark [of "db_tables db" E ds "{i}"] statuses_unmark [of "db_tables db" _ E ds]
    by (auto simp: marks_only_def)
qed

lemma clear_markers_marks_only:
  "clear_markers E ds xs k s = (r, s') \<Longrightarrow> marks_only E ds {} (tables (ss_world s)) (tables (ss_world s'))"
proof (induction xs arbitrary: k s)
  case (Cons x xs)
  from Cons.prems obtain rc d s1
    where c: "clear_cognify_pipeline_status_for_data (en_uuid_str E) (en_uuid_hex E) x ds (w_db (ss_world s)) = (rc, d)"
      and w: "ss_world s1 = (ss_world s)\<lparr>w_db := d\<rparr>"
      and r: "clear_markers E ds xs (if isl rc then k + 1 else k) s1 = (r, s')"
    by (rule clear_markers_step)
  from marks_only_trans [OF clear_marks_only [OF c] Cons.IH [OF r, unfolded w, simplified]] show ?case by simp
qed (auto simp: ok_def)

lemma sweep_artifacts_db: "sweep_artifacts E nodes edges ids s = (r, s') \<Longrightarrow> w_db (ss_world s') = w_db (ss_world s)"
  by (cases r) (auto simp: sweep_artifacts_def sweep_outcomes)

lemma sweep_marks_only:
  assumes "run_in_scope E sc s = (r, s')"
  shows "marks_only E (rs_dataset sc) {} (tables (ss_world s)) (tables (ss_world s'))"
  using assms refl
proof (cases rule: run_in_scope_cases)
  case (artifacts nodes edges ids s1 e)
  with sweep_artifacts_db [OF artifacts(7)] show ?thesis by simp
next
  case (ledger nodes edges ids s1 s2 e)
  with sweep_artifacts_db [OF ledger(7)] sweep_ledger_err [OF ledger(8)] show ?thesis
    by (intro marks_only_data) (auto simp: edges_swept_def)
next
  case (markers affected nodes edges ids s1 s2 s3 failures)
  have "l_data (tables (ss_world s3)) = l_data (tables (ss_world s))"
    using sweep_artifacts_db [OF markers(8)] sweep_ledger_ok [OF markers(9)] markers(7) by simp
  then have "marks_only E (rs_dataset sc) {} (tables (ss_world s)) (tables (ss_world s3))" by (rule marks_only_data)
  from marks_only_trans [OF this clear_markers_marks_only [OF markers(10)]] show ?thesis by simp
qed simp

lemma sweep_scope_marks_only:
  "marks_only E (rs_dataset sc) {} (tables (rn_world s)) (tables (rn_world (sweep_scope E sc s)))"
proof -
  obtain r s' where "run_in_scope E sc \<lparr>ss_world = rn_world s, ss_outcome = no_outcome\<rparr> = (r, s')" by fastforce
  with sweep_marks_only [OF this] show ?thesis
    by (auto simp: sweep_scope_def sweep_logging_failure_def split: sum.split)
qed

lemma mark_marks_only:
  assumes "mark_cognify_pipeline_status_complete (en_uuid_str E) i ds db = (r, db')"
  shows "marks_only E ds {i} (db_tables db) (db_tables db')"
proof (cases r)
  case (Inl e)
  with assms mark_err show ?thesis by fastforce
next
  case (Inr u)
  have "db_tables db' = update_status (\<lambda>r. d_id r = i) (\<lambda>s. Some (mark_status (en_uuid_str E ds) s)) (db_tables db)"
    if "statuses_ok (db_tables db)"
    using mark_ok [OF assms [unfolded Inr]] that by (simp add: statuses_ok_def)
  then show ?thesis
    using complete_mark [of E ds i "db_tables db"] statuses_mark [of "db_tables db"] by (auto simp: marks_only_def)
qed

lemma mark_each_marks_only: "marks_only E ds (set ids) (tables w) (tables (mark_each E ds ids w))"
proof (induction ids arbitrary: w)
  case (Cons i ids)
  obtain r d where m: "mark_cognify_pipeline_status_complete (en_uuid_str E) i ds (w_db w) = (r, d)" by fastforce
  have "marks_only E ds ({i} \<union> set ids) (tables w) (tables (mark_each E ds ids (w\<lparr>w_db := d\<rparr>)))"
    using marks_only_trans [OF mark_marks_only [OF m] Cons.IH [of "w\<lparr>w_db := d\<rparr>", simplified]] .
  then show ?case by (simp add: m insert_is_Un [symmetric])
qed simp

lemma completed_marks_only:
  "marks_only E (rc_dataset_id ctx) (set (rc_processed ctx) - set (outstanding_items report))
     (tables (rn_world s)) (tables (rn_world (on_run_completed E ctx report s)))"
proof -
  define s1 where "s1 = (case (decide_sweep (rc_rollback_scope ctx) (RunCompleted report), sweepable_run_id ctx) of
                  (SweepItems items, Some run_id) \<Rightarrow> sweep_scope E (scope_for_data run_id (rc_dataset_id ctx) items) s
                | _ \<Rightarrow> s)"
  have "marks_only E (rc_dataset_id ctx) {} (tables (rn_world s)) (tables (rn_world s1))"
    using sweep_scope_marks_only [of E "scope_for_data _ (rc_dataset_id ctx) _" s]
    by (auto simp: s1_def split: sweep_decision.split option.split)
  moreover have "marks_only E (rc_dataset_id ctx) (set ids) (tables (rn_world s1)) (tables (rn_world (mark_complete E ctx ids s1)))" for ids
    by (simp add: mark_complete_def mark_each_marks_only)
  ultimately have "marks_only E (rc_dataset_id ctx) ({} \<union> set (filter (\<lambda>i. i \<notin> set (outstanding_items report)) (rc_processed ctx)))
      (tables (rn_world s)) (tables (rn_world (on_run_completed E ctx report s)))"
    unfolding on_run_completed_def Let_def s1_def by (rule marks_only_trans)
  then show ?thesis by (simp add: set_diff_eq)
qed

section \<open>Properties\<close>

text \<open>
  C14: on stores that do not fail the exit paths implement their promise. Said over the items
  marked complete and the items the run owns rows of: a failed run forgets all of it unless the
  scope keeps everything, and a completed run forgets its outstanding items under
  \<open>FailedItems\<close> and marks every other processed item complete when loading is incremental.
\<close>

theorem exit_paths_refine:
  fixes E :: "(graph_mem, 'f brute_force) delete_env"
  assumes "E = memory_env show_graph show_vector u5 lower"
    and "ready (rn_world s)" and "statuses_ok (tables (rn_world s))"
    and "rc_pipeline_run_id ctx = Some run" and "rc_dataset_id ctx = ds"
    and "set (rc_processed ctx) \<subseteq> known_items (tables (rn_world s))"
  shows "run_view_of E run ds (on_run_failed E ctx error recorded s)
      = failed_view (rc_rollback_scope ctx) (run_view_of E run ds s)
    \<and> run_view_of E run ds (on_run_completed E ctx report s)
      = completed_view (rc_rollback_scope ctx) (rc_incremental_loading ctx) (set (rc_processed ctx))
          (set (outstanding_items report)) (run_view_of E run ds s)"
  unfolding assms(1)
  by (intro conjI memory_reliable.failed_refines memory_reliable.completed_refines [THEN conjunct1] assms(2-6))

definition sample_ctx :: "rollback_scope \<Rightarrow> run_context" where
  "sample_ctx sc = \<lparr>rc_dataset_id = 9, rc_pipeline_run_id = Some 7, rc_pipeline_id = Some 1,
     rc_pipeline_name = lit ''cognify_pipeline'', rc_processed = [2], rc_rollback_scope = sc, rc_incremental_loading = True\<rparr>"

definition sample_run_world :: "json_doc option \<Rightarrow> (graph_mem, nat brute_force) run_world" where
  "sample_run_world st = \<lparr>rn_world = \<lparr>w_db = sample_db
        [sample_node 11 50 2 (Some 7) 0, sample_node 13 60 4 None 0] []
        [sample_data 2 (Some 9) st] [],
      w_graph = graph_new\<lparr>gm_nodes := [(decimal 50, []), (decimal 60, [])]\<rparr>, w_vector = []\<rparr>,
     rn_runs = sample_runs []\<rparr>"

definition sample_report :: failure_report where
  "sample_report = record_failure (sample_failure 2 None True) default_report"

lemma sample_run_world_ok [simp]:
  "ready (rn_world (sample_run_world st))" "known_items (tables (rn_world (sample_run_world st))) = {2}"
  "touched_items 7 9 (tables (rn_world (sample_run_world st))) = {2}"
  by (auto simp: sample_run_world_def ready_def sample_db_def graph_new_def known_items_def touched_items_def image_iff
      intro!: exI [of _ "sample_node 11 50 2 (Some 7) 0"])

lemma sample_statuses [simp]: "statuses_ok (tables (rn_world (sample_run_world None)))"
  by (simp add: sample_run_world_def sample_db_def statuses_ok_def data_keyed_def wf_status_def)

lemma sample_complete [simp]: "complete_items E ds (tables (rn_world (sample_run_world None))) = {}"
  by (simp add: complete_items_def sample_run_world_def sample_db_def status_marked_def)

lemma sample_outstanding [simp]: "outstanding_items sample_report = [2]" "outstanding_items default_report = []"
  by (simp_all add: outstanding_items_def sample_report_def report_defs sample_failure_def)

theorem exit_paths_refine_witness:
  "rv_touched (run_view_of sample_env 7 9 (on_run_failed sample_env (sample_ctx WholeRun) [] True (sample_run_world None))) = {}
   \<and> rv_complete (run_view_of sample_env 7 9 (on_run_completed sample_env (sample_ctx FailedItems) default_report (sample_run_world None))) = {2}"
proof -
  have 1: "set (rc_processed (sample_ctx sc)) \<subseteq> known_items (tables (rn_world (sample_run_world None)))"
    "rc_pipeline_run_id (sample_ctx sc) = Some 7" "rc_dataset_id (sample_ctx sc) = 9" for sc
    by (simp_all add: sample_ctx_def)
  have f: "run_view_of sample_env 7 9 (on_run_failed sample_env (sample_ctx WholeRun) [] True (sample_run_world None))
      = failed_view (rc_rollback_scope (sample_ctx WholeRun)) (run_view_of sample_env 7 9 (sample_run_world None))"
    by (rule exit_paths_refine [OF refl sample_run_world_ok(1) sample_statuses 1(2,3,1), THEN conjunct1])
  have c: "run_view_of sample_env 7 9 (on_run_completed sample_env (sample_ctx FailedItems) default_report (sample_run_world None))
      = completed_view (rc_rollback_scope (sample_ctx FailedItems)) (rc_incremental_loading (sample_ctx FailedItems))
          (set (rc_processed (sample_ctx FailedItems))) (set (outstanding_items default_report)) (run_view_of sample_env 7 9 (sample_run_world None))"
    by (rule exit_paths_refine [OF refl sample_run_world_ok(1) sample_statuses 1(2,3,1), THEN conjunct2])
  show ?thesis unfolding f c
    by (simp add: failed_view_def completed_view_def forget_items_def run_view_of_def sample_ctx_def)
qed

text \<open>
  C21: a retry converges: after a completed run the next run over the same items processes exactly
  the outstanding ones again, those that failed or were never reached, and skips the rest; on
  stores that do not fail, when the run started from items not marked complete.
\<close>

theorem next_run_redoes_outstanding:
  fixes E :: "(graph_mem, 'f brute_force) delete_env"
  assumes "E = memory_env show_graph show_vector u5 lower"
    and "ready (rn_world s)" and "statuses_ok (tables (rn_world s))"
    and "rc_pipeline_run_id ctx = Some run" and "rc_incremental_loading ctx"
    and "set (rc_processed ctx) \<subseteq> known_items (tables (rn_world s))"
    and "set (rc_processed ctx) \<inter> complete_items E (rc_dataset_id ctx) (tables (rn_world s)) = {}"
    and "item_id ` set items \<subseteq> set (rc_processed ctx)"
  shows "\<exists>db'. drop_already_complete E item_id (rc_dataset_id ctx) items (w_db (rn_world (on_run_completed E ctx report s)))
    = (Inr (filter (\<lambda>i. item_id i \<in> set (outstanding_items report)) items), db')"
proof -
  let ?s = "on_run_completed E ctx report s"
  note ref = memory_reliable.completed_refines [where ?show_graph = show_graph and ?show_vector = show_vector
      and ?u5.0 = u5 and ?lower = lower, OF assms(2,3,4) refl assms(6), folded assms(1), of report]
  have "complete_items E (rc_dataset_id ctx) (tables (rn_world ?s)) \<inter> set (rc_processed ctx)
      = set (rc_processed ctx) - set (outstanding_items report)"
    using ref assms(5,7)
    by (auto simp: run_view_of_def completed_view_def forget_items_def Let_def split: if_splits)
  then have "filter (\<lambda>i. item_id i \<notin> complete_items E (rc_dataset_id ctx) (tables (rn_world ?s))) items
      = filter (\<lambda>i. item_id i \<in> set (outstanding_items report)) items"
    using assms(8) by (intro filter_cong refl) blast
  then show ?thesis
    using memory_reliable.drop_ok [where ?show_graph = show_graph and ?show_vector = show_vector
      and ?u5.0 = u5 and ?lower = lower, OF ref [THEN conjunct2, unfolded assms(1)], folded assms(1), of item_id "rc_dataset_id ctx" items]
    by simp
qed

theorem next_run_redoes_outstanding_witness:
  "\<exists>db'. drop_already_complete sample_env (\<lambda>i. i) 9 [2]
      (w_db (rn_world (on_run_completed sample_env (sample_ctx FailedItems) sample_report (sample_run_world None)))) = (Inr [2], db')"
proof -
  let ?c = "sample_ctx FailedItems"
  have "rc_pipeline_run_id ?c = Some 7" "rc_incremental_loading ?c" "rc_dataset_id ?c = 9"
    "set (rc_processed ?c) \<subseteq> known_items (tables (rn_world (sample_run_world None)))"
    "set (rc_processed ?c) \<inter> complete_items sample_env (rc_dataset_id ?c) (tables (rn_world (sample_run_world None))) = {}"
    "(\<lambda>i. i) ` set [2] \<subseteq> set (rc_processed ?c)"
    by (simp_all add: sample_ctx_def)
  note ctx = this
  have "\<exists>db'. drop_already_complete sample_env (\<lambda>i. i) (rc_dataset_id ?c) [2]
        (w_db (rn_world (on_run_completed sample_env ?c sample_report (sample_run_world None))))
      = (Inr (filter (\<lambda>i. i \<in> set (outstanding_items sample_report)) [2]), db')"
    by (rule next_run_redoes_outstanding [OF refl sample_run_world_ok(1) sample_statuses ctx(1,2,4,5,6)])
  then show ?thesis by (simp add: ctx(3))
qed

text \<open>
  C20: whatever fails, stores and statements included, a completed run never marks an item that
  failed or was not reached: such an item is complete afterwards only if it was before.
\<close>

theorem outstanding_never_marked:
  assumes "statuses_ok (tables (rn_world s))"
    and "finite (fr_failed_items report)" and "finite (fr_unreached_items report)"
    and "i \<in> fr_failed_items report \<union> fr_unreached_items report"
    and "i \<notin> complete_items E (rc_dataset_id ctx) (tables (rn_world s))"
  shows "i \<notin> complete_items E (rc_dataset_id ctx) (tables (rn_world (on_run_completed E ctx report s)))"
  using completed_marks_only [of E ctx report s] assms set_outstanding [of report]
  unfolding marks_only_def by blast

theorem outstanding_never_marked_witness:
  "2 \<notin> complete_items sample_env 9 (tables (rn_world (on_run_completed sample_env (sample_ctx FailedItems) sample_report (sample_run_world None))))"
proof -
  have "finite (fr_failed_items sample_report)" "finite (fr_unreached_items sample_report)"
    "2 \<in> fr_failed_items sample_report \<union> fr_unreached_items sample_report"
    by (simp_all add: sample_report_def report_defs sample_failure_def)
  from outstanding_never_marked [OF sample_statuses this, of sample_env "sample_ctx FailedItems"]
  show ?thesis by (simp add: sample_ctx_def)
qed

end
