(* ===== verification/Dataset_Locks.thy ===== *)
theory Dataset_Locks
  imports Prelude
begin

text \<open>
  The per-dataset locks that serialise every writer of one dataset:
  \<open>crates/core/src/dataset_locks.rs\<close>, one registry.

  The registry maps a dataset id to a weak handle of a mutex; a mutex is a number. A task is an
  index into the list of tasks. A task owns the mutexes of its guards: those of its enclosing
  \<open>hold\<close>s (a stack of frames, whose ids are the task-local \<open>HELD\<close> set), those of plain
  \<open>lock\<close> guards, and those already taken by the \<open>hold\<close> it is in the middle of. A weak handle
  upgrades exactly when some task waits for the mutex or owns it. Which waiter an unlocked
  mutex goes to is left open.
\<close>

section \<open>State\<close>

type_synonym guard = "uuid \<times> nat"

datatype purpose = ForHold | ForLock

text \<open>\<open>Waiting p i m rest got\<close> awaits mutex \<open>m\<close> of id \<open>i\<close>; \<open>rest\<close> is still to take, \<open>got\<close> taken.\<close>

datatype phase =
    Running
  | Acquiring purpose "uuid list" "guard list"
  | Waiting purpose uuid nat "uuid list" "guard list"

record task_state =
  tk_phase :: phase
  tk_frames :: "guard list list"
  tk_loose :: "guard list"

record lock_state =
  lk_map :: "(uuid \<times> nat) list"
  lk_next :: nat
  lk_tasks :: "task_state list"

definition prune_threshold :: nat where
  "prune_threshold = 64"

fun pending_guards :: "phase \<Rightarrow> guard list" where
  "pending_guards Running = []"
| "pending_guards (Acquiring p ids got) = got"
| "pending_guards (Waiting p i m ids got) = got"

definition guards :: "task_state \<Rightarrow> guard list" where
  "guards ts = concat (tk_frames ts) @ tk_loose ts @ pending_guards (tk_phase ts)"

text \<open>All strong handles: what it owns and what it waits for.\<close>

definition handles :: "task_state \<Rightarrow> guard list" where
  "handles ts = guards ts @ (case tk_phase ts of Waiting p i m ids got \<Rightarrow> [(i, m)] | _ \<Rightarrow> [])"

definition strong :: "lock_state \<Rightarrow> nat \<Rightarrow> bool" where
  "strong s m \<longleftrightarrow> list_ex (\<lambda>ts. m \<in> snd ` set (handles ts)) (lk_tasks s)"

definition owned :: "lock_state \<Rightarrow> nat \<Rightarrow> bool" where
  "owned s m \<longleftrightarrow> list_ex (\<lambda>ts. m \<in> snd ` set (guards ts)) (lk_tasks s)"

definition is_held :: "task_state \<Rightarrow> uuid \<Rightarrow> bool" where
  "is_held ts i \<longleftrightarrow> i \<in> fst ` set (concat (tk_frames ts))"

section \<open>Operations\<close>

definition put_entry :: "uuid \<Rightarrow> nat \<Rightarrow> (uuid \<times> nat) list \<Rightarrow> (uuid \<times> nat) list" where
  "put_entry i m es = (i, m) # filter (\<lambda>e. fst e \<noteq> i) es"

definition lock_arc :: "uuid \<Rightarrow> lock_state \<Rightarrow> nat \<times> lock_state" where
  "lock_arc i s =
     (let live = (case map_of (lk_map s) i of Some m \<Rightarrow> if strong s m then Some m else None | None \<Rightarrow> None) in
      case live of
        Some m \<Rightarrow> (m, s)
      | None \<Rightarrow>
          (let es = (if prune_threshold \<le> length (lk_map s) then filter (\<lambda>e. strong s (snd e)) (lk_map s) else lk_map s);
               m = lk_next s in
           (m, s\<lparr>lk_map := put_entry i m es, lk_next := m + 1\<rparr>)))"

definition set_task :: "nat \<Rightarrow> task_state \<Rightarrow> lock_state \<Rightarrow> lock_state" where
  "set_task t ts s = s\<lparr>lk_tasks := (lk_tasks s)[t := ts]\<rparr>"

text \<open>Entry of \<open>hold\<close>: the ids not held yet, ascending and without duplicates.\<close>

definition to_take :: "task_state \<Rightarrow> uuid list \<Rightarrow> uuid list" where
  "to_take ts ids = sort (remdups (filter (\<lambda>i. \<not> is_held ts i) ids))"

definition begin_hold :: "nat \<Rightarrow> uuid list \<Rightarrow> lock_state \<Rightarrow> lock_state" where
  "begin_hold t ids s =
     (let ts = lk_tasks s ! t in
      set_task t (if to_take ts ids = [] then ts\<lparr>tk_frames := [] # tk_frames ts\<rparr>
                  else ts\<lparr>tk_phase := Acquiring ForHold (to_take ts ids) []\<rparr>) s)"

text \<open>Entry of \<open>lock\<close>: re-entrant when held, and then the guard holds nothing.\<close>

definition begin_lock :: "nat \<Rightarrow> uuid \<Rightarrow> lock_state \<Rightarrow> lock_state" where
  "begin_lock t i s =
     (let ts = lk_tasks s ! t in
      if is_held ts i then s else set_task t (ts\<lparr>tk_phase := Acquiring ForLock [i] []\<rparr>) s)"

text \<open>The loop over the ids: look the mutex up, then await it.\<close>

definition await_next :: "nat \<Rightarrow> lock_state \<Rightarrow> lock_state" where
  "await_next t s =
     (let ts = lk_tasks s ! t in
      case tk_phase ts of
        Acquiring p (i # ids) got \<Rightarrow>
          (let (m, s1) = lock_arc i s in set_task t (ts\<lparr>tk_phase := Waiting p i m ids got\<rparr>) s1)
      | _ \<Rightarrow> s)"

definition obtain_lock :: "nat \<Rightarrow> lock_state \<Rightarrow> lock_state" where
  "obtain_lock t s =
     (let ts = lk_tasks s ! t in
      case tk_phase ts of
        Waiting p i m ids got \<Rightarrow>
          (if owned s m then s else set_task t (ts\<lparr>tk_phase := Acquiring p ids (got @ [(i, m)])\<rparr>) s)
      | _ \<Rightarrow> s)"

text \<open>All taken: the scope is entered, or the guard returned.\<close>

definition finish_acquire :: "nat \<Rightarrow> lock_state \<Rightarrow> lock_state" where
  "finish_acquire t s =
     (let ts = lk_tasks s ! t in
      case tk_phase ts of
        Acquiring ForHold [] got \<Rightarrow> set_task t (ts\<lparr>tk_phase := Running, tk_frames := got # tk_frames ts\<rparr>) s
      | Acquiring ForLock [] got \<Rightarrow> set_task t (ts\<lparr>tk_phase := Running, tk_loose := got @ tk_loose ts\<rparr>) s
      | _ \<Rightarrow> s)"

text \<open>The held future is done, a guard is dropped.\<close>

definition end_hold :: "nat \<Rightarrow> lock_state \<Rightarrow> lock_state" where
  "end_hold t s = (let ts = lk_tasks s ! t in set_task t (ts\<lparr>tk_frames := tl (tk_frames ts)\<rparr>) s)"

definition drop_guard :: "nat \<Rightarrow> guard \<Rightarrow> lock_state \<Rightarrow> lock_state" where
  "drop_guard t g s = (let ts = lk_tasks s ! t in set_task t (ts\<lparr>tk_loose := removeAll g (tk_loose ts)\<rparr>) s)"

text \<open>Whether a guard is returned, and the state.\<close>

definition try_lock :: "nat \<Rightarrow> uuid \<Rightarrow> lock_state \<Rightarrow> bool \<times> lock_state" where
  "try_lock t i s =
     (let ts = lk_tasks s ! t in
      if is_held ts i then (True, s)
      else (let (m, s1) = lock_arc i s in
            if owned s1 m then (False, s1)
            else (True, set_task t (ts\<lparr>tk_loose := (i, m) # tk_loose ts\<rparr>) s1)))"

section \<open>Interleavings\<close>

definition runs :: "lock_state \<Rightarrow> nat \<Rightarrow> bool" where
  "runs s t \<longleftrightarrow> t < length (lk_tasks s) \<and> tk_phase (lk_tasks s ! t) = Running"

inductive lock_step :: "lock_state \<Rightarrow> lock_state \<Rightarrow> bool" where
  hold: "runs s t \<Longrightarrow> lock_step s (begin_hold t ids s)"
| lock: "runs s t \<Longrightarrow> lock_step s (begin_lock t i s)"
| tries: "runs s t \<Longrightarrow> lock_step s (snd (try_lock t i s))"
| await: "t < length (lk_tasks s) \<Longrightarrow> lock_step s (await_next t s)"
| obtain_it: "t < length (lk_tasks s) \<Longrightarrow> lock_step s (obtain_lock t s)"
| finish: "t < length (lk_tasks s) \<Longrightarrow> lock_step s (finish_acquire t s)"
| release: "runs s t \<Longrightarrow> lock_step s (end_hold t s)"
| drop_it: "runs s t \<Longrightarrow> lock_step s (drop_guard t g s)"

definition idle_task :: task_state where
  "idle_task = \<lparr>tk_phase = Running, tk_frames = [], tk_loose = []\<rparr>"

definition new_locks :: "nat \<Rightarrow> lock_state" where
  "new_locks n = \<lparr>lk_map = [], lk_next = 0, lk_tasks = replicate n idle_task\<rparr>"

inductive lock_reachable :: "lock_state \<Rightarrow> bool" where
  start: "lock_reachable (new_locks n)"
| step: "lock_reachable s \<Longrightarrow> lock_step s s' \<Longrightarrow> lock_reachable s'"

section \<open>The invariant\<close>

text \<open>
  Every strong handle is the registry's entry for its id, entries are one to one, and no mutex is
  owned by two tasks.
\<close>

definition entries_ok :: "lock_state \<Rightarrow> bool" where
  "entries_ok s \<longleftrightarrow> distinct (map fst (lk_map s)) \<and> distinct (map snd (lk_map s))
     \<and> (\<forall>e \<in> set (lk_map s). snd e < lk_next s)"

definition handles_ok :: "lock_state \<Rightarrow> task_state \<Rightarrow> bool" where
  "handles_ok s ts \<longleftrightarrow> (\<forall>(i, m) \<in> set (handles ts). map_of (lk_map s) i = Some m)"

definition exclusive_ok :: "lock_state \<Rightarrow> bool" where
  "exclusive_ok s \<longleftrightarrow> (\<forall>a < length (lk_tasks s). \<forall>b < length (lk_tasks s). a \<noteq> b \<longrightarrow>
     snd ` set (guards (lk_tasks s ! a)) \<inter> snd ` set (guards (lk_tasks s ! b)) = {})"

text \<open>Ids are taken in ascending order.\<close>

fun phase_ok :: "phase \<Rightarrow> bool" where
  "phase_ok Running = True"
| "phase_ok (Acquiring p ids got) \<longleftrightarrow> sorted_wrt (<) ids \<and> (\<forall>g \<in> set got. \<forall>i \<in> set ids. fst g < i)"
| "phase_ok (Waiting p i m ids got) \<longleftrightarrow> sorted_wrt (<) (i # ids) \<and> (\<forall>g \<in> set got. \<forall>j \<in> set (i # ids). fst g < j)"

definition lock_inv :: "lock_state \<Rightarrow> bool" where
  "lock_inv s \<longleftrightarrow> entries_ok s \<and> (\<forall>ts \<in> set (lk_tasks s). handles_ok s ts \<and> phase_ok (tk_phase ts)) \<and> exclusive_ok s"

lemma owned_iff: "owned s m \<longleftrightarrow> (\<exists>a < length (lk_tasks s). m \<in> snd ` set (guards (lk_tasks s ! a)))"
  unfolding owned_def list_ex_length ..

lemma guards_are_handles: "set (guards ts) \<subseteq> set (handles ts)"
  by (simp add: handles_def)

lemma handle_strong: "ts \<in> set (lk_tasks s) \<Longrightarrow> (i, m) \<in> set (handles ts) \<Longrightarrow> strong s m"
  by (force simp: strong_def list_ex_iff)

lemma set_task_simps [simp]:
  "lk_map (set_task t ts s) = lk_map s" "lk_next (set_task t ts s) = lk_next s"
  "length (lk_tasks (set_task t ts s)) = length (lk_tasks s)" "lk_tasks (set_task t ts s) = (lk_tasks s)[t := ts]"
  by (simp_all add: set_task_def)

lemma inv_set_task:
  assumes "lock_inv s" and "t < length (lk_tasks s)" and "handles_ok s ts" and "phase_ok (tk_phase ts)"
    and "\<forall>m \<in> snd ` set (guards ts). m \<in> snd ` set (guards (lk_tasks s ! t)) \<or> \<not> owned s m"
  shows "lock_inv (set_task t ts s)"
proof -
  have ex: "snd ` set (guards (lk_tasks s ! a)) \<inter> snd ` set (guards ts) = {}"
    if "a < length (lk_tasks s)" "a \<noteq> t" for a
  proof -
    have "snd ` set (guards (lk_tasks s ! a)) \<inter> snd ` set (guards (lk_tasks s ! t)) = {}"
      using assms(1,2) that by (simp add: lock_inv_def exclusive_ok_def)
    moreover have "owned s m" if "m \<in> snd ` set (guards (lk_tasks s ! a))" for m
      using that \<open>a < length (lk_tasks s)\<close> by (auto simp: owned_iff)
    ultimately show ?thesis using assms(5) by blast
  qed
  have "exclusive_ok (set_task t ts s)"
    unfolding exclusive_ok_def
  proof (intro allI impI)
    fix a b
    assume ab: "a < length (lk_tasks (set_task t ts s))" "b < length (lk_tasks (set_task t ts s))" "a \<noteq> b"
    then show "snd ` set (guards (lk_tasks (set_task t ts s) ! a)) \<inter> snd ` set (guards (lk_tasks (set_task t ts s) ! b)) = {}"
      using ex [of a] ex [of b] assms(1,2)
      by (cases "a = t"; cases "b = t") (simp_all add: lock_inv_def exclusive_ok_def Int_commute)
  qed
  moreover have "handles_ok (set_task t ts s) = handles_ok s" by (simp add: handles_ok_def fun_eq_iff)
  ultimately show ?thesis
    using assms(1,3,4) set_update_subset_insert [of "lk_tasks s" t ts] by (auto simp: lock_inv_def entries_ok_def)
qed

lemma nth_task: "lock_inv s \<Longrightarrow> t < length (lk_tasks s) \<Longrightarrow> handles_ok s (lk_tasks s ! t) \<and> phase_ok (tk_phase (lk_tasks s ! t))"
  by (simp add: lock_inv_def)

lemma put_entry_ok:
  assumes "distinct (map fst es)" and "distinct (map snd es)" and "\<forall>e \<in> set es. snd e < m"
  shows "distinct (map fst (put_entry i m es)) \<and> distinct (map snd (put_entry i m es))
    \<and> (\<forall>e \<in> set (put_entry i m es). snd e < m + 1)"
  using assms by (auto simp: put_entry_def distinct_map_filter less_Suc_eq)

lemma map_of_put_entry [simp]: "map_of (put_entry i m es) = (map_of es)(i \<mapsto> m)"
proof (rule ext)
  fix j
  have "map_of (filter (\<lambda>e. fst e \<noteq> i) es) j = (if j = i then None else map_of es j)" by (induction es) auto
  then show "map_of (put_entry i m es) j = ((map_of es)(i \<mapsto> m)) j" by (simp add: put_entry_def)
qed

lemma map_of_filter_snd:
  "distinct (map fst es) \<Longrightarrow> map_of es j = Some k \<Longrightarrow> P k \<Longrightarrow> map_of (filter (\<lambda>e. P (snd e)) es) j = Some k"
  by (induction es) (auto split: if_splits simp: map_of_eq_None_iff dest: map_of_SomeD)

text \<open>A lookup gives the registry's mutex for the id; no live mutex is ever replaced.\<close>

lemma lock_arc_ok:
  assumes "lock_inv s" and "lock_arc i s = (m, s1)"
  shows "lock_inv s1 \<and> lk_tasks s1 = lk_tasks s \<and> map_of (lk_map s1) i = Some m"
proof (cases "\<exists>k. map_of (lk_map s) i = Some k \<and> strong s k")
  case True
  with assms show ?thesis by (auto simp: lock_arc_def)
next
  case False
  define es where "es = (if prune_threshold \<le> length (lk_map s) then filter (\<lambda>e. strong s (snd e)) (lk_map s) else lk_map s)"
  have m: "m = lk_next s" and s1: "s1 = s\<lparr>lk_map := put_entry i m es, lk_next := m + 1\<rparr>"
    using assms(2) False by (auto simp: lock_arc_def es_def Let_def split: option.splits if_splits)
  have inv: "entries_ok s" "exclusive_ok s" and h: "\<forall>ts \<in> set (lk_tasks s). handles_ok s ts \<and> phase_ok (tk_phase ts)"
    using assms(1) by (auto simp: lock_inv_def)
  have "distinct (map fst es) \<and> distinct (map snd es) \<and> (\<forall>e \<in> set es. snd e < m)"
    using inv(1) by (auto simp: es_def entries_ok_def distinct_map_filter m)
  then have e1: "entries_ok s1" using put_entry_ok [of es m i] by (simp add: entries_ok_def s1)
  have "map_of (lk_map s1) j = Some k" if "ts \<in> set (lk_tasks s)" "(j, k) \<in> set (handles ts)" for ts j k
  proof -
    have jk: "map_of (lk_map s) j = Some k" using h that by (auto simp: handles_ok_def)
    moreover have k: "strong s k" using handle_strong [OF that] .
    ultimately have "j \<noteq> i" using False by auto
    moreover have "map_of es j = Some k"
      using map_of_filter_snd [of "lk_map s" j k "strong s"] inv(1) jk k by (auto simp: es_def entries_ok_def)
    ultimately show ?thesis by (simp add: s1)
  qed
  then have "\<forall>ts \<in> set (lk_tasks s1). handles_ok s1 ts \<and> phase_ok (tk_phase ts)"
    using h by (auto simp: handles_ok_def s1)
  moreover have "exclusive_ok s1" using inv(2) by (simp add: exclusive_ok_def s1)
  ultimately show ?thesis using e1 by (simp add: lock_inv_def s1)
qed

section \<open>Every step keeps it\<close>

lemma sorted_to_take: "sorted_wrt (<) (to_take ts ids)"
  unfolding to_take_def by (simp add: strict_sorted_iff)

text \<open>A step that only rearranges or gives up what the task had.\<close>

lemma inv_same_handles:
  assumes "lock_inv s" and "t < length (lk_tasks s)" and "set (handles ts) \<subseteq> set (handles (lk_tasks s ! t))"
    and "set (guards ts) \<subseteq> set (guards (lk_tasks s ! t))" and "phase_ok (tk_phase ts)"
  shows "lock_inv (set_task t ts s)"
proof (rule inv_set_task [OF assms(1,2)])
  show "handles_ok s ts" using nth_task [OF assms(1,2)] assms(3) by (auto simp: handles_ok_def)
qed (use assms(4,5) in auto)

lemma inv_begin_hold: "lock_inv s \<Longrightarrow> runs s t \<Longrightarrow> lock_inv (begin_hold t ids s)"
  unfolding begin_hold_def Let_def runs_def
  by (rule inv_same_handles) (auto simp: handles_def guards_def sorted_to_take)

lemma inv_begin_lock: "lock_inv s \<Longrightarrow> runs s t \<Longrightarrow> lock_inv (begin_lock t i s)"
  unfolding begin_lock_def Let_def runs_def
  by (cases "is_held (lk_tasks s ! t) i") (auto intro!: inv_same_handles simp: handles_def guards_def)

lemma mem_tl: "x \<in> set (tl xs) \<Longrightarrow> x \<in> set xs"
  by (cases xs) auto

lemma inv_end_hold: "lock_inv s \<Longrightarrow> runs s t \<Longrightarrow> lock_inv (end_hold t s)"
  unfolding end_hold_def Let_def runs_def
  by (rule inv_same_handles) (auto simp: handles_def guards_def dest: mem_tl)

lemma inv_drop_guard: "lock_inv s \<Longrightarrow> runs s t \<Longrightarrow> lock_inv (drop_guard t g s)"
  unfolding drop_guard_def Let_def runs_def
  by (rule inv_same_handles) (auto simp: handles_def guards_def)

lemma inv_finish: "lock_inv s \<Longrightarrow> t < length (lk_tasks s) \<Longrightarrow> lock_inv (finish_acquire t s)"
  unfolding finish_acquire_def Let_def
  by (auto intro!: inv_same_handles simp: handles_def guards_def split: phase.split purpose.split list.split)

lemma inv_await:
  assumes "lock_inv s" and "t < length (lk_tasks s)"
  shows "lock_inv (await_next t s)"
proof (cases "\<exists>p i ids got. tk_phase (lk_tasks s ! t) = Acquiring p (i # ids) got")
  case True
  then obtain p i ids got where ph: "tk_phase (lk_tasks s ! t) = Acquiring p (i # ids) got" by blast
  obtain m s1 where l: "lock_arc i s = (m, s1)" by fastforce
  note ok = lock_arc_ok [OF assms(1) l]
  let ?ts = "(lk_tasks s ! t)\<lparr>tk_phase := Waiting p i m ids got\<rparr>"
  have "lock_inv (set_task t ?ts s1)"
  proof (rule inv_set_task)
    show "handles_ok s1 ?ts"
      using nth_task [of s1 t] ok assms(2) ph by (auto simp: handles_ok_def handles_def guards_def)
  qed (use ok assms(2) nth_task [OF assms] ph in \<open>auto simp: guards_def\<close>)
  then show ?thesis using ph l by (simp add: await_next_def)
next
  case False
  then have "await_next t s = s" by (auto simp: await_next_def Let_def split: phase.split list.split)
  with assms show ?thesis by simp
qed

lemma inv_obtain:
  assumes "lock_inv s" and "t < length (lk_tasks s)"
  shows "lock_inv (obtain_lock t s)"
proof (cases "\<exists>p i m ids got. tk_phase (lk_tasks s ! t) = Waiting p i m ids got \<and> \<not> owned s m")
  case True
  then obtain p i m ids got where ph: "tk_phase (lk_tasks s ! t) = Waiting p i m ids got" and free: "\<not> owned s m" by blast
  let ?ts = "(lk_tasks s ! t)\<lparr>tk_phase := Acquiring p ids (got @ [(i, m)])\<rparr>"
  have "lock_inv (set_task t ?ts s)"
  proof (rule inv_set_task [OF assms])
    show "handles_ok s ?ts"
      using nth_task [OF assms] ph by (auto simp: handles_ok_def handles_def guards_def)
  qed (use nth_task [OF assms] ph free in \<open>auto simp: guards_def\<close>)
  then show ?thesis using ph free by (simp add: obtain_lock_def)
next
  case False
  then have "obtain_lock t s = s" by (auto simp: obtain_lock_def Let_def split: phase.split)
  with assms show ?thesis by simp
qed

lemma inv_try:
  assumes "lock_inv s" and "runs s t"
  shows "lock_inv (snd (try_lock t i s))"
proof -
  obtain m s1 where l: "lock_arc i s = (m, s1)" by fastforce
  note ok = lock_arc_ok [OF assms(1) l]
  let ?ts = "(lk_tasks s ! t)\<lparr>tk_loose := (i, m) # tk_loose (lk_tasks s ! t)\<rparr>"
  have "lock_inv (set_task t ?ts s1)" if "\<not> owned s1 m"
  proof (rule inv_set_task)
    show "handles_ok s1 ?ts"
      using nth_task [of s1 t] ok assms(2) by (auto simp: handles_ok_def handles_def guards_def runs_def)
  qed (use ok assms(2) that nth_task [of s1 t] in \<open>auto simp: guards_def runs_def\<close>)
  with ok l assms(1) show ?thesis by (simp add: try_lock_def Let_def)
qed

lemmas inv_steps = inv_begin_hold inv_begin_lock inv_try inv_await inv_obtain inv_finish inv_end_hold inv_drop_guard

lemma lock_step_inv: "lock_step s s' \<Longrightarrow> lock_inv s \<Longrightarrow> lock_inv s'"
  by (cases rule: lock_step.cases) (auto intro: inv_steps)

lemma new_locks_inv: "lock_inv (new_locks n)"
  by (simp add: lock_inv_def entries_ok_def handles_ok_def exclusive_ok_def new_locks_def idle_task_def handles_def guards_def)

lemma lock_reachable_inv: "lock_reachable s \<Longrightarrow> lock_inv s"
  by (induction rule: lock_reachable.induct) (auto intro: new_locks_inv lock_step_inv)

section \<open>Properties\<close>

lemma guard_entry:
  assumes "lock_inv s" and "t < length (lk_tasks s)" and "(i, m) \<in> set (handles (lk_tasks s ! t))"
  shows "map_of (lk_map s) i = Some m"
  using nth_task [OF assms(1,2)] assms(3) by (auto simp: handles_ok_def)

definition holds_id :: "lock_state \<Rightarrow> nat \<Rightarrow> uuid \<Rightarrow> bool" where
  "holds_id s t i \<longleftrightarrow> i \<in> fst ` set (guards (lk_tasks s ! t))"

lemma one_holder:
  assumes "lock_inv s" and "a < length (lk_tasks s)" and "b < length (lk_tasks s)"
    and "holds_id s a i" and "holds_id s b i"
  shows "a = b"
proof (rule ccontr)
  assume "a \<noteq> b"
  note inv = assms(1)
  from assms(4,5) obtain m k where "(i, m) \<in> set (guards (lk_tasks s ! a))" "(i, k) \<in> set (guards (lk_tasks s ! b))"
    by (auto simp: holds_id_def)
  moreover have "map_of (lk_map s) i = Some m"
    using calculation(1) guards_are_handles by (intro guard_entry [OF inv assms(2)]) blast
  moreover have "map_of (lk_map s) i = Some k"
    using calculation(2) guards_are_handles by (intro guard_entry [OF inv assms(3)]) blast
  ultimately have "m \<in> snd ` set (guards (lk_tasks s ! a)) \<inter> snd ` set (guards (lk_tasks s ! b))" by force
  with inv assms(2,3) \<open>a \<noteq> b\<close> show False by (auto simp: lock_inv_def exclusive_ok_def)
qed

lemmas lock_eval = begin_hold_def finish_acquire_def obtain_lock_def await_next_def try_lock_def
  lock_arc_def set_task_def to_take_def is_held_def new_locks_def idle_task_def owned_def strong_def guards_def
  handles_def put_entry_def prune_threshold_def runs_def holds_id_def Let_def numeral_2_eq_2

text \<open>While another task holds an id, a try-lock is refused.\<close>

lemma try_lock_refused:
  assumes "lock_inv s" and "a < length (lk_tasks s)" and "b < length (lk_tasks s)" and "a \<noteq> b" and "holds_id s a i"
  shows "\<not> fst (try_lock b i s)"
proof -
  obtain m s1 where l: "lock_arc i s = (m, s1)" by fastforce
  note ok = lock_arc_ok [OF assms(1) l]
  have "\<not> is_held (lk_tasks s ! b) i"
    using one_holder [OF assms(1,2,3,5)] assms(4) by (auto simp: holds_id_def is_held_def guards_def)
  moreover obtain k where k: "(i, k) \<in> set (guards (lk_tasks s1 ! a))" using assms(5) ok by (auto simp: holds_id_def)
  have "map_of (lk_map s1) i = Some k"
    by (rule guard_entry [of s1 a]) (use ok assms(2) k guards_are_handles in auto)
  then have "owned s1 m" using k ok assms(2) by (force simp: owned_iff)
  ultimately show ?thesis using l by (simp add: try_lock_def)
qed

text \<open>
  C12: two tasks never hold the lock of one dataset at the same time, in whatever order holds,
  plain locks and try-locks of any tasks interleave, and although the registry drops and
  re-creates the mutexes nobody uses.
\<close>

theorem locks_exclude:
  assumes "lock_reachable s" and "a < length (lk_tasks s)" and "b < length (lk_tasks s)"
    and "holds_id s a i" and "holds_id s b i"
  shows "a = b"
  using one_holder [OF lock_reachable_inv [OF assms(1)] assms(2-5)] .

text \<open>Task 0 holds dataset 5.\<close>

definition sample_locks :: lock_state where
  "sample_locks = finish_acquire 0 (obtain_lock 0 (await_next 0 (begin_hold 0 [5] (new_locks 2))))"

lemma sample_locks_reachable: "lock_reachable sample_locks"
proof -
  have 1: "lock_reachable (begin_hold 0 [5] (new_locks 2))"
    by (rule lock_reachable.step [OF lock_reachable.start lock_step.hold]) (simp add: lock_eval)
  have 2: "lock_reachable (await_next 0 (begin_hold 0 [5] (new_locks 2)))"
    by (rule lock_reachable.step [OF 1 lock_step.await]) (simp add: lock_eval)
  have 3: "lock_reachable (obtain_lock 0 (await_next 0 (begin_hold 0 [5] (new_locks 2))))"
    by (rule lock_reachable.step [OF 2 lock_step.obtain_it]) (simp add: lock_eval)
  show ?thesis unfolding sample_locks_def
    by (rule lock_reachable.step [OF 3 lock_step.finish]) (simp add: lock_eval)
qed

theorem locks_exclude_witness:
  "holds_id sample_locks 0 5 \<and> \<not> holds_id sample_locks 1 5"
proof -
  have "holds_id sample_locks 0 5" "0 < length (lk_tasks sample_locks)" "1 < length (lk_tasks sample_locks)"
    by (simp_all add: sample_locks_def lock_eval)
  with locks_exclude [OF sample_locks_reachable, of 0 1 5] show ?thesis by (metis zero_neq_one)
qed

text \<open>
  C19: no deadlock: as long as a task that acquires holds nothing from before (no lock is taken
  inside a \<open>hold\<close> of other datasets), every chain of waiting tasks ends in a task that owns a
  lock and is not itself waiting for an owned one, since ids are taken in ascending order.
\<close>

definition stuck :: "lock_state \<Rightarrow> nat \<Rightarrow> bool" where
  "stuck s t \<longleftrightarrow> (case tk_phase (lk_tasks s ! t) of Waiting p i m ids got \<Rightarrow> owned s m | _ \<Rightarrow> False)"

definition flat :: "task_state \<Rightarrow> bool" where
  "flat ts \<longleftrightarrow> tk_phase ts = Running \<or> tk_frames ts = [] \<and> tk_loose ts = []"

definition awaited :: "task_state \<Rightarrow> uuid" where
  "awaited ts = (case tk_phase ts of Waiting p i m ids got \<Rightarrow> i | _ \<Rightarrow> 0)"

lemma stuck_owner:
  assumes "lock_inv s" and "t < length (lk_tasks s)" and "stuck s t"
  obtains u where "u < length (lk_tasks s)" and "holds_id s u (awaited (lk_tasks s ! t))"
proof -
  from assms(3) obtain p i m ids got where ph: "tk_phase (lk_tasks s ! t) = Waiting p i m ids got" and "owned s m"
    by (auto simp: stuck_def split: phase.splits)
  then obtain u j where u: "u < length (lk_tasks s)" and g: "(j, m) \<in> set (guards (lk_tasks s ! u))"
    by (auto simp: owned_iff)
  have j: "map_of (lk_map s) j = Some m" using guard_entry [OF assms(1) u] g guards_are_handles by blast
  have i: "map_of (lk_map s) i = Some m" by (rule guard_entry [OF assms(1,2)]) (simp add: handles_def ph)
  have "(j, m) \<in> set (lk_map s)" "(i, m) \<in> set (lk_map s)" using i j by (auto dest: map_of_SomeD)
  moreover have "inj_on snd (set (lk_map s))" using assms(1) by (simp add: lock_inv_def entries_ok_def distinct_map)
  ultimately have "(j, m) = (i, m)" using inj_onD [of snd "set (lk_map s)" "(j, m)" "(i, m)"] by simp
  with g u show thesis by (intro that) (force simp: holds_id_def awaited_def ph)+
qed

theorem waits_end:
  assumes "lock_reachable s" and "list_all flat (lk_tasks s)" and "t < length (lk_tasks s)" and "stuck s t"
  shows "\<exists>u. u < length (lk_tasks s) \<and> \<not> stuck s u \<and> guards (lk_tasks s ! u) \<noteq> []"
proof (rule ccontr)
  assume none: "\<not> ?thesis"
  note inv = lock_reachable_inv [OF assms(1)]
  let ?S = "{t. t < length (lk_tasks s) \<and> stuck s t}"
  have "finite ((\<lambda>t. awaited (lk_tasks s ! t)) ` ?S)" and "(\<lambda>t. awaited (lk_tasks s ! t)) ` ?S \<noteq> {}"
    using assms(3,4) by auto
  from Max_in [OF this] obtain v where v: "v < length (lk_tasks s)" "stuck s v"
    and top: "awaited (lk_tasks s ! v) = Max ((\<lambda>t. awaited (lk_tasks s ! t)) ` ?S)" by auto
  obtain u where u: "u < length (lk_tasks s)" and h: "holds_id s u (awaited (lk_tasks s ! v))"
    using stuck_owner [OF inv v] .
  have "stuck s u" using none u h by (auto simp: holds_id_def)
  then obtain p i m ids got where ph: "tk_phase (lk_tasks s ! u) = Waiting p i m ids got"
    by (auto simp: stuck_def split: phase.splits)
  then have "guards (lk_tasks s ! u) = got"
    using assms(2) u by (auto simp: list_all_length flat_def guards_def)
  with h nth_task [OF inv u] ph have "awaited (lk_tasks s ! v) < awaited (lk_tasks s ! u)"
    by (auto simp: holds_id_def awaited_def)
  moreover have "awaited (lk_tasks s ! u) \<le> Max ((\<lambda>t. awaited (lk_tasks s ! t)) ` ?S)"
    using u \<open>stuck s u\<close> by (intro Max_ge) auto
  ultimately show False by (simp add: top)
qed

theorem waits_end_witness:
  "\<exists>s u. lock_reachable s \<and> stuck s 1 \<and> \<not> stuck s u \<and> guards (lk_tasks s ! u) \<noteq> []"
proof -
  let ?s = "await_next 1 (begin_hold 1 [5] sample_locks)"
  have 1: "lock_reachable (begin_hold 1 [5] sample_locks)"
    by (rule lock_reachable.step [OF sample_locks_reachable lock_step.hold]) (simp add: sample_locks_def lock_eval)
  have r: "lock_reachable ?s"
    by (rule lock_reachable.step [OF 1 lock_step.await]) (simp add: sample_locks_def lock_eval)
  have "list_all flat (lk_tasks ?s)" "1 < length (lk_tasks ?s)" "stuck ?s 1"
    by (simp_all add: sample_locks_def lock_eval flat_def stuck_def)
  from waits_end [OF r this] r \<open>stuck ?s 1\<close> show ?thesis by blast
qed

end
