(* ===== verification/Recovery.thy ===== *)
theory Recovery
  imports Rollback Dataset_Locks
begin

text \<open>
  Recovering the runs a killed process left in flight: \<open>crates/delete/src/startup_recovery.rs\<close>.

  The shared state is what other tasks and processes see too: the stores and the run trail, the
  ownership markers, the dataset locks of this process. Between two candidates others may change
  it in any way: \<open>others\<close>.
\<close>

section \<open>State\<close>

record ('g, 'v) shared =
  sh_run :: "('g, 'v) run_world"
  sh_fs :: marker_fs
  sh_locks :: lock_state

record recovery_report =
  rr_candidates :: nat
  rr_recovered :: nat
  rr_skipped_young :: nat
  rr_skipped_dataset_locked :: nat
  rr_skipped_unverifiable :: nat
  rr_already_terminal :: nat
  rr_skipped_missing_dataset :: nat
  rr_failed :: nat
  rr_graph_nodes_deleted :: nat
  rr_vector_points_deleted :: nat

text \<open>
  What recovery is handed: renderings, the row order of the database and of a drained hash map,
  the clock, the age floor (with the range of durations and times), and its own task.
\<close>

record recovery_env =
  rx_run :: run_env
  rx_tie :: tie_order
  rx_map_order :: tie_order
  rx_now :: int
  rx_min_age :: int
  rx_max_duration :: int
  rx_min_utc :: int
  rx_self :: nat

definition cognify_pipeline_name :: str where
  "cognify_pipeline_name = lit ''cognify_pipeline''"

definition abandoned_run_error :: str where
  "abandoned_run_error = lit ''AbandonedPipelineRunError: Pipeline run was abandoned: '' @
     lit ''its process stopped before the run finished. Startup recovery rolled the run back; re-run '' @
     lit ''the pipeline. (Status code: 500)''"

definition no_report :: recovery_report where
  "no_report = \<lparr>rr_candidates = 0, rr_recovered = 0, rr_skipped_young = 0, rr_skipped_dataset_locked = 0,
     rr_skipped_unverifiable = 0, rr_already_terminal = 0, rr_skipped_missing_dataset = 0, rr_failed = 0,
     rr_graph_nodes_deleted = 0, rr_vector_points_deleted = 0\<rparr>"

text \<open>\<open>DeleteDb::get_dataset_by_id\<close>, a lookup by primary key.\<close>

definition get_dataset_by_id :: "uuid \<Rightarrow> dataset_row option run_action" where
  "get_dataset_by_id i = query (\<lambda>t. find (\<lambda>d. ds_id d = i) (rt_datasets t))"

text \<open>An age too large to represent means nothing is old enough.\<close>

definition recovery_cutoff :: "recovery_env \<Rightarrow> int" where
  "recovery_cutoff X =
     (if rx_min_age X \<le> rx_max_duration X \<and> rx_min_utc X \<le> rx_now X - rx_min_age X
      then rx_now X - rx_min_age X else rx_min_utc X)"

section \<open>One candidate\<close>

text \<open>A step on a claimed run returns whether its marker may be closed.\<close>

type_synonym ('g, 'v) claimed_step =
  "('g, 'v) run_world \<times> recovery_report \<Rightarrow> bool \<times> ('g, 'v) run_world \<times> recovery_report"

definition close_orphan :: "recovery_env \<Rightarrow> uuid \<Rightarrow> pipeline_run \<Rightarrow> ('g, 'v) claimed_step" where
  "close_orphan X dataset_id current st =
     (let (s, rep) = st in
      case reset_orphan_run (rx_tie X) dataset_id (pr_name current) (pr_id current) abandoned_run_error (rn_runs s) of
        (Inr False, d) \<Rightarrow> (True, s\<lparr>rn_runs := d\<rparr>, rep\<lparr>rr_already_terminal := rr_already_terminal rep + 1\<rparr>)
      | (Inr True, d) \<Rightarrow> (True, s\<lparr>rn_runs := d\<rparr>, rep\<lparr>rr_recovered := rr_recovered rep + 1\<rparr>)
      | (Inl e, d) \<Rightarrow> (False, s\<lparr>rn_runs := d\<rparr>, rep\<lparr>rr_failed := rr_failed rep + 1\<rparr>))"

definition roll_back_orphan ::
  "recovery_env \<Rightarrow> ('g, 'v) delete_env \<Rightarrow> uuid \<Rightarrow> pipeline_run \<Rightarrow> ('g, 'v) claimed_step" where
  "roll_back_orphan X E dataset_id current st =
     (let (s, rep) = st in
      if pr_name current = cognify_pipeline_name then
        (let (outcome, w) = sweep_logging_failure E (whole_run (pr_run_id current) dataset_id) (rn_world s);
             s1 = s\<lparr>rn_world := w\<rparr>;
             rep1 = rep\<lparr>rr_graph_nodes_deleted := rr_graph_nodes_deleted rep + so_graph_nodes outcome,
                        rr_vector_points_deleted := rr_vector_points_deleted rep + so_vector_points outcome\<rparr> in
         if so_warnings outcome \<noteq> [] then (False, s1, rep1\<lparr>rr_failed := rr_failed rep1 + 1\<rparr>)
         else close_orphan X dataset_id current (s1, rep1))
      else close_orphan X dataset_id current (s, rep))"

text \<open>The marker is claimed: re-read the run, check its dataset, roll back, close.\<close>

definition recover_claimed ::
  "recovery_env \<Rightarrow> ('g, 'v) delete_env \<Rightarrow> uuid \<Rightarrow> pipeline_run \<Rightarrow> ('g, 'v) claimed_step" where
  "recover_claimed X E dataset_id candidate st =
     (let (s, rep) = st in
      case get_pipeline_run (rx_tie X) (pr_run_id candidate) (rn_runs s) of
        (Inl e, d) \<Rightarrow> (False, s\<lparr>rn_runs := d\<rparr>, rep\<lparr>rr_failed := rr_failed rep + 1\<rparr>)
      | (Inr found, d) \<Rightarrow>
          (case (case found of Some c \<Rightarrow> if pr_status c = Started then Some c else None | None \<Rightarrow> None) of
             None \<Rightarrow> (True, s\<lparr>rn_runs := d\<rparr>, rep\<lparr>rr_already_terminal := rr_already_terminal rep + 1\<rparr>)
           | Some current \<Rightarrow>
               (case get_dataset_by_id dataset_id d of
                  (Inl e, d') \<Rightarrow> (False, s\<lparr>rn_runs := d'\<rparr>, rep\<lparr>rr_failed := rr_failed rep + 1\<rparr>)
                | (Inr None, d') \<Rightarrow>
                    (False, s\<lparr>rn_runs := d'\<rparr>, rep\<lparr>rr_skipped_missing_dataset := rr_skipped_missing_dataset rep + 1\<rparr>)
                | (Inr (Some _), d') \<Rightarrow> roll_back_orphan X E dataset_id current (s\<lparr>rn_runs := d'\<rparr>, rep))))"

definition recover_one ::
  "recovery_env \<Rightarrow> ('g, 'v) delete_env \<Rightarrow> pipeline_run \<Rightarrow> ('g, 'v) shared \<times> recovery_report
   \<Rightarrow> ('g, 'v) shared \<times> recovery_report" where
  "recover_one X E candidate st =
     (let (sh, rep) = st in
      if recovery_cutoff X < pr_created_at candidate
      then (sh, rep\<lparr>rr_skipped_young := rr_skipped_young rep + 1\<rparr>)
      else case pr_dataset_id candidate of
        None \<Rightarrow> (sh, rep\<lparr>rr_skipped_unverifiable := rr_skipped_unverifiable rep + 1\<rparr>)
      | Some dataset_id \<Rightarrow>
          (let (got, locks) = try_lock (rx_self X) dataset_id (sh_locks sh);
               mine = tk_loose (lk_tasks (sh_locks sh) ! rx_self X);
               unlock = (\<lambda>ls. set_task (rx_self X) ((lk_tasks ls ! rx_self X)\<lparr>tk_loose := mine\<rparr>) ls) in
           if \<not> got then (sh\<lparr>sh_locks := locks\<rparr>, rep\<lparr>rr_skipped_dataset_locked := rr_skipped_dataset_locked rep + 1\<rparr>)
           else case recovery_lock_of (re_parse_uuid (rx_run X)) (pr_run_info candidate) of
             None \<Rightarrow> (sh\<lparr>sh_locks := unlock locks\<rparr>, rep\<lparr>rr_skipped_unverifiable := rr_skipped_unverifiable rep + 1\<rparr>)
           | Some token \<Rightarrow>
               (case claim token (sh_fs sh) of
                  None \<Rightarrow> (sh\<lparr>sh_locks := unlock locks\<rparr>, rep\<lparr>rr_skipped_unverifiable := rr_skipped_unverifiable rep + 1\<rparr>)
                | Some (o1, fs) \<Rightarrow>
                    (let (closed, s, rep1) = recover_claimed X E dataset_id candidate (sh_run sh, rep);
                         o2 = (if closed then mark_closed o1 else o1) in
                     (sh\<lparr>sh_run := s, sh_fs := drop_ownership o2 fs, sh_locks := unlock locks\<rparr>, rep1)))))"

section \<open>The pass\<close>

fun recover_each ::
  "recovery_env \<Rightarrow> ('g, 'v) delete_env \<Rightarrow> (pipeline_run \<Rightarrow> ('g, 'v) shared \<Rightarrow> ('g, 'v) shared)
   \<Rightarrow> pipeline_run list \<Rightarrow> ('g, 'v) shared \<times> recovery_report \<Rightarrow> ('g, 'v) shared \<times> recovery_report" where
  "recover_each X E others [] st = st"
| "recover_each X E others (c # cs) st =
     recover_each X E others cs (recover_one X E c (others c (fst st), snd st))"

definition recover_stale_pipeline_runs ::
  "recovery_env \<Rightarrow> ('g, 'v) delete_env \<Rightarrow> (pipeline_run \<Rightarrow> ('g, 'v) shared \<Rightarrow> ('g, 'v) shared)
   \<Rightarrow> ('g, 'v) shared \<Rightarrow> ('g, 'v) shared \<times> recovery_report" where
  "recover_stale_pipeline_runs X E others sh =
     (case list_unterminated_runs (rx_tie X) (rx_map_order X) (rn_runs (sh_run sh)) of
        (Inl e, d) \<Rightarrow> (sh\<lparr>sh_run := (sh_run sh)\<lparr>rn_runs := d\<rparr>\<rparr>, no_report)
      | (Inr candidates, d) \<Rightarrow>
          recover_each X E others candidates
            (sh\<lparr>sh_run := (sh_run sh)\<lparr>rn_runs := d\<rparr>\<rparr>, no_report\<lparr>rr_candidates := length candidates\<rparr>))"

section \<open>What one candidate does\<close>

definition handled :: "recovery_report \<Rightarrow> nat" where
  "handled rep = rr_recovered rep + rr_skipped_young rep + rr_skipped_dataset_locked rep + rr_skipped_unverifiable rep
     + rr_already_terminal rep + rr_skipped_missing_dataset rep + rr_failed rep"

lemma close_orphan_counts:
  "close_orphan X ds cur (s, rep) = (b, s', rep') \<Longrightarrow> handled rep' = handled rep + 1 \<and> rr_candidates rep' = rr_candidates rep"
  by (auto simp: close_orphan_def handled_def split: prod.splits sum.splits bool.splits)

lemma roll_back_counts:
  "roll_back_orphan X E ds cur (s, rep) = (b, s', rep') \<Longrightarrow> handled rep' = handled rep + 1 \<and> rr_candidates rep' = rr_candidates rep"
  by (auto simp: roll_back_orphan_def handled_def Let_def split: prod.splits if_splits dest!: close_orphan_counts)

lemma claimed_counts:
  "recover_claimed X E ds c (s, rep) = (b, s', rep') \<Longrightarrow> handled rep' = handled rep + 1 \<and> rr_candidates rep' = rr_candidates rep"
  by (auto simp: recover_claimed_def handled_def split: prod.splits sum.splits option.splits if_splits dest!: roll_back_counts)

lemma recover_one_counts:
  "recover_one X E c (sh, rep) = (sh', rep') \<Longrightarrow> handled rep' = handled rep + 1 \<and> rr_candidates rep' = rr_candidates rep"
  by (auto simp: recover_one_def handled_def Let_def split: prod.splits option.splits if_splits dest!: claimed_counts)

lemma recover_each_counts:
  "recover_each X E others cs (sh, rep) = (sh', rep') \<Longrightarrow>
     handled rep' = handled rep + length cs \<and> rr_candidates rep' = rr_candidates rep"
proof (induction cs arbitrary: sh rep)
  case (Cons c cs)
  obtain sh1 rep1 where "recover_one X E c (others c sh, rep) = (sh1, rep1)" by fastforce
  with Cons.IH [of sh1 rep1] Cons.prems recover_one_counts [OF this] show ?case by simp
qed simp

text \<open>What it takes for a candidate to be touched at all.\<close>

definition provably_abandoned :: "recovery_env \<Rightarrow> pipeline_run \<Rightarrow> ('g, 'v) shared \<Rightarrow> bool" where
  "provably_abandoned X c sh \<longleftrightarrow> pr_created_at c \<le> recovery_cutoff X
     \<and> (\<exists>ds. pr_dataset_id c = Some ds \<and> fst (try_lock (rx_self X) ds (sh_locks sh)))
     \<and> (\<exists>token. recovery_lock_of (re_parse_uuid (rx_run X)) (pr_run_info c) = Some token \<and> claim token (sh_fs sh) \<noteq> None)"

lemma recover_one_untouched:
  assumes "recover_one X E c (sh, rep) = (sh', rep')" and "\<not> provably_abandoned X c sh"
  shows "sh_run sh' = sh_run sh \<and> sh_fs sh' = sh_fs sh"
  using assms by (auto simp: recover_one_def provably_abandoned_def Let_def split: prod.splits option.splits if_splits)

lemma recover_one_claimed:
  assumes "recover_one X E c (sh, rep) = (sh', rep')" and "provably_abandoned X c sh"
  obtains ds token o1 fs closed s rep1 where "pr_dataset_id c = Some ds"
    and "recovery_lock_of (re_parse_uuid (rx_run X)) (pr_run_info c) = Some token"
    and "claim token (sh_fs sh) = Some (o1, fs)" and "recover_claimed X E ds c (sh_run sh, rep) = (closed, s, rep1)"
    and "sh_run sh' = s" and "sh_fs sh' = drop_ownership (if closed then mark_closed o1 else o1) fs" and "rep' = rep1"
  using assms by (auto simp: recover_one_def provably_abandoned_def Let_def split: prod.splits option.splits if_splits)

section \<open>Rolled back, then closed\<close>

abbreviation trail_of :: "('g, 'v) run_world \<Rightarrow> run_tables" where
  "trail_of s \<equiv> db_tables (rn_runs s)"

text \<open>The sweep of the whole run returned without a warning.\<close>

definition swept_by :: "('g, 'v) delete_env \<Rightarrow> run_scope \<Rightarrow> ('g, 'v) world \<Rightarrow> ('g, 'v) world \<Rightarrow> bool" where
  "swept_by E sc w w' \<longleftrightarrow> (\<exists>out. sweep E sc w = (Inr out, w'))"

definition closed_after_rollback ::
  "('g, 'v) delete_env \<Rightarrow> uuid \<Rightarrow> pipeline_run \<Rightarrow> ('g, 'v) run_world \<Rightarrow> ('g, 'v) run_world \<Rightarrow> bool" where
  "closed_after_rollback E ds cur s s' \<longleftrightarrow>
     trail_of s' = with_row (closing_entry cur abandoned_run_error) (trail_of s)
     \<and> (if pr_name cur = cognify_pipeline_name
        then swept_by E (whole_run (pr_run_id cur) ds) (rn_world s) (rn_world s') else rn_world s' = rn_world s)"

lemma close_orphan_rows:
  assumes "close_orphan X ds cur (s, rep) = (b, s', rep')" and "trail_ok (trail_of s)" and "any_order (rx_tie X)"
    and "latest_of_run (trail_of s) cur" and "in_flight cur"
  shows "rn_world s' = rn_world s
    \<and> (trail_of s' = trail_of s \<and> rr_recovered rep' = rr_recovered rep
       \<or> trail_of s' = with_row (closing_entry cur abandoned_run_error) (trail_of s) \<and> b
           \<and> rr_recovered rep' = rr_recovered rep + 1)"
proof -
  have mem: "cur \<in> set (rt_runs (trail_of s))" using assms(4) by (simp add: latest_of_run_def)
  obtain r d where r: "reset_orphan_run (rx_tie X) ds (pr_name cur) (pr_id cur) abandoned_run_error (rn_runs s) = (r, d)" by fastforce
  show ?thesis
  proof (cases r)
    case (Inl e)
    with assms(1) r reset_err [OF r [unfolded Inl]] show ?thesis by (auto simp: close_orphan_def)
  next
    case (Inr closed)
    with assms(1) r reset_ok [OF assms(2,3) mem r [unfolded Inr]] show ?thesis
      by (cases closed) (auto simp: close_orphan_def)
  qed
qed

lemma quiet_sweep:
  assumes "sweep_logging_failure E sc w = (out, w')" and "so_warnings out = []"
  shows "swept_by E sc w w'"
  using assms by (auto simp: swept_by_def sweep_logging_failure_def sweep_def split: prod.splits sum.splits)

lemma roll_back_rows:
  assumes "roll_back_orphan X E ds cur (s, rep) = (b, s', rep')" and "trail_ok (trail_of s)" and "any_order (rx_tie X)"
    and "latest_of_run (trail_of s) cur" and "in_flight cur"
  shows "trail_of s' = trail_of s \<and> rr_recovered rep' = rr_recovered rep
    \<or> closed_after_rollback E ds cur s s' \<and> b \<and> rr_recovered rep' = rr_recovered rep + 1"
proof (cases "pr_name cur = cognify_pipeline_name")
  case False
  with assms(1) have "close_orphan X ds cur (s, rep) = (b, s', rep')" by (simp add: roll_back_orphan_def)
  from close_orphan_rows [OF this assms(2-5)] False show ?thesis by (auto simp: closed_after_rollback_def)
next
  case True
  obtain out w where sw: "sweep_logging_failure E (whole_run (pr_run_id cur) ds) (rn_world s) = (out, w)" by fastforce
  show ?thesis
  proof (cases "so_warnings out = []")
    case False
    with True sw assms(1) show ?thesis by (auto simp: roll_back_orphan_def Let_def)
  next
    case quiet: True
    from True sw quiet assms(1) obtain rep1 where c: "close_orphan X ds cur (s\<lparr>rn_world := w\<rparr>, rep1) = (b, s', rep')"
      and "rr_recovered rep1 = rr_recovered rep" by (auto simp: roll_back_orphan_def Let_def)
    with close_orphan_rows [OF c] assms(2-5) quiet_sweep [OF sw quiet] True show ?thesis
      by (auto simp: closed_after_rollback_def)
  qed
qed

lemma get_dataset_reads: "get_dataset_by_id i db = (r, db') \<Longrightarrow> db_tables db' = db_tables db"
  by (cases r) (auto simp: get_dataset_by_id_def dest: query_ok query_err)

lemma claimed_rows:
  assumes "recover_claimed X E ds c (s, rep) = (b, s', rep')" and "trail_ok (trail_of s)" and "any_order (rx_tie X)"
  shows "trail_of s' = trail_of s \<and> rr_recovered rep' = rr_recovered rep
    \<or> (\<exists>cur. latest_of_run (trail_of s) cur \<and> pr_run_id cur = pr_run_id c \<and> pr_status cur = Started
         \<and> closed_after_rollback E ds cur s s' \<and> b \<and> rr_recovered rep' = rr_recovered rep + 1)"
proof -
  obtain r d where g: "get_pipeline_run (rx_tie X) (pr_run_id c) (rn_runs s) = (r, d)" by fastforce
  have d: "db_tables d = trail_of s"
    using g by (cases r) (auto simp: get_pipeline_run_def dest: query_ok query_err)
  show ?thesis
  proof (cases "\<exists>cur. r = Inr (Some cur) \<and> pr_status cur = Started")
    case False
    with assms(1) g d show ?thesis by (auto simp: recover_claimed_def split: sum.splits option.splits if_splits)
  next
    case True
    then obtain cur where cur: "r = Inr (Some cur)" "pr_status cur = Started" by blast
    have latest: "latest_of_run (trail_of s) cur" and run: "pr_run_id cur = pr_run_id c"
      using get_pipeline_run_ok [OF g [unfolded cur] assms(3)] trail_latest [OF assms(2)] by auto
    obtain q d' where q: "get_dataset_by_id ds d = (q, d')" by fastforce
    note d' = get_dataset_reads [OF q, unfolded d]
    show ?thesis
    proof (cases "\<exists>row. q = Inr (Some row)")
      case False
      with assms(1) g cur q d' show ?thesis by (auto simp: recover_claimed_def split: sum.splits option.splits)
    next
      case True
      with assms(1) g cur q have rb: "roll_back_orphan X E ds cur (s\<lparr>rn_runs := d'\<rparr>, rep) = (b, s', rep')"
        by (auto simp: recover_claimed_def)
      have "closed_after_rollback E ds cur (s\<lparr>rn_runs := d'\<rparr>) s' = closed_after_rollback E ds cur s s'"
        by (simp add: closed_after_rollback_def d')
      with roll_back_rows [OF rb] d' assms(2,3) latest run cur show ?thesis by (auto simp: in_flight_def)
    qed
  qed
qed

text \<open>A swept run owns no row, and nothing that only its rows named is left.\<close>

lemma swept_by_clean:
  assumes "delete_env_laws E nodes_of points_of" and "swept_by E sc w w'"
  shows "filter (in_scope sc) (l_nodes (tables w')) = [] \<and> filter (in_scope sc) (l_edges (tables w')) = []
    \<and> (\<forall>n \<in> exclusive sc (l_nodes (tables w)). node_gone E nodes_of points_of w' n)"
proof -
  from assms(2) obtain out where s: "sweep E sc w = (Inr out, w')" by (auto simp: swept_by_def)
  obtain s' where run: "run_in_scope E sc \<lparr>ss_world = w, ss_outcome = no_outcome\<rparr> = (Inr (), s')" and w': "w' = ss_world s'"
    using sweep_run [OF s] by metis
  from delete_env_laws.run_in_scope_ok [OF assms(1) run refl] delete_env_laws.swept_clean_def [OF assms(1)]
  show ?thesis by (auto simp: w' filter_empty_conv)
qed

section \<open>Properties\<close>

text \<open>
  C18: recovery leaves a run alone unless its writer is provably gone: a run younger than the age
  floor, one whose dataset another task of this process holds, one whose row names no marker, and
  one whose marker is missing or still locked keep everything as it is: stores, ownership rows,
  completion markers, the trail and the marker.
\<close>

theorem recovery_spares_live:
  assumes "recover_one X E c (sh, rep) = (sh', rep')"
    and "lock_reachable (sh_locks sh)" and "rx_self X < length (lk_tasks (sh_locks sh))"
    and "recovery_cutoff X < pr_created_at c
      \<or> (\<exists>ds t. pr_dataset_id c = Some ds \<and> t < length (lk_tasks (sh_locks sh)) \<and> t \<noteq> rx_self X \<and> holds_id (sh_locks sh) t ds)
      \<or> recovery_lock_of (re_parse_uuid (rx_run X)) (pr_run_info c) = None
      \<or> (\<exists>token. recovery_lock_of (re_parse_uuid (rx_run X)) (pr_run_info c) = Some token
            \<and> (token \<in> mf_locked (sh_fs sh) \<or> token \<notin> mf_dirs (sh_fs sh)))"
  shows "sh_run sh' = sh_run sh \<and> sh_fs sh' = sh_fs sh"
proof (rule recover_one_untouched [OF assms(1)])
  have "\<not> fst (try_lock (rx_self X) ds (sh_locks sh))"
    if "t < length (lk_tasks (sh_locks sh))" "t \<noteq> rx_self X" "holds_id (sh_locks sh) t ds" for ds t
    using try_lock_refused [OF lock_reachable_inv [OF assms(2)] that(1) assms(3) that(2,3)] .
  with assms(4) show "\<not> provably_abandoned X c sh"
    by (auto simp: provably_abandoned_def claim_def)
qed

text \<open>A small world: a \<open>Started\<close> row of run 7 on dataset 9 that names marker 5.\<close>

definition sample_started :: pipeline_run where
  "sample_started = sample_run 11 5 Started 7 (Some 9) None (Some (run_info_for_started (re_uuid_str sample_run_env) (Some 5)))"

definition sample_recovery_env :: "int \<Rightarrow> recovery_env" where
  "sample_recovery_env now = \<lparr>rx_run = sample_run_env, rx_tie = (\<lambda>xs. xs), rx_map_order = (\<lambda>xs. xs), rx_now = now,
     rx_min_age = 100, rx_max_duration = 1000, rx_min_utc = - 1000, rx_self = 0\<rparr>"

definition sample_shared :: "(graph_mem, nat brute_force) shared" where
  "sample_shared = \<lparr>sh_run = (sample_run_world None)\<lparr>rn_runs :=
       (sample_runs [sample_started])\<lparr>db_tables := (db_tables (sample_runs [sample_started]))\<lparr>rt_datasets := [\<lparr>ds_id = 9, ds_name = [], ds_owner_id = 1, ds_tenant_id = None, ds_created_at = 0\<rparr>]\<rparr>\<rparr>\<rparr>,
     sh_fs = no_markers\<lparr>mf_dirs := {5}, mf_files := {5}\<rparr>, sh_locks = new_locks 2\<rparr>"

lemma sample_token [simp]:
  "recovery_lock_of (re_parse_uuid sample_run_env) (pr_run_info sample_started) = Some 5"
  by (simp add: sample_started_def sample_run_def recovery_lock_of_def run_info_for_started_def sample_run_env_def json_get_def as_str_def)

theorem recovery_spares_live_witness:
  "sh_run (fst (recover_one (sample_recovery_env 50) sample_env sample_started (sample_shared, no_report))) = sh_run sample_shared"
proof -
  obtain sh' rep' where r: "recover_one (sample_recovery_env 50) sample_env sample_started (sample_shared, no_report) = (sh', rep')"
    by fastforce
  have l: "lock_reachable (sh_locks sample_shared)" "rx_self (sample_recovery_env 50) < length (lk_tasks (sh_locks sample_shared))"
    by (simp_all add: sample_shared_def lock_reachable.start sample_recovery_env_def) (simp add: new_locks_def)
  have "recovery_cutoff (sample_recovery_env 50) < pr_created_at sample_started"
    by (simp add: recovery_cutoff_def sample_recovery_env_def sample_started_def sample_run_def)
  with recovery_spares_live [OF r l] r show ?thesis by simp
qed

text \<open>
  C4: rolled back, then closed: whenever recovery of a candidate changes the trail at all, it
  appended one row, the \<open>Errored\<close> successor of the run's latest \<open>Started\<close> row, the run is no
  longer in flight, and by then a cognify run had been swept completely: it owns no ledger row any
  more and every node that only it named is gone from the graph and the vector collections.
\<close>

theorem recovery_rolls_back_first:
  assumes "delete_env_laws E nodes_of points_of" and "recover_one X E c (sh, rep) = (sh', rep')"
    and "trail_ok (trail_of (sh_run sh))" and "any_order (rx_tie X)"
    and "trail_of (sh_run sh') \<noteq> trail_of (sh_run sh)"
  shows "\<exists>cur ds. latest_of_run (trail_of (sh_run sh)) cur \<and> pr_run_id cur = pr_run_id c \<and> pr_status cur = Started
    \<and> trail_of (sh_run sh') = with_row (closing_entry cur abandoned_run_error) (trail_of (sh_run sh))
    \<and> \<not> left_in_flight (trail_of (sh_run sh')) (pr_run_id c) \<and> rr_recovered rep' = rr_recovered rep + 1
    \<and> pr_dataset_id c = Some ds
    \<and> (if pr_name cur = cognify_pipeline_name
       then touched_items (pr_run_id c) ds (tables (rn_world (sh_run sh'))) = {}
         \<and> list_all (\<lambda>n. n \<in> exclusive (whole_run (pr_run_id c) ds) (l_nodes (tables (rn_world (sh_run sh))))
              \<longrightarrow> node_gone E nodes_of points_of (rn_world (sh_run sh')) n) (l_nodes (tables (rn_world (sh_run sh))))
       else rn_world (sh_run sh') = rn_world (sh_run sh))"
proof (cases "provably_abandoned X c sh")
  case False
  with recover_one_untouched [OF assms(2)] assms(5) show ?thesis by simp
next
  case True
  from recover_one_claimed [OF assms(2) True] obtain ds closed s rep1
    where ds: "pr_dataset_id c = Some ds" and rec: "recover_claimed X E ds c (sh_run sh, rep) = (closed, s, rep1)"
      and eq: "sh_run sh' = s" "rep' = rep1" by metis
  from claimed_rows [OF rec assms(3,4)] assms(5) eq obtain cur
    where cur: "latest_of_run (trail_of (sh_run sh)) cur" "pr_run_id cur = pr_run_id c" "pr_status cur = Started"
      and closed: "closed_after_rollback E ds cur (sh_run sh) s" and n: "rr_recovered rep1 = rr_recovered rep + 1" by auto
  have t: "trail_of s = with_row (closing_entry cur abandoned_run_error) (trail_of (sh_run sh))"
    using closed by (simp add: closed_after_rollback_def)
  have "\<not> left_in_flight (trail_of s) (pr_run_id c)"
    using terminal_row_closes [OF assms(3), of "closing_entry cur abandoned_run_error"] cur(2) by (simp add: t)
  moreover have "if pr_name cur = cognify_pipeline_name
       then touched_items (pr_run_id c) ds (tables (rn_world s)) = {}
         \<and> list_all (\<lambda>n. n \<in> exclusive (whole_run (pr_run_id c) ds) (l_nodes (tables (rn_world (sh_run sh))))
              \<longrightarrow> node_gone E nodes_of points_of (rn_world s) n) (l_nodes (tables (rn_world (sh_run sh))))
       else rn_world s = rn_world (sh_run sh)"
    using closed cur(2) swept_by_clean [OF assms(1), of "whole_run (pr_run_id cur) ds" "rn_world (sh_run sh)" "rn_world s"]
    by (auto simp: closed_after_rollback_def touched_items_def filter_empty_conv list_all_iff split: if_splits)
  ultimately show ?thesis using cur t n ds eq by blast
qed

text \<open>
  The report accounts for every run: the outcomes it counts add up to the candidates, or it is
  empty because the candidates could not be listed.
\<close>

lemma recovery_report_adds_up:
  "handled (snd (recover_stale_pipeline_runs X E others sh)) = rr_candidates (snd (recover_stale_pipeline_runs X E others sh))"
proof -
  obtain r d where l: "list_unterminated_runs (rx_tie X) (rx_map_order X) (rn_runs (sh_run sh)) = (r, d)" by fastforce
  show ?thesis
  proof (cases r)
    case (Inl e)
    with l show ?thesis by (simp add: recover_stale_pipeline_runs_def no_report_def handled_def)
  next
    case (Inr cs)
    let ?rep = "no_report\<lparr>rr_candidates := length cs\<rparr>"
    obtain sh' rep' where e: "recover_each X E others cs (sh\<lparr>sh_run := (sh_run sh)\<lparr>rn_runs := d\<rparr>\<rparr>, ?rep) = (sh', rep')" by fastforce
    from recover_each_counts [OF e] l Inr e show ?thesis
      by (simp add: recover_stale_pipeline_runs_def no_report_def handled_def)
  qed
qed

lemma reset_returns: "returns (reset_orphan_run tie d n i reason)"
  unfolding reset_orphan_run_def get_pipeline_run_def log_pipeline_run_entry_def
  by (intro returns_rules) (auto split: option.split intro!: returns_rules)

lemma close_orphan_reliable:
  assumes "db_faults (rn_runs s) = []" and "trail_ok (trail_of s)" and "any_order (rx_tie X)"
    and "latest_of_run (trail_of s) cur" and "in_flight cur" and "pr_dataset_id cur = Some ds"
  shows "\<exists>d. close_orphan X ds cur (s, rep) = (True, s\<lparr>rn_runs := d\<rparr>, rep\<lparr>rr_recovered := rr_recovered rep + 1\<rparr>)
    \<and> db_tables d = with_row (closing_entry cur abandoned_run_error) (trail_of s)"
proof -
  obtain closed d where r: "reset_orphan_run (rx_tie X) ds (pr_name cur) (pr_id cur) abandoned_run_error (rn_runs s) = (Inr closed, d)"
    using returnsD [OF reset_returns assms(1)] by blast
  have mem: "cur \<in> set (rt_runs (trail_of s))" using assms(4) by (simp add: latest_of_run_def)
  from reset_ok [OF assms(2,3) mem r] assms(4-6) r show ?thesis by (auto simp: close_orphan_def)
qed

lemma sweep_logs: "sweep E sc w = (Inr out, w') \<Longrightarrow> sweep_logging_failure E sc w = (out, w')"
  by (auto simp: sweep_def sweep_logging_failure_def split: prod.splits sum.splits)

context reliable_stores
begin

lemma claimed_reliable:
  assumes "reliable (rn_world s)" and "statuses_ok (tables (rn_world s))" and "db_faults (rn_runs s) = []"
    and quiet: "\<forall>sc out w'. sweep E sc (rn_world s) = (Inr out, w') \<longrightarrow> so_warnings out = []"
    and "trail_ok (trail_of s)" and "any_order (rx_tie X)" and "latest_of_run (trail_of s) c" and "pr_status c = Started"
    and "pr_dataset_id c = Some ds" and "find (\<lambda>d. ds_id d = ds) (rt_datasets (trail_of s)) = Some row"
  shows "\<exists>s' rep'. recover_claimed X E ds c (s, rep) = (True, s', rep') \<and> rr_recovered rep' = rr_recovered rep + 1
    \<and> \<not> left_in_flight (trail_of s') (pr_run_id c)
    \<and> (pr_name c = cognify_pipeline_name \<longrightarrow> touched_items (pr_run_id c) ds (tables (rn_world s')) = {})"
proof -
  have flight: "in_flight c" using assms(8) by (simp add: in_flight_def)
  have g: "get_pipeline_run (rx_tie X) (pr_run_id c) (rn_runs s) = (Inr (Some c), rn_runs s)"
  proof -
    have g0: "get_pipeline_run (rx_tie X) (pr_run_id c) (rn_runs s) =
        (Inr (first (newest_first (rx_tie X) (runs_where [c_eq (not_null pr_run_id) (pr_run_id c)] (trail_of s)))), rn_runs s)"
      unfolding get_pipeline_run_def by (rule query_no_faults [OF assms(3)])
    from get_pipeline_run_latest [OF assms(7,6) g0] g0 show ?thesis by simp
  qed
  have q: "get_dataset_by_id ds (rn_runs s) = (Inr (Some row), rn_runs s)"
    using assms(3,10) by (simp add: get_dataset_by_id_def query_no_faults)
  have closes: "\<not> left_in_flight (with_row (closing_entry c abandoned_run_error) (trail_of s)) (pr_run_id c)"
    using terminal_row_closes [OF assms(5), of "closing_entry c abandoned_run_error"] by simp
  have step: "recover_claimed X E ds c (s, rep) = roll_back_orphan X E ds c (s, rep)"
    using g q assms(8) by (simp add: recover_claimed_def)
  show ?thesis
  proof (cases "pr_name c = cognify_pipeline_name")
    case False
    obtain d where "close_orphan X ds c (s, rep) = (True, s\<lparr>rn_runs := d\<rparr>, rep\<lparr>rr_recovered := rr_recovered rep + 1\<rparr>)"
      and "db_tables d = with_row (closing_entry c abandoned_run_error) (trail_of s)"
      using close_orphan_reliable [OF assms(3,5,6,7) flight assms(9)] by blast
    with False closes step show ?thesis by (simp add: roll_back_orphan_def)
  next
    case True
    obtain out w where sw: "sweep E (whole_run (pr_run_id c) ds) (rn_world s) = (Inr out, w)"
      using sweep_returns [OF assms(1)] by blast
    let ?rep = "rep\<lparr>rr_graph_nodes_deleted := rr_graph_nodes_deleted rep + so_graph_nodes out,
                    rr_vector_points_deleted := rr_vector_points_deleted rep + so_vector_points out\<rparr>"
    let ?s = "s\<lparr>rn_world := w\<rparr>"
    have "db_faults (rn_runs ?s) = []" "trail_ok (trail_of ?s)" "latest_of_run (trail_of ?s) c"
      using assms(3,5,7) by simp_all
    then obtain d where c: "close_orphan X ds c (?s, ?rep) = (True, ?s\<lparr>rn_runs := d\<rparr>, ?rep\<lparr>rr_recovered := rr_recovered ?rep + 1\<rparr>)"
      and d: "db_tables d = with_row (closing_entry c abandoned_run_error) (trail_of ?s)"
      using close_orphan_reliable [OF _ _ assms(6) _ flight assms(9)] by blast
    have "so_warnings out = []" using quiet sw by blast
    then have rb: "roll_back_orphan X E ds c (s, rep) = (True, ?s\<lparr>rn_runs := d\<rparr>, ?rep\<lparr>rr_recovered := rr_recovered ?rep + 1\<rparr>)"
      using True sweep_logs [OF sw] c by (simp add: roll_back_orphan_def Let_def)
    have "tables w = swept_ledger E (whole_run (pr_run_id c) ds) (tables (rn_world s))"
      using sweep_scope_ok [OF assms(1,2), of "whole_run (pr_run_id c) ds"] sw by (simp add: sweep_scope_def logging_failure_world)
    with rb step d closes show ?thesis by (simp add: swept_touched)
  qed
qed

end

lemma abandoned_recovered:
  fixes E :: "(graph_mem, 'f brute_force) delete_env"
  assumes "E = memory_env show_graph show_vector u5 lower"
    and "ready (rn_world (sh_run sh))" and "statuses_ok (tables (rn_world (sh_run sh)))" and "db_faults (rn_runs (sh_run sh)) = []"
    and "trail_ok (trail_of (sh_run sh))" and "any_order (rx_tie X)"
    and "latest_of_run (trail_of (sh_run sh)) c" and "pr_status c = Started" and "pr_dataset_id c = Some ds"
    and "find (\<lambda>d. ds_id d = ds) (rt_datasets (trail_of (sh_run sh))) = Some row"
    and "pr_created_at c \<le> recovery_cutoff X" and "fst (try_lock (rx_self X) ds (sh_locks sh))"
    and "recovery_lock_of (re_parse_uuid (rx_run X)) (pr_run_info c) = Some token"
    and "claim token (sh_fs sh) = Some (o1, fs)" and "token \<notin> mf_stuck (sh_fs sh)"
  shows "\<exists>sh' rep'. recover_one X E c (sh, rep) = (sh', rep') \<and> rr_recovered rep' = rr_recovered rep + 1
    \<and> \<not> left_in_flight (trail_of (sh_run sh')) (pr_run_id c) \<and> token \<notin> mf_dirs (sh_fs sh')
    \<and> (pr_name c = cognify_pipeline_name \<longrightarrow> touched_items (pr_run_id c) ds (tables (rn_world (sh_run sh'))) = {})"
proof -
  have quiet: "\<forall>sc out w'. sweep E sc (rn_world (sh_run sh)) = (Inr out, w') \<longrightarrow> so_warnings out = []"
    using memory_sweep_returns [OF assms(1,2)] by (metis Inr_inject prod.inject)
  note claimed = memory_reliable.claimed_reliable [where ?show_graph = show_graph and ?show_vector = show_vector
      and ?u5.0 = u5 and ?lower = lower, OF assms(2-4) _ assms(5-10), folded assms(1)]
  obtain s' rep' where "recover_claimed X E ds c (sh_run sh, rep) = (True, s', rep')" and "rr_recovered rep' = rr_recovered rep + 1"
    and "\<not> left_in_flight (trail_of s') (pr_run_id c)"
    and "pr_name c = cognify_pipeline_name \<longrightarrow> touched_items (pr_run_id c) ds (tables (rn_world s')) = {}"
    using claimed [OF quiet] by blast
  moreover have "token \<notin> mf_dirs (drop_ownership (mark_closed o1) fs)"
    using assms(14,15) by (auto simp: claim_def drop_ownership_def mark_closed_def remove_marker_def Let_def split: if_splits)
  ultimately show ?thesis
    using assms(9,11-14) by (auto simp: recover_one_def Let_def split: prod.split)
qed

lemma sample_shared_ok:
  "ready (rn_world (sh_run sample_shared))" "statuses_ok (tables (rn_world (sh_run sample_shared)))"
  "db_faults (rn_runs (sh_run sample_shared)) = []" "trail_ok (trail_of (sh_run sample_shared))"
  "latest_of_run (trail_of (sh_run sample_shared)) sample_started" "pr_status sample_started = Started"
  "pr_dataset_id sample_started = Some 9"
  "find (\<lambda>d. ds_id d = 9) (rt_datasets (trail_of (sh_run sample_shared))) = Some \<lparr>ds_id = 9, ds_name = [], ds_owner_id = 1, ds_tenant_id = None, ds_created_at = 0\<rparr>"
  "pr_created_at sample_started \<le> recovery_cutoff (sample_recovery_env 500)"
  "claim 5 (sh_fs sample_shared) = Some (\<lparr>ow_token = Some 5, ow_closed = False\<rparr>, (sh_fs sample_shared)\<lparr>mf_locked := {5}\<rparr>)"
  "5 \<notin> mf_stuck (sh_fs sample_shared)"
  by (simp_all add: sample_shared_def sample_started_def sample_run_def sample_runs_def trail_ok_def runs_keyed_def
      inj_def strict_mono_def latest_of_run_def recovery_cutoff_def sample_recovery_env_def claim_def no_markers_def)

lemma sample_env_facts:
  "any_order (rx_tie (sample_recovery_env 500))"
  "recovery_lock_of (re_parse_uuid (rx_run (sample_recovery_env 500))) (pr_run_info sample_started) = Some 5"
  "fst (try_lock (rx_self (sample_recovery_env 500)) 9 (sh_locks sample_shared))" "pr_run_id sample_started = 7"
  "rr_recovered no_report = 0"
  using sample_token
  by (simp_all add: sample_recovery_env_def any_order_id sample_shared_def lock_eval sample_started_def sample_run_def no_report_def)

lemmas sample_facts = sample_shared_ok(1-4) sample_env_facts(1) sample_shared_ok(5-9) sample_env_facts(3,2) sample_shared_ok(10,11)

text \<open>
  C17: an abandoned run is recovered: on stores that do not fail, when the turn of a run comes
  whose latest row is a \<open>Started\<close> one, old enough, of a dataset that exists and that no other
  task holds, and whose marker nobody locks any more, it is closed, a cognify run has no ownership
  row left, so its items are reprocessed, and its marker is removed.
\<close>

theorem abandoned_run_is_recovered:
  fixes E :: "(graph_mem, 'f brute_force) delete_env"
  assumes "E = memory_env show_graph show_vector u5 lower"
    and "ready (rn_world (sh_run sh))" and "statuses_ok (tables (rn_world (sh_run sh)))" and "db_faults (rn_runs (sh_run sh)) = []"
    and "trail_ok (trail_of (sh_run sh))" and "any_order (rx_tie X)"
    and "latest_of_run (trail_of (sh_run sh)) c" and "pr_status c = Started" and "pr_dataset_id c = Some ds"
    and "find (\<lambda>d. ds_id d = ds) (rt_datasets (trail_of (sh_run sh))) = Some row"
    and "pr_created_at c \<le> recovery_cutoff X" and "fst (try_lock (rx_self X) ds (sh_locks sh))"
    and "recovery_lock_of (re_parse_uuid (rx_run X)) (pr_run_info c) = Some token"
    and "claim token (sh_fs sh) = Some (o1, fs)" and "token \<notin> mf_stuck (sh_fs sh)"
  shows "\<exists>sh' rep'. recover_one X E c (sh, rep) = (sh', rep') \<and> rr_recovered rep' = rr_recovered rep + 1
    \<and> \<not> left_in_flight (trail_of (sh_run sh')) (pr_run_id c) \<and> token \<notin> mf_dirs (sh_fs sh')
    \<and> (pr_name c = cognify_pipeline_name \<longrightarrow> touched_items (pr_run_id c) ds (tables (rn_world (sh_run sh'))) = {})"
  by (rule abandoned_recovered [OF assms])

theorem abandoned_run_is_recovered_witness:
  "\<exists>sh' rep'. recover_one (sample_recovery_env 500) sample_env sample_started (sample_shared, no_report) = (sh', rep')
     \<and> \<not> left_in_flight (trail_of (sh_run sh')) 7 \<and> 5 \<notin> mf_dirs (sh_fs sh') \<and> rr_recovered rep' = 1"
  using abandoned_run_is_recovered [where rep = no_report and E = sample_env, OF refl sample_facts] sample_env_facts(4,5) by auto

theorem recovery_rolls_back_first_witness:
  "\<exists>sh' rep'. recover_one (sample_recovery_env 500) sample_env sample_started (sample_shared, no_report) = (sh', rep')
     \<and> trail_of (sh_run sh') = with_row (closing_entry sample_started abandoned_run_error) (trail_of (sh_run sample_shared))
     \<and> touched_items 7 9 (tables (rn_world (sh_run sh'))) = {}"
proof -
  obtain sh' rep' where r: "recover_one (sample_recovery_env 500) sample_env sample_started (sample_shared, no_report) = (sh', rep')"
    and closed: "\<not> left_in_flight (trail_of (sh_run sh')) (pr_run_id sample_started)"
    using abandoned_recovered [where rep = no_report, OF refl sample_facts] by metis
  have "left_in_flight (trail_of (sh_run sample_shared)) (pr_run_id sample_started)"
    using sample_shared_ok(5) by (auto simp: left_in_flight_def in_flight_def sample_shared_ok(6))
  with closed have changed: "trail_of (sh_run sh') \<noteq> trail_of (sh_run sample_shared)" by auto
  have "cur = sample_started" if "latest_of_run (trail_of (sh_run sample_shared)) cur" for cur
    using that by (simp add: latest_of_run_def sample_shared_def sample_runs_def)
  moreover have "pr_name sample_started = cognify_pipeline_name"
    by (simp add: sample_started_def sample_run_def cognify_pipeline_name_def)
  moreover obtain cur ds where cur: "latest_of_run (trail_of (sh_run sample_shared)) cur"
    and t: "trail_of (sh_run sh') = with_row (closing_entry cur abandoned_run_error) (trail_of (sh_run sample_shared))"
    and ds: "pr_dataset_id sample_started = Some ds"
    and "pr_name cur = cognify_pipeline_name \<longrightarrow> touched_items (pr_run_id sample_started) ds (tables (rn_world (sh_run sh'))) = {}"
    using recovery_rolls_back_first [OF memory.delete_env_laws_axioms r sample_shared_ok(4) sample_env_facts(1) changed] by (auto split: if_splits)
  ultimately show ?thesis using r sample_shared_ok(7) sample_env_facts(4) by auto
qed

end
