(* ===== verification/Provenance.thy ===== *)
theory Provenance
  imports Prelude Rust_Text
begin

text \<open>
  Provenance stamping: \<open>crates/core/src/provenance.rs\<close>. Every data point that leaves a task is
  stamped with the pipeline, the task and its rank, once per run: the first task that touches a
  point wins, a visited set keyed on the point's id remembers it.

  A container with an embedded \<open>DataPoint\<close> is a tree: its point and the points it owns. A value
  is what a task passes on: a sentinel, a raw \<open>Data\<close>, a container, a vector of containers, a
  tagged or any other value; the last three are not looked into.
\<close>

section \<open>Points and values\<close>

record 'a data_point =
  dp_id :: uuid
  dp_source_pipeline :: "str option"
  dp_source_task :: "str option"
  dp_source_user :: "str option"
  dp_source_node_set :: "str option"
  dp_source_content_hash :: "str option"
  dp_topological_rank :: "int option"
  dp_payload :: 'a

datatype 'a dp_tree = DP (root: "'a data_point") (children: "'a dp_tree list")

datatype 'a val =
    DroppedSentinel
  | PassthroughSentinel
  | RawData str 'a
  | Container "'a dp_tree"
  | Containers "'a dp_tree list"
  | TaggedMeta "str option" 'a
  | Plain 'a

fun is_dropped :: "'a val \<Rightarrow> bool" where
  "is_dropped DroppedSentinel = True"
| "is_dropped _ = False"

fun is_passthrough :: "'a val \<Rightarrow> bool" where
  "is_passthrough PassthroughSentinel = True"
| "is_passthrough _ = False"

record provenance_context =
  pv_pipeline_name :: str
  pv_task_name :: str
  pv_user_label :: "str option"
  pv_node_set :: "str option"
  pv_content_hash :: "str option"
  pv_task_rank :: "int option"

section \<open>Stamping\<close>

definition or_else :: "'a option \<Rightarrow> 'a option \<Rightarrow> 'a option" where
  "or_else x y = (case x of Some _ \<Rightarrow> x | None \<Rightarrow> y)"

definition stamp_rank :: "int option \<Rightarrow> int option \<Rightarrow> int option" where
  "stamp_rank current task_rank =
     (case task_rank of
        Some rank \<Rightarrow> if 0 < rank \<and> (current = None \<or> current = Some 0) then Some rank else current
      | None \<Rightarrow> current)"

definition stamp_point :: "provenance_context \<Rightarrow> 'a data_point \<Rightarrow> 'a data_point" where
  "stamp_point ctx dp =
     dp\<lparr>dp_source_pipeline := or_else (dp_source_pipeline dp) (Some (pv_pipeline_name ctx)),
        dp_source_task := or_else (dp_source_task dp) (Some (pv_task_name ctx)),
        dp_source_user := or_else (dp_source_user dp) (pv_user_label ctx),
        dp_topological_rank := stamp_rank (dp_topological_rank dp) (pv_task_rank ctx),
        dp_source_node_set := or_else (dp_source_node_set dp) (pv_node_set ctx),
        dp_source_content_hash := or_else (dp_source_content_hash dp) (pv_content_hash ctx)\<rparr>"

text \<open>What the children inherit: the point's own node set and hash where it had them.\<close>

definition child_context :: "provenance_context \<Rightarrow> 'a data_point \<Rightarrow> provenance_context" where
  "child_context ctx dp =
     ctx\<lparr>pv_node_set := or_else (dp_source_node_set dp) (pv_node_set ctx),
         pv_content_hash := or_else (dp_source_content_hash dp) (pv_content_hash ctx)\<rparr>"

fun stamp_tree :: "provenance_context \<Rightarrow> 'a dp_tree \<Rightarrow> uuid set \<Rightarrow> 'a dp_tree \<times> uuid set"
  and stamp_trees :: "provenance_context \<Rightarrow> 'a dp_tree list \<Rightarrow> uuid set \<Rightarrow> 'a dp_tree list \<times> uuid set" where
  "stamp_tree ctx (DP dp ts) visited =
     (if dp_id dp \<in> visited then (DP dp ts, visited)
      else (let (ts', visited') = stamp_trees (child_context ctx dp) ts (insert (dp_id dp) visited) in
            (DP (stamp_point ctx dp) ts', visited')))"
| "stamp_trees ctx [] visited = ([], visited)"
| "stamp_trees ctx (t # ts) visited =
     (let (t', visited1) = stamp_tree ctx t visited;
          (ts', visited2) = stamp_trees ctx ts visited1 in
      (t' # ts', visited2))"

fun stamp_tree_dyn :: "provenance_context \<Rightarrow> 'a val \<Rightarrow> uuid set \<Rightarrow> 'a val \<times> uuid set" where
  "stamp_tree_dyn ctx (Container t) visited = (let (t', visited') = stamp_tree ctx t visited in (Container t', visited'))"
| "stamp_tree_dyn ctx (Containers ts) visited =
     (let (ts', visited') = stamp_trees ctx ts visited in (Containers ts', visited'))"
| "stamp_tree_dyn ctx v visited = (v, visited)"

fun downcast_to_datapoint :: "'a val \<Rightarrow> 'a data_point option" where
  "downcast_to_datapoint (Container t) = Some (root t)"
| "downcast_to_datapoint _ = None"

definition extract_node_set_from_value :: "'a val \<Rightarrow> str option" where
  "extract_node_set_from_value v = Option.bind (downcast_to_datapoint v) dp_source_node_set"

definition extract_content_hash_from_value :: "'a val \<Rightarrow> str option" where
  "extract_content_hash_from_value v =
     (case v of
        RawData hash _ \<Rightarrow> if hash \<noteq> [] then Some hash else None
      | _ \<Rightarrow> Option.bind (downcast_to_datapoint v) dp_source_content_hash)"

section \<open>What stamping keeps\<close>

fun points :: "'a dp_tree \<Rightarrow> 'a data_point list" where
  "points (DP dp ts) = dp # concat (map points ts)"

abbreviation points_of_trees :: "'a dp_tree list \<Rightarrow> 'a data_point list" where
  "points_of_trees ts \<equiv> concat (map points ts)"

text \<open>A later version of a point: nothing recorded is lost, nothing else changes.\<close>

definition keeps_field :: "'b option \<Rightarrow> 'b option \<Rightarrow> bool" where
  "keeps_field old new \<longleftrightarrow> (\<forall>x. old = Some x \<longrightarrow> new = Some x)"

definition keeps_point :: "'a data_point \<Rightarrow> 'a data_point \<Rightarrow> bool" where
  "keeps_point old new \<longleftrightarrow> dp_id new = dp_id old \<and> dp_payload new = dp_payload old
     \<and> keeps_field (dp_source_pipeline old) (dp_source_pipeline new)
     \<and> keeps_field (dp_source_task old) (dp_source_task new)
     \<and> keeps_field (dp_source_user old) (dp_source_user new)
     \<and> keeps_field (dp_source_node_set old) (dp_source_node_set new)
     \<and> keeps_field (dp_source_content_hash old) (dp_source_content_hash new)
     \<and> (dp_topological_rank old \<noteq> Some 0 \<longrightarrow> keeps_field (dp_topological_rank old) (dp_topological_rank new))"

definition attributed :: "'a data_point \<Rightarrow> bool" where
  "attributed dp \<longleftrightarrow> dp_source_pipeline dp \<noteq> None \<and> dp_source_task dp \<noteq> None"

definition ranked :: "'a data_point \<Rightarrow> bool" where
  "ranked dp \<longleftrightarrow> dp_topological_rank dp \<noteq> None \<and> dp_topological_rank dp \<noteq> Some 0"

lemma keeps_point_refl [simp]: "keeps_point dp dp"
  by (simp add: keeps_point_def keeps_field_def)

lemma keeps_stamped [simp]: "keeps_point dp (stamp_point ctx dp)"
  by (auto simp: keeps_point_def keeps_field_def stamp_point_def or_else_def stamp_rank_def split: option.splits)

lemma stamped_attributed [simp]: "attributed (stamp_point ctx dp)"
  by (auto simp: attributed_def stamp_point_def or_else_def split: option.splits)

lemma stamped_ranked: "pv_task_rank ctx = Some r \<Longrightarrow> 0 < r \<Longrightarrow> ranked (stamp_point ctx dp)"
  by (auto simp: ranked_def stamp_point_def stamp_rank_def)

lemma child_rank [simp]: "pv_task_rank (child_context ctx dp) = pv_task_rank ctx"
  by (simp add: child_context_def)

lemma stamp_keeps:
  fixes t :: "'a dp_tree" and ts :: "'a dp_tree list"
  shows "stamp_tree ctx t V = (t', V') \<Longrightarrow>
     list_all2 keeps_point (points t) (points t') \<and> V \<subseteq> V' \<and> V' \<subseteq> V \<union> dp_id ` set (points t)"
  "stamp_trees ctx ts V = (ts', V') \<Longrightarrow>
     list_all2 keeps_point (points_of_trees ts) (points_of_trees ts')
     \<and> V \<subseteq> V' \<and> V' \<subseteq> V \<union> dp_id ` set (points_of_trees ts)"
proof (induction ctx t V and ctx ts V arbitrary: t' V' and ts' V' rule: stamp_tree_stamp_trees.induct)
  case (1 ctx dp ts V)
  show ?case
  proof (cases "dp_id dp \<in> V")
    case True
    with 1 show ?thesis by (auto simp: list_all2_same)
  next
    case False
    obtain ts2 V2 where s: "stamp_trees (child_context ctx dp) ts (insert (dp_id dp) V) = (ts2, V2)" by fastforce
    from 1(1) [OF False s] 1(2) False s show ?thesis by auto
  qed
next
  case (3 ctx t ts V)
  obtain t2 V1 where s1: "stamp_tree ctx t V = (t2, V1)" by fastforce
  obtain ts2 V2 where s2: "stamp_trees ctx ts V1 = (ts2, V2)" by fastforce
  have "V' = V2" "ts' = t2 # ts2" using 3(3) s1 s2 by simp_all
  moreover have "V2 \<subseteq> V \<union> dp_id ` set (points_of_trees (t # ts))"
    using 3(1) [OF s1] 3(2) [OF s1 [symmetric] refl s2] by (simp add: image_Un) blast
  ultimately show ?case
    using 3(1) [OF s1] 3(2) [OF s1 [symmetric] refl s2] by (auto intro: list_all2_appendI)
qed auto

lemma stamp_attributes:
  fixes t :: "'a dp_tree" and ts :: "'a dp_tree list"
  shows "stamp_tree ctx t V = (t', V') \<Longrightarrow> distinct (map dp_id (points t)) \<Longrightarrow> dp_id ` set (points t) \<inter> V = {} \<Longrightarrow>
     pv_task_rank ctx = Some r \<Longrightarrow> 0 < r \<Longrightarrow> \<forall>p \<in> set (points t'). attributed p \<and> ranked p"
  "stamp_trees ctx ts V = (ts', V') \<Longrightarrow> distinct (map dp_id (points_of_trees ts)) \<Longrightarrow>
     dp_id ` set (points_of_trees ts) \<inter> V = {} \<Longrightarrow>
     pv_task_rank ctx = Some r \<Longrightarrow> 0 < r \<Longrightarrow> \<forall>p \<in> set (points_of_trees ts'). attributed p \<and> ranked p"
proof (induction ctx t V and ctx ts V arbitrary: t' V' and ts' V' rule: stamp_tree_stamp_trees.induct)
  case (1 ctx dp ts V)
  have new: "dp_id dp \<notin> V" using 1(4) by auto
  obtain ts2 V2 where s: "stamp_trees (child_context ctx dp) ts (insert (dp_id dp) V) = (ts2, V2)" by fastforce
  have "\<forall>p \<in> set (points_of_trees ts2). attributed p \<and> ranked p"
    using 1(1) [OF new s] 1(3-6) by auto
  with 1(2) s new stamped_ranked [OF 1(5,6)] show ?case by auto
next
  case (3 ctx t ts V)
  obtain t2 V1 where s1: "stamp_tree ctx t V = (t2, V1)" by fastforce
  obtain ts2 V2 where s2: "stamp_trees ctx ts V1 = (ts2, V2)" by fastforce
  have one: "\<forall>p \<in> set (points t2). attributed p \<and> ranked p"
    using 3(1) [OF s1] 3(4-7) by auto
  have "V1 \<subseteq> V \<union> dp_id ` set (points t)" using stamp_keeps(1) [OF s1] by blast
  then have "dp_id ` set (points_of_trees ts) \<inter> V1 = {}" using 3(4,5) by fastforce
  with 3(2) [OF s1 [symmetric] refl s2] 3(4,6,7) have "\<forall>p \<in> set (points_of_trees ts2). attributed p \<and> ranked p"
    by auto
  with one 3(3) s1 s2 show ?case by auto
qed auto

lemma stamp_visits_roots:
  fixes ts :: "'a dp_tree list"
  shows "stamp_tree ctx t V = (t', V') \<Longrightarrow> dp_id (root t') \<in> V'"
    and "stamp_trees ctx ts V = (ts', V') \<Longrightarrow> \<forall>t \<in> set ts'. dp_id (root t) \<in> V'"
proof -
  have tree: "dp_id (root t') \<in> V'" if "stamp_tree ctx t V = (t', V')" for ctx V V' and t t' :: "'a dp_tree"
  proof (cases t)
    case (DP dp us)
    obtain us' V1 where s: "stamp_trees (child_context ctx dp) us (insert (dp_id dp) V) = (us', V1)" by fastforce
    from stamp_keeps(2) [OF s] that DP s show ?thesis by (auto simp: stamp_point_def split: if_splits)
  qed
  show "stamp_trees ctx ts V = (ts', V') \<Longrightarrow> \<forall>t \<in> set ts'. dp_id (root t) \<in> V'"
  proof (induction ts arbitrary: V ts')
    case (Cons t ts)
    obtain t2 V1 where s1: "stamp_tree ctx t V = (t2, V1)" by fastforce
    obtain ts2 V2 where s2: "stamp_trees ctx ts V1 = (ts2, V2)" by fastforce
    from Cons.prems s1 s2 Cons.IH [of V1 ts2] tree [OF s1] stamp_keeps(2) [OF s2] show ?case by auto
  qed simp
  show "stamp_tree ctx t V = (t', V') \<Longrightarrow> dp_id (root t') \<in> V'" for t t' :: "'b dp_tree"
  proof (cases t)
    case (DP dp us)
    assume a: "stamp_tree ctx t V = (t', V')"
    obtain us' V1 where s: "stamp_trees (child_context ctx dp) us (insert (dp_id dp) V) = (us', V1)" by fastforce
    from stamp_keeps(2) [OF s] a DP s show ?thesis by (auto simp: stamp_point_def split: if_splits)
  qed
qed

lemma visited_unstamped:
  "dp_id (root t) \<in> V \<Longrightarrow> stamp_tree ctx t V = (t, V)"
  "\<forall>t \<in> set ts. dp_id (root t) \<in> V \<Longrightarrow> stamp_trees ctx ts V = (ts, V)"
proof -
  show tree: "dp_id (root t) \<in> V \<Longrightarrow> stamp_tree ctx t V = (t, V)" for t :: "'a dp_tree" by (cases t) simp
  show "\<forall>t \<in> set ts. dp_id (root t) \<in> V \<Longrightarrow> stamp_trees ctx ts V = (ts, V)" for ts :: "'b dp_tree list"
  proof (induction ts)
    case (Cons t ts)
    have "stamp_tree ctx t V = (t, V)" using Cons.prems by (cases t) simp
    with Cons show ?case by simp
  qed simp
qed

fun value_points :: "'a val \<Rightarrow> 'a data_point list" where
  "value_points (Container t) = points t"
| "value_points (Containers ts) = points_of_trees ts"
| "value_points _ = []"

text \<open>A value that stamping looks into keeps its kind: sentinels stay sentinels.\<close>

lemma stamp_dyn_kind [simp]:
  "is_dropped (fst (stamp_tree_dyn ctx v V)) = is_dropped v"
  "is_passthrough (fst (stamp_tree_dyn ctx v V)) = is_passthrough v"
  by (cases v; simp split: prod.split)+

section \<open>Properties\<close>


definition sample_point :: "uuid \<Rightarrow> nat data_point" where
  "sample_point i = \<lparr>dp_id = i, dp_source_pipeline = None, dp_source_task = None, dp_source_user = None,
     dp_source_node_set = (if i = 1 then Some (lit ''a'') else None), dp_source_content_hash = None,
     dp_topological_rank = Some 0, dp_payload = i\<rparr>"

definition sample_provenance :: provenance_context where
  "sample_provenance = \<lparr>pv_pipeline_name = lit ''p'', pv_task_name = lit ''t'', pv_user_label = None,
     pv_node_set = Some (lit ''b''), pv_content_hash = None, pv_task_rank = Some 2\<rparr>"


end
