(* ===== verification/Executor.thy ===== *)
theory Executor
  imports Lifecycle Provenance
begin

text \<open>
  The depth-first task executor of \<open>crates/core/src/pipeline.rs\<close>: one data item through the chain
  of tasks, retries, batch accumulation, cancellation, incremental skipping, and the data items of
  a run one after the other or in concurrent chunks; with \<open>task.rs\<close>, \<open>sentinels.rs\<close> and
  \<open>exec_status.rs\<close>.

  Tasks, the status manager and everything they act on are arbitrary: \<open>'s\<close> is the state of that
  world. A rendered task error is its text. Cancellation may be requested at any moment: the
  executor can only notice it where it looks at the token, so an execution is determined by the
  number of the first look that sees it. What an observer can see is recorded in a trace: watcher
  events, task calls, limiter acquisitions, sleeps, progress, looks at the token that saw a
  cancellation, status marks.
\<close>

section \<open>Tasks\<close>

text \<open>
  A producer is a lazy iterator: pulling an item may act on the world. How many items it yields is
  fixed when it is created, and finite. An \<open>Arc\<close> is paired with whether it is uniquely owned.
\<close>

datatype ('a, 's) resolved =
    Single "'a val" bool
  | Iter "('s \<Rightarrow> 'a val \<times> 's) list"
  | Stream "('s \<Rightarrow> (str + 'a val) \<times> 's) list"

datatype ('a, 's) task =
    Sync "'a val \<Rightarrow> 's \<Rightarrow> (str + 'a val \<times> bool) \<times> 's"
  | Async "'a val \<Rightarrow> 's \<Rightarrow> (str + 'a val \<times> bool) \<times> 's"
  | SyncIter "'a val \<Rightarrow> 's \<Rightarrow> (str + ('s \<Rightarrow> 'a val \<times> 's) list) \<times> 's"
  | AsyncStream "'a val \<Rightarrow> 's \<Rightarrow> (str + ('s \<Rightarrow> (str + 'a val) \<times> 's) list) \<times> 's"
  | SyncBatch "'a val list \<Rightarrow> 's \<Rightarrow> (str + 'a val \<times> bool) \<times> 's"
  | AsyncBatch "'a val list \<Rightarrow> 's \<Rightarrow> (str + 'a val \<times> bool) \<times> 's"
  | SyncIterBatch "'a val list \<Rightarrow> 's \<Rightarrow> (str + ('s \<Rightarrow> 'a val \<times> 's) list) \<times> 's"
  | AsyncStreamBatch "'a val list \<Rightarrow> 's \<Rightarrow> (str + ('s \<Rightarrow> (str + 'a val) \<times> 's) list) \<times> 's"

fun is_batch :: "('a, 's) task \<Rightarrow> bool" where
  "is_batch (SyncBatch _) = True"
| "is_batch (AsyncBatch _) = True"
| "is_batch (SyncIterBatch _) = True"
| "is_batch (AsyncStreamBatch _) = True"
| "is_batch _ = False"

definition into :: "('x \<Rightarrow> ('a, 's) resolved) \<Rightarrow> (str + 'x) \<times> 's \<Rightarrow> (str + ('a, 's) resolved) \<times> 's" where
  "into f rs = (case rs of (Inl e, s) \<Rightarrow> (Inl e, s) | (Inr x, s) \<Rightarrow> (Inr (f x), s))"

abbreviation single :: "'a val \<times> bool \<Rightarrow> ('a, 's) resolved" where
  "single vu \<equiv> Single (fst vu) (snd vu)"

text \<open>\<open>Task::call\<close> and \<open>Task::call_batch\<close>, resolved; on the wrong variant they panic (\<open>None\<close>).\<close>

fun call :: "('a, 's) task \<Rightarrow> 'a val \<Rightarrow> ('s \<Rightarrow> (str + ('a, 's) resolved) \<times> 's) option" where
  "call (Sync f) v = Some (\<lambda>s. into single (f v s))"
| "call (Async f) v = Some (\<lambda>s. into single (f v s))"
| "call (SyncIter f) v = Some (\<lambda>s. into Iter (f v s))"
| "call (AsyncStream f) v = Some (\<lambda>s. into Stream (f v s))"
| "call _ v = None"

fun call_batch :: "('a, 's) task \<Rightarrow> 'a val list \<Rightarrow> ('s \<Rightarrow> (str + ('a, 's) resolved) \<times> 's) option" where
  "call_batch (SyncBatch f) vs = Some (\<lambda>s. into single (f vs s))"
| "call_batch (AsyncBatch f) vs = Some (\<lambda>s. into single (f vs s))"
| "call_batch (SyncIterBatch f) vs = Some (\<lambda>s. into Iter (f vs s))"
| "call_batch (AsyncStreamBatch f) vs = Some (\<lambda>s. into Stream (f vs s))"
| "call_batch _ vs = None"

text \<open>\<open>Task::parallel\<close>: all sub-tasks on the same input; the first error by position, else the last value.\<close>

fun join_subtasks :: "('a, 's) task list \<Rightarrow> 'a val \<Rightarrow> 's \<Rightarrow> (str + 'a val \<times> bool) list option \<times> 's" where
  "join_subtasks [] v s = (Some [], s)"
| "join_subtasks (t # ts) v s =
     (case call t v of
        None \<Rightarrow> (None, s)
      | Some run \<Rightarrow>
          (let (r, s1) = run s;
               one = (case r of
                  Inl e \<Rightarrow> Inl e
                | Inr (Single w u) \<Rightarrow> Inr (w, u)
                | Inr _ \<Rightarrow> Inl (lit ''iter/stream tasks are not supported inside Task::parallel''));
               (rest, s2) = join_subtasks ts v s1 in
           (map_option ((#) one) rest, s2)))"

fun last_ok :: "(str + 'x) list \<Rightarrow> 'x \<Rightarrow> str + 'x" where
  "last_ok [] x = Inr x"
| "last_ok (Inl e # rs) x = Inl e"
| "last_ok (Inr y # rs) x = last_ok rs y"

text \<open>\<open>None\<close>: a batch variant among them panics. Without sub-tasks the input itself is returned.\<close>

definition parallel :: "('a, 's) task list \<Rightarrow> 'a val \<Rightarrow> 's \<Rightarrow> (str + 'a val \<times> bool) option \<times> 's" where
  "parallel ts v s =
     (if ts = [] then (Some (Inr (v, False)), s)
      else case join_subtasks ts v s of
        (None, s') \<Rightarrow> (None, s')
      | (Some rs, s') \<Rightarrow> (Some (last_ok rs (v, False)), s'))"

section \<open>Retry policy\<close>

text \<open>Durations in nanoseconds; a product above the largest \<open>Duration\<close> panics (\<open>None\<close>).\<close>

datatype retry_delay = Constant nat | Exponential nat nat

datatype retry_policy = NoRetry | Limited nat retry_delay

definition u32_max :: nat where "u32_max = 2 ^ 32 - 1"
definition max_duration :: nat where "max_duration = (2 ^ 64 - 1) * 10 ^ 9 + (10 ^ 9 - 1)"

definition checked_pow :: "nat \<Rightarrow> nat \<Rightarrow> nat option" where
  "checked_pow b n = (if b ^ n \<le> u32_max then Some (b ^ n) else None)"

fun compute_delay :: "retry_delay \<Rightarrow> nat \<Rightarrow> nat option" where
  "compute_delay (Constant d) retry_index = Some d"
| "compute_delay (Exponential base factor) retry_index =
     (let multiplier = (case checked_pow factor retry_index of Some m \<Rightarrow> m | None \<Rightarrow> u32_max) in
      if base * multiplier \<le> max_duration then Some (base * multiplier) else None)"

fun max_attempts :: "retry_policy \<Rightarrow> nat" where
  "max_attempts NoRetry = 1"
| "max_attempts (Limited n _) = n"

text \<open>\<open>None\<close>: no delay; \<open>Some None\<close>: the product overflows.\<close>

fun retry_delay_of :: "retry_policy \<Rightarrow> nat \<Rightarrow> nat option option" where
  "retry_delay_of NoRetry retry_index = None"
| "retry_delay_of (Limited _ d) retry_index = Some (compute_delay d retry_index)"

section \<open>State\<close>

datatype event =
    TaskStarted nat str
  | TaskSucceeded nat str
  | TaskRetrying nat nat str
  | TaskGaveUp nat nat str
  | ItemSkipped str
  | Acquired nat
  | Called nat
  | Slept nat
  | ProgressDone nat
  | SawCancel
  | MarkedCompleted str
  | MarkedFailed str str

datatype stop = Failed execution_error | Panicked

record 's exec_state =
  xs_world :: 's
  xs_visited :: "uuid set"
  xs_looks :: nat
  xs_trace :: "event list"

type_synonym ('s, 'x) run_step = "('s exec_state, stop, 'x) action"

record 's exec_status_manager =
  sm_is_completed :: "str \<Rightarrow> str \<Rightarrow> uuid option \<Rightarrow> 's \<Rightarrow> (str + bool) \<times> 's"
  sm_mark_completed :: "str \<Rightarrow> str \<Rightarrow> uuid option \<Rightarrow> 's \<Rightarrow> (str + unit) \<times> 's"
  sm_mark_failed :: "str \<Rightarrow> str \<Rightarrow> uuid option \<Rightarrow> str \<Rightarrow> 's \<Rightarrow> (str + unit) \<times> 's"
  sm_stamp_provenance :: "str \<Rightarrow> str \<Rightarrow> str \<Rightarrow> uuid option \<Rightarrow> str option \<Rightarrow> 's \<Rightarrow> (str + unit) \<times> 's"

definition noop_exec_status_manager :: "'s exec_status_manager" where
  "noop_exec_status_manager =
     \<lparr>sm_is_completed = (\<lambda>_ _ _ s. (Inr False, s)), sm_mark_completed = (\<lambda>_ _ _ s. (Inr (), s)),
      sm_mark_failed = (\<lambda>_ _ _ _ s. (Inr (), s)), sm_stamp_provenance = (\<lambda>_ _ _ _ _ s. (Inr (), s))\<rparr>"

record ('a, 's) task_info =
  ti_task :: "('a, 's) task"
  ti_name :: "str option"
  ti_batch_size :: "nat option"
  ti_enriches :: bool
  ti_rate_limiter :: "nat option"

record ('a, 's) exec_env =
  xe_policy :: retry_policy
  xe_default_batch_size :: nat
  xe_name :: "str option"
  xe_data_id :: "('a val \<Rightarrow> str option) option"
  xe_rate_limiter :: "nat option"
  xe_status :: "'s exec_status_manager"
  xe_context :: "pipeline_context option"
  xe_user_label :: "str option"
  xe_cancel_from :: "nat option"

definition emit :: "event list \<Rightarrow> ('s, unit) run_step" where
  [action_defs]: "emit evs st = (Inr (), st\<lparr>xs_trace := xs_trace st @ evs\<rparr>)"

text \<open>One look at the token: \<open>Cancelled\<close> if it was cancelled by then.\<close>

definition check_cancelled :: "('a, 's) exec_env \<Rightarrow> ('s, unit) run_step" where
  "check_cancelled X st =
     (case xe_cancel_from X of
        Some k \<Rightarrow>
          (if k \<le> xs_looks st
           then (Inl (Failed Cancelled), st\<lparr>xs_looks := xs_looks st + 1, xs_trace := xs_trace st @ [SawCancel]\<rparr>)
           else (Inr (), st\<lparr>xs_looks := xs_looks st + 1\<rparr>))
      | None \<Rightarrow> (Inr (), st\<lparr>xs_looks := xs_looks st + 1\<rparr>))"

text \<open>A call into the world.\<close>

definition act :: "('s \<Rightarrow> (str + 'x) \<times> 's) \<Rightarrow> ('s, str + 'x) run_step" where
  [action_defs]: "act f st = (let (r, s) = f (xs_world st) in (Inr r, st\<lparr>xs_world := s\<rparr>))"

definition pull_item :: "('s \<Rightarrow> 'x \<times> 's) \<Rightarrow> ('s, 'x) run_step" where
  [action_defs]: "pull_item f st = (let (x, s) = f (xs_world st) in (Inr x, st\<lparr>xs_world := s\<rparr>))"

definition data_id_of :: "('a, 's) exec_env \<Rightarrow> 'a val \<Rightarrow> str option" where
  "data_id_of X v = Option.bind (xe_data_id X) (\<lambda>f. f v)"

definition dataset_of :: "('a, 's) exec_env \<Rightarrow> uuid option" where
  "dataset_of X = Option.bind (xe_context X) pc_dataset_id"

definition user_of :: "('a, 's) exec_env \<Rightarrow> uuid option" where
  "user_of X = Option.bind (xe_context X) pc_user_id"

definition name_of :: "str option \<Rightarrow> str" where
  "name_of n = opt_default n []"

section \<open>One task call\<close>

definition provenance_inputs ::
  "('a, 's) exec_env \<Rightarrow> ('a, 's) task_info \<Rightarrow> nat \<Rightarrow> 'a val \<Rightarrow> provenance_context" where
  "provenance_inputs X info index input =
     \<lparr>pv_pipeline_name = name_of (xe_name X), pv_task_name = name_of (ti_name info),
      pv_user_label = xe_user_label X, pv_node_set = extract_node_set_from_value input,
      pv_content_hash = extract_content_hash_from_value input, pv_task_rank = Some (int (index + 1))\<rparr>"

text \<open>An item of a producer is owned; a single output is stamped when it is uniquely owned.\<close>

definition stamp_boxed_item ::
  "('a, 's) exec_env \<Rightarrow> provenance_context \<Rightarrow> 'a val \<Rightarrow> ('s, 'a val) run_step" where
  "stamp_boxed_item X prov v st =
     (case xe_context X of
        None \<Rightarrow> (Inr v, st)
      | Some _ \<Rightarrow> (let (v', visited) = stamp_tree_dyn prov v (xs_visited st) in
                   (Inr v', st\<lparr>xs_visited := visited\<rparr>)))"

definition stamp_single_output ::
  "('a, 's) exec_env \<Rightarrow> provenance_context \<Rightarrow> ('a, 's) resolved \<Rightarrow> ('s, ('a, 's) resolved) run_step" where
  "stamp_single_output X prov r =
     (case r of
        Single v unique \<Rightarrow>
          (if unique then and_then (stamp_boxed_item X prov v) (\<lambda>v'. ok (Single v' unique)) else ok r)
      | _ \<Rightarrow> ok r)"

definition node_set_of :: "('a, 's) resolved \<Rightarrow> str option" where
  "node_set_of r = (case r of Single (TaggedMeta ns _) _ \<Rightarrow> ns | _ \<Rightarrow> None)"

definition after_success ::
  "('a, 's) exec_env \<Rightarrow> ('a, 's) task_info \<Rightarrow> str option \<Rightarrow> provenance_context \<Rightarrow> ('a, 's) resolved
   \<Rightarrow> ('s, ('a, 's) resolved) run_step" where
  "after_success X info data_id prov r =
     and_then (stamp_single_output X prov r)
       (\<lambda>r'. case data_id of
          None \<Rightarrow> ok r'
        | Some i \<Rightarrow> and_then (act (sm_stamp_provenance (xe_status X) i (name_of (xe_name X)) (name_of (ti_name info))
                               (user_of X) (node_set_of r'))) (\<lambda>_. ok r'))"

definition acquire_limiter :: "nat option \<Rightarrow> ('s, unit) run_step" where
  "acquire_limiter limiter = emit (case limiter of Some l \<Rightarrow> [Acquired l] | None \<Rightarrow> [])"

definition sleep_before_retry :: "retry_policy \<Rightarrow> nat \<Rightarrow> ('s, unit) run_step" where
  "sleep_before_retry policy retry_index =
     (case retry_delay_of policy retry_index of
        None \<Rightarrow> ok ()
      | Some None \<Rightarrow> fail Panicked
      | Some (Some d) \<Rightarrow> emit [Slept d])"

text \<open>The attempts from number \<open>attempt\<close> on; \<open>left\<close> more are allowed after it.\<close>

fun attempts_from ::
  "('a, 's) exec_env \<Rightarrow> ('a, 's) task_info \<Rightarrow> nat \<Rightarrow> 'a val \<Rightarrow> str option \<Rightarrow> provenance_context
   \<Rightarrow> nat option \<Rightarrow> nat \<Rightarrow> nat \<Rightarrow> ('s, ('a, 's) resolved) run_step" where
  "attempts_from X info index input data_id prov limiter left attempt =
     and_then (acquire_limiter limiter)
       (\<lambda>_. case call (ti_task info) input of
          None \<Rightarrow> fail Panicked
        | Some run \<Rightarrow>
            and_then (emit [Called index]) (\<lambda>_. and_then (act run)
              (\<lambda>outcome. case outcome of
                 Inr r \<Rightarrow> after_success X info data_id prov r
               | Inl e \<Rightarrow>
                   (case left of
                      Suc left' \<Rightarrow>
                        and_then (emit [TaskRetrying index attempt e])
                          (\<lambda>_. and_then (sleep_before_retry (xe_policy X) (attempt - 1))
                            (\<lambda>_. attempts_from X info index input data_id prov limiter left' (attempt + 1)))
                    | 0 \<Rightarrow>
                        and_then (emit [TaskGaveUp index (max_attempts (xe_policy X)) e])
                          (\<lambda>_. fail (Failed (TaskFailed index (max_attempts (xe_policy X)) e)))))))"

declare attempts_from.simps [simp del]

definition call_with_retry ::
  "('a, 's) exec_env \<Rightarrow> ('a, 's) task_info \<Rightarrow> nat \<Rightarrow> 'a val \<Rightarrow> ('s, ('a, 's) resolved) run_step" where
  "call_with_retry X info index input =
     attempts_from X info index input (data_id_of X input) (provenance_inputs X info index input)
       (or_else (ti_rate_limiter info) (xe_rate_limiter X)) (max_attempts (xe_policy X) - 1) 1"

section \<open>Accumulating batches\<close>

definition complete_batch_progress :: "('a, 's) task_info list \<Rightarrow> nat \<Rightarrow> ('s, unit) run_step" where
  "complete_batch_progress tail index =
     emit (case tail of next # _ \<Rightarrow> if is_batch (ti_task next) then [ProgressDone index] else [] | [] \<Rightarrow> [])"

definition batch_size_for :: "('a, 's) exec_env \<Rightarrow> ('a, 's) task_info list \<Rightarrow> nat" where
  "batch_size_for X rest =
     opt_default (case rest of next # _ \<Rightarrow> ti_batch_size next | [] \<Rightarrow> None) (xe_default_batch_size X)"

text \<open>
  The two accumulation loops. \<open>dispatch\<close> runs the tail of the pipeline on a batch, \<open>batch\<close> is what
  has been gathered.
\<close>

fun process_iter ::
  "('a, 's) exec_env \<Rightarrow> ('a val list \<Rightarrow> ('s, 'a val list) run_step) \<Rightarrow> nat \<Rightarrow> provenance_context
   \<Rightarrow> ('s \<Rightarrow> 'a val \<times> 's) list \<Rightarrow> 'a val list \<Rightarrow> ('s, 'a val list) run_step" where
  "process_iter X dispatch batch_size prov [] batch = (if batch = [] then ok [] else dispatch batch)"
| "process_iter X dispatch batch_size prov (pull # pulls) batch =
     and_then (pull_item pull)
       (\<lambda>v. and_then (check_cancelled X)
         (\<lambda>_. if is_dropped v then process_iter X dispatch batch_size prov pulls batch
              else and_then (stamp_boxed_item X prov v)
                (\<lambda>v'. if batch_size \<le> length (batch @ [v'])
                   then and_then (dispatch (batch @ [v']))
                     (\<lambda>out. and_then (process_iter X dispatch batch_size prov pulls []) (\<lambda>outs. ok (out @ outs)))
                   else process_iter X dispatch batch_size prov pulls (batch @ [v']))))"

fun process_stream ::
  "('a, 's) exec_env \<Rightarrow> ('a val list \<Rightarrow> ('s, 'a val list) run_step) \<Rightarrow> nat \<Rightarrow> nat \<Rightarrow> provenance_context
   \<Rightarrow> ('s \<Rightarrow> (str + 'a val) \<times> 's) list \<Rightarrow> 'a val list \<Rightarrow> ('s, 'a val list) run_step" where
  "process_stream X dispatch batch_size first_index prov [] batch =
     and_then (check_cancelled X) (\<lambda>_. if batch = [] then ok [] else dispatch batch)"
| "process_stream X dispatch batch_size first_index prov (pull # pulls) batch =
     and_then (check_cancelled X)
       (\<lambda>_. and_then (act pull)
         (\<lambda>pulled. case pulled of
            Inl e \<Rightarrow> fail (Failed (TaskFailed (first_index - 1) 1 e))
          | Inr v \<Rightarrow>
              (if is_dropped v then process_stream X dispatch batch_size first_index prov pulls batch
               else and_then (stamp_boxed_item X prov v)
                 (\<lambda>v'. if batch_size \<le> length (batch @ [v'])
                    then and_then (dispatch (batch @ [v']))
                      (\<lambda>out. and_then (process_stream X dispatch batch_size first_index prov pulls [])
                        (\<lambda>outs. ok (out @ outs)))
                    else process_stream X dispatch batch_size first_index prov pulls (batch @ [v'])))))"

section \<open>The depth-first executor\<close>

text \<open>Only where the item enters the pipeline: was it completed by an earlier run?\<close>

definition already_completed :: "('a, 's) exec_env \<Rightarrow> nat \<Rightarrow> 'a val \<Rightarrow> ('s, bool) run_step" where
  "already_completed X first_index input =
     (case (if first_index = 0 then data_id_of X input else None) of
        None \<Rightarrow> ok False
      | Some i \<Rightarrow>
          and_then (act (sm_is_completed (xe_status X) i (name_of (xe_name X)) (dataset_of X)))
            (\<lambda>r. case r of
               Inl e \<Rightarrow> fail (Failed (TaskFailed 0 0 e))
             | Inr False \<Rightarrow> ok False
             | Inr True \<Rightarrow> and_then (emit [ItemSkipped i]) (\<lambda>_. ok True)))"

definition passthrough_error :: str where
  "passthrough_error = lit ''task returned PassthroughSentinel but enriches=false''"

text \<open>What a resolved value flows into; \<open>continue\<close> runs the rest on one value, \<open>dispatch\<close> on a batch.\<close>

definition feed ::
  "('a, 's) exec_env \<Rightarrow> ('a, 's) task_info list \<Rightarrow> nat \<Rightarrow> provenance_context
   \<Rightarrow> ('a val list \<Rightarrow> ('s, 'a val list) run_step) \<Rightarrow> ('s \<Rightarrow> 'a val \<times> 's) list + ('s \<Rightarrow> (str + 'a val) \<times> 's) list
   \<Rightarrow> ('s, 'a val list) run_step" where
  "feed X rest index prov dispatch producer =
     and_then
       (case producer of
          Inl items \<Rightarrow> process_iter X dispatch (batch_size_for X rest) prov items []
        | Inr items \<Rightarrow> process_stream X dispatch (batch_size_for X rest) index prov items [])
       (\<lambda>outs. and_then (complete_batch_progress rest index) (\<lambda>_. ok outs))"

fun execute_from ::
  "('a, 's) exec_env \<Rightarrow> ('a, 's) task_info list \<Rightarrow> nat \<Rightarrow> 'a val \<Rightarrow> ('s, 'a val list) run_step"
and dispatch_batch ::
  "('a, 's) exec_env \<Rightarrow> ('a, 's) task_info list \<Rightarrow> nat \<Rightarrow> provenance_context \<Rightarrow> 'a val list
   \<Rightarrow> ('s, 'a val list) run_step" where
  "execute_from X [] first_index input = ok [input]"
| "execute_from X (info # rest) first_index input =
     and_then (check_cancelled X) (\<lambda>_. and_then (already_completed X first_index input)
       (\<lambda>completed. if completed then ok [] else
         and_then (emit [TaskStarted first_index (name_of (ti_name info))])
           (\<lambda>_. and_then (call_with_retry X info first_index input)
             (\<lambda>resolved. and_then (emit [TaskSucceeded first_index (name_of (ti_name info)), ProgressDone first_index])
               (\<lambda>_. case resolved of
                  Single v unique \<Rightarrow>
                    (if is_passthrough v then
                       (if ti_enriches info then execute_from X rest (first_index + 1) input
                        else fail (Failed (TaskFailed first_index 1 passthrough_error)))
                     else if is_dropped v then ok []
                     else execute_from X rest (first_index + 1) v)
                | Iter items \<Rightarrow>
                    feed X rest (first_index + 1) (provenance_inputs X info first_index input)
                      (\<lambda>batch. dispatch_batch X rest (first_index + 1) (provenance_inputs X info first_index input) batch)
                      (Inl items)
                | Stream items \<Rightarrow>
                    feed X rest (first_index + 1) (provenance_inputs X info first_index input)
                      (\<lambda>batch. dispatch_batch X rest (first_index + 1) (provenance_inputs X info first_index input) batch)
                      (Inr items))))))"
| "dispatch_batch X [] first_index prov batch = ok batch"
| "dispatch_batch X (next # rest) first_index prov batch =
     (if is_batch (ti_task next) then
        and_then (check_cancelled X)
          (\<lambda>_. and_then
             (case or_else (ti_rate_limiter next) (xe_rate_limiter X) of
                Some l \<Rightarrow> and_then (emit [Acquired l]) (\<lambda>_. check_cancelled X)
              | None \<Rightarrow> ok ())
          (\<lambda>_. case call_batch (ti_task next) batch of
             None \<Rightarrow> fail Panicked
           | Some run \<Rightarrow>
               and_then (emit [Called first_index]) (\<lambda>_. and_then (act run)
                 (\<lambda>outcome. case outcome of
                    Inl e \<Rightarrow> fail (Failed (TaskFailed first_index 1 e))
                  | Inr r \<Rightarrow>
                      (let batch_prov = prov\<lparr>pv_task_name := name_of (ti_name next),
                                              pv_task_rank := Some (int (first_index + 1))\<rparr> in
                       and_then (stamp_single_output X batch_prov r)
                         (\<lambda>resolved. case resolved of
                            Single v unique \<Rightarrow> execute_from X rest (first_index + 1) v
                          | Iter items \<Rightarrow>
                              feed X rest (first_index + 1) batch_prov
                                (\<lambda>b. dispatch_batch X rest (first_index + 1) batch_prov b) (Inl items)
                          | Stream items \<Rightarrow>
                              feed X rest (first_index + 1) batch_prov
                                (\<lambda>b. dispatch_batch X rest (first_index + 1) batch_prov b) (Inr items)))))))
      else collect (\<lambda>item. execute_from X (next # rest) first_index item) batch)"

section \<open>The items of a run\<close>

definition mark_item :: "('a, 's) exec_env \<Rightarrow> str \<Rightarrow> stop + 'a val list \<Rightarrow> ('s, unit) run_step" where
  "mark_item X i result =
     (case result of
        Inr _ \<Rightarrow> and_then (emit [MarkedCompleted i])
           (\<lambda>_. and_then (act (sm_mark_completed (xe_status X) i (name_of (xe_name X)) (dataset_of X))) (\<lambda>_. ok ()))
      | Inl (Failed (TaskFailed _ _ source)) \<Rightarrow> and_then (emit [MarkedFailed i source])
           (\<lambda>_. and_then (act (sm_mark_failed (xe_status X) i (name_of (xe_name X)) (dataset_of X) source)) (\<lambda>_. ok ()))
      | Inl _ \<Rightarrow> ok ())"

definition execute_one_item ::
  "('a, 's) exec_env \<Rightarrow> ('a, 's) task_info list \<Rightarrow> 'a val \<Rightarrow> ('s, 'a val list) run_step" where
  "execute_one_item X tasks input st =
     (let (result, st1) = execute_from X tasks 0 input st in
      case data_id_of X input of
        None \<Rightarrow> (result, st1)
      | Some i \<Rightarrow> (result, snd (mark_item X i result st1)))"

definition execute_items_seq ::
  "('a, 's) exec_env \<Rightarrow> ('a, 's) task_info list \<Rightarrow> 'a val list \<Rightarrow> ('s, 'a val list) run_step" where
  "execute_items_seq X tasks inputs = collect (execute_one_item X tasks) inputs"

text \<open>
  \<open>join_all\<close> of one chunk: the items end in some order, \<open>turns\<close>; their results are kept by
  position. A panic unwinds at once.
\<close>

fun join_all ::
  "('a val \<Rightarrow> ('s, 'a val list) run_step) \<Rightarrow> 'a val list \<Rightarrow> nat list \<Rightarrow> (nat \<Rightarrow> stop + 'a val list)
   \<Rightarrow> ('s, nat \<Rightarrow> stop + 'a val list) run_step" where
  "join_all item chunk [] results st = (Inr results, st)"
| "join_all item chunk (i # turns) results st =
     (case item (chunk ! i) st of
        (Inl Panicked, st') \<Rightarrow> (Inl Panicked, st')
      | (r, st') \<Rightarrow> join_all item chunk turns (results(i := r)) st')"

fun gather :: "(nat \<Rightarrow> stop + 'a val list) \<Rightarrow> nat list \<Rightarrow> stop + 'a val list" where
  "gather results [] = Inr []"
| "gather results (i # is) =
     (case results i of
        Inl e \<Rightarrow> Inl e
      | Inr out \<Rightarrow> (case gather results is of Inl e \<Rightarrow> Inl e | Inr outs \<Rightarrow> Inr (out @ outs)))"

definition execute_chunk ::
  "('a, 's) exec_env \<Rightarrow> ('a, 's) task_info list \<Rightarrow> (nat \<Rightarrow> nat list) \<Rightarrow> 'a val list \<Rightarrow> ('s, 'a val list) run_step" where
  "execute_chunk X tasks order chunk =
     and_then (join_all (execute_one_item X tasks) chunk (order (length chunk)) (\<lambda>_. Inr []))
       (\<lambda>results st. (gather results [0..<length chunk], st))"

definition execute_items_par ::
  "('a, 's) exec_env \<Rightarrow> ('a, 's) task_info list \<Rightarrow> nat \<Rightarrow> (nat \<Rightarrow> nat list) \<Rightarrow> 'a val list
   \<Rightarrow> ('s, 'a val list) run_step" where
  "execute_items_par X tasks concurrency order inputs =
     collect (execute_chunk X tasks order) (chunks concurrency inputs)"

definition execute_items ::
  "('a, 's) exec_env \<Rightarrow> ('a, 's) task_info list \<Rightarrow> nat \<Rightarrow> (nat \<Rightarrow> nat list) \<Rightarrow> 'a val list
   \<Rightarrow> ('s, 'a val list) run_step" where
  "execute_items X tasks concurrency order inputs =
     (if concurrency \<le> 1 then execute_items_seq X tasks inputs
      else execute_items_par X tasks concurrency order inputs)"

section \<open>Actions that always return\<close>

definition gives :: "('s, 'x) run_step \<Rightarrow> 'x \<Rightarrow> bool" where
  "gives m x \<longleftrightarrow> (\<forall>st. fst (m st) = Inr x)"

named_theorems gives_rules

lemma gives_ok [gives_rules]: "gives (ok x) x"
  by (simp add: gives_def ok_def)

lemma gives_and_then [gives_rules]: "gives m x \<Longrightarrow> gives (k x) y \<Longrightarrow> gives (and_then m k) y"
  unfolding gives_def and_then_def by (metis (no_types, lifting) old.prod.case old.sum.simps(6) prod.collapse)

lemma gives_emit [gives_rules]: "gives (emit evs) ()"
  by (simp add: gives_def emit_def)

lemma gives_check [gives_rules]: "xe_cancel_from X = None \<Longrightarrow> gives (check_cancelled X) ()"
  by (simp add: gives_def check_cancelled_def)

lemma gives_act: "(\<And>s. fst (f s) = r) \<Longrightarrow> gives (act f) r"
  unfolding gives_def act_def by (simp add: Let_def split_beta)

lemma gives_pull: "(\<And>s. fst (f s) = x) \<Longrightarrow> gives (pull_item f) x"
  unfolding gives_def pull_item_def by (simp add: Let_def split_beta)

lemma gives_collect:
  "(\<And>x. x \<in> set xs \<Longrightarrow> gives (f x) (g x)) \<Longrightarrow> gives (collect f xs) (concat (map g xs))"
  by (induction xs) (auto intro!: gives_rules)

section \<open>What a pipeline computes\<close>

text \<open>
  A task that always succeeds and whose outputs do not depend on the world, as a function of its
  input: one value, or the values of its producer; for the batch variants, of the slice.
\<close>

datatype 'a behaviour =
    Map "'a val \<Rightarrow> 'a val"
  | Fan "'a val \<Rightarrow> 'a val list"
  | Fold nat "'a val list \<Rightarrow> 'a val"
  | Flat nat "'a val list \<Rightarrow> 'a val list"

abbreviation kept :: "'a val list \<Rightarrow> 'a val list" where
  "kept vs \<equiv> filter (\<lambda>v. \<not> is_dropped v) vs"

fun meaning :: "'a behaviour list \<Rightarrow> 'a val \<Rightarrow> 'a val list"
and meaning_all :: "'a behaviour list \<Rightarrow> 'a val list \<Rightarrow> 'a val list" where
  "meaning [] v = [v]"
| "meaning (Map f # bs) v =
     (if is_passthrough (f v) then meaning bs v else if is_dropped (f v) then [] else meaning bs (f v))"
| "meaning (Fan f # bs) v = meaning_all bs (kept (f v))"
| "meaning (Fold n f # bs) v = []"
| "meaning (Flat n f # bs) v = []"
| "meaning_all [] vs = vs"
| "meaning_all (Fold n f # bs) vs = concat (map (\<lambda>chunk. meaning bs (f chunk)) (chunks n vs))"
| "meaning_all (Flat n f # bs) vs = concat (map (\<lambda>chunk. meaning_all bs (kept (f chunk))) (chunks n vs))"
| "meaning_all (Map f # bs) vs = concat (map (\<lambda>v. meaning (Map f # bs) v) vs)"
| "meaning_all (Fan f # bs) vs = concat (map (\<lambda>v. meaning (Fan f # bs) v) vs)"

text \<open>Batch tasks only come after a producer.\<close>

fun well_fed :: "bool \<Rightarrow> 'a behaviour list \<Rightarrow> bool" where
  "well_fed produced [] = True"
| "well_fed produced (Map f # bs) = well_fed False bs"
| "well_fed produced (Fan f # bs) = well_fed True bs"
| "well_fed produced (Fold n f # bs) = (produced \<and> well_fed False bs)"
| "well_fed produced (Flat n f # bs) = (produced \<and> well_fed True bs)"

fun unstamped :: "'a val \<Rightarrow> bool" where
  "unstamped (Container _) = False"
| "unstamped (Containers _) = False"
| "unstamped _ = True"

definition yields_all :: "('s \<Rightarrow> 'x \<times> 's) list \<Rightarrow> 'x list \<Rightarrow> bool" where
  "yields_all ps xs \<longleftrightarrow> list_all2 (\<lambda>p x. \<forall>s. fst (p s) = x) ps xs"

fun task_gives :: "('a, 's) task \<Rightarrow> 'a behaviour \<Rightarrow> bool" where
  "task_gives (Sync g) (Map f) = (\<forall>v s. \<exists>u. fst (g v s) = Inr (f v, u))"
| "task_gives (Async g) (Map f) = (\<forall>v s. \<exists>u. fst (g v s) = Inr (f v, u))"
| "task_gives (SyncIter g) (Fan f) = (\<forall>v s. \<exists>ps. fst (g v s) = Inr ps \<and> yields_all ps (f v))"
| "task_gives (AsyncStream g) (Fan f) = (\<forall>v s. \<exists>ps. fst (g v s) = Inr ps \<and> yields_all ps (map Inr (f v)))"
| "task_gives (SyncBatch g) (Fold n f) = (\<forall>vs s. \<exists>u. fst (g vs s) = Inr (f vs, u))"
| "task_gives (AsyncBatch g) (Fold n f) = (\<forall>vs s. \<exists>u. fst (g vs s) = Inr (f vs, u))"
| "task_gives (SyncIterBatch g) (Flat n f) = (\<forall>vs s. \<exists>ps. fst (g vs s) = Inr ps \<and> yields_all ps (f vs))"
| "task_gives (AsyncStreamBatch g) (Flat n f) = (\<forall>vs s. \<exists>ps. fst (g vs s) = Inr ps \<and> yields_all ps (map Inr (f vs)))"
| "task_gives _ _ = False"

fun outputs_unstamped :: "'a behaviour \<Rightarrow> bool" where
  "outputs_unstamped (Map f) = (\<forall>v. unstamped (f v))"
| "outputs_unstamped (Fan f) = (\<forall>v. \<forall>w \<in> set (f v). unstamped w)"
| "outputs_unstamped (Fold n f) = (\<forall>vs. unstamped (f vs))"
| "outputs_unstamped (Flat n f) = (\<forall>vs. \<forall>w \<in> set (f vs). unstamped w)"

definition own_batch_size :: "('a, 's) exec_env \<Rightarrow> ('a, 's) task_info \<Rightarrow> nat" where
  "own_batch_size X info = opt_default (ti_batch_size info) (xe_default_batch_size X)"

fun sized :: "nat \<Rightarrow> 'a behaviour \<Rightarrow> bool" where
  "sized n (Fold m f) = (m = n)"
| "sized n (Flat m f) = (m = n)"
| "sized n _ = True"

definition realises :: "('a, 's) exec_env \<Rightarrow> ('a, 's) task_info \<Rightarrow> 'a behaviour \<Rightarrow> bool" where
  "realises X info b \<longleftrightarrow> task_gives (ti_task info) b \<and> outputs_unstamped b
     \<and> 0 < own_batch_size X info \<and> sized (own_batch_size X info) b
     \<and> (ti_enriches info \<or> (\<forall>f. b = Map f \<longrightarrow> (\<forall>v. \<not> is_passthrough (f v))))"

definition undisturbed :: "('a, 's) exec_env \<Rightarrow> bool" where
  "undisturbed X \<longleftrightarrow> xe_cancel_from X = None \<and> 0 < xe_default_batch_size X
     \<and> (\<forall>i n d s. fst (sm_is_completed (xe_status X) i n d s) = Inr False)"

datatype 'a outcome = One "'a val" | Many "'a val list"

fun outcome_of :: "'a behaviour \<Rightarrow> 'a val list \<Rightarrow> 'a outcome" where
  "outcome_of (Map f) vs = One (f (hd vs))"
| "outcome_of (Fan f) vs = Many (f (hd vs))"
| "outcome_of (Fold n f) vs = One (f vs)"
| "outcome_of (Flat n f) vs = Many (f vs)"

fun resolves :: "('a, 's) resolved \<Rightarrow> 'a outcome \<Rightarrow> bool" where
  "resolves (Single v u) (One w) = (v = w)"
| "resolves (Iter ps) (Many ws) = yields_all ps ws"
| "resolves (Stream ps) (Many ws) = yields_all ps (map Inr ws)"
| "resolves _ _ = False"

fun outcome_unstamped :: "'a outcome \<Rightarrow> bool" where
  "outcome_unstamped (One v) = unstamped v"
| "outcome_unstamped (Many vs) = list_all unstamped vs"

definition sat :: "('s, 'x) run_step \<Rightarrow> ('x \<Rightarrow> bool) \<Rightarrow> bool" where
  "sat m P \<longleftrightarrow> (\<forall>st. \<exists>x. fst (m st) = Inr x \<and> P x)"

lemma gives_after_sat: "sat m P \<Longrightarrow> (\<And>x. P x \<Longrightarrow> gives (k x) y) \<Longrightarrow> gives (and_then m k) y"
  unfolding sat_def gives_def and_then_def
  by (metis (no_types, lifting) case_prod_conv old.sum.simps(6) prod.collapse)

lemma sat_after_gives: "gives m x \<Longrightarrow> sat (k x) P \<Longrightarrow> sat (and_then m k) P"
  unfolding sat_def gives_def and_then_def
  by (metis (no_types, lifting) case_prod_conv old.sum.simps(6) prod.collapse)

lemma sat_after_sat:
  assumes "sat m P" and "\<And>x. P x \<Longrightarrow> sat (k x) Q"
  shows "sat (and_then m k) Q"
  unfolding sat_def
proof
  fix st
  obtain x st' where m: "m st = (Inr x, st')" and "P x" using assms(1) unfolding sat_def by (metis prod.collapse)
  then show "\<exists>y. fst (and_then m k st) = Inr y \<and> Q y"
    using assms(2) [of x] by (simp add: sat_def and_then_def)
qed

lemma sat_ok: "P x \<Longrightarrow> sat (ok x) P"
  by (simp add: sat_def ok_def)

lemma sat_act: "(\<And>s. P (fst (f s))) \<Longrightarrow> sat (act f) P"
  unfolding sat_def act_def by (simp add: Let_def split_beta)

lemma call_resolves:
  assumes "task_gives t b" and "\<not> is_batch t"
  shows "\<exists>run. call t v = Some run \<and> (\<forall>s. \<exists>r. fst (run s) = Inr r \<and> resolves r (outcome_of b [v]))"
  using assms
  by (cases "(t, b)" rule: task_gives.cases; simp add: into_def split_beta;
      metis (no_types, lifting) case_prod_conv fst_conv old.sum.simps(6) prod.collapse resolves.simps(1-3) snd_conv)

lemma call_batch_resolves:
  assumes "task_gives t b" and "is_batch t"
  shows "\<exists>run. call_batch t vs = Some run \<and> (\<forall>s. \<exists>r. fst (run s) = Inr r \<and> resolves r (outcome_of b vs))"
  using assms
  by (cases "(t, b)" rule: task_gives.cases; simp add: into_def split_beta;
      metis (no_types, lifting) case_prod_conv fst_conv old.sum.simps(6) prod.collapse resolves.simps(1-3) snd_conv)

lemma stamp_unstamped [simp]: "unstamped v \<Longrightarrow> stamp_tree_dyn prov v V = (v, V)"
  by (cases v) auto

lemma gives_stamp [gives_rules]: "unstamped v \<Longrightarrow> gives (stamp_boxed_item X prov v) v"
  by (auto simp: gives_def stamp_boxed_item_def split: option.split)

lemma stamp_single_resolves:
  assumes "resolves r o1" and "outcome_unstamped o1"
  shows "gives (stamp_single_output X prov r) r"
proof (cases r)
  case (Single v u)
  with assms have "unstamped v" by (cases o1) auto
  with Single show ?thesis
    by (auto simp: stamp_single_output_def intro!: gives_rules)
qed (auto simp: stamp_single_output_def intro: gives_rules)

lemma after_success_resolves:
  assumes "resolves r o1" and "outcome_unstamped o1"
  shows "sat (after_success X info data_id prov r) (\<lambda>r'. resolves r' o1)"
  unfolding after_success_def
  by (rule sat_after_gives [OF stamp_single_resolves [OF assms]])
    (auto split: option.split intro!: sat_ok assms(1) sat_after_sat [where P = "\<lambda>_. True"] sat_act)

lemma call_with_retry_resolves:
  assumes "task_gives (ti_task info) b" and "\<not> is_batch (ti_task info)" and "outcome_unstamped (outcome_of b [v])"
  shows "sat (call_with_retry X info index v) (\<lambda>r. resolves r (outcome_of b [v]))"
proof -
  obtain run where run: "call (ti_task info) v = Some run"
    and res: "\<forall>s. \<exists>r. fst (run s) = Inr r \<and> resolves r (outcome_of b [v])"
    using call_resolves [OF assms(1,2)] by blast
  show ?thesis
    unfolding call_with_retry_def
    apply (subst attempts_from.simps)
    apply (rule sat_after_gives, simp add: acquire_limiter_def gives_emit)
    apply (simp add: run)
    apply (rule sat_after_gives, rule gives_emit)
    apply (rule sat_after_sat [where P = "\<lambda>x. \<exists>r. x = Inr r \<and> resolves r (outcome_of b [v])"])
     apply (rule sat_act, use res in blast)
    using after_success_resolves [OF _ assms(3)] by auto
qed

lemma chunks_Nil [simp]: "chunks n [] = []"
  by (subst chunks.simps) simp

lemma chunks_short: "xs \<noteq> [] \<Longrightarrow> length xs \<le> n \<Longrightarrow> chunks n xs = [xs]"
  by (subst chunks.simps) (cases n; auto)

lemma chunks_full: "length xs = n \<Longrightarrow> 0 < n \<Longrightarrow> chunks n (xs @ ys) = xs # chunks n ys"
  by (subst chunks.simps) auto

lemma gives_flush:
  assumes "\<And>b. gives (dispatch b) (D b)" and "gives m outs"
  shows "gives (and_then (dispatch b) (\<lambda>out. and_then m (\<lambda>os. ok (out @ os)))) (D b @ outs)"
  by (rule gives_and_then [OF assms(1)], rule gives_and_then [OF assms(2)], rule gives_ok)

lemma process_iter_gives:
  assumes "yields_all ps ws" and "list_all unstamped ws" and "xe_cancel_from X = None"
    and "\<And>b. gives (dispatch b) (D b)" and "length batch < n"
  shows "gives (process_iter X dispatch n prov ps batch) (concat (map D (chunks n (batch @ kept ws))))"
  using assms(1,2,5)
proof (induction ps arbitrary: ws batch)
  case Nil
  then show ?case
    using assms(4) by (auto simp: yields_all_def chunks_short intro!: gives_rules)
next
  case (Cons p ps)
  then obtain w ws' where ws: "ws = w # ws'" and w: "\<And>s. fst (p s) = w" "unstamped w"
    and rest: "yields_all ps ws'" "list_all unstamped ws'" by (auto simp: yields_all_def list_all2_Cons1)
  note IH = Cons.IH [OF rest]
  have flush: "gives (and_then (dispatch (batch @ [w])) (\<lambda>out. and_then (process_iter X dispatch n prov ps []) (\<lambda>os. ok (out @ os))))
      (D (batch @ [w]) @ concat (map D (chunks n ([] @ kept ws'))))"
    by (rule gives_flush [OF assms(4) IH]) (use Cons.prems(3) in simp)
  have add: "gives (if n \<le> length (batch @ [w]) then and_then (dispatch (batch @ [w])) (\<lambda>out. and_then (process_iter X dispatch n prov ps []) (\<lambda>os. ok (out @ os)))
        else process_iter X dispatch n prov ps (batch @ [w])) (concat (map D (chunks n (batch @ w # kept ws'))))"
  proof (cases "n \<le> length (batch @ [w])")
    case True
    with Cons.prems(3) have "chunks n ((batch @ [w]) @ kept ws') = (batch @ [w]) # chunks n (kept ws')" by (intro chunks_full) auto
    with True flush show ?thesis by simp
  next
    case False
    with IH [of "batch @ [w]"] show ?thesis by simp
  qed
  show ?case
    unfolding process_iter.simps
    apply (rule gives_and_then [OF gives_pull [OF w(1)] gives_and_then [OF gives_check [OF assms(3)]]])
    using add IH [of batch] Cons.prems(3) by (auto simp: ws intro!: gives_and_then [OF gives_stamp [OF w(2)]])
qed

lemma process_stream_gives:
  assumes "yields_all ps (map Inr ws)" and "list_all unstamped ws" and "xe_cancel_from X = None"
    and "\<And>b. gives (dispatch b) (D b)" and "length batch < n"
  shows "gives (process_stream X dispatch n index prov ps batch) (concat (map D (chunks n (batch @ kept ws))))"
  using assms(1,2,5)
proof (induction ps arbitrary: ws batch)
  case Nil
  then show ?case
    using assms(3,4) by (auto simp: yields_all_def chunks_short intro!: gives_rules)
next
  case (Cons p ps)
  then obtain w ws' where ws: "ws = w # ws'" and w: "\<And>s. fst (p s) = Inr w" "unstamped w"
    and rest: "yields_all ps (map Inr ws')" "list_all unstamped ws'" by (auto simp: yields_all_def list_all2_Cons1)
  note IH = Cons.IH [OF rest]
  have flush: "gives (and_then (dispatch (batch @ [w])) (\<lambda>out. and_then (process_stream X dispatch n index prov ps []) (\<lambda>os. ok (out @ os))))
      (D (batch @ [w]) @ concat (map D (chunks n ([] @ kept ws'))))"
    by (rule gives_flush [OF assms(4) IH]) (use Cons.prems(3) in simp)
  have add: "gives (if n \<le> length (batch @ [w]) then and_then (dispatch (batch @ [w])) (\<lambda>out. and_then (process_stream X dispatch n index prov ps []) (\<lambda>os. ok (out @ os)))
        else process_stream X dispatch n index prov ps (batch @ [w])) (concat (map D (chunks n (batch @ w # kept ws'))))"
  proof (cases "n \<le> length (batch @ [w])")
    case True
    with Cons.prems(3) have "chunks n ((batch @ [w]) @ kept ws') = (batch @ [w]) # chunks n (kept ws')" by (intro chunks_full) auto
    with True flush show ?thesis by simp
  next
    case False
    with IH [of "batch @ [w]"] show ?thesis by simp
  qed
  show ?case
    unfolding process_stream.simps
    apply (rule gives_and_then [OF gives_check [OF assms(3)] gives_and_then [OF gives_act [where r = "Inr w", OF w(1)]]])
    using add IH [of batch] Cons.prems(3) by (auto simp: ws intro!: gives_and_then [OF gives_stamp [OF w(2)]])
qed

lemma gives_feed:
  fixes dispatch :: "'a val list \<Rightarrow> ('s, 'a val list) run_step"
  assumes "resolves r (Many ws)" and "list_all unstamped ws" and "xe_cancel_from X = None"
    and "\<And>b. gives (dispatch b) (D b)" and "0 < batch_size_for X rest"
  shows "(\<forall>ps. r = Iter ps \<longrightarrow>
             gives (feed X rest index prov dispatch (Inl ps)) (concat (map D (chunks (batch_size_for X rest) (kept ws)))))
    \<and> (\<forall>ps. r = Stream ps \<longrightarrow>
             gives (feed X rest index prov dispatch (Inr ps)) (concat (map D (chunks (batch_size_for X rest) (kept ws)))))"
proof -
  have finish: "gives (and_then m (\<lambda>outs. and_then (complete_batch_progress rest index) (\<lambda>_. ok outs))) x" if "gives m x" for m :: "('s, 'a val list) run_step" and x
    unfolding complete_batch_progress_def by (rule gives_and_then [OF that gives_and_then [OF gives_emit gives_ok]])
  from assms(1) show ?thesis
    using process_iter_gives [of _ ws X dispatch D "[]" "batch_size_for X rest" prov, OF _ assms(2,3,4)]
      process_stream_gives [of _ ws X dispatch D "[]" "batch_size_for X rest" index prov, OF _ assms(2,3,4)] assms(5)
    by (auto simp: feed_def intro!: finish)
qed

text \<open>What dispatching one batch gives; over the chunks of a list it is \<open>meaning_all\<close>.\<close>

fun batch_meaning :: "'a behaviour list \<Rightarrow> 'a val list \<Rightarrow> 'a val list" where
  "batch_meaning [] vs = vs"
| "batch_meaning (Fold n f # bs) vs = meaning bs (f vs)"
| "batch_meaning (Flat n f # bs) vs = meaning_all bs (kept (f vs))"
| "batch_meaning (b # bs) vs = concat (map (meaning (b # bs)) vs)"

lemma concat_map_chunks: "0 < n \<Longrightarrow> concat (map (\<lambda>c. concat (map f c)) (chunks n vs)) = concat (map f vs)"
  by (induction n vs rule: chunks.induct)
    (subst chunks.simps, auto, metis append_take_drop_id concat_append map_append)

lemma batch_meaning_fun:
  "batch_meaning (Fold n f # bs) = (\<lambda>vs. meaning bs (f vs))"
  "batch_meaning (Flat n f2 # bs) = (\<lambda>vs. meaning_all bs (kept (f2 vs)))"
  "batch_meaning (Map g # bs) = (\<lambda>vs. concat (map (meaning (Map g # bs)) vs))"
  "batch_meaning (Fan h # bs) = (\<lambda>vs. concat (map (meaning (Fan h # bs)) vs))"
  by (simp_all add: fun_eq_iff)

lemma batch_meaning_chunks:
  assumes "0 < n" and "bs = [] \<or> sized n (hd bs)"
  shows "concat (map (batch_meaning bs) (chunks n vs)) = meaning_all bs vs"
proof (cases bs)
  case Nil
  then show ?thesis using concat_chunks [OF assms(1)] by (simp add: comp_def map_idI [of _ "batch_meaning []"])
next
  case (Cons b bs')
  with assms concat_map_chunks [OF assms(1)] show ?thesis by (cases b) (simp_all add: batch_meaning_fun)
qed

lemma well_fed_mono: "well_fed False bs \<Longrightarrow> well_fed True bs"
  by (cases "(False, bs)" rule: well_fed.cases) auto

lemma batch_kinds: "task_gives t b \<Longrightarrow> is_batch t \<longleftrightarrow> (\<exists>n f. b = Fold n f) \<or> (\<exists>n f. b = Flat n f)"
  by (cases "(t, b)" rule: task_gives.cases) auto

lemma outcome_unstamped: "outputs_unstamped b \<Longrightarrow> outcome_unstamped (outcome_of b vs)"
  by (cases b) (auto simp: list_all_iff)

lemma not_completed: "undisturbed X \<Longrightarrow> gives (already_completed X index v) False"
  unfolding already_completed_def undisturbed_def
  by (auto split: option.split intro!: gives_ok gives_and_then [OF gives_act])

lemma realised:
  assumes "list_all2 (realises X) tasks bs" and "undisturbed X"
  shows "(well_fed False bs \<longrightarrow> (\<forall>index v. gives (execute_from X tasks index v) (meaning bs v)))
    \<and> (well_fed True bs \<longrightarrow> (\<forall>index prov vs. gives (dispatch_batch X tasks index prov vs) (batch_meaning bs vs)))
    \<and> 0 < batch_size_for X tasks \<and> (bs = [] \<or> sized (batch_size_for X tasks) (hd bs))"
  using assms(1)
proof (induction tasks arbitrary: bs)
  case Nil
  then show ?case using assms(2) by (auto simp: batch_size_for_def opt_default_def undisturbed_def intro: gives_ok)
next
  case (Cons info rest)
  from Cons.prems obtain b bs' where bs: "bs = b # bs'" and real: "realises X info b" and rest: "list_all2 (realises X) rest bs'"
    by (auto simp: list_all2_Cons1)
  note IH = Cons.IH [OF rest]
  have none: "xe_cancel_from X = None" using assms(2) by (simp add: undisturbed_def)
  have tg: "task_gives (ti_task info) b" and us: "\<And>vs. outcome_unstamped (outcome_of b vs)"
    and size: "0 < own_batch_size X info" "sized (own_batch_size X info) b"
    using real outcome_unstamped by (auto simp: realises_def)
  have many: "gives (feed X rest index prov (dispatch_batch X rest index prov) p) (meaning_all bs' (kept ws))"
    if "well_fed True bs'" and "list_all unstamped ws" and "resolves r (Many ws)"
      and "r = Iter ps \<and> p = Inl ps \<or> r = Stream ps' \<and> p = Inr ps'" for index prov p ws r ps ps'
    using gives_feed [OF that(3,2) none, of "dispatch_batch X rest index prov" "batch_meaning bs'" rest index prov]
      IH that(1,4) batch_meaning_chunks [of "batch_size_for X rest" bs' "kept ws"] by auto
  have from1: "gives (execute_from X (info # rest) index v) (meaning bs v)" if wf: "well_fed False bs" for index v
  proof -
    have nb: "\<not> is_batch (ti_task info)" using batch_kinds [OF tg] wf bs by auto
    show ?thesis
      unfolding execute_from.simps
      apply (rule gives_and_then [OF gives_check [OF none]])
      apply (rule gives_and_then [OF not_completed [OF assms(2)]])
      apply (simp only: if_False)
      apply (rule gives_and_then [OF gives_emit])
      apply (rule gives_after_sat [OF call_with_retry_resolves [OF tg nb us]])
      apply (rule gives_and_then [OF gives_emit])
      subgoal for r
      proof (cases b)
        case (Map f)
        assume r: "resolves r (outcome_of b [v])"
        with Map obtain u where "r = Single (f v) u" by (cases r) auto
        with Map real wf bs IH show ?thesis by (auto simp: realises_def intro: gives_ok)
      next
        case (Fan f)
        assume r: "resolves r (outcome_of b [v])"
        from us [of "[v]"] Fan have "list_all unstamped (f v)" by simp
        with many [where ws = "f v" and r = r] r Fan wf bs show ?thesis by (cases r) auto
      qed (use wf bs in auto)
      done
  qed
  have batch1: "gives (dispatch_batch X (info # rest) index prov vs) (batch_meaning bs vs)" if wf: "well_fed True bs" for index prov vs
  proof (cases "is_batch (ti_task info)")
    case False
    then have "well_fed False bs" using wf bs batch_kinds [OF tg] by (cases b) auto
    with from1 False bs batch_kinds [OF tg] show ?thesis
      by (cases b) (auto intro: gives_collect)
  next
    case True
    obtain run where run: "call_batch (ti_task info) vs = Some run"
      and res: "\<forall>s. \<exists>r. fst (run s) = Inr r \<and> resolves r (outcome_of b vs)"
      using call_batch_resolves [OF tg True] by blast
    have limiter: "gives (case or_else (ti_rate_limiter info) (xe_rate_limiter X) of
        Some l \<Rightarrow> and_then (emit [Acquired l]) (\<lambda>_. check_cancelled X) | None \<Rightarrow> ok ()) ()"
      by (auto split: option.split intro!: gives_ok gives_and_then [OF gives_emit gives_check [OF none]])
    have after: "gives (case r of Single v unique \<Rightarrow> execute_from X rest (index + 1) v
        | Iter items \<Rightarrow> feed X rest (index + 1) bp (\<lambda>b. dispatch_batch X rest (index + 1) bp b) (Inl items)
        | Stream items \<Rightarrow> feed X rest (index + 1) bp (\<lambda>b. dispatch_batch X rest (index + 1) bp b) (Inr items))
        (batch_meaning bs vs)" if r: "resolves r (outcome_of b vs)" for r bp
    proof (cases b)
      case (Fold n f)
      with r obtain u where "r = Single (f vs) u" by (cases r) auto
      with Fold wf bs IH show ?thesis by auto
    next
      case (Flat n f)
      from us [of vs] Flat have "list_all unstamped (f vs)" by simp
      with many [where ws = "f vs" and r = r] r Flat wf bs show ?thesis by (cases r) auto
    qed (use True batch_kinds [OF tg] in auto)
    show ?thesis
      unfolding dispatch_batch.simps if_P [OF True]
      apply (rule gives_and_then [OF gives_check [OF none]])
      apply (rule gives_and_then [OF limiter])
      apply (simp only: run option.case)
      apply (rule gives_and_then [OF gives_emit])
      apply (rule gives_after_sat [where P = "\<lambda>x. \<exists>r. x = Inr r \<and> resolves r (outcome_of b vs)"])
       apply (rule sat_act, use res in blast)
      apply (elim exE conjE)
      apply (simp only: sum.case Let_def)
      apply (rule gives_and_then [OF stamp_single_resolves [OF _ us]], assumption)
      apply (erule after)
      done
  qed
  from from1 batch1 size show ?case
    by (auto simp: bs batch_size_for_def own_batch_size_def)
qed

lemma gives_one_item: "gives (execute_from X tasks 0 v) out \<Longrightarrow> gives (execute_one_item X tasks v) out"
  by (auto simp: gives_def execute_one_item_def Let_def split_beta split: option.split)

text \<open>Every item of a chunk gets its turn, in some order.\<close>

definition some_order :: "(nat \<Rightarrow> nat list) \<Rightarrow> bool" where
  "some_order order \<longleftrightarrow> (\<forall>n. distinct (order n) \<and> set (order n) = {..<n})"

lemma join_all_gives:
  assumes "\<And>v. v \<in> set chunk \<Longrightarrow> gives (item v) (m v)" and "set turns \<subseteq> {..<length chunk}"
  shows "\<exists>results' st'. join_all item chunk turns results st = (Inr results', st')
    \<and> (\<forall>i. results' i = (if i \<in> set turns then Inr (m (chunk ! i)) else results i))"
  using assms(2)
proof (induction turns arbitrary: results st)
  case (Cons i turns)
  then have i: "chunk ! i \<in> set chunk" by auto
  then obtain st1 where s: "item (chunk ! i) st = (Inr (m (chunk ! i)), st1)"
    using assms(1) [OF i] unfolding gives_def by (metis prod.collapse)
  have "set turns \<subseteq> {..<length chunk}" using Cons.prems by simp
  from Cons.IH [OF this, of "results(i := Inr (m (chunk ! i)))" st1] obtain results' st'
    where j: "join_all item chunk turns (results(i := Inr (m (chunk ! i)))) st1 = (Inr results', st')"
      and r: "\<And>k. results' k = (if k \<in> set turns then Inr (m (chunk ! k)) else (results(i := Inr (m (chunk ! i)))) k)" by blast
  have "results' k = (if k \<in> set (i # turns) then Inr (m (chunk ! k)) else results k)" for k
    unfolding r by simp
  with j s show ?case by simp
qed simp

lemma gather_gives: "(\<And>i. i \<in> set is \<Longrightarrow> results i = Inr (f i)) \<Longrightarrow> gather results is = Inr (concat (map f is))"
  by (induction "is") auto

lemma execute_chunk_gives:
  assumes "\<And>v. gives (execute_one_item X tasks v) (m v)" and "some_order order"
  shows "gives (execute_chunk X tasks order chunk) (concat (map m chunk))"
  unfolding gives_def
proof
  fix st
  have turns: "set (order (length chunk)) = {..<length chunk}" using assms(2) by (simp add: some_order_def)
  obtain results' st' where j: "join_all (execute_one_item X tasks) chunk (order (length chunk)) (\<lambda>_. Inr []) st = (Inr results', st')"
    and r: "\<And>i. i < length chunk \<Longrightarrow> results' i = Inr (m (chunk ! i))"
    using join_all_gives [of chunk "execute_one_item X tasks" m "order (length chunk)" "\<lambda>_. Inr []" st] assms(1) turns by auto
  have "gather results' [0..<length chunk] = Inr (concat (map (\<lambda>i. m (chunk ! i)) [0..<length chunk]))"
    by (rule gather_gives) (use r in auto)
  also have "map (\<lambda>i. m (chunk ! i)) [0..<length chunk] = map m chunk" by (rule nth_equalityI) auto
  finally show "fst (execute_chunk X tasks order chunk st) = Inr (concat (map m chunk))"
    using j by (simp add: execute_chunk_def and_then_def)
qed

lemma execute_items_gives:
  assumes "\<And>v. gives (execute_one_item X tasks v) (m v)" and "some_order order"
  shows "gives (execute_items X tasks concurrency order inputs) (concat (map m inputs))"
proof (cases "concurrency \<le> 1")
  case True
  with gives_collect [of inputs "execute_one_item X tasks" m] assms(1) show ?thesis
    by (simp add: execute_items_def execute_items_seq_def)
next
  case False
  then have "concat (map (\<lambda>c. concat (map m c)) (chunks concurrency inputs)) = concat (map m inputs)"
    by (intro concat_map_chunks) simp
  with False gives_collect [of "chunks concurrency inputs" "execute_chunk X tasks order" "\<lambda>c. concat (map m c)"]
    execute_chunk_gives [OF assms] show ?thesis
    by (simp add: execute_items_def execute_items_par_def)
qed

section \<open>What a trace shows\<close>

definition is_mark :: "event \<Rightarrow> bool" where
  "is_mark e \<longleftrightarrow> (\<exists>i. e = MarkedCompleted i) \<or> (\<exists>i m. e = MarkedFailed i m)"

text \<open>
  Inside the chain nothing is marked, and a look that sees a cancellation is the last thing that
  happens: the result is \<open>Cancelled\<close>, which has no other cause.
\<close>

definition orderly :: "stop + 'x \<Rightarrow> event list \<Rightarrow> bool" where
  "orderly r evs \<longleftrightarrow> (\<forall>e \<in> set evs. \<not> is_mark e)
     \<and> (if r = Inl (Failed Cancelled) then evs \<noteq> [] \<and> last evs = SawCancel \<and> SawCancel \<notin> set (butlast evs)
        else SawCancel \<notin> set evs)"

definition traced :: "('s, 'x) run_step \<Rightarrow> (stop + 'x \<Rightarrow> event list \<Rightarrow> bool) \<Rightarrow> bool" where
  "traced m R \<longleftrightarrow> (\<forall>st. \<exists>evs. xs_trace (snd (m st)) = xs_trace st @ evs \<and> R (fst (m st)) evs)"

named_theorems orderly_rules

lemma orderly_append:
  "orderly (Inr x) e1 \<Longrightarrow> orderly r e2 \<Longrightarrow> orderly r (e1 @ e2)"
  by (auto simp: orderly_def butlast_append)

lemma traced_seq:
  assumes "traced m R1" and "\<And>x. traced (k x) R2"
    and "\<And>x e1 r e2. R1 (Inr x) e1 \<Longrightarrow> R2 r e2 \<Longrightarrow> R2 r (e1 @ e2)" and "\<And>e evs. R1 (Inl e) evs \<Longrightarrow> R2 (Inl e) evs"
  shows "traced (and_then m k) R2"
  unfolding traced_def
proof
  fix st
  obtain r st1 where m: "m st = (r, st1)" by fastforce
  obtain e1 where e1: "xs_trace st1 = xs_trace st @ e1" "R1 r e1"
    using assms(1) [unfolded traced_def, rule_format, of st] m by auto
  show "\<exists>evs. xs_trace (snd (and_then m k st)) = xs_trace st @ evs \<and> R2 (fst (and_then m k st)) evs"
  proof (cases r)
    case (Inl e)
    with m e1 assms(4) show ?thesis by (auto simp: and_then_def)
  next
    case (Inr x)
    obtain e2 where e2: "xs_trace (snd (k x st1)) = xs_trace st1 @ e2" "R2 (fst (k x st1)) e2"
      using assms(2) unfolding traced_def by blast
    have "R2 (fst (k x st1)) (e1 @ e2)" by (rule assms(3) [OF e1(2) [unfolded Inr] e2(2)])
    with m e1(1) e2(1) Inr show ?thesis by (auto simp: and_then_def)
  qed
qed

lemma traced_and_then [orderly_rules]:
  assumes "traced m orderly" and "\<And>x. traced (k x) orderly"
  shows "traced (and_then m k) orderly"
  by (rule traced_seq [OF assms orderly_append]) (auto simp: orderly_def)

lemma orderly_ok [orderly_rules]: "traced (ok x) orderly"
  by (simp add: traced_def ok_def orderly_def)

lemma orderly_fail: "e \<noteq> Failed Cancelled \<Longrightarrow> traced (fail e) orderly"
  by (simp add: traced_def fail_def orderly_def)

lemma orderly_fails [orderly_rules]:
  "traced (fail Panicked) orderly" "traced (fail (Failed (TaskFailed i n e))) orderly"
  by (simp_all add: orderly_fail)

lemma orderly_emit: "\<forall>e \<in> set evs. \<not> is_mark e \<and> e \<noteq> SawCancel \<Longrightarrow> traced (emit evs) orderly"
  by (auto simp: traced_def emit_def orderly_def)

lemma orderly_check [orderly_rules]: "traced (check_cancelled X) orderly"
  by (auto simp: traced_def check_cancelled_def orderly_def is_mark_def split: option.split)

lemma orderly_act [orderly_rules]: "traced (act f) orderly"
  by (simp add: traced_def act_def orderly_def Let_def split_beta)

lemma orderly_pull [orderly_rules]: "traced (pull_item f) orderly"
  by (simp add: traced_def pull_item_def orderly_def Let_def split_beta)

lemma orderly_stamp [orderly_rules]: "traced (stamp_boxed_item X prov v) orderly"
  by (simp add: traced_def stamp_boxed_item_def orderly_def Let_def split_beta split: option.split)

lemma orderly_collect: "(\<And>x. traced (f x) orderly) \<Longrightarrow> traced (collect f xs) orderly"
  by (induction xs) (auto intro!: orderly_rules)

lemma orderly_emits [orderly_rules]:
  "traced (emit []) orderly" "traced (emit [TaskStarted i t]) orderly" "traced (emit [Called i]) orderly"
  "traced (emit [Acquired i]) orderly" "traced (emit [Slept i]) orderly" "traced (emit [TaskRetrying i n e]) orderly"
  "traced (emit [TaskGaveUp i n e]) orderly" "traced (emit [ProgressDone i]) orderly" "traced (emit [ItemSkipped d]) orderly"
  "traced (emit [TaskSucceeded i t, ProgressDone i]) orderly"
  by (rule orderly_emit, simp add: is_mark_def)+

lemma orderly_after_success [orderly_rules]: "traced (after_success X info data_id prov r) orderly"
  unfolding after_success_def stamp_single_output_def
  by (auto intro!: orderly_rules split: option.split resolved.split)

lemma orderly_attempts: "traced (attempts_from X info index input data_id prov limiter left attempt) orderly"
proof (induction left arbitrary: attempt limiter)
  case 0
  show ?case
    by (subst attempts_from.simps)
      (auto simp: acquire_limiter_def intro!: orderly_rules split: option.split sum.split)
next
  case (Suc left)
  show ?case
    by (subst attempts_from.simps)
      (auto simp: acquire_limiter_def sleep_before_retry_def intro!: orderly_rules Suc.IH split: option.split sum.split)
qed

lemma orderly_call [orderly_rules]: "traced (call_with_retry X info index input) orderly"
  by (simp add: call_with_retry_def orderly_attempts)

lemma orderly_iter: "(\<And>b. traced (dispatch b) orderly) \<Longrightarrow> traced (process_iter X dispatch n prov ps batch) orderly"
  by (induction ps arbitrary: batch) (auto intro!: orderly_rules)

lemma orderly_stream: "(\<And>b. traced (dispatch b) orderly) \<Longrightarrow> traced (process_stream X dispatch n index prov ps batch) orderly"
  by (induction ps arbitrary: batch) (auto intro!: orderly_rules split: sum.split)

lemma orderly_feed: "(\<And>b. traced (dispatch b) orderly) \<Longrightarrow> traced (feed X rest index prov dispatch p) orderly"
  unfolding feed_def complete_batch_progress_def
  by (auto intro!: orderly_rules orderly_iter orderly_stream split: sum.split list.split)

lemma orderly_already [orderly_rules]: "traced (already_completed X index v) orderly"
  by (auto simp: already_completed_def intro!: orderly_rules split: option.split sum.split bool.split)

lemma orderly_executor:
  "(\<forall>index v. traced (execute_from X tasks index v) orderly)
   \<and> (\<forall>index prov vs. traced (dispatch_batch X tasks index prov vs) orderly)"
proof (induction tasks)
  case Nil
  show ?case by (auto intro: orderly_rules)
next
  case (Cons info rest)
  have from1: "traced (execute_from X (info # rest) index v) orderly" for index v
    unfolding execute_from.simps
    by (auto intro!: orderly_rules orderly_feed Cons.IH [THEN conjunct1, rule_format] Cons.IH [THEN conjunct2, rule_format]
        split: resolved.split)
  have "traced (dispatch_batch X (info # rest) index prov vs) orderly" for index prov vs
    unfolding dispatch_batch.simps stamp_single_output_def
    by (auto simp: Let_def intro!: orderly_rules orderly_feed orderly_collect from1
          Cons.IH [THEN conjunct1, rule_format] Cons.IH [THEN conjunct2, rule_format]
        split: resolved.split option.split sum.split)
  with from1 show ?case by blast
qed

text \<open>What an item adds to the trace: the chain, then the mark its outcome calls for.\<close>

definition marks_for :: "('a, 's) exec_env \<Rightarrow> 'a val \<Rightarrow> stop + 'x \<Rightarrow> event list" where
  "marks_for X v r =
     (case (data_id_of X v, r) of
        (Some i, Inr _) \<Rightarrow> [MarkedCompleted i]
      | (Some i, Inl (Failed (TaskFailed _ _ source))) \<Rightarrow> [MarkedFailed i source]
      | _ \<Rightarrow> [])"

lemma mark_item_trace:
  "data_id_of X v = Some i \<Longrightarrow> xs_trace (snd (mark_item X i r st)) = xs_trace st @ marks_for X v r"
  by (auto simp: mark_item_def marks_for_def action_defs Let_def split_beta split: sum.split stop.split execution_error.split)

lemma one_item_trace:
  "\<exists>evs. xs_trace (snd (execute_one_item X tasks v st)) = xs_trace st @ evs @ marks_for X v (fst (execute_one_item X tasks v st))
     \<and> orderly (fst (execute_one_item X tasks v st)) evs"
proof -
  obtain r st1 where e: "execute_from X tasks 0 v st = (r, st1)" by fastforce
  obtain evs where "xs_trace st1 = xs_trace st @ evs" "orderly r evs"
    using orderly_executor [of X tasks, THEN conjunct1, rule_format, of 0 v] e unfolding traced_def by (metis fst_conv snd_conv)
  then show ?thesis
    using e mark_item_trace [of X v _ r st1]
    by (cases "data_id_of X v") (auto simp: execute_one_item_def marks_for_def)
qed

definition cancel_last :: "stop + 'x \<Rightarrow> event list \<Rightarrow> bool" where
  "cancel_last r evs \<longleftrightarrow>
     (if r = Inl (Failed Cancelled) then evs \<noteq> [] \<and> last evs = SawCancel \<and> SawCancel \<notin> set (butlast evs)
      else SawCancel \<notin> set evs)"

lemma one_item_cancel: "traced (execute_one_item X tasks v) cancel_last"
  unfolding traced_def
proof
  fix st
  let ?r = "fst (execute_one_item X tasks v st)"
  obtain evs where evs: "xs_trace (snd (execute_one_item X tasks v st)) = xs_trace st @ evs @ marks_for X v ?r" "orderly ?r evs"
    using one_item_trace by blast
  have "cancel_last ?r (evs @ marks_for X v ?r)"
    using evs(2)
    by (auto simp: orderly_def cancel_last_def marks_for_def split: option.splits sum.splits stop.splits execution_error.splits if_splits)
  with evs(1) show "\<exists>evs. xs_trace (snd (execute_one_item X tasks v st)) = xs_trace st @ evs \<and> cancel_last ?r evs" by blast
qed

lemma cancel_ok: "traced (ok y) cancel_last"
  by (simp add: traced_def ok_def cancel_last_def)

lemma collect_cancel: "(\<And>x. traced (f x) cancel_last) \<Longrightarrow> traced (collect f xs) cancel_last"
proof (induction xs)
  case Nil
  show ?case by (simp add: traced_def ok_def cancel_last_def)
next
  case (Cons x xs)
  show ?case
    unfolding collect.simps
    by (rule traced_seq [OF Cons.prems], rule traced_seq [OF Cons.IH [OF Cons.prems] cancel_ok])
      (auto simp: cancel_last_def butlast_append)
qed

text \<open>The trace of the attempts: each failed one is announced and slept on, in order.\<close>

fun retried :: "retry_policy \<Rightarrow> nat option \<Rightarrow> nat \<Rightarrow> nat \<Rightarrow> str list \<Rightarrow> event list" where
  "retried policy limiter index attempt [] = []"
| "retried policy limiter index attempt (e # es) =
     (case limiter of Some l \<Rightarrow> [Acquired l] | None \<Rightarrow> []) @ [Called index, TaskRetrying index attempt e]
     @ (case retry_delay_of policy (attempt - 1) of Some (Some d) \<Rightarrow> [Slept d] | _ \<Rightarrow> [])
     @ retried policy limiter index (attempt + 1) es"

definition last_call :: "nat option \<Rightarrow> nat \<Rightarrow> event list" where
  "last_call limiter index = (case limiter of Some l \<Rightarrow> [Acquired l] | None \<Rightarrow> []) @ [Called index]"

definition attempts_trace ::
  "('a, 's) exec_env \<Rightarrow> nat option \<Rightarrow> nat \<Rightarrow> nat \<Rightarrow> nat \<Rightarrow> stop + ('a, 's) resolved \<Rightarrow> event list \<Rightarrow> bool" where
  "attempts_trace X limiter index left attempt r evs \<longleftrightarrow>
     (case r of
        Inr _ \<Rightarrow> \<exists>es. length es \<le> left \<and> evs = retried (xe_policy X) limiter index attempt es @ last_call limiter index
      | Inl Panicked \<Rightarrow> True
      | Inl (Failed x) \<Rightarrow> \<exists>es e. length es = left \<and> x = TaskFailed index (max_attempts (xe_policy X)) e
          \<and> evs = retried (xe_policy X) limiter index attempt es @ last_call limiter index
                  @ [TaskGaveUp index (max_attempts (xe_policy X)) e])"

lemma after_success_trace:
  "xs_trace (snd (after_success X info data_id prov r st)) = xs_trace st \<and> (\<exists>r'. fst (after_success X info data_id prov r st) = Inr r')"
  by (auto simp: after_success_def stamp_single_output_def stamp_boxed_item_def action_defs Let_def split_beta
      split: option.split resolved.split)

text \<open>One attempt, unfolded: after the call the state, and what follows.\<close>

definition called_state :: "nat option \<Rightarrow> nat \<Rightarrow> ('s \<Rightarrow> (str + 'x) \<times> 's) \<Rightarrow> 's exec_state \<Rightarrow> 's exec_state" where
  "called_state limiter index run st =
     st\<lparr>xs_trace := xs_trace st @ last_call limiter index, xs_world := snd (run (xs_world st))\<rparr>"

lemma attempt_step:
  assumes "call (ti_task info) v = Some run"
  shows "attempts_from X info index v data_id prov limiter left attempt st =
    (case fst (run (xs_world st)) of
       Inr r \<Rightarrow> after_success X info data_id prov r (called_state limiter index run st)
     | Inl e \<Rightarrow>
         (case left of
            Suc left' \<Rightarrow>
              and_then (emit [TaskRetrying index attempt e])
                (\<lambda>_. and_then (sleep_before_retry (xe_policy X) (attempt - 1))
                  (\<lambda>_. attempts_from X info index v data_id prov limiter left' (attempt + 1)))
                (called_state limiter index run st)
          | 0 \<Rightarrow>
              and_then (emit [TaskGaveUp index (max_attempts (xe_policy X)) e])
                (\<lambda>_. fail (Failed (TaskFailed index (max_attempts (xe_policy X)) e)))
                (called_state limiter index run st)))"
proof -
  obtain r w where r: "run (xs_world st) = (r, w)" by fastforce
  then show ?thesis
    by (subst attempts_from.simps)
      (simp add: assms acquire_limiter_def emit_def act_def and_then_def called_state_def last_call_def split: sum.split nat.split option.split)
qed

lemma attempts_panic:
  "call (ti_task info) v = None \<Longrightarrow> fst (attempts_from X info index v data_id prov limiter left attempt st) = Inl Panicked"
  by (subst attempts_from.simps) (simp add: acquire_limiter_def emit_def and_then_def fail_def)

lemma attempts_trace_more:
  assumes "attempts_trace X limiter index left (attempt + 1) r evs"
    and "pause = (case retry_delay_of (xe_policy X) (attempt - 1) of Some (Some d) \<Rightarrow> [Slept d] | _ \<Rightarrow> [])"
  shows "attempts_trace X limiter index (Suc left) attempt r
    ((last_call limiter index @ [TaskRetrying index attempt e] @ pause) @ evs)"
proof -
  have one: "(last_call limiter index @ [TaskRetrying index attempt e] @ pause) @ retried (xe_policy X) limiter index (attempt + 1) es @ rest
      = retried (xe_policy X) limiter index attempt (e # es) @ rest" for es rest
    by (simp add: last_call_def assms(2))
  show ?thesis
  proof (cases r)
    case (Inr x)
    then obtain es where "length es \<le> left" "evs = retried (xe_policy X) limiter index (attempt + 1) es @ last_call limiter index"
      using assms(1) by (auto simp: attempts_trace_def)
    with one [of es] Inr show ?thesis unfolding attempts_trace_def by (auto intro!: exI [of _ "e # es"] simp del: retried.simps)
  next
    case (Inl stop)
    show ?thesis
    proof (cases stop)
      case (Failed x)
      then obtain es e2 where "length es = left" "x = TaskFailed index (max_attempts (xe_policy X)) e2"
        "evs = retried (xe_policy X) limiter index (attempt + 1) es @ last_call limiter index @ [TaskGaveUp index (max_attempts (xe_policy X)) e2]"
        using assms(1) Inl by (auto simp: attempts_trace_def)
      with one [of es] Inl Failed show ?thesis
        unfolding attempts_trace_def by (auto intro!: exI [of _ "e # es"] simp del: retried.simps)
    qed (simp add: attempts_trace_def Inl)
  qed
qed

lemma attempts_trace_ok:
  "traced (attempts_from X info index v data_id prov limiter left attempt) (attempts_trace X limiter index left attempt)"
proof (cases "call (ti_task info) v")
  case None
  show ?thesis
    unfolding traced_def
  proof
    fix st
    obtain evs where "xs_trace (snd (attempts_from X info index v data_id prov limiter left attempt st)) = xs_trace st @ evs"
      using orderly_attempts [unfolded traced_def] by blast
    with attempts_panic [OF None] show "\<exists>evs. xs_trace (snd (attempts_from X info index v data_id prov limiter left attempt st)) = xs_trace st @ evs
        \<and> attempts_trace X limiter index left attempt (fst (attempts_from X info index v data_id prov limiter left attempt st)) evs"
      by (auto simp: attempts_trace_def)
  qed
next
  case (Some run)
  note step = attempt_step [OF Some]
  have now: "xs_trace (called_state limiter index run st) = xs_trace st @ last_call limiter index" for st
    by (simp add: called_state_def)
  show ?thesis
    unfolding traced_def
  proof (rule allI, induction left arbitrary: attempt st)
    case 0
    show ?case
    proof (cases "fst (run (xs_world st))")
      case (Inl e)
      then show ?thesis by (simp add: step emit_def and_then_def fail_def attempts_trace_def now)
    next
      case (Inr r)
      then show ?thesis
        using after_success_trace [of X info data_id prov r "called_state limiter index run st"]
        by (auto simp: step attempts_trace_def now)
    qed
  next
    case (Suc left)
    show ?case
    proof (cases "fst (run (xs_world st))")
      case (Inr r)
      have "attempts_from X info index v data_id prov limiter (Suc left) attempt st =
          after_success X info data_id prov r (called_state limiter index run st)"
        by (subst step) (simp add: Inr)
      then show ?thesis
        using after_success_trace [of X info data_id prov r "called_state limiter index run st"]
        by (auto simp: attempts_trace_def now intro!: exI [of _ "[]"])
    next
      case (Inl e)
      let ?st1 = "called_state limiter index run st"
      let ?st2 = "?st1\<lparr>xs_trace := xs_trace ?st1 @ [TaskRetrying index attempt e]\<rparr>"
      have go: "attempts_from X info index v data_id prov limiter (Suc left) attempt st =
          and_then (sleep_before_retry (xe_policy X) (attempt - 1))
            (\<lambda>_. attempts_from X info index v data_id prov limiter left (attempt + 1)) ?st2"
        by (subst step) (simp add: Inl emit_def and_then_def)
      note more = attempts_trace_more [of X limiter index left attempt _ _ _ e]
      consider "retry_delay_of (xe_policy X) (attempt - 1) = Some None" | "retry_delay_of (xe_policy X) (attempt - 1) = None"
        | d where "retry_delay_of (xe_policy X) (attempt - 1) = Some (Some d)"
        by (metis option.exhaust)
      then show ?thesis
      proof cases
        case 1
        then show ?thesis
          unfolding go by (simp add: sleep_before_retry_def and_then_def fail_def attempts_trace_def now)
      next
        case 2
        obtain evs where "xs_trace (snd (attempts_from X info index v data_id prov limiter left (attempt + 1) ?st2)) = xs_trace ?st2 @ evs"
          and "attempts_trace X limiter index left (attempt + 1) (fst (attempts_from X info index v data_id prov limiter left (attempt + 1) ?st2)) evs"
          using Suc.IH by blast
        with more 2 show ?thesis
          unfolding go by (force simp: sleep_before_retry_def and_then_def ok_def now)
      next
        case (3 d)
        let ?st3 = "?st2\<lparr>xs_trace := xs_trace ?st2 @ [Slept d]\<rparr>"
        obtain evs where "xs_trace (snd (attempts_from X info index v data_id prov limiter left (attempt + 1) ?st3)) = xs_trace ?st3 @ evs"
          and "attempts_trace X limiter index left (attempt + 1) (fst (attempts_from X info index v data_id prov limiter left (attempt + 1) ?st3)) evs"
          using Suc.IH by blast
        with more 3 show ?thesis
          unfolding go by (force simp: sleep_before_retry_def and_then_def emit_def now)
      qed
    qed
  qed
qed

section \<open>Properties\<close>


text \<open>
  A pipeline of three tasks over numbers: one that yields its input, its successor and a sentinel,
  one that adds 1, one in batches of two that adds up.
\<close>

fun number :: "nat val \<Rightarrow> nat" where
  "number (Plain n) = n"
| "number _ = 0"

definition two_values :: "nat val \<Rightarrow> nat val list" where
  "two_values v = [v, DroppedSentinel, Plain (number v + 1)]"

definition sample_info :: "(nat, unit) task \<Rightarrow> (nat, unit) task_info" where
  "sample_info t = \<lparr>ti_task = t, ti_name = None, ti_batch_size = Some 2, ti_enriches = False, ti_rate_limiter = None\<rparr>"

definition sample_tasks :: "(nat, unit) task_info list" where
  "sample_tasks = map sample_info
     [SyncIter (\<lambda>v s. (Inr (map Pair (two_values (Plain (number v)))), s)),
      AsyncStream (\<lambda>v s. (Inr [Pair (Inr (Plain (number v + 1)))], s)),
      SyncBatch (\<lambda>vs s. (Inr (Plain (sum_list (map number vs)), True), s))]"

definition sample_behaviours :: "nat behaviour list" where
  "sample_behaviours =
     [Fan (\<lambda>v. two_values (Plain (number v))), Fan (\<lambda>v. [Plain (number v + 1)]), Fold 2 (\<lambda>vs. Plain (sum_list (map number vs)))]"

definition sample_exec :: "nat option \<Rightarrow> (nat, unit) exec_env" where
  "sample_exec cancel_from = \<lparr>xe_policy = Limited 3 (Exponential 5 2), xe_default_batch_size = 2, xe_name = None,
     xe_data_id = Some (\<lambda>v. Some (decimal (number v))), xe_rate_limiter = Some 1, xe_status = noop_exec_status_manager,
     xe_context = None, xe_user_label = None, xe_cancel_from = cancel_from\<rparr>"

definition sample_exec_state :: "unit exec_state" where
  "sample_exec_state = \<lparr>xs_world = (), xs_visited = {}, xs_looks = 0, xs_trace = []\<rparr>"


text \<open>
  A sentinel that a batch task returns as its single value is not looked at: it flows on, here into
  the outputs of the run.
\<close>

lemma batch_sentinel_leaks:
  "fst (execute_one_item (sample_exec None)
     (map sample_info [SyncIter (\<lambda>v s. (Inr [Pair (Plain 1)], s)), SyncBatch (\<lambda>vs s. (Inr (DroppedSentinel, True), s))])
     (Plain 1) sample_exec_state) = Inr [DroppedSentinel]" (is "fst (execute_one_item _ ?tasks _ _) = _")
proof -
  let ?bs = "[Fan (\<lambda>v. [Plain 1]), Fold 2 (\<lambda>vs. DroppedSentinel)]"
  have real: "list_all2 (realises (sample_exec None)) ?tasks ?bs"
    by (auto simp: realises_def sample_info_def own_batch_size_def opt_default_def yields_all_def)
  have free: "undisturbed (sample_exec None)"
    by (simp add: undisturbed_def sample_exec_def noop_exec_status_manager_def)
  have "\<forall>index v. gives (execute_from (sample_exec None) ?tasks index v) (meaning ?bs v)"
    using realised [OF real free, THEN conjunct1] by (simp only: well_fed.simps simp_thms)
  from gives_one_item [OF this [rule_format, of 0 "Plain 1"]] show ?thesis
    unfolding gives_def by (simp add: chunks.simps)
qed

text \<open>
  C35: a cancelled run stops at once: when items run one after the other, a look at the token that
  sees the cancellation is the last thing that happens in the run - no task is called, no limiter
  acquired, no batch dispatched and no item marked after it - and \<open>Cancelled\<close> is returned then and
  only then.
\<close>

theorem cancellation_is_last:
  "\<exists>evs. xs_trace (snd (execute_items X tasks 1 order inputs st)) = xs_trace st @ evs
     \<and> (if fst (execute_items X tasks 1 order inputs st) = Inl (Failed Cancelled)
        then evs \<noteq> [] \<and> last evs = SawCancel \<and> SawCancel \<notin> set (butlast evs) else SawCancel \<notin> set evs)"
  using collect_cancel [of "execute_one_item X tasks" inputs, OF one_item_cancel]
  unfolding traced_def cancel_last_def execute_items_def execute_items_seq_def by simp


definition flaky_exec :: "(nat, nat) exec_env" where
  "flaky_exec = \<lparr>xe_policy = Limited 4 (Exponential 5 2), xe_default_batch_size = 2, xe_name = None,
     xe_data_id = None, xe_rate_limiter = Some 1, xe_status = noop_exec_status_manager,
     xe_context = None, xe_user_label = None, xe_cancel_from = None\<rparr>"

definition flaky_info :: "(nat, nat) task_info" where
  "flaky_info = \<lparr>ti_task = Sync (\<lambda>v n. if n < 2 then (Inl (lit ''down''), n + 1) else (Inr (v, False), n)),
     ti_name = None, ti_batch_size = None, ti_enriches = False, ti_rate_limiter = None\<rparr>"

definition flaky_state :: "nat exec_state" where
  "flaky_state = \<lparr>xs_world = 0, xs_visited = {}, xs_looks = 0, xs_trace = []\<rparr>"

lemma flaky_selectors [simp]:
  "ti_rate_limiter flaky_info = None" "ti_name flaky_info = None" "xe_policy flaky_exec = Limited 4 (Exponential 5 2)"
  "xe_data_id flaky_exec = None" "xe_rate_limiter flaky_exec = Some 1"
  by (simp_all add: flaky_info_def flaky_exec_def)

lemma flaky_call:
  "call (ti_task flaky_info) v = Some (\<lambda>s. into single (if s < 2 then (Inl (lit ''down''), s + 1) else (Inr (v, False), s)))"
  by (simp add: flaky_info_def)

lemma flaky_run:
  "\<exists>st'. call_with_retry flaky_exec flaky_info 0 (Plain 7) flaky_state = (Inr (Single (Plain 7) False), st')
     \<and> length (xs_trace st') = 10"
proof -
  have three: "(3::nat) = Suc (Suc (Suc 0))" by simp
  show ?thesis
    by (simp add: call_with_retry_def attempt_step [OF flaky_call] three flaky_state_def called_state_def into_def and_then_def
        emit_def data_id_of_def or_else_def sleep_before_retry_def checked_pow_def u32_max_def max_duration_def
        after_success_def stamp_single_output_def ok_def last_call_def)
qed


text \<open>
  The mark tells the outcome: whatever an item does, the chain marks nothing itself, and then
  the item is marked completed exactly when its chain returned, failed with the task's error
  exactly when a task failed, and not at all when it was cancelled.
\<close>

lemma item_marked_by_outcome:
  assumes "execute_one_item X tasks v st = (r, st')" and "data_id_of X v = Some i"
  shows "\<exists>evs. xs_trace st' = xs_trace st @ evs @
      (case r of Inr _ \<Rightarrow> [MarkedCompleted i] | Inl (Failed (TaskFailed _ _ e)) \<Rightarrow> [MarkedFailed i e] | Inl _ \<Rightarrow> [])
    \<and> list_all (\<lambda>e. \<not> is_mark e) evs"
  using one_item_trace [of X tasks v st] assms
  by (auto simp: marks_for_def orderly_def list_all_iff)

lemma sample_item:
  "fst (execute_one_item (sample_exec None) [sample_info (Sync (\<lambda>v s. (Inr (Plain (number v + 1), True), s)))] (Plain 1) sample_exec_state)
     = Inr [Plain 2]" (is "fst (execute_one_item _ ?tasks _ _) = _")
proof -
  let ?bs = "[Map (\<lambda>v. Plain (number v + 1))]"
  have real: "list_all2 (realises (sample_exec None)) ?tasks ?bs"
    by (simp add: realises_def sample_info_def own_batch_size_def opt_default_def) (rule exI [of _ True], rule TrueI)
  have free: "undisturbed (sample_exec None)"
    by (simp add: undisturbed_def sample_exec_def noop_exec_status_manager_def)
  have "\<forall>index v. gives (execute_from (sample_exec None) ?tasks index v) (meaning ?bs v)"
    using realised [OF real free, THEN conjunct1] by (simp only: well_fed.simps simp_thms)
  from gives_one_item [OF this [rule_format, of 0 "Plain 1"]] show ?thesis unfolding gives_def by simp
qed

lemma item_marked_by_outcome_witness:
  "\<exists>evs. xs_trace (snd (execute_one_item (sample_exec None)
       [sample_info (Sync (\<lambda>v s. (Inr (Plain (number v + 1), True), s)))] (Plain 1) sample_exec_state)) = evs @ [MarkedCompleted (decimal 1)]
     \<and> list_all (\<lambda>e. \<not> is_mark e) evs"
proof -
  let ?t = "[sample_info (Sync (\<lambda>v s. (Inr (Plain (number v + 1), True), s)))]"
  obtain st' where e: "execute_one_item (sample_exec None) ?t (Plain 1) sample_exec_state = (Inr [Plain 2], st')"
    using sample_item by (metis prod.collapse)
  from item_marked_by_outcome [OF e, of "decimal 1"] e show ?thesis
    by (simp add: data_id_of_def sample_exec_def sample_exec_state_def)
qed

end
