(* ===== verification/Relational.thy ===== *)
theory Relational
  imports Markers Runs
begin

text \<open>
  The relational store as one database: the ledger, the data rows and the markers of \<open>Ledger\<close>, the
  runs and datasets of \<open>Runs\<close>, the search history and the edge-evidence sidecar. The operations
  are those of \<open>crates/database/src/ops/datasets.rs\<close>, \<open>data.rs\<close>, \<open>pipeline_runs.rs\<close>,
  \<open>search_history.rs\<close> and \<open>edge_evidence.rs\<close> that ingestion and the delete service use.

  A data row belongs to at most one dataset, the one in its \<open>dataset_id\<close> column.
\<close>

section \<open>Tables\<close>

record query_row =
  q_id :: uuid
  q_user_id :: "uuid option"

record result_row =
  re_query_id :: uuid

record evidence_row =
  ev_id :: uuid
  ev_dataset_id :: uuid
  ev_data_id :: uuid
  ev_run :: "uuid option"
  ev_chunk_id :: uuid
  ev_chunk_index :: "int option"
  ev_edge_id :: uuid
  ev_created_at :: int

record relational =
  rl_ledger :: ledger
  rl_runs :: run_tables
  rl_queries :: "query_row list"
  rl_results :: "result_row list"
  rl_evidence :: "evidence_row list"

type_synonym 'a rel_action = "(relational database, db_error, 'a) action"

text \<open>An operation on some of the tables, on the same connection.\<close>

definition on_tables ::
  "('t \<Rightarrow> 'u) \<Rightarrow> ('u \<Rightarrow> 't \<Rightarrow> 't) \<Rightarrow> ('u database, 'e, 'a) action \<Rightarrow> ('t database, 'e, 'a) action" where
  "on_tables get put m db =
     (case m \<lparr>db_tables = get (db_tables db), db_faults = db_faults db\<rparr> of
        (r, d) \<Rightarrow> (r, \<lparr>db_tables = put (db_tables d) (db_tables db), db_faults = db_faults d\<rparr>))"

definition on_ledger :: "'a db_action \<Rightarrow> 'a rel_action" where
  "on_ledger = on_tables rl_ledger (\<lambda>l t. t\<lparr>rl_ledger := l\<rparr>)"

definition on_runs :: "'a run_action \<Rightarrow> 'a rel_action" where
  "on_runs = on_tables rl_runs (\<lambda>r t. t\<lparr>rl_runs := r\<rparr>)"

abbreviation data_of :: "relational \<Rightarrow> data_row list" where
  "data_of t \<equiv> l_data (rl_ledger t)"

abbreviation datasets_of :: "relational \<Rightarrow> dataset_row list" where
  "datasets_of t \<equiv> rt_datasets (rl_runs t)"

abbreviation put_data :: "data_row list \<Rightarrow> relational \<Rightarrow> relational" where
  "put_data rows t \<equiv> t\<lparr>rl_ledger := (rl_ledger t)\<lparr>l_data := rows\<rparr>\<rparr>"

abbreviation put_datasets :: "dataset_row list \<Rightarrow> relational \<Rightarrow> relational" where
  "put_datasets rows t \<equiv> t\<lparr>rl_runs := (rl_runs t)\<lparr>rt_datasets := rows\<rparr>\<rparr>"

text \<open>\<open>UPDATE data SET .. WHERE c\<close>, and the number of rows it changed.\<close>

definition update_data_where :: "data_row cond \<Rightarrow> (data_row \<Rightarrow> data_row) \<Rightarrow> nat rel_action" where
  "update_data_where c f = statement (\<lambda>t. (length (select_where (data_of t) c),
     put_data (map (\<lambda>r. if holds c r then f r else r) (data_of t)) t))"

text \<open>\<open>ORDER BY created_at ASC, id ASC\<close>.\<close>

definition oldest_data :: "data_row list \<Rightarrow> data_row list" where
  "oldest_data rows = sort_key (\<lambda>r. (d_created_at r, d_id r)) rows"

section \<open>Data rows\<close>

text \<open>\<open>clash\<close> is the driver's text of the constraint error.\<close>

definition create_data :: "str \<Rightarrow> data_row \<Rightarrow> data_row rel_action" where
  "create_data clash d db =
     (case statement (\<lambda>t. if d_id d \<in> d_id ` set (data_of t) then (False, t) else (True, put_data (data_of t @ [d]) t)) db of
        (Inl e, db') \<Rightarrow> (Inl e, db')
      | (Inr inserted, db') \<Rightarrow> (if inserted then Inr d else Inl (UniqueViolation clash), db'))"

definition get_data :: "uuid \<Rightarrow> data_row option rel_action" where
  "get_data i = query (\<lambda>t. find_data i (data_of t))"

definition resolve_data_id :: "uuid \<Rightarrow> uuid \<Rightarrow> uuid option rel_action" where
  "resolve_data_id dataset_id data_id =
     and_then (query (\<lambda>t. first (select_where (data_of t)
                 (c_all [c_eq (not_null d_id) data_id, c_eq d_dataset_id dataset_id]))))
       (\<lambda>exact. case exact of
          Some row \<Rightarrow> ok (Some (d_id row))
        | None \<Rightarrow> and_then (query (\<lambda>t. first (oldest_data (select_where (data_of t)
                     (c_all [c_eq d_legacy_id data_id, c_eq d_dataset_id dataset_id])))))
                   (\<lambda>legacy. ok (map_option d_id legacy)))"

definition find_data_in_dataset ::
  "uuid \<Rightarrow> str \<Rightarrow> uuid \<Rightarrow> uuid option \<Rightarrow> data_row option rel_action" where
  "find_data_in_dataset dataset_id content_hash owner_id tenant_id =
     query (\<lambda>t. first (oldest_data (select_where (data_of t)
       (c_all [c_eq d_dataset_id dataset_id, c_eq (not_null d_content_hash) content_hash,
               c_eq (not_null d_owner_id) owner_id,
               (case tenant_id of Some i \<Rightarrow> c_eq d_tenant_id i | None \<Rightarrow> c_is_null d_tenant_id)]))))"

definition count_data_location_references :: "str \<Rightarrow> nat rel_action" where
  "count_data_location_references location =
     query (\<lambda>t. length (select_where (data_of t)
       (c_any [c_eq (not_null d_raw_location) location, c_eq (not_null d_original_location) location])))"

definition delete_edge_evidence :: "uuid \<Rightarrow> uuid option \<Rightarrow> nat rel_action" where
  "delete_edge_evidence dataset_id data_id =
     (let c = c_all (c_eq (not_null ev_dataset_id) dataset_id #
                     (case data_id of Some i \<Rightarrow> [c_eq (not_null ev_data_id) i] | None \<Rightarrow> [])) in
      statement (\<lambda>t. (length (select_where (rl_evidence t) c), t\<lparr>rl_evidence := delete_where (rl_evidence t) c\<rparr>)))"

definition delete_edge_evidence_for_data :: "uuid \<Rightarrow> nat rel_action" where
  "delete_edge_evidence_for_data data_id =
     (let c = c_eq (not_null ev_data_id) data_id in
      statement (\<lambda>t. (length (select_where (rl_evidence t) c), t\<lparr>rl_evidence := delete_where (rl_evidence t) c\<rparr>)))"

text \<open>A failure on the sidecar is only logged.\<close>

definition delete_data :: "uuid \<Rightarrow> unit rel_action" where
  "delete_data i =
     and_then (exec (\<lambda>t. put_data (delete_where (data_of t) (c_eq (not_null d_id) i)) t))
       (\<lambda>_. and_then (recover (delete_edge_evidence_for_data i)) (\<lambda>_. ok ()))"

definition count_data_dataset_links :: "uuid \<Rightarrow> nat rel_action" where
  "count_data_dataset_links i =
     query (\<lambda>t. length (select_where (data_of t) (c_all [c_eq (not_null d_id) i, c_not (c_is_null d_dataset_id)])))"

definition not_found :: "(uuid \<Rightarrow> str) \<Rightarrow> uuid \<Rightarrow> db_error" where
  "not_found uuid_str i = NotFound (lit ''Data '' @ uuid_str i @ lit '' not found'')"

definition update_or_missing :: "(uuid \<Rightarrow> str) \<Rightarrow> uuid \<Rightarrow> (data_row \<Rightarrow> data_row) \<Rightarrow> unit rel_action" where
  "update_or_missing uuid_str i f =
     and_then (update_data_where (c_eq (not_null d_id) i) f)
       (\<lambda>rows_affected. if rows_affected = 0 then fail (not_found uuid_str i) else ok ())"

definition update_data_token_count :: "(uuid \<Rightarrow> str) \<Rightarrow> uuid \<Rightarrow> int \<Rightarrow> unit rel_action" where
  "update_data_token_count uuid_str i token_count =
     update_or_missing uuid_str i (\<lambda>r. r\<lparr>d_token_count := token_count\<rparr>)"

definition update_last_accessed :: "uuid list \<Rightarrow> int \<Rightarrow> unit rel_action" where
  "update_last_accessed data_ids timestamp =
     (if data_ids = [] then ok ()
      else and_then (update_data_where (c_in (not_null d_id) data_ids) (\<lambda>r. r\<lparr>d_last_accessed := Some timestamp\<rparr>))
             (\<lambda>_. ok ()))"

text \<open>\<open>now\<close> is the time the call stamps and returns; the \<open>updated_at\<close> column is not modelled.\<close>

definition update_data_node_set ::
  "(uuid \<Rightarrow> str) \<Rightarrow> int \<Rightarrow> uuid \<Rightarrow> str option \<Rightarrow> str option \<Rightarrow> int rel_action" where
  "update_data_node_set uuid_str now i node_set external_metadata =
     and_then (update_or_missing uuid_str i
         (\<lambda>r. r\<lparr>d_node_set := node_set, d_external_metadata := external_metadata\<rparr>))
       (\<lambda>_. ok now)"

record data_row_refresh =
  rf_name :: str
  rf_raw_location :: str
  rf_original_location :: str
  rf_extension :: str
  rf_mime_type :: str
  rf_original_extension :: "str option"
  rf_original_mime_type :: "str option"
  rf_loader_engine :: "str option"
  rf_raw_content_hash :: "str option"
  rf_data_size :: int
  rf_label :: "str option"
  rf_node_set :: "str option"
  rf_external_metadata :: "str option"

definition refreshed :: "data_row_refresh \<Rightarrow> data_row \<Rightarrow> data_row" where
  "refreshed f r = r\<lparr>d_name := rf_name f, d_raw_location := rf_raw_location f,
     d_original_location := rf_original_location f, d_extension := rf_extension f, d_mime_type := rf_mime_type f,
     d_original_extension := rf_original_extension f, d_original_mime_type := rf_original_mime_type f,
     d_loader_engine := rf_loader_engine f, d_raw_content_hash := rf_raw_content_hash f,
     d_data_size := rf_data_size f, d_node_set := rf_node_set f, d_external_metadata := rf_external_metadata f,
     d_label := (case rf_label f of Some l \<Rightarrow> Some l | None \<Rightarrow> d_label r)\<rparr>"

definition refresh_data_row :: "(uuid \<Rightarrow> str) \<Rightarrow> int \<Rightarrow> uuid \<Rightarrow> data_row_refresh \<Rightarrow> int rel_action" where
  "refresh_data_row uuid_str now i f = and_then (update_or_missing uuid_str i (refreshed f)) (\<lambda>_. ok now)"

section \<open>Datasets\<close>

text \<open>\<open>ORDER BY created_at ASC\<close>; datasets created at one time come back in table order.\<close>

definition oldest_datasets :: "dataset_row list \<Rightarrow> dataset_row list" where
  "oldest_datasets rows = sort_key ds_created_at rows"

definition create_dataset :: "str \<Rightarrow> dataset_row \<Rightarrow> dataset_row rel_action" where
  "create_dataset clash d db =
     (case statement (\<lambda>t. if ds_id d \<in> ds_id ` set (datasets_of t) then (False, t)
                         else (True, put_datasets (datasets_of t @ [d]) t)) db of
        (Inl e, db') \<Rightarrow> (Inl e, db')
      | (Inr inserted, db') \<Rightarrow> (if inserted then Inr d else Inl (UniqueViolation clash), db'))"

definition get_dataset :: "uuid \<Rightarrow> dataset_row option rel_action" where
  "get_dataset i = query (\<lambda>t. find (\<lambda>d. ds_id d = i) (datasets_of t))"

definition list_datasets_for_data :: "uuid \<Rightarrow> dataset_row list rel_action" where
  "list_datasets_for_data data_id =
     and_then (query (\<lambda>t. find_data data_id (data_of t)))
       (\<lambda>row. case Option.bind row d_dataset_id of
          Some i \<Rightarrow> and_then (get_dataset i) (\<lambda>found. ok (case found of Some d \<Rightarrow> [d] | None \<Rightarrow> []))
        | None \<Rightarrow> ok [])"

definition get_dataset_by_name_in_tenant :: "str \<Rightarrow> uuid \<Rightarrow> uuid option \<Rightarrow> dataset_row option rel_action" where
  "get_dataset_by_name_in_tenant name owner_id tenant_id =
     query (\<lambda>t. first (oldest_datasets (select_where (datasets_of t)
       (c_all [c_eq (not_null ds_name) name, c_eq (not_null ds_owner_id) owner_id,
               (case tenant_id of Some i \<Rightarrow> c_eq ds_tenant_id i | None \<Rightarrow> c_is_null ds_tenant_id)]))))"

text \<open>The map \<open>found\<close> is drained in \<open>ids\<close> order.\<close>

definition get_datasets_by_ids :: "uuid list \<Rightarrow> dataset_row list rel_action" where
  "get_datasets_by_ids ids =
     and_then (collect (\<lambda>chunk. query (\<lambda>t. select_where (datasets_of t) (c_in (not_null ds_id) chunk))) (chunks 500 ids))
       (\<lambda>found. ok (List.map_filter (\<lambda>i. find (\<lambda>d. ds_id d = i) (rev found)) (rev (remdups (rev ids)))))"

definition list_datasets_by_owner :: "uuid \<Rightarrow> dataset_row list rel_action" where
  "list_datasets_by_owner owner_id =
     query (\<lambda>t. oldest_datasets (select_where (datasets_of t) (c_eq (not_null ds_owner_id) owner_id)))"

definition list_datasets :: "dataset_row list rel_action" where
  "list_datasets = query (\<lambda>t. oldest_datasets (datasets_of t))"

text \<open>The foreign keys of \<open>nodes\<close> and \<open>edges\<close> cascade; \<open>pipeline_runs\<close> and \<open>data\<close> have none.\<close>

definition cascade_dataset :: "uuid \<Rightarrow> relational \<Rightarrow> relational" where
  "cascade_dataset i t =
     t\<lparr>rl_runs := (rl_runs t)\<lparr>rt_datasets := delete_where (datasets_of t) (c_eq (not_null ds_id) i)\<rparr>,
       rl_ledger := (rl_ledger t)
         \<lparr>l_nodes := (if i \<in> ds_id ` set (datasets_of t) then delete_where (l_nodes (rl_ledger t)) (of_dataset i)
                      else l_nodes (rl_ledger t)),
          l_edges := (if i \<in> ds_id ` set (datasets_of t) then delete_where (l_edges (rl_ledger t)) (of_dataset i)
                      else l_edges (rl_ledger t))\<rparr>\<rparr>"

definition delete_dataset :: "uuid \<Rightarrow> unit rel_action" where
  "delete_dataset i =
     and_then (exec (cascade_dataset i)) (\<lambda>_. and_then (recover (delete_edge_evidence i None)) (\<lambda>_. ok ()))"

definition attach_data_to_dataset :: "(uuid \<Rightarrow> str) \<Rightarrow> uuid \<Rightarrow> uuid \<Rightarrow> unit rel_action" where
  "attach_data_to_dataset uuid_str dataset_id data_id =
     and_then (update_data_where (c_all [c_eq (not_null d_id) data_id, c_is_null d_dataset_id])
                (\<lambda>r. r\<lparr>d_dataset_id := Some dataset_id\<rparr>))
       (\<lambda>rows_affected. if 0 < rows_affected then ok ()
          else and_then (query (\<lambda>t. find_data data_id (data_of t)))
            (\<lambda>row. case row of
               None \<Rightarrow> fail (not_found uuid_str data_id)
             | Some r \<Rightarrow> if d_dataset_id r = Some dataset_id then ok ()
                 else fail (QueryError (lit ''Data '' @ uuid_str data_id
                        @ lit '' belongs to another dataset; rows are dataset-scoped''))))"

definition detach_data_from_dataset :: "uuid \<Rightarrow> uuid \<Rightarrow> unit rel_action" where
  "detach_data_from_dataset dataset_id data_id =
     and_then (update_data_where (c_all [c_eq (not_null d_id) data_id, c_eq d_dataset_id dataset_id])
                (\<lambda>r. r\<lparr>d_dataset_id := None\<rparr>)) (\<lambda>_. ok ())"

definition count_dataset_data :: "uuid \<Rightarrow> nat rel_action" where
  "count_dataset_data dataset_id =
     query (\<lambda>t. length (select_where (data_of t) (c_eq d_dataset_id dataset_id)))"

definition get_dataset_data :: "uuid \<Rightarrow> data_row list rel_action" where
  "get_dataset_data dataset_id =
     query (\<lambda>t. oldest_data (select_where (data_of t) (c_eq d_dataset_id dataset_id)))"

section \<open>Runs and search history\<close>

definition delete_pipeline_runs_by_dataset :: "uuid \<Rightarrow> nat rel_action" where
  "delete_pipeline_runs_by_dataset dataset_id =
     (let c = c_eq pr_dataset_id dataset_id in
      statement (\<lambda>t. (length (select_where (rt_runs (rl_runs t)) c),
        t\<lparr>rl_runs := (rl_runs t)\<lparr>rt_runs := delete_where (rt_runs (rl_runs t)) c\<rparr>\<rparr>)))"

text \<open>Deleting a query deletes its results.\<close>

definition delete_queries :: "query_row cond \<Rightarrow> nat rel_action" where
  "delete_queries c =
     statement (\<lambda>t. (length (select_where (rl_queries t) c),
       t\<lparr>rl_queries := delete_where (rl_queries t) c,
         rl_results := filter (\<lambda>r. re_query_id r \<notin> q_id ` {q \<in> set (rl_queries t). holds c q}) (rl_results t)\<rparr>))"

definition delete_all_queries :: "nat rel_action" where
  "delete_all_queries = delete_queries (\<lambda>_. Some True)"

definition delete_queries_by_user :: "uuid \<Rightarrow> nat rel_action" where
  "delete_queries_by_user user_id = delete_queries (c_eq q_user_id user_id)"

definition count_all_queries :: "nat rel_action" where
  "count_all_queries = query (\<lambda>t. length (rl_queries t))"

definition count_queries_by_user :: "uuid \<Rightarrow> nat rel_action" where
  "count_queries_by_user user_id = query (\<lambda>t. length (select_where (rl_queries t) (c_eq q_user_id user_id)))"

section \<open>Outcomes\<close>

lemma on_tables_outcome:
  "on_tables get put m db = (r, db') \<longleftrightarrow>
     (\<exists>d. m \<lparr>db_tables = get (db_tables db), db_faults = db_faults db\<rparr> = (r, d)
        \<and> db' = \<lparr>db_tables = put (db_tables d) (db_tables db), db_faults = db_faults d\<rparr>)"
  by (auto simp: on_tables_def split: prod.splits)

lemma on_ledger_outcome:
  "on_ledger m db = (r, db') \<longleftrightarrow>
     (\<exists>d. m \<lparr>db_tables = rl_ledger (db_tables db), db_faults = db_faults db\<rparr> = (r, d)
        \<and> db' = \<lparr>db_tables = (db_tables db)\<lparr>rl_ledger := db_tables d\<rparr>, db_faults = db_faults d\<rparr>)"
  by (simp add: on_ledger_def on_tables_outcome)

lemma on_runs_outcome:
  "on_runs m db = (r, db') \<longleftrightarrow>
     (\<exists>d. m \<lparr>db_tables = rl_runs (db_tables db), db_faults = db_faults db\<rparr> = (r, d)
        \<and> db' = \<lparr>db_tables = (db_tables db)\<lparr>rl_runs := db_tables d\<rparr>, db_faults = db_faults d\<rparr>)"
  by (simp add: on_runs_def on_tables_outcome)

lemma reads_on_ledger [intro]: "reads_only m \<Longrightarrow> reads_only (on_ledger m)"
proof -
  assume "reads_only m"
  then have "db_tables (snd (m \<lparr>db_tables = rl_ledger (db_tables db), db_faults = fs\<rparr>)) = rl_ledger (db_tables db)" for fs and db :: "relational database"
    unfolding reads_only_def by simp
  then show ?thesis
    by (simp add: reads_only_def on_ledger_def on_tables_def split_beta)
qed

lemma returns_on_ledger: "returns m \<Longrightarrow> returns (on_ledger m)"
  unfolding returns_def on_ledger_outcome by (metis database.select_convs(2))

lemma reads_recover [intro]: "reads_only m \<Longrightarrow> reads_only (recover m)"
  by (auto simp: reads_only_def recover_def split: prod.split) (metis snd_conv)

lemma reads_map_err [intro]: "reads_only m \<Longrightarrow> reads_only (map_err h m)"
  by (auto simp: reads_only_def map_err_def split: prod.split sum.split) (metis snd_conv)+

lemma reads_fail [intro]: "reads_only (fail e)"
  by (simp add: reads_only_def fail_def)

lemma relational_reads [intro, simp]:
  "reads_only (get_data i)" "reads_only (resolve_data_id ds i)" "reads_only (find_data_in_dataset ds h ow te)"
  "reads_only (count_data_location_references loc)" "reads_only (count_data_dataset_links i)"
  "reads_only (get_dataset i)" "reads_only (list_datasets_for_data i)"
  "reads_only (get_dataset_by_name_in_tenant n ow te)" "reads_only (get_datasets_by_ids ids)"
  "reads_only (list_datasets_by_owner ow)" "reads_only list_datasets" "reads_only (count_dataset_data ds)"
  "reads_only (get_dataset_data ds)" "reads_only count_all_queries" "reads_only (count_queries_by_user u)"
  unfolding get_data_def resolve_data_id_def find_data_in_dataset_def count_data_location_references_def
    count_data_dataset_links_def get_dataset_def list_datasets_for_data_def get_dataset_by_name_in_tenant_def
    get_datasets_by_ids_def list_datasets_by_owner_def list_datasets_def count_dataset_data_def
    get_dataset_data_def count_all_queries_def count_queries_by_user_def
  by (auto split: option.split intro!: reads_only_and_then)

lemma ledger_reads [intro, simp]:
  "reads_only (get_nodes_by_dataset ds)" "reads_only (get_edges_by_dataset ds)"
  "reads_only (get_unique_nodes_for_data i ds)" "reads_only (get_unique_edges_for_data i ds)"
  "reads_only (get_structural_edges_for_data i ds)" "reads_only (count_nodes_for_data i ds)"
  "reads_only (count_edges_for_data i ds)"
  "reads_only (get_edge_retrieval_texts_claimed_outside_data backend i ds candidates)"
  unfolding get_nodes_by_dataset_def get_edges_by_dataset_def get_unique_nodes_for_data_def
    get_unique_edges_for_data_def get_structural_edges_for_data_def count_nodes_for_data_def
    count_edges_for_data_def get_edge_retrieval_texts_claimed_outside_data_def Let_def
  by (auto split: option.split intro!: reads_only_and_then reads_retrieval_texts_where)

end
