(* ===== verification/Files.thy ===== *)
theory Files
  imports Prelude Json
begin

text \<open>
  File storage: \<open>StorageTrait\<close> of \<open>crates/storage/src/storage_trait.rs\<close> as far as the delete path
  uses it, and its two implementations, \<open>MockStorage\<close> (\<open>mock_storage.rs\<close>) and \<open>LocalStorage\<close>
  (\<open>local_storage.rs\<close>).

  Paths are those of \<open>std::path\<close> on Unix: a path is compared by its components, where repeated
  separators and inner \<open>.\<close> do not count. The file system under \<open>LocalStorage\<close> is a map from
  components to contents, with the paths it refuses to unlink; links and \<open>..\<close> are not followed.
\<close>

section \<open>The interface\<close>

datatype storage_error = FileNotFound str | IoError str | StoragePermissionDenied str | InvalidPath str

fun show_storage_error :: "storage_error \<Rightarrow> str" where
  "show_storage_error (FileNotFound m) = lit ''Not found: '' @ m"
| "show_storage_error (IoError m) = lit ''IO error: '' @ m"
| "show_storage_error (StoragePermissionDenied m) = lit ''Permission denied: '' @ m"
| "show_storage_error (InvalidPath m) = lit ''Invalid path: '' @ m"

record 'f file_storage =
  st_delete :: "str \<Rightarrow> ('f, storage_error, unit) action"
  st_base_path :: str

text \<open>
  What a delete relies on: \<open>key\<close> is the file a location stands for. A delete that returns \<open>Ok\<close> has
  removed that file and no other, one that fails has removed nothing.
\<close>

locale file_store =
  fixes F :: "'f file_storage" and files_of :: "'f \<Rightarrow> 'k set" and key :: "str \<Rightarrow> 'k"
  assumes delete_ok: "st_delete F location f = (Inr x, f') \<Longrightarrow>
      key location \<in> files_of f \<and> files_of f' = files_of f - {key location}"
    and delete_err: "st_delete F location f = (Inl e, f') \<Longrightarrow> files_of f' = files_of f"
    and delete_missing: "st_delete F location f = (Inl (FileNotFound m), f') \<Longrightarrow> key location \<notin> files_of f"
begin

lemma delete_bounds:
  "st_delete F location f = (r, f') \<Longrightarrow> files_of f' \<subseteq> files_of f \<and> files_of f - {key location} \<subseteq> files_of f'"
  using delete_ok delete_err by (cases r) blast+

end

section \<open>Paths\<close>

datatype path_component = RootDir | CurDir | ParentDir | Normal str

definition dot :: str where "dot = lit ''.''"
definition dot_dot :: str where "dot_dot = lit ''..''"
definition file_scheme :: str where "file_scheme = lit ''file://''"
definition scheme_mark :: str where "scheme_mark = lit ''://''"

abbreviation (input) slash :: uchar where
  "slash \<equiv> 47"

text \<open>The segments between separators.\<close>

fun segments :: "str \<Rightarrow> str list" where
  "segments [] = [[]]"
| "segments (c # s) =
     (case segments s of
        [] \<Rightarrow> []
      | seg # segs \<Rightarrow> if c = slash then [] # seg # segs else (c # seg) # segs)"

definition is_absolute :: "str \<Rightarrow> bool" where
  "is_absolute p \<longleftrightarrow> (case p of c # _ \<Rightarrow> c = slash | [] \<Rightarrow> False)"

definition component_of :: "str \<Rightarrow> path_component option" where
  "component_of seg =
     (if seg = [] \<or> seg = dot then None else if seg = dot_dot then Some ParentDir else Some (Normal seg))"

definition components :: "str \<Rightarrow> path_component list" where
  "components p =
     (let inner = List.map_filter component_of (segments p) in
      if is_absolute p then RootDir # inner
      else if hd (segments p) = dot then CurDir # inner
      else inner)"

definition path_join :: "str \<Rightarrow> str \<Rightarrow> str" where
  "path_join base p =
     (if is_absolute p then p
      else if base = [] \<or> last base = slash then base @ p
      else base @ [slash] @ p)"

definition path_starts_with :: "str \<Rightarrow> str \<Rightarrow> bool" where
  "path_starts_with p base \<longleftrightarrow> take (length (components base)) (components p) = components base"

fun strip_prefix :: "str \<Rightarrow> str \<Rightarrow> str option" where
  "strip_prefix [] s = Some s"
| "strip_prefix (c # p) [] = None"
| "strip_prefix (c # p) (d # s) = (if c = d then strip_prefix p s else None)"

fun contains_str :: "str \<Rightarrow> str \<Rightarrow> bool" where
  "contains_str [] pat \<longleftrightarrow> pat = []"
| "contains_str (c # s) pat \<longleftrightarrow> strip_prefix pat (c # s) \<noteq> None \<or> contains_str s pat"

definition without_scheme :: "str \<Rightarrow> str" where
  "without_scheme location = (case strip_prefix file_scheme location of Some p \<Rightarrow> p | None \<Rightarrow> location)"

text \<open>\<open>DeleteService::is_storage_managed\<close>; \<open>current_dir\<close> is the working directory.\<close>

definition is_storage_managed :: "str \<Rightarrow> str \<Rightarrow> str \<Rightarrow> bool" where
  "is_storage_managed current_dir base location =
     (let p = without_scheme location in
      if contains_str p scheme_mark then False
      else if base = [] then True
      else if \<not> is_absolute p then True
      else path_starts_with p (if is_absolute base then base else path_join current_dir base))"

section \<open>The mock\<close>

text \<open>Contents by location, and the counter that names new files.\<close>

record mock_files =
  mf_data :: "(str \<times> nat list) list"
  mf_counter :: nat

definition mock_new :: mock_files where
  "mock_new = \<lparr>mf_data = [], mf_counter = 0\<rparr>"

definition mock_store :: "nat list \<Rightarrow> str \<Rightarrow> (mock_files, storage_error, str) action" where
  "mock_store bytes file_name f =
     (let n = mf_counter f + 1; location = lit ''mock/'' @ decimal n @ lit ''.bin'' in
      (Inr location, \<lparr>mf_data = obj_insert location bytes (mf_data f), mf_counter = n\<rparr>))"

definition mock_retrieve :: "str \<Rightarrow> (mock_files, storage_error, nat list) action" where
  "mock_retrieve location f =
     (case map_of (mf_data f) location of
        Some bytes \<Rightarrow> (Inr bytes, f)
      | None \<Rightarrow> (Inl (FileNotFound (lit ''Location not found: '' @ location)), f))"

definition mock_exists :: "str \<Rightarrow> (mock_files, storage_error, bool) action" where
  "mock_exists location f = (Inr (map_of (mf_data f) location \<noteq> None), f)"

definition mock_delete :: "str \<Rightarrow> (mock_files, storage_error, unit) action" where
  "mock_delete location f =
     (case map_of (mf_data f) location of
        Some _ \<Rightarrow> (Inr (), f\<lparr>mf_data := obj_remove location (mf_data f)\<rparr>)
      | None \<Rightarrow> (Inl (FileNotFound (lit ''Location not found: '' @ location)), f))"

definition mock_remove_all :: "(mock_files, storage_error, unit) action" where
  "mock_remove_all f = (Inr (), f\<lparr>mf_data := []\<rparr>)"

definition mock_storage :: "mock_files file_storage" where
  "mock_storage = \<lparr>st_delete = mock_delete, st_base_path = []\<rparr>"

definition mock_keys :: "mock_files \<Rightarrow> str set" where
  "mock_keys f = fst ` set (mf_data f)"

lemma mock_keys_remove [simp]:
  "mock_keys (f\<lparr>mf_data := obj_remove location (mf_data f)\<rparr>) = mock_keys f - {location}"
  by (auto simp: mock_keys_def obj_remove_def)

lemma mock_keys_iff: "location \<in> mock_keys f \<longleftrightarrow> map_of (mf_data f) location \<noteq> None"
  by (simp add: mock_keys_def map_of_eq_None_iff)

interpretation mock: file_store mock_storage mock_keys "\<lambda>location. location"
proof
  fix location m and f f' :: mock_files and x e
  show "location \<in> mock_keys f \<and> mock_keys f' = mock_keys f - {location}"
    if "st_delete mock_storage location f = (Inr x, f')"
    using that by (auto simp: mock_storage_def mock_delete_def mock_keys_iff split: option.splits)
  show "mock_keys f' = mock_keys f" if "st_delete mock_storage location f = (Inl e, f')"
    using that by (auto simp: mock_storage_def mock_delete_def split: option.splits)
  show "location \<notin> mock_keys f" if "st_delete mock_storage location f = (Inl (FileNotFound m), f')"
    using that by (auto simp: mock_storage_def mock_delete_def mock_keys_iff split: option.splits)
qed

section \<open>The local file system\<close>

record local_files =
  lf_data :: "(path_component list \<times> nat list) list"
  lf_refused :: "path_component list \<Rightarrow> str option"

definition resolve_location :: "str \<Rightarrow> str \<Rightarrow> str" where
  "resolve_location base location = path_join base (without_scheme location)"

definition local_delete :: "str \<Rightarrow> str \<Rightarrow> (local_files, storage_error, unit) action" where
  "local_delete base location f =
     (let p = components (resolve_location base location) in
      case map_of (lf_data f) p of
        None \<Rightarrow> (Inl (FileNotFound (lit ''File not found: '' @ location)), f)
      | Some _ \<Rightarrow>
          (case lf_refused f p of
             Some m \<Rightarrow> (Inl (IoError (lit ''Failed to delete file: '' @ m)), f)
           | None \<Rightarrow> (Inr (), f\<lparr>lf_data := filter (\<lambda>kv. fst kv \<noteq> p) (lf_data f)\<rparr>)))"

definition local_storage :: "str \<Rightarrow> local_files file_storage" where
  "local_storage base = \<lparr>st_delete = local_delete base, st_base_path = base\<rparr>"

definition local_keys :: "local_files \<Rightarrow> path_component list set" where
  "local_keys f = fst ` set (lf_data f)"

interpretation local: file_store "local_storage base" local_keys "\<lambda>location. components (resolve_location base location)"
proof
  fix location m and f f' :: local_files and x e
  let ?p = "components (resolve_location base location)"
  show "?p \<in> local_keys f \<and> local_keys f' = local_keys f - {?p}"
    if "st_delete (local_storage base) location f = (Inr x, f')"
    using that map_of_SomeD [of "lf_data f" ?p]
    by (auto simp: local_storage_def local_delete_def local_keys_def Let_def rev_image_eqI split: option.splits)
  show "local_keys f' = local_keys f" if "st_delete (local_storage base) location f = (Inl e, f')"
    using that by (auto simp: local_storage_def local_delete_def Let_def split: option.splits)
  show "?p \<notin> local_keys f" if "st_delete (local_storage base) location f = (Inl (FileNotFound m), f')"
    using that by (auto simp: local_storage_def local_delete_def local_keys_def Let_def map_of_eq_None_iff
        split: option.splits)
qed

end
