(* ===== verification/Delete_Targets.thy ===== *)
theory Delete_Targets
  imports Artifacts Relational Files
begin

text \<open>
  What a delete acts on: the request types of \<open>crates/delete/src/lib.rs\<close> and the target resolution
  of its \<open>DeleteService\<close>. A request is resolved to the datasets to delete, the links to detach and
  the data rows that may go.
\<close>

section \<open>Requests\<close>

text \<open>
  The cases of \<open>DeleteScope\<close>. \<open>DataScope owner data dataset_name delete_dataset_if_empty tenant\<close>,
  \<open>DatasetScope owner name tenant\<close>, \<open>DataInDataset dataset data delete_dataset_if_empty\<close>,
  \<open>DatasetById dataset\<close>, \<open>UserScope owner tenant\<close>.
\<close>

datatype delete_scope =
    DataScope uuid uuid "str option" bool "uuid option"
  | DatasetScope uuid str "uuid option"
  | DataInDataset uuid uuid bool
  | DatasetById uuid
  | UserScope uuid "uuid option"
  | AllScope

datatype delete_mode = Soft | Hard

record delete_request =
  rq_scope :: delete_scope
  rq_mode :: delete_mode
  rq_memory_only :: bool

fun is_data_item :: "delete_scope \<Rightarrow> bool" where
  "is_data_item (DataScope _ _ _ _ _) = True"
| "is_data_item (DataInDataset _ _ _) = True"
| "is_data_item _ = False"

fun scope_label :: "delete_scope \<Rightarrow> str" where
  "scope_label (DataScope _ _ _ _ _) = lit ''data_item''"
| "scope_label (DataInDataset _ _ _) = lit ''data_item''"
| "scope_label (DatasetScope _ _ _) = lit ''dataset''"
| "scope_label (DatasetById _) = lit ''dataset''"
| "scope_label (UserScope _ _) = lit ''user''"
| "scope_label AllScope = lit ''everything''"

fun mode_label :: "delete_mode \<Rightarrow> str" where
  "mode_label Soft = lit ''soft''"
| "mode_label Hard = lit ''hard''"

record delete_preview =
  pv_datasets :: nat
  pv_dataset_links :: nat
  pv_data :: nat
  pv_storage_files :: nat
  pv_graph_nodes :: nat
  pv_vector_points :: nat
  pv_provenance_nodes :: nat
  pv_provenance_edges :: nat
  pv_search_queries :: nat
  pv_orphaned_edge_types :: nat

definition add_preview :: "delete_preview \<Rightarrow> delete_preview \<Rightarrow> delete_preview" where
  "add_preview a b =
     \<lparr>pv_datasets = pv_datasets a + pv_datasets b,
      pv_dataset_links = pv_dataset_links a + pv_dataset_links b,
      pv_data = pv_data a + pv_data b,
      pv_storage_files = pv_storage_files a + pv_storage_files b,
      pv_graph_nodes = pv_graph_nodes a + pv_graph_nodes b,
      pv_vector_points = pv_vector_points a + pv_vector_points b,
      pv_provenance_nodes = pv_provenance_nodes a + pv_provenance_nodes b,
      pv_provenance_edges = pv_provenance_edges a + pv_provenance_edges b,
      pv_search_queries = pv_search_queries a + pv_search_queries b,
      pv_orphaned_edge_types = pv_orphaned_edge_types a + pv_orphaned_edge_types b\<rparr>"

record resolved_targets =
  tg_datasets :: "dataset_row list"
  tg_links :: "(uuid \<times> uuid) list"
  tg_candidates :: "uuid list"

definition resolved_data_id :: "delete_request \<Rightarrow> resolved_targets \<Rightarrow> uuid option" where
  "resolved_data_id request targets =
     (if is_data_item (rq_scope request) then first (tg_candidates targets) else None)"

section \<open>The service\<close>

text \<open>
  The service's handles. A graph or vector handle may route by the task-local dataset scope, so it
  is a function of that scope; a shared store ignores it. Per-dataset storage drops databases in
  both stores at once. \<open>sv_dataset_locks keys w\<close> is the state in which the last of the locks of \<open>keys\<close>
  is obtained: other tasks may have changed \<open>w\<close> while this one waited. \<open>sv_records_runs\<close> tells
  whether a runs repository is wired. \<open>sv_hash_order\<close> is the order in which a hash set of ids is iterated,
  \<open>sv_fresh\<close> the stream of random ids, \<open>sv_parse_uuid\<close> is \<open>Uuid::parse_str\<close>.
\<close>

record ('g, 'v) dataset_storage =
  ls_drop_dataset :: "uuid \<Rightarrow> ('g \<times> 'v, str, bool) action"
  ls_drop_all :: "('g \<times> 'v, str, nat) action"

record ('g, 'v, 'f, 's) estate =
  es_db :: "relational database"
  es_graph :: 'g
  es_vector :: 'v
  es_files :: 'f
  es_sessions :: 's

record ('g, 'v, 'f, 's) delete_service =
  sv_env :: "('g, 'v) delete_env"
  sv_storage :: "'f file_storage"
  sv_graph :: "(uuid option \<Rightarrow> 'g graph_db) option"
  sv_vector :: "(uuid option \<Rightarrow> 'v vector_db) option"
  sv_session_store :: "('s, str, unit) action option"
  sv_records_runs :: bool
  sv_dataset_locks :: "(uuid list \<Rightarrow> ('g, 'v, 'f, 's) estate \<Rightarrow> ('g, 'v, 'f, 's) estate) option"
  sv_dataset_storage :: "('g, 'v) dataset_storage option"
  sv_hash_order :: "uuid list \<Rightarrow> uuid list"
  sv_fresh :: "nat \<Rightarrow> uuid"
  sv_parse_uuid :: "str \<Rightarrow> uuid option"
  sv_current_dir :: str

type_synonym 'a db_step = "(relational database, delete_error, 'a) action"
type_synonym ('g, 'v, 'f, 's, 'a) delete_action = "(('g, 'v, 'f, 's) estate, delete_error, 'a) action"

abbreviation sv_str :: "('g, 'v, 'f, 's) delete_service \<Rightarrow> uuid \<Rightarrow> str" where
  "sv_str S \<equiv> en_uuid_str (sv_env S)"

text \<open>\<open>map_err(|e| DeleteError::Runtime(format!("{what}: {e}")))\<close>.\<close>

definition runtime :: "('g, 'v, 'f, 's) delete_service \<Rightarrow> str \<Rightarrow> 'a rel_action \<Rightarrow> 'a db_step" where
  "runtime S what m = map_err (\<lambda>e. Runtime (what @ lit '': '' @ en_show (sv_env S) e)) m"

section \<open>Looking up\<close>

definition owner_dataset_ids_in_tenant ::
  "('g, 'v, 'f, 's) delete_service \<Rightarrow> uuid \<Rightarrow> uuid option \<Rightarrow> uuid list db_step" where
  "owner_dataset_ids_in_tenant S owner_id tenant_id =
     and_then (runtime S (lit ''Failed to list datasets for owner '' @ sv_str S owner_id)
                (list_datasets_by_owner owner_id))
       (\<lambda>datasets. ok (map ds_id (filter (\<lambda>ds. ds_tenant_id ds = tenant_id) datasets)))"

definition lock_keys :: "('g, 'v, 'f, 's) delete_service \<Rightarrow> delete_scope \<Rightarrow> uuid list db_step" where
  "lock_keys S scope =
     (let by_name = (\<lambda>owner_id name tenant_id.
            and_then (runtime S (lit ''Failed to resolve dataset '' @ [39] @ name @ [39])
                       (get_dataset_by_name_in_tenant name owner_id tenant_id))
              (\<lambda>found. ok (case found of Some ds \<Rightarrow> [ds_id ds] | None \<Rightarrow> []))) in
      case scope of
        DatasetById dataset_id \<Rightarrow> ok [dataset_id]
      | DataInDataset dataset_id _ _ \<Rightarrow> ok [dataset_id]
      | DatasetScope owner_id name tenant_id \<Rightarrow> by_name owner_id name tenant_id
      | DataScope owner_id data_id (Some name) _ tenant_id \<Rightarrow> by_name owner_id name tenant_id
      | DataScope owner_id data_id None _ tenant_id \<Rightarrow>
          and_then (runtime S (lit ''Failed to list datasets for data '' @ sv_str S data_id)
                     (list_datasets_for_data data_id))
            (\<lambda>datasets. ok (map ds_id
               (filter (\<lambda>ds. ds_owner_id ds = owner_id \<and> ds_tenant_id ds = tenant_id) datasets)))
      | UserScope _ _ \<Rightarrow> ok []
      | AllScope \<Rightarrow> ok [])"

definition dataset_by_id :: "('g, 'v, 'f, 's) delete_service \<Rightarrow> uuid \<Rightarrow> dataset_row db_step" where
  "dataset_by_id S dataset_id =
     and_then (runtime S (lit ''Failed to resolve dataset '' @ sv_str S dataset_id) (get_dataset dataset_id))
       (\<lambda>found. case found of
          Some ds \<Rightarrow> ok ds
        | None \<Rightarrow> fail (Validation (lit ''Dataset '' @ sv_str S dataset_id @ lit '' was not found'')))"

definition dataset_by_name_in_tenant ::
  "('g, 'v, 'f, 's) delete_service \<Rightarrow> uuid \<Rightarrow> str \<Rightarrow> uuid option \<Rightarrow> dataset_row db_step" where
  "dataset_by_name_in_tenant S owner_id name tenant_id =
     and_then (runtime S (lit ''Failed to resolve dataset '' @ [39] @ name @ [39])
                (get_dataset_by_name_in_tenant name owner_id tenant_id))
       (\<lambda>found. case found of
          Some ds \<Rightarrow> ok ds
        | None \<Rightarrow> fail (Validation (lit ''Dataset '' @ [39] @ name @ [39] @ lit '' was not found for owner ''
                         @ sv_str S owner_id)))"

definition resolve_data_id_in :: "('g, 'v, 'f, 's) delete_service \<Rightarrow> uuid \<Rightarrow> uuid \<Rightarrow> uuid db_step" where
  "resolve_data_id_in S dataset_id data_id =
     and_then (runtime S (lit ''Failed to resolve data '' @ sv_str S data_id) (resolve_data_id dataset_id data_id))
       (\<lambda>found. ok (case found of Some i \<Rightarrow> i | None \<Rightarrow> data_id))"

definition items_of :: "('g, 'v, 'f, 's) delete_service \<Rightarrow> dataset_row \<Rightarrow> data_row list db_step" where
  "items_of S dataset =
     runtime S (lit ''Failed to load data for dataset '' @ [39] @ ds_name dataset @ [39])
       (get_dataset_data (ds_id dataset))"

definition fetch_data :: "('g, 'v, 'f, 's) delete_service \<Rightarrow> uuid \<Rightarrow> data_row option db_step" where
  "fetch_data S data_id = runtime S (lit ''Failed to fetch data '' @ sv_str S data_id) (get_data data_id)"

section \<open>Resolving a request\<close>

definition ghost_targets ::
  "('g, 'v, 'f, 's) delete_service \<Rightarrow> dataset_row \<Rightarrow> uuid \<Rightarrow> bool \<Rightarrow> resolved_targets db_step" where
  "ghost_targets S dataset data_id delete_dataset_if_empty =
     and_then (if delete_dataset_if_empty then and_then (items_of S dataset) (\<lambda>items. ok (items = [])) else ok False)
       (\<lambda>delete_dataset. ok \<lparr>tg_datasets = (if delete_dataset then [dataset] else []), tg_links = [],
          tg_candidates = [data_id]\<rparr>)"

definition not_attached :: "('g, 'v, 'f, 's) delete_service \<Rightarrow> uuid \<Rightarrow> dataset_row \<Rightarrow> delete_error" where
  "not_attached S data_id dataset =
     Validation (lit ''Data '' @ sv_str S data_id @ lit '' is not attached to dataset '' @ [39] @ ds_name dataset @ [39])"

text \<open>The links to detach, and the affected datasets with their items.\<close>

definition links_of_item ::
  "('g, 'v, 'f, 's) delete_service \<Rightarrow> uuid \<Rightarrow> uuid \<Rightarrow> uuid option \<Rightarrow> bool \<Rightarrow> dataset_row option
   \<Rightarrow> ((uuid \<times> uuid) list \<times> (dataset_row \<times> data_row list) list) db_step" where
  "links_of_item S owner_id data_id tenant_id delete_dataset_if_empty named_dataset =
     (case named_dataset of
        Some dataset \<Rightarrow>
          and_then (items_of S dataset)
            (\<lambda>items. if data_id \<notin> d_id ` set items then fail (not_attached S data_id dataset)
               else ok ([(ds_id dataset, data_id)], [(dataset, items)]))
      | None \<Rightarrow>
          and_then (runtime S (lit ''Failed to list datasets for data '' @ sv_str S data_id)
                     (list_datasets_for_data data_id))
            (\<lambda>datasets.
               (let mine = filter (\<lambda>ds. ds_owner_id ds = owner_id \<and> ds_tenant_id ds = tenant_id) datasets in
                and_then (if delete_dataset_if_empty
                          then collect (\<lambda>ds. and_then (items_of S ds) (\<lambda>items. ok [(ds, items)])) mine else ok [])
                  (\<lambda>affected. if mine = []
                     then fail (Validation (lit ''No dataset links found for data '' @ sv_str S data_id
                            @ lit '' and owner '' @ sv_str S owner_id))
                     else ok (map (\<lambda>ds. (ds_id ds, data_id)) mine, affected)))))"

definition resolve_data_scope ::
  "('g, 'v, 'f, 's) delete_service \<Rightarrow> uuid \<Rightarrow> uuid \<Rightarrow> str option \<Rightarrow> uuid option \<Rightarrow> bool \<Rightarrow> resolved_targets db_step" where
  "resolve_data_scope S owner_id requested_id dataset_name tenant_id delete_dataset_if_empty =
     and_then (case dataset_name of
                 Some name \<Rightarrow> and_then (dataset_by_name_in_tenant S owner_id name tenant_id) (\<lambda>ds. ok (Some ds))
               | None \<Rightarrow> ok None)
       (\<lambda>named_dataset. and_then
         (case named_dataset of Some ds \<Rightarrow> resolve_data_id_in S (ds_id ds) requested_id | None \<Rightarrow> ok requested_id)
         (\<lambda>data_id. and_then (fetch_data S data_id)
           (\<lambda>data. case data of
              None \<Rightarrow> (case named_dataset of
                          Some dataset \<Rightarrow> ghost_targets S dataset data_id delete_dataset_if_empty
                        | None \<Rightarrow> ok \<lparr>tg_datasets = [], tg_links = [], tg_candidates = [data_id]\<rparr>)
            | Some row \<Rightarrow>
                if d_owner_id row \<noteq> owner_id
                then fail (Validation (lit ''Data '' @ sv_str S data_id @ lit '' does not belong to owner ''
                       @ sv_str S owner_id))
                else and_then (links_of_item S owner_id data_id tenant_id delete_dataset_if_empty named_dataset)
                  (\<lambda>(links, affected). ok
                     \<lparr>tg_datasets = (if delete_dataset_if_empty
                        then map fst (filter (\<lambda>(_, items). map d_id items = [data_id]) affected) else []),
                      tg_links = links, tg_candidates = [data_id]\<rparr>))))"

definition resolve_data_in_dataset_scope ::
  "('g, 'v, 'f, 's) delete_service \<Rightarrow> uuid \<Rightarrow> uuid \<Rightarrow> bool \<Rightarrow> resolved_targets db_step" where
  "resolve_data_in_dataset_scope S dataset_id requested_id delete_dataset_if_empty =
     and_then (dataset_by_id S dataset_id)
       (\<lambda>dataset. and_then (resolve_data_id_in S (ds_id dataset) requested_id)
         (\<lambda>data_id. and_then (fetch_data S data_id)
           (\<lambda>data. if data = None then ghost_targets S dataset data_id delete_dataset_if_empty
              else and_then (items_of S dataset)
                (\<lambda>items. if data_id \<notin> d_id ` set items then fail (not_attached S data_id dataset)
                   else ok \<lparr>tg_datasets = (if delete_dataset_if_empty \<and> length items = 1 then [dataset] else []),
                            tg_links = [(ds_id dataset, data_id)], tg_candidates = [data_id]\<rparr>))))"

definition resolve_dataset_list ::
  "('g, 'v, 'f, 's) delete_service \<Rightarrow> dataset_row list \<Rightarrow> resolved_targets db_step" where
  "resolve_dataset_list S datasets =
     and_then (collect (\<lambda>ds. and_then (items_of S ds) (\<lambda>items. ok (map (\<lambda>d. (ds_id ds, d_id d)) items))) datasets)
       (\<lambda>links. ok \<lparr>tg_datasets = datasets, tg_links = links,
          tg_candidates = sv_hash_order S (remdups (map snd links))\<rparr>)"

definition resolve_targets ::
  "('g, 'v, 'f, 's) delete_service \<Rightarrow> delete_scope \<Rightarrow> resolved_targets db_step" where
  "resolve_targets S scope =
     (case scope of
        DataScope owner_id data_id dataset_name delete_dataset_if_empty tenant_id \<Rightarrow>
          resolve_data_scope S owner_id data_id dataset_name tenant_id delete_dataset_if_empty
      | DatasetScope owner_id name tenant_id \<Rightarrow>
          and_then (dataset_by_name_in_tenant S owner_id name tenant_id) (\<lambda>ds. resolve_dataset_list S [ds])
      | DataInDataset dataset_id data_id delete_dataset_if_empty \<Rightarrow>
          resolve_data_in_dataset_scope S dataset_id data_id delete_dataset_if_empty
      | DatasetById dataset_id \<Rightarrow> and_then (dataset_by_id S dataset_id) (\<lambda>ds. resolve_dataset_list S [ds])
      | UserScope _ _ \<Rightarrow> fail (Runtime (lit ''DeleteScope::User is expanded per dataset before target resolution''))
      | AllScope \<Rightarrow> and_then (runtime S (lit ''Failed to list datasets'') list_datasets) (resolve_dataset_list S))"

section \<open>Which rows lose their last link\<close>

definition links_removed :: "(uuid \<times> uuid) list \<Rightarrow> uuid \<Rightarrow> nat" where
  "links_removed links data_id = length (filter (\<lambda>(_, i). i = data_id) links)"

definition loses_last_link ::
  "('g, 'v, 'f, 's) delete_service \<Rightarrow> (uuid \<times> uuid) list \<Rightarrow> uuid \<Rightarrow> bool db_step" where
  "loses_last_link S links data_id =
     and_then (runtime S (lit ''Failed to count dataset links for data '' @ sv_str S data_id)
                (count_data_dataset_links data_id))
       (\<lambda>link_count. ok (link_count \<le> links_removed links data_id))"

definition compute_deletable_data_ids ::
  "('g, 'v, 'f, 's) delete_service \<Rightarrow> resolved_targets \<Rightarrow> uuid list db_step" where
  "compute_deletable_data_ids S targets =
     collect (\<lambda>i. and_then (loses_last_link S (tg_links targets) i) (\<lambda>b. ok (if b then [i] else [])))
       (tg_candidates targets)"

fun count_data_that_would_be_deleted ::
  "('g, 'v, 'f, 's) delete_service \<Rightarrow> uuid list \<Rightarrow> (uuid \<times> uuid) list \<Rightarrow> nat db_step" where
  "count_data_that_would_be_deleted S [] links = ok 0"
| "count_data_that_would_be_deleted S (i # ids) links =
     and_then (loses_last_link S links i)
       (\<lambda>b. and_then (count_data_that_would_be_deleted S ids links) (\<lambda>n. ok (if b then n + 1 else n)))"

definition data_ids_to_delete :: "('g, 'v, 'f, 's) delete_service \<Rightarrow> delete_request \<Rightarrow> uuid list db_step" where
  "data_ids_to_delete S request =
     and_then (resolve_targets S (rq_scope request)) (compute_deletable_data_ids S)"

end
