(* ===== verification/Cleanup.thy ===== *)
theory Cleanup
  imports Delete_Targets
begin

text \<open>
  The graph and vector cleanup of \<open>DeleteService\<close> (\<open>crates/delete/src/lib.rs\<close>): the store-wide
  wipe, the dataset-scoped and the item-scoped cleanup, the hard-mode orphan sweeps, and the counts
  of a preview. Artifacts go first and the ledger rows last, so that a failed step leaves the rows
  for a retry.
\<close>

section \<open>Handles\<close>

definition at_db :: "'a db_step \<Rightarrow> ('g, 'v, 'f, 's, 'a) delete_action" where
  "at_db m = within es_db (\<lambda>d w. w\<lparr>es_db := d\<rparr>) m"

definition at_graph :: "('g, delete_error, 'a) action \<Rightarrow> ('g, 'v, 'f, 's, 'a) delete_action" where
  "at_graph m = within es_graph (\<lambda>g w. w\<lparr>es_graph := g\<rparr>) m"

definition at_vector :: "('v, delete_error, 'a) action \<Rightarrow> ('g, 'v, 'f, 's, 'a) delete_action" where
  "at_vector m = within es_vector (\<lambda>v w. w\<lparr>es_vector := v\<rparr>) m"

definition at_stores :: "('g \<times> 'v, delete_error, 'a) action \<Rightarrow> ('g, 'v, 'f, 's, 'a) delete_action" where
  "at_stores m = within (\<lambda>w. (es_graph w, es_vector w)) (\<lambda>(g, v) w. w\<lparr>es_graph := g, es_vector := v\<rparr>) m"

definition ask :: "('g, 'v, 'f, 's) delete_service \<Rightarrow> str \<Rightarrow> 'a rel_action \<Rightarrow> ('g, 'v, 'f, 's, 'a) delete_action" where
  "ask S what m = at_db (runtime S what m)"

definition graph_handle :: "('g, 'v, 'f, 's) delete_service \<Rightarrow> uuid option \<Rightarrow> 'g graph_db option" where
  "graph_handle S scope = map_option (\<lambda>h. h scope) (sv_graph S)"

definition vector_handle :: "('g, 'v, 'f, 's) delete_service \<Rightarrow> uuid option \<Rightarrow> 'v vector_db option" where
  "vector_handle S scope = map_option (\<lambda>h. h scope) (sv_vector S)"

text \<open>Graph nodes, vector points, ledger nodes and ledger edges removed, and the warnings.\<close>

type_synonym cleanup_counts = "nat \<times> nat \<times> nat \<times> nat \<times> str list"

section \<open>The store-wide wipe\<close>

definition dlt_row_type :: str where "dlt_row_type = lit ''DltRow''"

definition fallback_vector_collections :: "collection_pair list" where
  "fallback_vector_collections =
     [(lit ''DocumentChunk'', lit ''text''), (dlt_row_type, lit ''text''),
      (lit ''DltColumn'', lit ''properties''), (lit ''SchemaTable'', lit ''name''),
      (lit ''SchemaTable'', lit ''description''), (lit ''SchemaRelationship'', lit ''name''),
      (lit ''SchemaRelationship'', lit ''description''), (lit ''Entity'', lit ''name''),
      (lit ''EntityType'', lit ''name''), (lit ''TextSummary'', lit ''text''),
      (lit ''EdgeType'', lit ''relationship_name''), (triplet_data_type, triplet_field),
      (lit ''Event'', lit ''name'')]"

definition ledger_vector_collections ::
  "('g, 'v, 'f, 's) delete_service \<Rightarrow> ('g, 'v, 'f, 's, collection_pair list) delete_action" where
  "ledger_vector_collections S =
     and_then (ask S (lit ''Failed to list datasets for vector cleanup'') list_datasets)
       (\<lambda>datasets. and_then
         (collect (\<lambda>ds. and_then
            (ask S (lit ''Failed to get provenance nodes for dataset '' @ sv_str S (ds_id ds))
              (on_ledger (get_nodes_by_dataset (ds_id ds))))
            (\<lambda>nodes. ok (concat (map (\<lambda>n. map (\<lambda>f. (n_type n, f)) (parse_indexed_fields (n_indexed_fields n))) nodes))))
           datasets)
         (\<lambda>pairs. ok (btree_set pairs)))"

fun wipe_collections :: "'v vector_db \<Rightarrow> collection_pair list \<Rightarrow> ('v, delete_error, unit) action" where
  "wipe_collections V [] = ok ()"
| "wipe_collections V ((dt, fn) # cs) =
     and_then (map_err (\<lambda>e. VectorCleanup (lit ''Failed to check vector collection '' @ collection_key dt fn
                              @ lit '': '' @ e)) (vdb_has_collection V dt fn))
       (\<lambda>exists. and_then
         (if exists then map_err (\<lambda>e. VectorCleanup (lit ''Failed to delete vector collection ''
                                        @ collection_key dt fn @ lit '': '' @ e)) (vdb_delete_collection V dt fn)
          else ok ())
         (\<lambda>_. wipe_collections V cs))"

definition cleanup_all ::
  "('g, 'v, 'f, 's) delete_service \<Rightarrow> ('g, 'v, 'f, 's, cleanup_counts) delete_action" where
  "cleanup_all S =
     (case sv_dataset_storage S of
        Some L \<Rightarrow>
          and_then (at_stores (map_err (\<lambda>e. GraphCleanup (lit ''Failed to drop per-dataset storage: '' @ e)) (ls_drop_all L)))
            (\<lambda>_. ok (0, 0, 0, 0, []))
      | None \<Rightarrow>
          and_then
            (case graph_handle S None of
               Some G \<Rightarrow> and_then
                 (at_graph (map_err (\<lambda>e. GraphCleanup (lit ''Failed to delete graph: '' @ e)) (gdb_delete_graph G)))
                 (\<lambda>_. ok [])
             | None \<Rightarrow> ok [lit ''Graph DB not configured; graph artifacts were not cleaned up.''])
            (\<lambda>graph_warnings. and_then
              (case vector_handle S None of
                 Some V \<Rightarrow> and_then
                   (at_vector (map_err (\<lambda>e. VectorCleanup (lit ''Failed to list vector collections: '' @ e))
                                (vdb_list_collections V)))
                   (\<lambda>listed. and_then
                     (if listed = [] then and_then (ledger_vector_collections S)
                                       (\<lambda>named. ok (btree_set (fallback_vector_collections @ named)))
                      else ok listed)
                     (\<lambda>collections. and_then (at_vector (wipe_collections V collections)) (\<lambda>_. ok [])))
               | None \<Rightarrow> ok [lit ''Vector DB not configured; vector artifacts were not cleaned up.''])
              (\<lambda>vector_warnings. ok (0, 0, 0, 0, graph_warnings @ vector_warnings))))"

section \<open>A dataset\<close>

definition delete_provenance_of_dataset ::
  "('g, 'v, 'f, 's) delete_service \<Rightarrow> uuid \<Rightarrow> ('g, 'v, 'f, 's, unit) delete_action" where
  "delete_provenance_of_dataset S dataset_id =
     and_then (ask S (lit ''Failed to delete provenance edges for dataset '' @ sv_str S dataset_id)
                (on_ledger (delete_edges_by_dataset dataset_id)))
       (\<lambda>_. ask S (lit ''Failed to delete provenance nodes for dataset '' @ sv_str S dataset_id)
                (on_ledger (delete_nodes_by_dataset dataset_id)))"

definition cleanup_dataset ::
  "('g, 'v, 'f, 's) delete_service \<Rightarrow> uuid \<Rightarrow> ('g, 'v, 'f, 's, cleanup_counts) delete_action" where
  "cleanup_dataset S dataset_id =
     and_then (ask S (lit ''Failed to get provenance nodes for dataset '' @ sv_str S dataset_id)
                (on_ledger (get_nodes_by_dataset dataset_id)))
       (\<lambda>nodes. and_then (ask S (lit ''Failed to get provenance edges for dataset '' @ sv_str S dataset_id)
                (on_ledger (get_edges_by_dataset dataset_id)))
         (\<lambda>edges.
           (case sv_dataset_storage S of
              Some L \<Rightarrow>
                and_then (at_stores (map_err (\<lambda>e. GraphCleanup (lit ''Failed to drop the storage of dataset ''
                             @ sv_str S dataset_id @ lit '': '' @ e)) (ls_drop_dataset L dataset_id)))
                  (\<lambda>_. and_then (at_vector (ledger_artifact_counts (sv_env S) None nodes edges))
                    (\<lambda>(gn, vp). and_then (delete_provenance_of_dataset S dataset_id)
                      (\<lambda>_. ok (gn, vp, length nodes, length edges, []))))
            | None \<Rightarrow>
                if nodes = [] \<and> edges = [] then ok (0, 0, 0, 0, [])
                else and_then (at_graph (delete_graph_artifacts (sv_env S) (graph_handle S None) nodes))
                  (\<lambda>(gn, gw). and_then (at_vector (delete_vector_artifacts (sv_env S) (vector_handle S None) nodes edges
                      (unchecked_edge_type_vector_ids (sv_env S) edges)))
                    (\<lambda>(vp, vw). and_then (delete_provenance_of_dataset S dataset_id)
                      (\<lambda>_. ok (gn, vp, length nodes, length edges, gw @ vw)))))))"

section \<open>A data item\<close>

definition edge_type_ids_to_delete ::
  "('g, 'v, 'f, 's) delete_service \<Rightarrow> uuid \<Rightarrow> uuid \<Rightarrow> graph_edge list \<Rightarrow> graph_edge list
   \<Rightarrow> ('g, 'v, 'f, 's, uuid list) delete_action" where
  "edge_type_ids_to_delete S data_id dataset_id edges structural_edges =
     (let E = sv_env S;
          candidates = btree_set (filter (\<lambda>t. t \<noteq> []) (map edge_retrieval_text (edges @ structural_edges))) in
      if candidates = [] then ok []
      else and_then (ask S (lit ''Failed to get surviving edge texts for data '' @ sv_str S data_id)
             (on_ledger (get_edge_retrieval_texts_claimed_outside_data (en_backend E) data_id dataset_id candidates)))
        (\<lambda>claimed. ok (map (edge_type_deterministic_id (en_lower E) (en_u5 E))
                        (filter (\<lambda>t. t \<notin> set claimed) candidates))))"

text \<open>What the ledger says of the item: its exclusive rows, its structural edges, and its row counts.\<close>

definition item_rows ::
  "('g, 'v, 'f, 's) delete_service \<Rightarrow> uuid \<Rightarrow> uuid
   \<Rightarrow> ('g, 'v, 'f, 's, graph_node list \<times> graph_edge list \<times> graph_edge list \<times> nat \<times> nat) delete_action" where
  "item_rows S data_id dataset_id =
     and_then (ask S (lit ''Failed to get unique provenance nodes for data '' @ sv_str S data_id)
                (on_ledger (get_unique_nodes_for_data data_id dataset_id)))
       (\<lambda>nodes. and_then (ask S (lit ''Failed to get unique provenance edges for data '' @ sv_str S data_id)
                (on_ledger (get_unique_edges_for_data data_id dataset_id)))
         (\<lambda>edges. and_then (ask S (lit ''Failed to get structural provenance edges for data '' @ sv_str S data_id)
                (on_ledger (get_structural_edges_for_data data_id dataset_id)))
           (\<lambda>structural_edges. and_then (ask S (lit ''Failed to count provenance nodes for data '' @ sv_str S data_id)
                (on_ledger (count_nodes_for_data data_id dataset_id)))
             (\<lambda>all_nodes. and_then (ask S (lit ''Failed to count provenance edges for data '' @ sv_str S data_id)
                (on_ledger (count_edges_for_data data_id dataset_id)))
               (\<lambda>all_edges. ok (nodes, edges, structural_edges, all_nodes, all_edges))))))"

text \<open>The ledger rows go last; the structural ones by the ids that were weighed.\<close>

definition delete_item_rows ::
  "('g, 'v, 'f, 's) delete_service \<Rightarrow> uuid \<Rightarrow> uuid \<Rightarrow> graph_edge list \<Rightarrow> ('g, 'v, 'f, 's, nat) delete_action" where
  "delete_item_rows S data_id dataset_id structural_edges =
     and_then (ask S (lit ''Failed to delete structural provenance edges for data '' @ sv_str S data_id)
                (on_ledger (delete_edges_by_ids (map g_id structural_edges))))
       (\<lambda>structural_deleted. and_then (ask S (lit ''Failed to delete provenance edges for data '' @ sv_str S data_id)
                (on_ledger (delete_edges_for_data data_id dataset_id)))
         (\<lambda>_. and_then (ask S (lit ''Failed to delete provenance nodes for data '' @ sv_str S data_id)
                (on_ledger (delete_nodes_for_data data_id dataset_id)))
           (\<lambda>_. ok structural_deleted)))"

definition cleanup_data_in_scope ::
  "('g, 'v, 'f, 's) delete_service \<Rightarrow> uuid option \<Rightarrow> uuid \<Rightarrow> uuid \<Rightarrow> ('g, 'v, 'f, 's, cleanup_counts) delete_action" where
  "cleanup_data_in_scope S scope data_id dataset_id =
     and_then (item_rows S data_id dataset_id)
       (\<lambda>(nodes, edges, structural_edges, all_nodes, all_edges).
         if nodes = [] \<and> edges = [] \<and> structural_edges = [] \<and> all_nodes = 0 \<and> all_edges = 0 then ok (0, 0, 0, 0, [])
         else and_then (at_graph (delete_graph_artifacts (sv_env S) (graph_handle S scope) nodes))
           (\<lambda>(gn, gw). and_then (edge_type_ids_to_delete S data_id dataset_id edges structural_edges)
             (\<lambda>edge_type_ids. and_then
               (at_vector (delete_vector_artifacts (sv_env S) (vector_handle S scope) nodes edges edge_type_ids))
               (\<lambda>(vp, vw). and_then (delete_item_rows S data_id dataset_id structural_edges)
                 (\<lambda>structural_deleted. ok (gn, vp, all_nodes, all_edges + structural_deleted, gw @ vw))))))"

definition cleanup_data ::
  "('g, 'v, 'f, 's) delete_service \<Rightarrow> uuid \<Rightarrow> uuid \<Rightarrow> ('g, 'v, 'f, 's, cleanup_counts) delete_action" where
  "cleanup_data S data_id dataset_id = cleanup_data_in_scope S (Some dataset_id) data_id dataset_id"

section \<open>The orphan sweeps of hard mode\<close>

definition delete_orphan_points ::
  "('g, 'v, 'f, 's) delete_service \<Rightarrow> 'v vector_db \<Rightarrow> str \<Rightarrow> graph_hit list \<Rightarrow> ('v, delete_error, unit) action" where
  "delete_orphan_points S V node_type hits =
     (let uuids = List.map_filter (\<lambda>(i, _). sv_parse_uuid S i) hits in
      if uuids = [] then ok ()
      else and_then (recover (vdb_has_collection V node_type (lit ''name'')))
        (\<lambda>present. if present \<noteq> Inr True then ok ()
           else map_err (\<lambda>e. VectorCleanup (lit ''Failed to delete orphan '' @ node_type
                              @ lit '' vector points: '' @ e)) (vdb_delete_points V node_type (lit ''name'') uuids)))"

definition degree_one ::
  "'g graph_db \<Rightarrow> str \<Rightarrow> ('g, delete_error, graph_hit list) action" where
  "degree_one G node_type =
     map_err (\<lambda>e. GraphCleanup (lit ''Failed to query degree-one '' @ node_type @ lit '' nodes: '' @ e))
       (gdb_get_degree_one_nodes G node_type)"

definition sweep_orphan_nodes ::
  "('g, 'v, 'f, 's) delete_service \<Rightarrow> uuid option \<Rightarrow> ('g, 'v, 'f, 's, nat \<times> nat \<times> str list) delete_action" where
  "sweep_orphan_nodes S scope =
     (case graph_handle S scope of
        None \<Rightarrow> ok (0, 0, [lit ''Graph DB not configured; hard-mode orphan sweep skipped.''])
      | Some G \<Rightarrow>
          and_then (at_graph (degree_one G (lit ''Entity'')))
            (\<lambda>entities. and_then (at_graph (degree_one G (lit ''EntityType'')))
              (\<lambda>types. if entities = [] \<and> types = [] then ok (0, 0, [])
                 else and_then
                   (case vector_handle S scope of
                      None \<Rightarrow> ok ()
                    | Some V \<Rightarrow> and_then (at_vector (delete_orphan_points S V (lit ''Entity'') entities))
                        (\<lambda>_. at_vector (delete_orphan_points S V (lit ''EntityType'') types)))
                   (\<lambda>_. and_then
                     (at_graph (map_err (\<lambda>e. GraphCleanup (lit ''Failed to delete orphan graph nodes: '' @ e))
                                 (gdb_delete_nodes G (map fst (entities @ types)))))
                     (\<lambda>_. ok (length entities, length types, []))))))"

text \<open>Nothing in the edge-type sweep is fatal: each failure is a warning.\<close>

definition sweep_orphan_edge_types ::
  "('g, 'v, 'f, 's) delete_service \<Rightarrow> uuid option \<Rightarrow> ('g, 'v, 'f, 's, nat \<times> str list) delete_action" where
  "sweep_orphan_edge_types S scope =
     (case graph_handle S scope of
        None \<Rightarrow> ok (0, [lit ''Graph DB not configured; orphan EdgeType sweep skipped.''])
      | Some G \<Rightarrow>
          and_then (at_graph (recover (gdb_get_zero_degree_edge_type_nodes G)))
            (\<lambda>queried. case queried of
               Inl e \<Rightarrow> ok (0, [lit ''Failed to query orphan EdgeType nodes (non-fatal): '' @ e])
             | Inr orphans \<Rightarrow>
                 if orphans = [] then ok (0, [])
                 else and_then
                   (let uuids = List.map_filter (\<lambda>(i, _). sv_parse_uuid S i) orphans in
                    case vector_handle S scope of
                      None \<Rightarrow> ok []
                    | Some V \<Rightarrow>
                        if uuids = [] then ok []
                        else and_then (at_vector (recover (vdb_has_collection V edge_type_data_type edge_type_field)))
                          (\<lambda>present. if present \<noteq> Inr True then ok []
                             else and_then
                               (at_vector (recover (vdb_delete_points V edge_type_data_type edge_type_field uuids)))
                               (\<lambda>deleted. ok (case deleted of Inr _ \<Rightarrow> []
                                  | Inl e \<Rightarrow> [lit ''Failed to delete orphan EdgeType vector points (non-fatal): '' @ e]))))
                   (\<lambda>warnings. and_then (at_graph (recover (gdb_delete_nodes G (map fst orphans))))
                     (\<lambda>deleted. ok (case deleted of
                          Inr _ \<Rightarrow> (length orphans, warnings)
                        | Inl e \<Rightarrow> (0, warnings @ [lit ''Failed to delete orphan EdgeType graph nodes (non-fatal): '' @ e]))))))"

section \<open>Counting\<close>

definition shared_vector_store :: "('g, 'v, 'f, 's) delete_service \<Rightarrow> 'v vector_db option" where
  "shared_vector_store S = (if sv_dataset_storage S \<noteq> None then None else vector_handle S None)"

text \<open>The datasets' rows are added up; the edges of a shared store are probed together at the end.\<close>

fun count_datasets ::
  "('g, 'v, 'f, 's) delete_service \<Rightarrow> dataset_row list \<Rightarrow> nat \<times> nat \<times> nat \<times> nat \<Rightarrow> graph_edge list
   \<Rightarrow> ('g, 'v, 'f, 's, (nat \<times> nat \<times> nat \<times> nat) \<times> graph_edge list) delete_action" where
  "count_datasets S [] counts shared_edges = ok (counts, shared_edges)"
| "count_datasets S (ds # datasets) (graph_nodes, vector_points, prov_nodes, prov_edges) shared_edges =
     and_then (ask S (lit ''Failed to count provenance nodes for dataset '' @ sv_str S (ds_id ds))
                (on_ledger (get_nodes_by_dataset (ds_id ds))))
       (\<lambda>nodes. and_then (ask S (lit ''Failed to count provenance edges for dataset '' @ sv_str S (ds_id ds))
                (on_ledger (get_edges_by_dataset (ds_id ds))))
         (\<lambda>edges. and_then
           (case shared_vector_store S of
              Some _ \<Rightarrow> ok (ledger_node_counts nodes, edges)
            | None \<Rightarrow> and_then (at_vector (ledger_artifact_counts (sv_env S) None nodes edges)) (\<lambda>c. ok (c, [])))
           (\<lambda>((gn, vp), shared). count_datasets S datasets
              (graph_nodes + gn, vector_points + vp, prov_nodes + length nodes, prov_edges + length edges)
              (shared_edges @ shared))))"

definition count_graph_vector_artifacts ::
  "('g, 'v, 'f, 's) delete_service \<Rightarrow> resolved_targets \<Rightarrow> ('g, 'v, 'f, 's, nat \<times> nat \<times> nat \<times> nat) delete_action" where
  "count_graph_vector_artifacts S targets =
     and_then (count_datasets S (tg_datasets targets) (0, 0, 0, 0) [])
       (\<lambda>((gn, vp, pn, pe), shared_edges).
         and_then (at_vector (ledger_edge_point_count (sv_env S) (shared_vector_store S) shared_edges))
           (\<lambda>n. ok (gn, vp + n, pn, pe)))"

end
