(* ===== verification/Delete_Service.thy ===== *)
theory Delete_Service
  imports Cleanup
begin

text \<open>
  \<open>DeleteService\<close> of \<open>crates/delete/src/lib.rs\<close>: previews, the phases of \<open>execute_resolved\<close>, the
  memory-only delete, and the per-dataset loop that reports what it completed when it fails.
\<close>

section \<open>Loops that count\<close>

fun sum_each :: "('x \<Rightarrow> ('s, 'e, nat) action) \<Rightarrow> 'x list \<Rightarrow> ('s, 'e, nat) action" where
  "sum_each f [] = ok 0"
| "sum_each f (x # xs) = and_then (f x) (\<lambda>n. and_then (sum_each f xs) (\<lambda>k. ok (n + k)))"

fun add_counts :: "cleanup_counts \<Rightarrow> cleanup_counts \<Rightarrow> cleanup_counts" where
  "add_counts (gn, vp, pn, pe, ws) (gn', vp', pn', pe', ws') = (gn + gn', vp + vp', pn + pn', pe + pe', ws @ ws')"

fun cleanup_each ::
  "('x \<Rightarrow> ('s, 'e, cleanup_counts) action) \<Rightarrow> 'x list \<Rightarrow> ('s, 'e, cleanup_counts) action" where
  "cleanup_each f [] = ok (0, 0, 0, 0, [])"
| "cleanup_each f (x # xs) = and_then (f x) (\<lambda>c. and_then (cleanup_each f xs) (\<lambda>d. ok (add_counts c d)))"

section \<open>Phase 0: completion markers\<close>

definition clear_statuses ::
  "('g, 'v, 'f, 's) delete_service \<Rightarrow> bool \<Rightarrow> resolved_targets \<Rightarrow> ('g, 'v, 'f, 's, nat) delete_action" where
  "clear_statuses S data_item targets =
     (let clear = (\<lambda>what i. ask S (lit ''Failed to clear pipeline_status for dataset '' @ what)
            (on_ledger (clear_pipeline_status_for_dataset (en_uuid_str (sv_env S)) (en_uuid_hex (sv_env S)) i)));
          handled = ds_id ` set (tg_datasets targets);
          affected = sv_hash_order S (remdups (filter (\<lambda>i. i \<notin> handled) (map fst (tg_links targets)))) in
      and_then (sum_each (\<lambda>ds. clear ([39] @ ds_name ds @ [39]) (ds_id ds)) (tg_datasets targets))
        (\<lambda>n. and_then (if data_item then sum_each (\<lambda>i. clear (sv_str S i) i) affected else ok 0)
          (\<lambda>k. ok (n + k))))"

section \<open>Phase 1: graph and vectors\<close>

definition remove_artifacts ::
  "('g, 'v, 'f, 's) delete_service \<Rightarrow> delete_scope \<Rightarrow> resolved_targets \<Rightarrow> ('g, 'v, 'f, 's, cleanup_counts) delete_action" where
  "remove_artifacts S scope targets =
     (if scope = AllScope
      then and_then (count_graph_vector_artifacts S targets)
        (\<lambda>(gn, vp, pn, pe). and_then (cleanup_all S) (\<lambda>(_, _, _, _, warnings). ok (gn, vp, pn, pe, warnings)))
      else and_then (cleanup_each (\<lambda>ds. cleanup_dataset S (ds_id ds)) (tg_datasets targets))
        (\<lambda>c. if is_data_item scope
           then and_then (at_db (compute_deletable_data_ids S targets))
             (\<lambda>deletable. and_then
               (cleanup_each (\<lambda>i. cleanup_each (\<lambda>(dataset_id, _). cleanup_data S i dataset_id)
                                    (filter (\<lambda>(_, j). j = i) (tg_links targets))) deletable)
               (\<lambda>d. ok (add_counts c d)))
           else ok c))"

section \<open>Phase 2: rows and files\<close>

definition detach_links ::
  "('g, 'v, 'f, 's) delete_service \<Rightarrow> (uuid \<times> uuid) list \<Rightarrow> ('g, 'v, 'f, 's, nat) delete_action" where
  "detach_links S links =
     sum_each (\<lambda>(dataset_id, data_id). and_then
       (ask S (lit ''Failed to detach data '' @ sv_str S data_id @ lit '' from dataset '' @ sv_str S dataset_id)
         (detach_data_from_dataset dataset_id data_id)) (\<lambda>_. ok 1)) links"

definition invalidate_runs ::
  "('g, 'v, 'f, 's) delete_service \<Rightarrow> (uuid \<times> uuid) list \<Rightarrow> ('g, 'v, 'f, 's, nat) delete_action" where
  "invalidate_runs S links =
     sum_each (\<lambda>i. ask S (lit ''Failed to delete pipeline_runs for dataset '' @ sv_str S i)
         (delete_pipeline_runs_by_dataset i)) (rev (remdups (rev (map fst links))))"

definition delete_datasets ::
  "('g, 'v, 'f, 's) delete_service \<Rightarrow> dataset_row list \<Rightarrow> ('g, 'v, 'f, 's, nat) delete_action" where
  "delete_datasets S datasets =
     sum_each (\<lambda>ds. and_then
       (ask S (lit ''Failed to delete dataset '' @ [39] @ ds_name ds @ [39]) (delete_dataset (ds_id ds))) (\<lambda>_. ok 1)) datasets"

text \<open>The stored files of a deleted row; the flag marks the original location.\<close>

fun remove_files ::
  "('g, 'v, 'f, 's) delete_service \<Rightarrow> uuid \<Rightarrow> (str \<times> bool) list \<Rightarrow> ('g, 'v, 'f, 's, nat \<times> str list) delete_action" where
  "remove_files S data_id [] = ok (0, [])"
| "remove_files S data_id ((location, is_original) # rest) =
     (if is_original \<and> \<not> is_storage_managed (sv_current_dir S) (st_base_path (sv_storage S)) location
      then remove_files S data_id rest
      else and_then (ask S (lit ''Failed to count references to the file of data '' @ sv_str S data_id)
                      (count_data_location_references location))
        (\<lambda>references. if 0 < references then remove_files S data_id rest
           else and_then (within es_files (\<lambda>f w. w\<lparr>es_files := f\<rparr>) (recover (st_delete (sv_storage S) location)))
             (\<lambda>deleted. case deleted of
                Inr _ \<Rightarrow> and_then (remove_files S data_id rest) (\<lambda>(n, ws). ok (n + 1, ws))
              | Inl (FileNotFound _) \<Rightarrow> and_then (remove_files S data_id rest)
                  (\<lambda>(n, ws). ok (n, (lit ''Storage file already missing for data '' @ sv_str S data_id @ lit '' at ''
                     @ [39] @ location @ [39]) # ws))
              | Inl e \<Rightarrow> fail (Runtime (lit ''Failed to delete storage for data '' @ sv_str S data_id @ lit '': ''
                     @ show_storage_error e)))))"

definition file_locations :: "data_row \<Rightarrow> (str \<times> bool) list" where
  "file_locations d = (d_raw_location d, False) #
     (if d_original_location d \<noteq> d_raw_location d then [(d_original_location d, True)] else [])"

text \<open>A candidate that no dataset holds any more: the row first, then its files.\<close>

definition remove_row ::
  "('g, 'v, 'f, 's) delete_service \<Rightarrow> uuid \<Rightarrow> ('g, 'v, 'f, 's, nat \<times> nat \<times> str list) delete_action" where
  "remove_row S data_id =
     and_then (ask S (lit ''Failed to count links for data '' @ sv_str S data_id) (count_data_dataset_links data_id))
       (\<lambda>remaining_links. if 0 < remaining_links then ok (0, 0, [])
          else and_then (at_db (fetch_data S data_id))
            (\<lambda>data. and_then (ask S (lit ''Failed to delete data '' @ sv_str S data_id) (delete_data data_id))
              (\<lambda>_. case data of
                 None \<Rightarrow> ok (1, 0, [])
               | Some d \<Rightarrow> and_then (remove_files S (d_id d) (file_locations d)) (\<lambda>(n, ws). ok (1, n, ws)))))"

fun remove_rows ::
  "('g, 'v, 'f, 's) delete_service \<Rightarrow> uuid list \<Rightarrow> ('g, 'v, 'f, 's, nat \<times> nat \<times> str list) delete_action" where
  "remove_rows S [] = ok (0, 0, [])"
| "remove_rows S (i # ids) =
     and_then (remove_row S i)
       (\<lambda>(d, n, ws). and_then (remove_rows S ids) (\<lambda>(d', n', ws'). ok (d + d', n + n', ws @ ws')))"

section \<open>Phases 3 to 5\<close>

definition sweep_scopes :: "('g, 'v, 'f, 's) delete_service \<Rightarrow> resolved_targets \<Rightarrow> uuid option list" where
  "sweep_scopes S targets =
     (if sv_dataset_storage S \<noteq> None
      then map Some (btree_set (filter (\<lambda>i. i \<notin> ds_id ` set (tg_datasets targets)) (map fst (tg_links targets))))
      else [None])"

text \<open>Orphan entities, entity types and edge types, over the scopes.\<close>

fun sweep_orphans ::
  "('g, 'v, 'f, 's) delete_service \<Rightarrow> uuid option list \<Rightarrow> ('g, 'v, 'f, 's, nat \<times> nat \<times> nat \<times> str list) delete_action" where
  "sweep_orphans S [] = ok (0, 0, 0, [])"
| "sweep_orphans S (scope # scopes) =
     and_then (sweep_orphan_nodes S scope)
       (\<lambda>(oe, oet, ws). and_then (sweep_orphan_edge_types S scope)
         (\<lambda>(oedge, ws'). and_then (sweep_orphans S scopes)
           (\<lambda>(oe', oet', oedge', ws''). ok (oe + oe', oet + oet', oedge + oedge', ws @ ws' @ ws''))))"

definition forget_pipeline_name :: str where "forget_pipeline_name = lit ''forget''"

definition forgotten_datasets :: "delete_scope \<Rightarrow> resolved_targets \<Rightarrow> uuid option list" where
  "forgotten_datasets scope targets =
     (if scope = AllScope then [None]
      else map Some (btree_set (map ds_id (tg_datasets targets) @ map fst (tg_links targets))))"

text \<open>Best effort: a row that cannot be written is only logged.\<close>

definition log_forget :: "('g, 'v, 'f, 's) delete_service \<Rightarrow> uuid option \<Rightarrow> uuid rel_action" where
  "log_forget S dataset_id db =
     on_runs (log_pipeline_run (sv_fresh S (rt_tick (rl_runs (db_tables db))))
       (en_u5 (sv_env S) forget_pipeline_name) forget_pipeline_name dataset_id Completed None) db"

definition record_forget ::
  "('g, 'v, 'f, 's) delete_service \<Rightarrow> uuid option list \<Rightarrow> ('g, 'v, 'f, 's, unit) delete_action" where
  "record_forget S dataset_ids =
     (if sv_records_runs S
      then for_each (\<lambda>i. and_then (at_db (recover (log_forget S i))) (\<lambda>_. ok ())) dataset_ids
      else ok ())"

definition delete_history ::
  "('g, 'v, 'f, 's) delete_service \<Rightarrow> delete_scope \<Rightarrow> ('g, 'v, 'f, 's, nat) delete_action" where
  "delete_history S scope =
     (if scope = AllScope then ask S (lit ''Failed to delete all search history'') delete_all_queries else ok 0)"

definition prune_sessions ::
  "('g, 'v, 'f, 's) delete_service \<Rightarrow> delete_scope \<Rightarrow> ('g, 'v, 'f, 's, bool) delete_action" where
  "prune_sessions S scope =
     (case (scope, sv_session_store S) of
        (AllScope, Some prune) \<Rightarrow>
          and_then (within es_sessions (\<lambda>s w. w\<lparr>es_sessions := s\<rparr>)
              (map_err (\<lambda>e. Runtime (lit ''Failed to prune session cache: '' @ e)) prune)) (\<lambda>_. ok True)
      | _ \<Rightarrow> ok False)"

section \<open>Memory only\<close>

text \<open>A failure on the evidence sidecar is only logged.\<close>

definition sweep_evidence ::
  "('g, 'v, 'f, 's) delete_service \<Rightarrow> delete_scope \<Rightarrow> resolved_targets \<Rightarrow> ('g, 'v, 'f, 's, unit) delete_action" where
  "sweep_evidence S scope targets =
     for_each (\<lambda>(dataset_id, data_id). and_then (at_db (recover (delete_edge_evidence dataset_id data_id))) (\<lambda>_. ok ()))
       (if is_data_item scope then map (\<lambda>(dataset_id, data_id). (dataset_id, Some data_id)) (tg_links targets)
        else map (\<lambda>ds. (ds_id ds, None)) (tg_datasets targets))"

definition reset_statuses ::
  "('g, 'v, 'f, 's) delete_service \<Rightarrow> delete_scope \<Rightarrow> resolved_targets \<Rightarrow> ('g, 'v, 'f, 's, unit) delete_action" where
  "reset_statuses S scope targets =
     (let us = en_uuid_str (sv_env S); uh = en_uuid_hex (sv_env S) in
      if is_data_item scope
      then for_each (\<lambda>(dataset_id, data_id).
             ask S (lit ''Failed to clear cognify pipeline_status for data '' @ sv_str S data_id
                    @ lit '' in dataset '' @ sv_str S dataset_id)
               (on_ledger (clear_cognify_pipeline_status_for_data us uh data_id dataset_id))) (tg_links targets)
      else for_each (\<lambda>ds. and_then
             (ask S (lit ''Failed to clear pipeline_status for dataset '' @ [39] @ ds_name ds @ [39])
               (on_ledger (clear_pipeline_status_for_dataset us uh (ds_id ds)))) (\<lambda>_. ok ())) (tg_datasets targets))"

definition no_result :: delete_result where
  "no_result = \<lparr>dr_datasets = 0, dr_dataset_links = 0, dr_data = 0, dr_storage_files = 0, dr_graph_nodes = 0,
     dr_vector_points = 0, dr_provenance_nodes = 0, dr_provenance_edges = 0, dr_orphan_entities = 0,
     dr_orphan_entity_types = 0, dr_orphan_edge_types = 0, dr_pipeline_runs = 0, dr_pipeline_statuses = 0,
     dr_search_queries = 0, dr_pruned_sessions = False, dr_warnings = [], dr_data_id = None\<rparr>"

definition execute_memory_only ::
  "('g, 'v, 'f, 's) delete_service \<Rightarrow> delete_request \<Rightarrow> resolved_targets \<Rightarrow> ('g, 'v, 'f, 's, delete_result) delete_action" where
  "execute_memory_only S request targets =
     and_then (remove_artifacts S (rq_scope request) targets)
       (\<lambda>(gn, vp, pn, pe, warnings). and_then (sweep_evidence S (rq_scope request) targets)
         (\<lambda>_. and_then (reset_statuses S (rq_scope request) targets)
           (\<lambda>_. and_then (record_forget S (forgotten_datasets (rq_scope request) targets))
             (\<lambda>_. ok (no_result\<lparr>dr_graph_nodes := gn, dr_vector_points := vp, dr_provenance_nodes := pn,
                dr_provenance_edges := pe, dr_warnings := warnings, dr_data_id := resolved_data_id request targets\<rparr>)))))"

section \<open>Executing\<close>

text \<open>What the phases before the report counted.\<close>

definition execute_phases ::
  "('g, 'v, 'f, 's) delete_service \<Rightarrow> delete_request \<Rightarrow> resolved_targets \<Rightarrow> ('g, 'v, 'f, 's, delete_result) delete_action" where
  "execute_phases S request targets =
     (let scope = rq_scope request; data_item = is_data_item scope in
      and_then (clear_statuses S data_item targets)
        (\<lambda>statuses. and_then (remove_artifacts S scope targets)
          (\<lambda>(gn, vp, pn, pe, warnings1). and_then (detach_links S (tg_links targets))
            (\<lambda>links. and_then (if data_item then invalidate_runs S (tg_links targets) else ok 0)
              (\<lambda>runs. and_then (delete_datasets S (tg_datasets targets))
                (\<lambda>datasets. and_then (remove_rows S (tg_candidates targets))
                  (\<lambda>(data, files, warnings2). and_then
                    (if rq_mode request = Hard then sweep_orphans S (sweep_scopes S targets) else ok (0, 0, 0, []))
                    (\<lambda>(oe, oet, oedge, warnings3). and_then (delete_history S scope)
                      (\<lambda>queries. and_then (prune_sessions S scope)
                        (\<lambda>pruned. ok
                          \<lparr>dr_datasets = datasets, dr_dataset_links = links, dr_data = data, dr_storage_files = files,
                           dr_graph_nodes = gn, dr_vector_points = vp, dr_provenance_nodes = pn,
                           dr_provenance_edges = pe, dr_orphan_entities = oe, dr_orphan_entity_types = oet,
                           dr_orphan_edge_types = oedge, dr_pipeline_runs = runs, dr_pipeline_statuses = statuses,
                           dr_search_queries = queries, dr_pruned_sessions = pruned,
                           dr_warnings = warnings1 @ warnings2 @ warnings3,
                           dr_data_id = resolved_data_id request targets\<rparr>))))))))))"

definition execute_resolved ::
  "('g, 'v, 'f, 's) delete_service \<Rightarrow> delete_request \<Rightarrow> ('g, 'v, 'f, 's, delete_result) delete_action" where
  "execute_resolved S request =
     and_then (at_db (resolve_targets S (rq_scope request)))
       (\<lambda>targets. if rq_memory_only request then execute_memory_only S request targets
          else and_then (execute_phases S request targets)
            (\<lambda>result. and_then (record_forget S (forgotten_datasets (rq_scope request) targets)) (\<lambda>_. ok result)))"

text \<open>\<open>locks.hold(keys, fut)\<close>.\<close>

definition holding ::
  "('g, 'v, 'f, 's) delete_service \<Rightarrow> uuid list \<Rightarrow> ('g, 'v, 'f, 's, 'a) delete_action \<Rightarrow> ('g, 'v, 'f, 's, 'a) delete_action" where
  "holding S keys m w = (case sv_dataset_locks S of Some wait \<Rightarrow> m (wait keys w) | None \<Rightarrow> m w)"

definition delete_dataset_if_present ::
  "('g, 'v, 'f, 's) delete_service \<Rightarrow> delete_mode \<Rightarrow> bool \<Rightarrow> uuid \<Rightarrow> ('g, 'v, 'f, 's, delete_result option) delete_action" where
  "delete_dataset_if_present S mode memory_only dataset_id =
     and_then (ask S (lit ''Failed to resolve dataset '' @ sv_str S dataset_id) (get_dataset dataset_id))
       (\<lambda>found. if found = None then ok None
          else and_then (execute_resolved S \<lparr>rq_scope = DatasetById dataset_id, rq_mode = mode, rq_memory_only = memory_only\<rparr>)
                 (\<lambda>result. ok (Some result)))"

fun datasets_from ::
  "('g, 'v, 'f, 's) delete_service \<Rightarrow> delete_mode \<Rightarrow> bool \<Rightarrow> uuid list \<Rightarrow> delete_result \<Rightarrow> nat
   \<Rightarrow> ('g, 'v, 'f, 's, delete_result) delete_action" where
  "datasets_from S mode memory_only [] so_far completed = ok so_far"
| "datasets_from S mode memory_only (i # ids) so_far completed =
     and_then (recover (holding S [i] (delete_dataset_if_present S mode memory_only i)))
       (\<lambda>outcome. case outcome of
          Inr (Some result) \<Rightarrow> datasets_from S mode memory_only ids (add_result so_far result) (completed + 1)
        | Inr None \<Rightarrow> datasets_from S mode memory_only ids so_far completed
        | Inl e \<Rightarrow> fail (if completed = 0 then e else Partial so_far i e))"

definition execute_datasets_by_id ::
  "('g, 'v, 'f, 's) delete_service \<Rightarrow> delete_mode \<Rightarrow> bool \<Rightarrow> uuid list \<Rightarrow> ('g, 'v, 'f, 's, delete_result) delete_action" where
  "execute_datasets_by_id S mode memory_only ids = datasets_from S mode memory_only ids no_result 0"

definition execute ::
  "('g, 'v, 'f, 's) delete_service \<Rightarrow> delete_request \<Rightarrow> ('g, 'v, 'f, 's, delete_result) delete_action" where
  "execute S request =
     (case rq_scope request of
        UserScope owner_id tenant_id \<Rightarrow>
          and_then (at_db (owner_dataset_ids_in_tenant S owner_id tenant_id))
            (execute_datasets_by_id S (rq_mode request) (rq_memory_only request))
      | scope \<Rightarrow>
          (if sv_dataset_locks S = None then execute_resolved S request
           else and_then (at_db (lock_keys S scope)) (\<lambda>keys. holding S keys (execute_resolved S request))))"

section \<open>Previews\<close>

definition preview_targets ::
  "('g, 'v, 'f, 's) delete_service \<Rightarrow> resolved_targets \<Rightarrow> nat \<Rightarrow> ('g, 'v, 'f, 's, delete_preview) delete_action" where
  "preview_targets S targets search_queries =
     and_then (at_db (count_data_that_would_be_deleted S (tg_candidates targets) (tg_links targets)))
       (\<lambda>data. and_then (count_graph_vector_artifacts S targets)
         (\<lambda>(gn, vp, pn, pe). ok
           \<lparr>pv_datasets = length (tg_datasets targets), pv_dataset_links = length (tg_links targets),
            pv_data = data, pv_storage_files = data, pv_graph_nodes = gn, pv_vector_points = vp,
            pv_provenance_nodes = pn, pv_provenance_edges = pe, pv_search_queries = search_queries,
            pv_orphaned_edge_types = 0\<rparr>))"

definition preview_resolved ::
  "('g, 'v, 'f, 's) delete_service \<Rightarrow> delete_request \<Rightarrow> ('g, 'v, 'f, 's, delete_preview) delete_action" where
  "preview_resolved S request =
     and_then (at_db (resolve_targets S (rq_scope request)))
       (\<lambda>targets. and_then
         (if rq_scope request = AllScope then ask S (lit ''Failed to count all search history'') count_all_queries else ok 0)
         (preview_targets S targets))"

definition preview_datasets_by_id ::
  "('g, 'v, 'f, 's) delete_service \<Rightarrow> uuid list \<Rightarrow> ('g, 'v, 'f, 's, delete_preview) delete_action" where
  "preview_datasets_by_id S dataset_ids =
     and_then (at_db (and_then (collect (\<lambda>i. and_then (dataset_by_id S i) (\<lambda>ds. ok [ds])) dataset_ids) (resolve_dataset_list S)))
       (\<lambda>targets. preview_targets S targets 0)"

definition preview ::
  "('g, 'v, 'f, 's) delete_service \<Rightarrow> delete_request \<Rightarrow> ('g, 'v, 'f, 's, delete_preview) delete_action" where
  "preview S request =
     (case rq_scope request of
        UserScope owner_id tenant_id \<Rightarrow>
          and_then (at_db (owner_dataset_ids_in_tenant S owner_id tenant_id)) (preview_datasets_by_id S)
      | _ \<Rightarrow> preview_resolved S request)"

end
