(* ===== verification/Cleanup_Effects.thy ===== *)
theory Cleanup_Effects
  imports Delete_Service Sweep
begin

text \<open>
  What the cleanup of a data item and of a dataset does to a shared store and to the ledger: only
  artifacts the selected rows name may go, the ledger rows go last, and a cleanup that returns has
  removed everything it selected.
\<close>

section \<open>Views of an estate\<close>

abbreviation rel :: "('g, 'v, 'f, 's) estate \<Rightarrow> relational" where
  "rel w \<equiv> db_tables (es_db w)"

abbreviation led :: "('g, 'v, 'f, 's) estate \<Rightarrow> ledger" where
  "led w \<equiv> rl_ledger (rel w)"

definition everything :: "('g, 'v, 'f, 's) estate \<Rightarrow> relational \<times> 'g \<times> 'v \<times> 'f \<times> 's" where
  "everything w = (rel w, es_graph w, es_vector w, es_files w, es_sessions w)"

definition beside_db :: "('g, 'v, 'f, 's) estate \<Rightarrow> 'g \<times> 'v \<times> 'f \<times> 's" where
  "beside_db w = (es_graph w, es_vector w, es_files w, es_sessions w)"

lemma everything_eq:
  "same_view everything w w' \<longleftrightarrow> rel w' = rel w \<and> es_graph w' = es_graph w \<and> es_vector w' = es_vector w
     \<and> es_files w' = es_files w \<and> es_sessions w' = es_sessions w"
  by (simp add: same_view_def everything_def)

lemma beside_db_eq:
  "same_view beside_db w w' \<longleftrightarrow> es_graph w' = es_graph w \<and> es_vector w' = es_vector w
     \<and> es_files w' = es_files w \<and> es_sessions w' = es_sessions w"
  by (simp add: same_view_def beside_db_def)

lemma at_db_outcome: "at_db m w = (r, w') \<longleftrightarrow> (\<exists>d. m (es_db w) = (r, d) \<and> w' = w\<lparr>es_db := d\<rparr>)"
  by (auto simp: at_db_def within_outcome)

lemma at_graph_outcome: "at_graph m w = (r, w') \<longleftrightarrow> (\<exists>g. m (es_graph w) = (r, g) \<and> w' = w\<lparr>es_graph := g\<rparr>)"
  by (auto simp: at_graph_def within_outcome)

lemma at_vector_outcome: "at_vector m w = (r, w') \<longleftrightarrow> (\<exists>v. m (es_vector w) = (r, v) \<and> w' = w\<lparr>es_vector := v\<rparr>)"
  by (auto simp: at_vector_def within_outcome)

lemma at_stores_outcome:
  "at_stores m w = (r, w') \<longleftrightarrow> (\<exists>g v. m (es_graph w, es_vector w) = (r, g, v) \<and> w' = w\<lparr>es_graph := g, es_vector := v\<rparr>)"
  by (auto simp: at_stores_def within_outcome split: prod.splits)

lemma runtime_Inr: "runtime S what m d = (Inr x, d') \<longleftrightarrow> m d = (Inr x, d')"
  by (simp add: runtime_def map_err_Inr)

lemma runtime_Inl: "runtime S what m d = (Inl e, d') \<longleftrightarrow> (\<exists>e0. e = Runtime (what @ lit '': '' @ en_show (sv_env S) e0) \<and> m d = (Inl e0, d'))"
  by (auto simp: runtime_def map_err_Inl)

lemma ask_Inr: "ask S what m w = (Inr x, w') \<longleftrightarrow> (\<exists>d. m (es_db w) = (Inr x, d) \<and> w' = w\<lparr>es_db := d\<rparr>)"
  by (auto simp: ask_def at_db_outcome runtime_Inr)

lemma ask_Inl: "ask S what m w = (Inl e, w') \<Longrightarrow> \<exists>e0 d. m (es_db w) = (Inl e0, d) \<and> w' = w\<lparr>es_db := d\<rparr>"
  by (auto simp: ask_def at_db_outcome runtime_Inl)

lemmas estate_outcomes = outcomes at_db_outcome at_graph_outcome at_vector_outcome at_stores_outcome runtime_Inr ask_Inr

lemma reads_runtime [intro]: "reads_only m \<Longrightarrow> reads_only (runtime S what m)"
  by (auto simp: runtime_def)

lemma at_db_reads [intro]: "reads_only m \<Longrightarrow> evolves (same_view everything) (at_db m)"
  unfolding at_db_def by (rule evolves_within [of "\<lambda>s t. db_tables t = db_tables s"])
    (auto simp: evolves_def reads_only_def everything_eq)

lemma ask_reads [intro]: "reads_only m \<Longrightarrow> evolves (same_view everything) (ask S what m)"
  unfolding ask_def by auto

lemma at_db_frame [intro]: "evolves (same_view beside_db) (at_db m)"
  unfolding at_db_def by (rule evolves_within [of "\<lambda>_ _. True"]) (auto simp: evolves_def beside_db_eq)

lemma ask_frame [intro]: "evolves (same_view beside_db) (ask S what m)"
  unfolding ask_def by (rule at_db_frame)

lemma at_db_view: "evolves P m \<Longrightarrow> (\<And>s t w. P (es_db w) t \<Longrightarrow> R w (w\<lparr>es_db := t\<rparr>)) \<Longrightarrow> evolves R (at_db m)"
  unfolding at_db_def by (rule evolves_within)

text \<open>The loops that count.\<close>

context evolution
begin

lemma of_sum_each: "(\<And>x. x \<in> set xs \<Longrightarrow> evolves R (f x)) \<Longrightarrow> evolves R (sum_each f xs)"
  by (induction xs) (auto intro!: of_ok of_and_then)

lemma of_each: "(\<And>x. x \<in> set xs \<Longrightarrow> evolves R (f x)) \<Longrightarrow> evolves R (for_each f xs)"
  by (induction xs) (auto intro!: of_ok of_and_then)

lemma of_pair_app: "(\<And>x y. evolves R (m x y z)) \<Longrightarrow> evolves R ((case p of (x, y) \<Rightarrow> m x y) z)"
  by (cases p) auto

lemma of_cleanup_each: "(\<And>x. x \<in> set xs \<Longrightarrow> evolves R (f x)) \<Longrightarrow> evolves R (cleanup_each f xs)"
  by (induction xs) (auto intro!: of_ok of_and_then)

end

section \<open>The rows of an item\<close>

lemma item_rows_reads: "evolves (same_view everything) (item_rows S data_id dataset_id)"
  unfolding item_rows_def by (intro view.of_and_then view.of_ok ask_reads) auto

lemma item_rows_ok:
  assumes "item_rows S i ds w = (Inr (ns, es, ss, an, ae), w')"
  shows "ns = unique_for_data (l_nodes (led w)) i ds \<and> es = unique_for_data (l_edges (led w)) i ds
    \<and> ss = select_where (l_edges (led w)) (structural_edges_owned_by (l_nodes (led w)) i ds)
    \<and> an = length (select_where (l_nodes (led w)) (of_item i ds))
    \<and> ae = length (select_where (l_edges (led w)) (of_item i ds))"
proof -
  from assms obtain w1 w2 w3 w4 where
      1: "ask S (lit ''Failed to get unique provenance nodes for data '' @ sv_str S i) (on_ledger (get_unique_nodes_for_data i ds)) w = (Inr ns, w1)"
    and 2: "ask S (lit ''Failed to get unique provenance edges for data '' @ sv_str S i) (on_ledger (get_unique_edges_for_data i ds)) w1 = (Inr es, w2)"
    and 3: "ask S (lit ''Failed to get structural provenance edges for data '' @ sv_str S i) (on_ledger (get_structural_edges_for_data i ds)) w2 = (Inr ss, w3)"
    and 4: "ask S (lit ''Failed to count provenance nodes for data '' @ sv_str S i) (on_ledger (count_nodes_for_data i ds)) w3 = (Inr an, w4)"
    and 5: "ask S (lit ''Failed to count provenance edges for data '' @ sv_str S i) (on_ledger (count_edges_for_data i ds)) w4 = (Inr ae, w')"
    by (simp only: item_rows_def outcomes) blast
  have "rel w1 = rel w" "rel w2 = rel w1" "rel w3 = rel w2" "rel w4 = rel w3"
    using evolvesD [OF ask_reads 1] evolvesD [OF ask_reads 2] evolvesD [OF ask_reads 3] evolvesD [OF ask_reads 4]
    by (auto simp: everything_eq)
  with 1 2 3 4 5 show ?thesis
    by (simp only: ask_Inr on_ledger_outcome)
      (auto simp: get_unique_nodes_for_data_def get_unique_edges_for_data_def get_structural_edges_for_data_def
        count_nodes_for_data_def count_edges_for_data_def dest!: query_ok)
qed

text \<open>The rows that may go, and those that are gone when the deletion returned.\<close>

definition trimmed ::
  "(graph_node \<Rightarrow> bool) \<Rightarrow> (graph_edge \<Rightarrow> bool) \<Rightarrow> ('g, 'v, 'f, 's) estate \<Rightarrow> ('g, 'v, 'f, 's) estate \<Rightarrow> bool" where
  "trimmed P Q w w' \<longleftrightarrow> (\<exists>P' Q'. (\<forall>n. \<not> P' n \<longrightarrow> P n) \<and> (\<forall>e. \<not> Q' e \<longrightarrow> Q e)
     \<and> rel w' = (rel w)\<lparr>rl_ledger := (led w)\<lparr>l_nodes := filter P' (l_nodes (led w)), l_edges := filter Q' (l_edges (led w))\<rparr>\<rparr>)"

interpretation trimming: evolution "trimmed P Q"
proof
  show "trimmed P Q w w" for w :: "('g, 'v, 'f, 's) estate"
    unfolding trimmed_def by (rule exI [of _ "\<lambda>_. True"], rule exI [of _ "\<lambda>_. True"]) simp
  show "trimmed P Q w w''" if "trimmed P Q w w'" "trimmed P Q w' w''" for w w' w'' :: "('g, 'v, 'f, 's) estate"
  proof -
    from that obtain P1 Q1 P2 Q2 where a: "\<And>n. \<not> P1 n \<Longrightarrow> P n" "\<And>e. \<not> Q1 e \<Longrightarrow> Q e"
        "\<And>n. \<not> P2 n \<Longrightarrow> P n" "\<And>e. \<not> Q2 e \<Longrightarrow> Q e"
      and r1: "rel w' = (rel w)\<lparr>rl_ledger := (led w)\<lparr>l_nodes := filter P1 (l_nodes (led w)), l_edges := filter Q1 (l_edges (led w))\<rparr>\<rparr>"
      and r2: "rel w'' = (rel w')\<lparr>rl_ledger := (led w')\<lparr>l_nodes := filter P2 (l_nodes (led w')), l_edges := filter Q2 (l_edges (led w'))\<rparr>\<rparr>"
      unfolding trimmed_def by metis
    show ?thesis
      unfolding trimmed_def
      by (rule exI [of _ "\<lambda>n. P1 n \<and> P2 n"], rule exI [of _ "\<lambda>e. Q1 e \<and> Q2 e"])
        (use a in \<open>auto simp: r2 r1 conj_commute\<close>)
  qed
qed

text \<open>An operation on the ledger that keeps its tables or filters them.\<close>

lemma ask_trims:
  fixes S :: "('g, 'v, 'f, 's) delete_service"
  assumes "\<And>db r d. m db = (r, d) \<Longrightarrow> db_tables d = db_tables db \<or>
      db_tables d = (db_tables db)\<lparr>l_nodes := filter (\<lambda>n. \<not> P n) (l_nodes (db_tables db)),
        l_edges := filter (\<lambda>e. \<not> Q e) (l_edges (db_tables db))\<rparr>"
  shows "evolves (trimmed P Q) (ask S what (on_ledger m))"
proof (rule evolvesI)
  fix w w' :: "('g, 'v, 'f, 's) estate" and r
  assume "ask S what (on_ledger m) w = (r, w')"
  then obtain r0 d where m: "m \<lparr>db_tables = led w, db_faults = db_faults (es_db w)\<rparr> = (r0, d)"
    and w': "rel w' = (rel w)\<lparr>rl_ledger := db_tables d\<rparr>"
    by (cases r) (fastforce simp: ask_Inr on_ledger_outcome dest!: ask_Inl)+
  from assms [OF m] show "trimmed P Q w w'"
  proof
    assume "db_tables d = db_tables \<lparr>db_tables = led w, db_faults = db_faults (es_db w)\<rparr>"
    then show ?thesis
      unfolding trimmed_def w' by (intro exI [of _ "\<lambda>_. True"]) simp
  next
    assume d: "db_tables d = (db_tables \<lparr>db_tables = led w, db_faults = db_faults (es_db w)\<rparr>)
      \<lparr>l_nodes := filter (\<lambda>n. \<not> P n) (l_nodes (db_tables \<lparr>db_tables = led w, db_faults = db_faults (es_db w)\<rparr>)),
       l_edges := filter (\<lambda>e. \<not> Q e) (l_edges (db_tables \<lparr>db_tables = led w, db_faults = db_faults (es_db w)\<rparr>))\<rparr>"
    show ?thesis
      unfolding trimmed_def w' d by (rule exI [of _ "\<lambda>n. \<not> P n"], rule exI [of _ "\<lambda>e. \<not> Q e"]) simp
  qed
qed

lemma exec_cases: "exec f db = (r, d) \<Longrightarrow> db_tables d = db_tables db \<or> db_tables d = f (db_tables db)"
  by (cases r) (auto dest: exec_ok exec_err)

lemma delete_rows_cases:
  "delete_nodes c db = (r, d) \<Longrightarrow> db_tables d = db_tables db \<or>
     db_tables d = (db_tables db)\<lparr>l_nodes := filter (\<lambda>n. \<not> holds c n) (l_nodes (db_tables db))\<rparr>"
  "delete_edges c' db = (r, d) \<Longrightarrow> db_tables d = db_tables db \<or>
     db_tables d = (db_tables db)\<lparr>l_edges := filter (\<lambda>e. \<not> holds c' e) (l_edges (db_tables db))\<rparr>"
  "delete_edges_by_ids ids db = (rn, d) \<Longrightarrow> db_tables d = db_tables db \<or>
     db_tables d = (db_tables db)\<lparr>l_edges := filter (\<lambda>e. g_id e \<notin> set ids) (l_edges (db_tables db))\<rparr>"
  subgoal by (auto simp: delete_nodes_def delete_where_def dest!: exec_cases)
  subgoal by (auto simp: delete_edges_def delete_where_def dest!: exec_cases)
  subgoal by (cases rn) (auto dest: delete_edges_by_ids_ok delete_edges_by_ids_err)
  done

lemma all_kept [simp]: "filter (\<lambda>x. \<not> False) xs = xs"
  by simp

lemma ledger_same [simp]: "t\<lparr>l_edges := l_edges t\<rparr> = t" "t\<lparr>l_nodes := l_nodes t\<rparr> = t"
  by (cases t, simp)+

lemma delete_rows_trim:
  "evolves (trimmed (holds c) (\<lambda>_. False)) (ask S what (on_ledger (delete_nodes c)))"
  "evolves (trimmed (\<lambda>_. False) (holds c')) (ask S what (on_ledger (delete_edges c')))"
  "evolves (trimmed (\<lambda>_. False) (\<lambda>e. g_id e \<in> set ids)) (ask S what (on_ledger (delete_edges_by_ids ids)))"
  by (rule ask_trims, drule delete_rows_cases, erule disj_forward, simp, simp)+

lemma trimmed_weaken:
  assumes "trimmed P Q w w'" and "\<And>n. P n \<Longrightarrow> P' n" and "\<And>e. Q e \<Longrightarrow> Q' e"
  shows "trimmed P' Q' w w'"
proof -
  from assms(1) obtain K L where "\<forall>n. \<not> K n \<longrightarrow> P n" "\<forall>e. \<not> L e \<longrightarrow> Q e"
    and t: "rel w' = (rel w)\<lparr>rl_ledger := (led w)\<lparr>l_nodes := filter K (l_nodes (led w)), l_edges := filter L (l_edges (led w))\<rparr>\<rparr>"
    unfolding trimmed_def by (elim exE conjE)
  then have "\<forall>n. \<not> K n \<longrightarrow> P' n" "\<forall>e. \<not> L e \<longrightarrow> Q' e" using assms(2,3) by simp_all
  with t show ?thesis unfolding trimmed_def by (intro exI conjI)
qed

lemma trimmed_mono:
  "evolves (trimmed P Q) m \<Longrightarrow> (\<And>n. P n \<Longrightarrow> P' n) \<Longrightarrow> (\<And>e. Q e \<Longrightarrow> Q' e) \<Longrightarrow> evolves (trimmed P' Q') m"
  by (erule evolves_mono) (rule trimmed_weaken)

lemma delete_item_rows_trims:
  "evolves (trimmed (holds (of_item i ds)) (\<lambda>e. holds (of_item i ds) e \<or> g_id e \<in> g_id ` set ss)) (delete_item_rows S i ds ss)"
  unfolding delete_item_rows_def delete_edges_for_data_def delete_nodes_for_data_def
  by (intro trimming.of_and_then trimming.of_ok)
    (rule trimmed_mono [OF delete_rows_trim(3)] trimmed_mono [OF delete_rows_trim(2)]
       trimmed_mono [OF delete_rows_trim(1)], auto)+

lemma delete_item_rows_ok:
  assumes "delete_item_rows S i ds ss w = (Inr k, w')"
  shows "rel w' = (rel w)\<lparr>rl_ledger := (led w)
      \<lparr>l_nodes := filter (\<lambda>n. \<not> holds (of_item i ds) n) (l_nodes (led w)),
       l_edges := filter (\<lambda>e. \<not> holds (of_item i ds) e \<and> g_id e \<notin> g_id ` set ss) (l_edges (led w))\<rparr>\<rparr>
    \<and> same_view beside_db w w'
    \<and> k + length (filter (\<lambda>e. g_id e \<notin> g_id ` set ss) (l_edges (led w))) = length (l_edges (led w))"
proof -
  from assms obtain d1 d2 d3 where
      1: "delete_edges_by_ids (map g_id ss) \<lparr>db_tables = led w, db_faults = db_faults (es_db w)\<rparr> = (Inr k, d1)"
    and 2: "delete_edges_for_data i ds d1 = (Inr (), d2)"
    and 3: "delete_nodes_for_data i ds d2 = (Inr (), d3)"
    and w': "w' = w\<lparr>es_db := \<lparr>db_tables = (rel w)\<lparr>rl_ledger := db_tables d3\<rparr>, db_faults = db_faults d3\<rparr>\<rparr>"
    by (auto simp: delete_item_rows_def estate_outcomes on_ledger_outcome)
  have 2: "db_tables d2 = (db_tables d1)\<lparr>l_edges := delete_where (l_edges (db_tables d1)) (of_item i ds)\<rparr>"
    using exec_ok [OF 2 [unfolded delete_edges_for_data_def delete_edges_def]] .
  have 3: "db_tables d3 = (db_tables d2)\<lparr>l_nodes := delete_where (l_nodes (db_tables d2)) (of_item i ds)\<rparr>"
    using exec_ok [OF 3 [unfolded delete_nodes_for_data_def delete_nodes_def]] .
  from delete_edges_by_ids_ok [OF 1] show ?thesis
    by (auto simp: w' 2 3 delete_where_def beside_db_eq conj_commute)
qed

section \<open>What a cleanup may remove\<close>

text \<open>
  From \<open>w\<close> to \<open>w'\<close> no node outside \<open>A\<close>, no point outside \<open>B\<close>, no ledger row outside \<open>P\<close> and \<open>Q\<close> has
  gone; nothing has come, and files and sessions are as they were.
\<close>

definition cleans ::
  "('g \<Rightarrow> str set) \<Rightarrow> ('v \<Rightarrow> str \<Rightarrow> uuid set) \<Rightarrow> str set \<Rightarrow> (str \<Rightarrow> uuid set) \<Rightarrow> (graph_node \<Rightarrow> bool) \<Rightarrow> (graph_edge \<Rightarrow> bool)
   \<Rightarrow> ('g, 'v, 'f, 's) estate \<Rightarrow> ('g, 'v, 'f, 's) estate \<Rightarrow> bool" where
  "cleans nodes_of points_of A B P Q w w' \<longleftrightarrow> trimmed P Q w w'
     \<and> nodes_of (es_graph w') \<subseteq> nodes_of (es_graph w) \<and> nodes_of (es_graph w) - A \<subseteq> nodes_of (es_graph w')
     \<and> (\<forall>key. points_of (es_vector w') key \<subseteq> points_of (es_vector w) key
          \<and> points_of (es_vector w) key - B key \<subseteq> points_of (es_vector w') key)
     \<and> es_files w' = es_files w \<and> es_sessions w' = es_sessions w"

lemma cleans_refl: "cleans nodes_of points_of A B P Q w w"
  by (simp add: cleans_def trimming.same)

lemma cleans_trans:
  assumes "cleans nodes_of points_of A B P Q w w'" and "cleans nodes_of points_of A B P Q w' w''"
  shows "cleans nodes_of points_of A B P Q w w''"
proof -
  have "trimmed P Q w w''" using assms unfolding cleans_def by (blast intro: trimming.compose)
  moreover have "points_of (es_vector w'') key \<subseteq> points_of (es_vector w) key
      \<and> points_of (es_vector w) key - B key \<subseteq> points_of (es_vector w'') key" for key
    using assms unfolding cleans_def by blast
  ultimately show ?thesis using assms unfolding cleans_def by auto
qed

interpretation cleaning: evolution "cleans nodes_of points_of A B P Q"
  by unfold_locales (rule cleans_refl, erule (1) cleans_trans)

lemma trimmed_same: "rel w' = rel w \<Longrightarrow> trimmed P Q w w'"
  unfolding trimmed_def by (intro exI [of _ "\<lambda>_. True"]) simp

lemma cleans_of_reads: "evolves (same_view everything) m \<Longrightarrow> evolves (cleans nodes_of points_of A B P Q) m"
  by (erule evolves_mono) (simp add: cleans_def everything_eq trimmed_same)

lemma cleans_of_trims:
  assumes "evolves (trimmed P Q) m" and "evolves (same_view beside_db) m"
  shows "evolves (cleans nodes_of points_of A B P Q) m"
  using assms by (simp add: evolves_def cleans_def beside_db_eq)

lemma cleans_mono:
  assumes "cleans nodes_of points_of A B P Q w w'" and "A \<subseteq> A'" and "\<And>key. B key \<subseteq> B' key"
    and "\<And>n. P n \<Longrightarrow> P' n" and "\<And>e. Q e \<Longrightarrow> Q' e"
  shows "cleans nodes_of points_of A' B' P' Q' w w'"
proof -
  have "trimmed P' Q' w w'"
    by (rule trimmed_weaken [where P = P and Q = Q]) (use assms(1,4,5) in \<open>auto simp: cleans_def\<close>)
  with assms(1-3) show ?thesis unfolding cleans_def by blast
qed

section \<open>What an item owns outright\<close>

text \<open>The edge-type points the item's edges stand for and nothing outside the item claims.\<close>

definition item_edge_types :: "('g, 'v) delete_env \<Rightarrow> ledger \<Rightarrow> uuid \<Rightarrow> uuid \<Rightarrow> uuid set" where
  "item_edge_types E L i ds = edge_type_deterministic_id (en_lower E) (en_u5 E) `
     ({t. t \<noteq> [] \<and> (\<exists>e \<in> set (l_edges L). edge_retrieval_text e = t
             \<and> (e \<in> set (unique_for_data (l_edges L) i ds) \<or> holds (structural_edges_owned_by (l_nodes L) i ds) e))}
      - claims_outside_item L i ds)"

lemma item_edge_types_owned:
  "item_edge_types E L i ds = edge_type_deterministic_id (en_lower E) (en_u5 E) `
     ({t \<in> edge_retrieval_text ` (set (unique_for_data (l_edges L) i ds)
        \<union> set (select_where (l_edges L) (structural_edges_owned_by (l_nodes L) i ds))). t \<noteq> []} - claims_outside_item L i ds)"
proof -
  have "{t. t \<noteq> [] \<and> (\<exists>e \<in> set (l_edges L). edge_retrieval_text e = t
             \<and> (e \<in> set (unique_for_data (l_edges L) i ds) \<or> holds (structural_edges_owned_by (l_nodes L) i ds) e))}
      = {t \<in> edge_retrieval_text ` (set (unique_for_data (l_edges L) i ds)
        \<union> set (select_where (l_edges L) (structural_edges_owned_by (l_nodes L) i ds))). t \<noteq> []}" (is "?a = ?b")
    by (rule set_eqI) (auto simp: set_unique_for_data)
  then show ?thesis unfolding item_edge_types_def by (simp only:)
qed

definition item_points :: "('g, 'v) delete_env \<Rightarrow> ledger \<Rightarrow> uuid \<Rightarrow> uuid \<Rightarrow> str \<Rightarrow> uuid set" where
  "item_points E L i ds key =
     named_points E (unique_for_data (l_nodes L) i ds) (unique_for_data (l_edges L) i ds) [] key
     \<union> (if key = collection_key edge_type_data_type edge_type_field then item_edge_types E L i ds else {})"

definition item_structural :: "ledger \<Rightarrow> uuid \<Rightarrow> uuid \<Rightarrow> graph_edge list" where
  "item_structural L i ds = select_where (l_edges L) (structural_edges_owned_by (l_nodes L) i ds)"

definition item_edge_rows :: "ledger \<Rightarrow> uuid \<Rightarrow> uuid \<Rightarrow> graph_edge \<Rightarrow> bool" where
  "item_edge_rows L i ds e \<longleftrightarrow> holds (of_item i ds) e \<or> g_id e \<in> g_id ` set (item_structural L i ds)"

lemma named_points_edge_types:
  "named_points E nodes edges ids key \<subseteq> named_points E nodes edges [] key
     \<union> (if key = collection_key edge_type_data_type edge_type_field then set ids else {})"
  by (auto simp: named_points_def)

lemma edge_type_ids_reads: "evolves (same_view everything) (edge_type_ids_to_delete S i ds es ss)"
proof -
  have "evolves (same_view everything) (ask S what (on_ledger (get_edge_retrieval_texts_claimed_outside_data b i ds cs)))"
    for what b cs by (rule ask_reads) auto
  then show ?thesis unfolding edge_type_ids_to_delete_def Let_def by (intro view.rules)
qed

lemma edge_type_ids_ok:
  assumes "edge_type_ids_to_delete S i ds es ss w = (Inr ids, w')"
  shows "set ids = edge_type_deterministic_id (en_lower (sv_env S)) (en_u5 (sv_env S)) `
           ({t \<in> edge_retrieval_text ` (set es \<union> set ss). t \<noteq> []} - claims_outside_item (led w) i ds)"
proof -
  define cs where "cs = btree_set (filter (\<lambda>t. t \<noteq> []) (map edge_retrieval_text (es @ ss)))"
  have cs: "set cs = {t \<in> edge_retrieval_text ` (set es \<union> set ss). t \<noteq> []}" by (auto simp: cs_def)
  have step: "edge_type_ids_to_delete S i ds es ss =
      (if cs = [] then ok []
       else and_then (ask S (lit ''Failed to get surviving edge texts for data '' @ sv_str S i)
              (on_ledger (get_edge_retrieval_texts_claimed_outside_data (en_backend (sv_env S)) i ds cs)))
         (\<lambda>claimed. ok (map (edge_type_deterministic_id (en_lower (sv_env S)) (en_u5 (sv_env S)))
                         (filter (\<lambda>t. t \<notin> set claimed) cs))))"
    by (simp only: edge_type_ids_to_delete_def cs_def Let_def)
  show ?thesis
  proof (cases "cs = []")
    case True
    with step assms have "ids = []" by (simp add: estate_outcomes)
    have none: "{t \<in> edge_retrieval_text ` (set es \<union> set ss). t \<noteq> []} = {}" using cs True by auto
    show ?thesis unfolding \<open>ids = []\<close> none by simp
  next
    case False
    with assms obtain claimed d where
        q: "get_edge_retrieval_texts_claimed_outside_data (en_backend (sv_env S)) i ds cs
           \<lparr>db_tables = led w, db_faults = db_faults (es_db w)\<rparr> = (Inr claimed, d)"
      and ids: "ids = map (edge_type_deterministic_id (en_lower (sv_env S)) (en_u5 (sv_env S))) (filter (\<lambda>t. t \<notin> set claimed) cs)"
      by (auto simp: step estate_outcomes on_ledger_outcome)
    from claimed_outside_data_ok [OF q] have "set claimed = set cs \<inter> claims_outside_item (led w) i ds" by simp
    then show ?thesis by (auto simp: ids cs)
  qed
qed

text \<open>The artifacts of the item's own rows, gone from both stores.\<close>

definition item_artifacts_gone ::
  "('g, 'v) delete_env \<Rightarrow> ('g \<Rightarrow> str set) \<Rightarrow> ('v \<Rightarrow> str \<Rightarrow> uuid set) \<Rightarrow> ledger \<Rightarrow> uuid \<Rightarrow> uuid \<Rightarrow> ('g, 'v, 'f, 's) estate \<Rightarrow> bool" where
  "item_artifacts_gone E nodes_of points_of L i ds w \<longleftrightarrow>
     nodes_of (es_graph w) \<inter> en_uuid_str E ` g_slug ` set (unique_for_data (l_nodes L) i ds) = {}
     \<and> (\<forall>(k, x) \<in> node_points (unique_for_data (l_nodes L) i ds). k \<noteq> (triplet_data_type, triplet_field) \<longrightarrow>
          x \<notin> points_of (es_vector w) (collection_key (fst k) (snd k)))
     \<and> points_of (es_vector w) (collection_key edge_type_data_type edge_type_field) \<inter> item_edge_types E L i ds = {}"

lemma item_artifacts_gone_frame:
  "same_view beside_db w w' \<Longrightarrow> item_artifacts_gone E nodes_of points_of L i ds w' \<longleftrightarrow> item_artifacts_gone E nodes_of points_of L i ds w"
  by (simp add: item_artifacts_gone_def beside_db_eq)

section \<open>Shared stores\<close>

text \<open>
  One graph and one vector store for all datasets, both wired, no per-dataset storage; the hash
  order visits every id once.
\<close>

locale shared_stores = delete_env_laws "sv_env S" nodes_of points_of
  for S :: "('g, 'v, 'f, 's) delete_service" and nodes_of :: "'g \<Rightarrow> str set" and points_of :: "'v \<Rightarrow> str \<Rightarrow> uuid set" +
  assumes shared_graph: "sv_graph S = Some (\<lambda>_. en_graph (sv_env S))"
    and shared_vector: "sv_vector S = Some (\<lambda>_. en_vector (sv_env S))"
    and no_dataset_storage: "sv_dataset_storage S = None"
    and hash_order: "mset (sv_hash_order S ids) = mset ids"
begin

lemma handles [simp]:
  "graph_handle S scope = Some (en_graph (sv_env S))" "vector_handle S scope = Some (en_vector (sv_env S))"
  by (simp_all add: graph_handle_def vector_handle_def shared_graph shared_vector)

lemma set_hash_order [simp]: "set (sv_hash_order S ids) = set ids"
  using hash_order mset_eq_setD by blast

abbreviation slugs :: "graph_node list \<Rightarrow> str set" where
  "slugs nodes \<equiv> en_uuid_str (sv_env S) ` g_slug ` set nodes"

lemma graph_step_bounds:
  assumes "at_graph (delete_graph_artifacts (sv_env S) (Some (en_graph (sv_env S))) nodes) w = (r, w')"
  shows "cleans nodes_of points_of (slugs nodes) B P Q w w'"
proof -
  from assms obtain g where d: "delete_graph_artifacts (sv_env S) (Some (en_graph (sv_env S))) nodes (es_graph w) = (r, g)"
    and w': "w' = w\<lparr>es_graph := g\<rparr>" by (auto simp: at_graph_outcome)
  have "trimmed P Q w w'" by (rule trimmed_same) (simp add: w')
  with graph_artifacts_bounds [OF d] show "cleans nodes_of points_of (slugs nodes) B P Q w w'"
    by (auto simp: cleans_def w')
qed

lemma vector_step_bounds:
  assumes "at_vector (delete_vector_artifacts (sv_env S) (Some (en_vector (sv_env S))) nodes edges ids) w = (r, w')"
  shows "cleans nodes_of points_of A (named_points (sv_env S) nodes edges ids) P Q w w'"
proof -
  from assms obtain v where d: "delete_vector_artifacts (sv_env S) (Some (en_vector (sv_env S))) nodes edges ids (es_vector w) = (r, v)"
    and w': "w' = w\<lparr>es_vector := v\<rparr>" by (auto simp: at_vector_outcome)
  have "trimmed P Q w w'" by (rule trimmed_same) (simp add: w')
  with vector_artifacts_bounds [OF d] show "cleans nodes_of points_of A (named_points (sv_env S) nodes edges ids) P Q w w'"
    by (auto simp: cleans_def w')
qed

text \<open>Whatever the outcome, only what the item owns outright may go.\<close>

lemma cleanup_data_bounds:
  assumes "cleanup_data S i ds w = (r, w')"
  shows "cleans nodes_of points_of (slugs (unique_for_data (l_nodes (led w)) i ds)) (item_points (sv_env S) (led w) i ds)
    (holds (of_item i ds)) (item_edge_rows (led w) i ds) w w'"
proof -
  let ?E = "sv_env S" and ?L = "led w"
  note run = assms [unfolded cleanup_data_def cleanup_data_in_scope_def handles]
  show ?thesis
  proof (rule cleaning.of_run [OF run], goal_cases)
    case 1
    show ?case by (rule cleans_of_reads [OF item_rows_reads])
  next
    case (2 found w1)
    obtain ns es ss an ae where found: "found = (ns, es, ss, an, ae)" by (cases found)
    note rows = item_rows_ok [OF 2(1) [unfolded found]]
    have w1: "rel w1 = rel w" using evolvesD [OF item_rows_reads 2(1)] by (simp add: everything_eq)
    show ?case
    proof (cases "ns = [] \<and> es = [] \<and> ss = [] \<and> an = 0 \<and> ae = 0")
      case True
      with 2(2) show ?thesis by (simp add: found ok_def cleans_refl)
    next
      case False
      with 2(2) have run: "and_then (at_graph (delete_graph_artifacts ?E (Some (en_graph ?E)) ns))
           (\<lambda>(gn, gw). and_then (edge_type_ids_to_delete S i ds es ss)
             (\<lambda>edge_type_ids. and_then
               (at_vector (delete_vector_artifacts ?E (Some (en_vector ?E)) ns es edge_type_ids))
               (\<lambda>(vp, vw). and_then (delete_item_rows S i ds ss)
                 (\<lambda>structural_deleted. ok (gn, vp, an, ae + structural_deleted, gw @ vw))))) w1 = (r, w')"
        by (simp add: found)
      show ?thesis
      proof (rule cleaning.of_run [OF run], goal_cases)
        case 1
        have "slugs (unique_for_data (l_nodes ?L) i ds) = slugs ns" using rows by simp
        then show ?case by (intro evolvesI) (simp only:, rule graph_step_bounds)
      next
        case (2 g w2)
        have w2: "rel w2 = rel w" using 2(1) w1 by (auto simp: at_graph_outcome)
        obtain gn gw where g: "g = (gn, gw)" by fastforce
        note run = 2(2) [unfolded g prod.case]
        show ?case
        proof (rule cleaning.of_run [OF run], goal_cases)
          case 1
          show ?case by (rule cleans_of_reads [OF edge_type_ids_reads])
        next
          case (2 ids w3)
          have ids: "set ids \<subseteq> item_edge_types ?E ?L i ds"
            using edge_type_ids_ok [OF 2(1)] rows w2 by (auto simp: item_edge_types_owned)
          have pts: "named_points ?E ns es ids key \<subseteq> item_points ?E ?L i ds key" for key
            using named_points_edge_types [of ?E ns es ids key] ids rows
            by (auto simp: item_points_def split: if_splits)
          show ?case
          proof (rule cleaning.of_run [OF 2(2)], goal_cases)
            case 1
            show ?case by (rule evolvesI, drule vector_step_bounds, erule cleans_mono) (use pts in auto)
          next
            case (2 v w4)
            obtain vp vw where v: "v = (vp, vw)" by fastforce
            have "evolves (cleans nodes_of points_of A B (holds (of_item i ds)) (item_edge_rows ?L i ds))
                (delete_item_rows S i ds ss)" for A B
              by (rule cleans_of_trims [OF trimmed_mono [OF delete_item_rows_trims]])
                (auto simp: item_edge_rows_def item_structural_def rows delete_item_rows_def intro!: view.rules)
            then show ?case
              using 2(2) by (simp add: v) (rule cleaning.of_run, assumption+, auto simp: ok_def cleans_refl)
          qed
        qed
      qed
    qed
  qed
qed

text \<open>A cleanup fails before it touches the ledger, or finds no row, or reaches its rows with the artifacts gone.\<close>

lemma cleanup_data_stages:
  assumes "cleanup_data S i ds w = (r, w')"
  obtains (failed) e where "r = Inl e" and "rel w' = rel w"
  | (nothing) "r = Inr (0, 0, 0, 0, [])" and "same_view everything w w'"
      and "unique_for_data (l_nodes (led w)) i ds = []" and "unique_for_data (l_edges (led w)) i ds = []"
      and "item_structural (led w) i ds = []"
      and "select_where (l_nodes (led w)) (of_item i ds) = []" and "select_where (l_edges (led w)) (of_item i ds) = []"
  | (rows) wm q where "rel wm = rel w" and "item_artifacts_gone (sv_env S) nodes_of points_of (led w) i ds wm"
      and "nodes_of (es_graph wm) = nodes_of (es_graph w) - slugs (unique_for_data (l_nodes (led w)) i ds)"
      and "delete_item_rows S i ds (item_structural (led w) i ds) wm = (q, w')"
      and "\<And>e. q = Inl e \<Longrightarrow> r = Inl e"
      and "\<And>k. q = Inr k \<Longrightarrow> \<exists>vp ws. r = Inr (card (g_slug ` set (unique_for_data (l_nodes (led w)) i ds)), vp,
               length (select_where (l_nodes (led w)) (of_item i ds)),
               length (select_where (l_edges (led w)) (of_item i ds)) + k, ws)"
proof -
  note run = assms [unfolded cleanup_data_def cleanup_data_in_scope_def handles]
  obtain f w1 where 1: "item_rows S i ds w = (f, w1)" by fastforce
  have e1: "same_view everything w w1" by (rule evolvesD [OF item_rows_reads 1])
  show thesis
  proof (cases f)
    case (Inl e)
    with run 1 have "r = Inl e" "w' = w1" by (auto simp: and_then_def)
    with e1 failed show thesis by (simp add: everything_eq)
  next
    case (Inr found)
    obtain ns es ss an ae where found: "found = (ns, es, ss, an, ae)" by (cases found)
    note found_rows = item_rows_ok [OF 1 [unfolded Inr found]]
    show thesis
    proof (cases "ns = [] \<and> es = [] \<and> ss = [] \<and> an = 0 \<and> ae = 0")
      case True
      with run 1 Inr found have "r = Inr (0, 0, 0, 0, [])" "w' = w1" by (auto simp: and_then_def ok_def)
      moreover have "unique_for_data (l_nodes (led w)) i ds = []" "unique_for_data (l_edges (led w)) i ds = []"
        "item_structural (led w) i ds = []" "select_where (l_nodes (led w)) (of_item i ds) = []"
        "select_where (l_edges (led w)) (of_item i ds) = []"
        using found_rows True by (simp_all add: item_structural_def)
      ultimately show thesis using e1 by - (rule nothing, simp_all)
    next
      case False
      obtain g w2 where 2: "at_graph (delete_graph_artifacts (sv_env S) (Some (en_graph (sv_env S))) ns) w1 = (g, w2)" by fastforce
      have w2: "rel w2 = rel w" using 2 e1 by (auto simp: at_graph_outcome everything_eq)
      show thesis
      proof (cases g)
        case (Inl e)
        with run 1 \<open>f = Inr found\<close> found False 2 have "r = Inl e" "w' = w2" by (auto simp: and_then_def)
        with w2 failed show thesis by simp
      next
        case (Inr gout)
        obtain gn gw where gout: "gout = (gn, gw)" by fastforce
        have graph: "nodes_of (es_graph w2) = nodes_of (es_graph w) - slugs ns" "gn = card (g_slug ` set ns)"
          using 2 e1 graph_artifacts_ok [of ns "es_graph w1" gout "es_graph w2"]
          by (auto simp: at_graph_outcome everything_eq Inr gout)
        obtain t w3 where 3: "edge_type_ids_to_delete S i ds es ss w2 = (t, w3)" by fastforce
        have e3: "same_view everything w2 w3" by (rule evolvesD [OF edge_type_ids_reads 3])
        show thesis
        proof (cases t)
          case (Inl e)
          with run 1 \<open>f = Inr found\<close> found False 2 \<open>g = Inr gout\<close> gout 3 have "r = Inl e" "w' = w3"
            by (auto simp: and_then_def)
          with w2 e3 failed show thesis by (simp add: everything_eq)
        next
          case (Inr ids)
          obtain v w4 where 4: "at_vector (delete_vector_artifacts (sv_env S) (Some (en_vector (sv_env S))) ns es ids) w3 = (v, w4)"
            by fastforce
          have w4: "rel w4 = rel w" "es_graph w4 = es_graph w2"
            using 4 w2 e3 by (auto simp: at_vector_outcome everything_eq)
          show thesis
          proof (cases v)
            case (Inl e)
            with run 1 \<open>f = Inr found\<close> found False 2 \<open>g = Inr gout\<close> gout 3 \<open>t = Inr ids\<close> 4
            have "r = Inl e" "w' = w4" by (auto simp: and_then_def)
            with w4 failed show thesis by simp
          next
            case (Inr vout)
            obtain vp vw where vout: "vout = (vp, vw)" by fastforce
            obtain q where q: "delete_item_rows S i ds ss w4 = (q, w')"
              and r: "r = (case q of Inl e \<Rightarrow> Inl e | Inr k \<Rightarrow> Inr (gn, vp, an, ae + k, gw @ vw))"
              using run 1 \<open>f = Inr found\<close> found False 2 \<open>g = Inr gout\<close> gout 3 \<open>t = Inr ids\<close> 4 Inr vout
              by (auto simp: and_then_def ok_def split: prod.splits sum.splits)
            have ids: "set ids = item_edge_types (sv_env S) (led w) i ds"
              using edge_type_ids_ok [of S i ds es ss w2 ids w3] 3 \<open>t = Inr ids\<close> found_rows w2 by (simp add: item_edge_types_owned)
            have va: "delete_vector_artifacts (sv_env S) (Some (en_vector (sv_env S))) ns es ids (es_vector w3) = (Inr vout, es_vector w4)"
              using 4 Inr by (auto simp: at_vector_outcome)
            have gone: "item_artifacts_gone (sv_env S) nodes_of points_of (led w) i ds w4"
              unfolding item_artifacts_gone_def
            proof (intro conjI ballI)
              show "nodes_of (es_graph w4) \<inter> slugs (unique_for_data (l_nodes (led w)) i ds) = {}"
                using graph w4 found_rows by auto
              show "points_of (es_vector w4) (collection_key edge_type_data_type edge_type_field)
                  \<inter> item_edge_types (sv_env S) (led w) i ds = {}"
                using vector_artifacts_ok(2) [OF va] ids by blast
              show "case y of (k, x) \<Rightarrow> k \<noteq> (triplet_data_type, triplet_field) \<longrightarrow>
                  x \<notin> points_of (es_vector w4) (collection_key (fst k) (snd k))"
                if "y \<in> node_points (unique_for_data (l_nodes (led w)) i ds)" for y
                using that vector_artifacts_ok(1) [OF va] found_rows by (cases y) simp
            qed
            show thesis
              by (rule rows [of w4 q]) (use w4 gone graph q r found_rows in \<open>auto simp: item_structural_def\<close>)
          qed
        qed
      qed
    qed
  qed
qed

end

text \<open>The in-memory stores and the mock storage, one of each for all datasets.\<close>

definition memory_service ::
  "(graph_error \<Rightarrow> str) \<Rightarrow> (vector_error \<Rightarrow> str) \<Rightarrow> (str \<Rightarrow> uuid) \<Rightarrow> (str \<Rightarrow> str)
   \<Rightarrow> (graph_mem, 'f brute_force, mock_files, 's) delete_service" where
  "memory_service show_graph show_vector u5 lower =
     \<lparr>sv_env = memory_env show_graph show_vector u5 lower, sv_storage = mock_storage,
      sv_graph = Some (\<lambda>_. graph_memory_db show_graph), sv_vector = Some (\<lambda>_. brute_force_db show_vector),
      sv_session_store = None, sv_records_runs = True, sv_dataset_locks = None, sv_dataset_storage = None,
      sv_hash_order = (\<lambda>ids. ids), sv_fresh = (\<lambda>k. 1000 + k), sv_parse_uuid = (\<lambda>_. None), sv_current_dir = [47]\<rparr>"

interpretation memory_service: shared_stores "memory_service show_graph show_vector u5 lower" node_ids_in points_in
proof -
  let ?S = "memory_service show_graph show_vector u5 lower"
  have "delete_env_laws (sv_env ?S) node_ids_in points_in"
    by (simp add: memory_service_def memory.delete_env_laws_axioms)
  then show "shared_stores ?S node_ids_in points_in"
    by (intro shared_stores.intro shared_stores_axioms.intro) (simp_all add: memory_service_def memory_env_def)
qed

section \<open>Stores that do not fail\<close>

text \<open>No statement fault is pending and the graph mock is not set to fail.\<close>

definition calm :: "(graph_mem, 'v, 'f, 's) estate \<Rightarrow> bool" where
  "calm w \<longleftrightarrow> db_faults (es_db w) = [] \<and> gm_delete_nodes_error (es_graph w) = None"

lemma returns_settles: "returns m \<longleftrightarrow> settles (\<lambda>db. db_faults db = []) m"
  by (simp add: returns_def settles_def)

lemma at_db_settles: "returns m \<Longrightarrow> settles calm (at_db m)"
  unfolding returns_settles at_db_def by (erule settles_within) (simp_all add: calm_def)

lemma ask_settles: "returns m \<Longrightarrow> settles calm (ask S what m)"
  unfolding ask_def runtime_def by (rule at_db_settles) (simp add: returns_settles settles_map_err)

lemma returns_transaction: "returns m \<Longrightarrow> returns (transaction m)"
proof -
  assume "returns m"
  then have "returns (and_then (exec id) (\<lambda>_. and_then m (\<lambda>x. and_then (exec id) (\<lambda>_. ok x))))"
    by (intro returns_rules)
  then show ?thesis unfolding returns_def transaction_def by fastforce
qed

lemma returns_sum_deleted: "returns (sum_deleted batches)"
  by (induction batches) (auto intro!: returns_rules)

lemma ledger_returns:
  "returns (get_nodes_by_dataset ds)" "returns (get_edges_by_dataset ds)" "returns (get_unique_nodes_for_data i ds)"
  "returns (get_unique_edges_for_data i ds)" "returns (get_structural_edges_for_data i ds)"
  "returns (count_nodes_for_data i ds)" "returns (count_edges_for_data i ds)"
  "returns (delete_nodes c)" "returns (delete_edges c')" "returns (delete_edges_by_ids ids)"
  "returns (get_edge_retrieval_texts_claimed_outside_data backend i ds candidates)"
  unfolding get_nodes_by_dataset_def get_edges_by_dataset_def get_unique_nodes_for_data_def
    get_unique_edges_for_data_def get_structural_edges_for_data_def count_nodes_for_data_def
    count_edges_for_data_def get_edge_retrieval_texts_claimed_outside_data_def Let_def delete_nodes_def delete_edges_def
    retrieval_texts_where_def delete_edges_by_ids_def
  by (auto split: option.split intro!: returns_rules returns_transaction returns_sum_deleted)

lemma memory_service_simps [simp]:
  "sv_env (memory_service sg sv u5 lower) = memory_env sg sv u5 lower"
  "sv_dataset_storage (memory_service sg sv u5 lower) = None" "sv_storage (memory_service sg sv u5 lower) = mock_storage"
  "sv_dataset_locks (memory_service sg sv u5 lower) = None" "sv_session_store (memory_service sg sv u5 lower) = None"
  by (simp_all add: memory_service_def)

lemma at_graph_settles:
  "settles (\<lambda>g. gm_delete_nodes_error g = None) m \<Longrightarrow> settles calm (at_graph m)"
  unfolding at_graph_def by (erule settles_within) (simp_all add: calm_def)

lemma at_vector_settles: "settles (\<lambda>_. True) m \<Longrightarrow> settles calm (at_vector m)"
  unfolding at_vector_def by (erule settles_within) (simp_all add: calm_def)

lemma memory_graph_settles:
  "settles calm (at_graph (delete_graph_artifacts (memory_env sg sv u5 lower) (Some (en_graph (memory_env sg sv u5 lower))) nodes))"
  by (rule at_graph_settles) (unfold settles_def, blast dest: memory_delete_graph)

lemma memory_vector_settles:
  fixes sv :: "vector_error \<Rightarrow> str"
  shows "settles calm (at_vector (delete_vector_artifacts (memory_env sg sv u5 lower :: (graph_mem, 'f brute_force) delete_env)
     (Some (en_vector (memory_env sg sv u5 lower))) nodes edges ids))"
  by (rule at_vector_settles) (unfold settles_def, use memory_delete_vector [OF refl] in blast)

lemma edge_type_ids_settles: "settles calm (edge_type_ids_to_delete S i ds es ss)"
  unfolding edge_type_ids_to_delete_def Let_def
  by (intro settles_rules ask_settles returns_on_ledger ledger_returns)

lemma cleanup_data_settles: "settles calm (cleanup_data (memory_service sg sv u5 lower) i ds)"
  unfolding cleanup_data_def cleanup_data_in_scope_def memory_service.handles item_rows_def delete_item_rows_def
    delete_edges_for_data_def delete_nodes_for_data_def memory_service_simps
  by (intro settles_rules ask_settles edge_type_ids_settles returns_on_ledger ledger_returns
      memory_graph_settles memory_vector_settles)

section \<open>A sample\<close>

text \<open>Item 2 names nodes 50 and 60 in dataset 9, item 4 names 60 too; both hang on edges, and file \<open>a\<close> is item 2's.\<close>

abbreviation sample_service :: "(graph_mem, nat brute_force, mock_files, unit) delete_service" where
  "sample_service \<equiv> memory_service (\<lambda>_. []) (\<lambda>_. []) sum_list (\<lambda>s. s)"

definition sample_dataset :: "uuid \<Rightarrow> dataset_row" where
  "sample_dataset i = \<lparr>ds_id = i, ds_name = [100], ds_owner_id = 1, ds_tenant_id = None, ds_created_at = 0\<rparr>"

definition sample_relational :: "db_error option list \<Rightarrow> relational database" where
  "sample_relational faults =
     \<lparr>db_tables =
        \<lparr>rl_ledger = \<lparr>l_nodes = [sample_node 11 50 2 None 0, sample_node 12 60 2 None 0, sample_node 13 60 4 None 0],
                     l_edges = [sample_edge 21 70 2 None 50 60 (lit ''works at'')],
                     l_data = [(sample_data 2 (Some 9) None)\<lparr>d_raw_location := [97], d_original_location := [97]\<rparr>,
                               (sample_data 4 (Some 9) None)\<lparr>d_raw_location := [98], d_original_location := [97]\<rparr>]\<rparr>,
         rl_runs = \<lparr>rt_runs = [], rt_datasets = [sample_dataset 9, sample_dataset 8], rt_payload = [], rt_tick = 0,
                    rt_ids = (\<lambda>k. 100 + k), rt_now = (\<lambda>k. 1000 + int k)\<rparr>,
         rl_queries = [], rl_results = [], rl_evidence = []\<rparr>,
      db_faults = faults\<rparr>"

definition sample_estate :: "db_error option list \<Rightarrow> (graph_mem, nat brute_force, mock_files, unit) estate" where
  "sample_estate faults =
     \<lparr>es_db = sample_relational faults, es_graph = graph_new\<lparr>gm_nodes := [(decimal 50, []), (decimal 60, [])]\<rparr>,
      es_vector = [], es_files = \<lparr>mf_data = [([97], [1]), ([98], [2])], mf_counter = 0\<rparr>, es_sessions = ()\<rparr>"

lemma sample_rows [simp]:
  "led (sample_estate faults) = rl_ledger (db_tables (sample_relational faults))"
  "l_nodes (rl_ledger (db_tables (sample_relational faults))) = [sample_node 11 50 2 None 0, sample_node 12 60 2 None 0, sample_node 13 60 4 None 0]"
  "l_edges (rl_ledger (db_tables (sample_relational faults))) = [sample_edge 21 70 2 None 50 60 (lit ''works at'')]"
  "es_graph (sample_estate faults) = graph_new\<lparr>gm_nodes := [(decimal 50, []), (decimal 60, [])]\<rparr>"
  "calm (sample_estate [])"
  by (simp_all add: sample_estate_def sample_relational_def calm_def graph_new_def)

section \<open>Properties\<close>

lemma trimmed_kept_node: "trimmed P Q w w' \<Longrightarrow> q \<in> set (l_nodes (led w)) \<Longrightarrow> \<not> P q \<Longrightarrow> q \<in> set (l_nodes (led w'))"
  unfolding trimmed_def by auto

lemma trimmed_beside: "trimmed P Q w w' \<Longrightarrow> (rel w')\<lparr>rl_ledger := led w\<rparr> = rel w \<and> l_data (led w') = l_data (led w)"
  unfolding trimmed_def by auto



text \<open>
  C10: the ledger forgets an item last: however its cleanup ends, either the relational store is as
  it was, so that a retry finds the same rows, or everything only the item named is gone from both
  stores, its edge-type points included (the legacy triplet collection aside).
\<close>

theorem item_cleanup_forgets_last:
  assumes "shared_stores S nodes_of points_of" and "cleanup_data S i ds w = (r, w')"
  shows "rel w' = rel w \<or> item_artifacts_gone (sv_env S) nodes_of points_of (led w) i ds w'"
proof (rule shared_stores.cleanup_data_stages [OF assms])
  fix wm q
  assume gone: "item_artifacts_gone (sv_env S) nodes_of points_of (led w) i ds wm"
    and rows: "delete_item_rows S i ds (item_structural (led w) i ds) wm = (q, w')"
  have "evolves (same_view beside_db) (delete_item_rows S i ds (item_structural (led w) i ds))"
    unfolding delete_item_rows_def by (intro view.rules ask_frame)
  from evolvesD [OF this rows] gone show ?thesis by (simp add: item_artifacts_gone_frame)
qed (simp_all add: everything_eq)

theorem item_cleanup_forgets_last_witness:
  "\<exists>out w'. cleanup_data sample_service 2 9 (sample_estate []) = (Inr out, w') \<and> decimal 50 \<notin> node_ids_in (es_graph w')"
proof -
  obtain out w' where c: "cleanup_data sample_service 2 9 (sample_estate []) = (Inr out, w')"
    using settlesD [OF cleanup_data_settles sample_rows(5)] by blast
  have unique: "sample_node 11 50 2 None 0 \<in> set (unique_for_data (l_nodes (led (sample_estate []))) 2 9)"
    by (auto simp: set_unique_for_data)
  have "rel w' \<noteq> rel (sample_estate [])"
  proof (rule shared_stores.cleanup_data_stages [OF memory_service.shared_stores_axioms c])
    fix wm q
    assume wm: "rel wm = rel (sample_estate [])"
      and rows: "delete_item_rows sample_service 2 9 (item_structural (led (sample_estate [])) 2 9) wm = (q, w')"
      and "\<And>e. q = Inl e \<Longrightarrow> Inr out = Inl e"
    then obtain k where "q = Inr k" by (cases q) auto
    with delete_item_rows_ok [of sample_service 2 9 _ wm k w'] rows wm
    have "l_nodes (led w') = filter (\<lambda>n. \<not> holds (of_item 2 9) n) (l_nodes (led (sample_estate [])))" by auto
    then show ?thesis by auto
  qed (use unique in auto)
  with item_cleanup_forgets_last [OF memory_service.shared_stores_axioms c]
  have none: "node_ids_in (es_graph w') \<inter> decimal ` g_slug ` set (unique_for_data (l_nodes (led (sample_estate []))) 2 9) = {}"
    by (simp add: item_artifacts_gone_def memory_env_def)
  have "decimal (g_slug (sample_node 11 50 2 None 0)) \<in> decimal ` g_slug ` set (unique_for_data (l_nodes (led (sample_estate []))) 2 9)"
    by (intro imageI unique)
  with none have "decimal 50 \<notin> node_ids_in (es_graph w')" by auto
  with c show ?thesis by blast
qed

end
