(* ===== verification/Delete_Effects.thy ===== *)
theory Delete_Effects
  imports Cleanup_Effects
begin

text \<open>
  What the phases of a delete do to the estate: the cleanup of a dataset on shared stores, which
  files and rows go, and what a delete of one dataset leaves alone.
\<close>

section \<open>The cleanup of a dataset\<close>

definition dataset_nodes :: "ledger \<Rightarrow> uuid \<Rightarrow> graph_node list" where
  "dataset_nodes L ds = order_by_created (select_where (l_nodes L) (of_dataset ds))"

definition dataset_edges :: "ledger \<Rightarrow> uuid \<Rightarrow> graph_edge list" where
  "dataset_edges L ds = order_by_created (select_where (l_edges L) (of_dataset ds))"

lemma set_dataset_rows [simp]:
  "set (dataset_nodes L ds) = {n \<in> set (l_nodes L). g_dataset_id n = ds}"
  "set (dataset_edges L ds) = {e \<in> set (l_edges L). g_dataset_id e = ds}"
  by (auto simp: dataset_nodes_def dataset_edges_def order_by_created_def)

lemma ask_ledger_query:
  assumes "ask S what (on_ledger (query f)) w = (Inr x, w')"
  shows "x = f (led w) \<and> same_view everything w w'"
proof -
  have "same_view everything w w'" by (rule evolvesD [OF ask_reads assms]) auto
  with assms show ?thesis by (auto simp: ask_Inr on_ledger_outcome dest!: query_ok)
qed

lemma delete_provenance_trims:
  "evolves (trimmed (holds (of_dataset ds)) (holds (of_dataset ds))) (delete_provenance_of_dataset S ds)"
  unfolding delete_provenance_of_dataset_def delete_edges_by_dataset_def delete_nodes_by_dataset_def
  by (intro trimming.of_and_then)
    (rule trimmed_mono [OF delete_rows_trim(2)] trimmed_mono [OF delete_rows_trim(1)], auto)+

lemma delete_provenance_frame: "evolves (same_view beside_db) (delete_provenance_of_dataset S ds)"
  unfolding delete_provenance_of_dataset_def by (intro view.of_and_then ask_frame)

lemma delete_provenance_ok:
  assumes "delete_provenance_of_dataset S ds w = (Inr x, w')"
  shows "rel w' = (rel w)\<lparr>rl_ledger := (led w)
      \<lparr>l_nodes := filter (\<lambda>n. g_dataset_id n \<noteq> ds) (l_nodes (led w)),
       l_edges := filter (\<lambda>e. g_dataset_id e \<noteq> ds) (l_edges (led w))\<rparr>\<rparr>"
proof -
  from assms obtain d1 d2 where
      1: "delete_edges_by_dataset ds \<lparr>db_tables = led w, db_faults = db_faults (es_db w)\<rparr> = (Inr (), d1)"
    and 2: "delete_nodes_by_dataset ds d1 = (Inr (), d2)"
    and w': "w' = w\<lparr>es_db := \<lparr>db_tables = (rel w)\<lparr>rl_ledger := db_tables d2\<rparr>, db_faults = db_faults d2\<rparr>\<rparr>"
    by (auto simp: delete_provenance_of_dataset_def estate_outcomes on_ledger_outcome)
  have 1: "db_tables d1 = (led w)\<lparr>l_edges := delete_where (l_edges (led w)) (of_dataset ds)\<rparr>"
    using exec_ok [OF 1 [unfolded delete_edges_by_dataset_def delete_edges_def]] by simp
  have 2: "db_tables d2 = (db_tables d1)\<lparr>l_nodes := delete_where (l_nodes (db_tables d1)) (of_dataset ds)\<rparr>"
    using exec_ok [OF 2 [unfolded delete_nodes_by_dataset_def delete_nodes_def]] .
  show ?thesis by (simp add: w' 1 2 delete_where_def)
qed

definition dataset_points :: "('g, 'v) delete_env \<Rightarrow> ledger \<Rightarrow> uuid \<Rightarrow> str \<Rightarrow> uuid set" where
  "dataset_points E L ds key = named_points E (dataset_nodes L ds) (dataset_edges L ds)
     (unchecked_edge_type_vector_ids E (dataset_edges L ds)) key"

context shared_stores
begin

lemma cleanup_dataset_shared:
  "cleanup_dataset S ds =
     and_then (ask S (lit ''Failed to get provenance nodes for dataset '' @ sv_str S ds) (on_ledger (get_nodes_by_dataset ds)))
       (\<lambda>nodes. and_then (ask S (lit ''Failed to get provenance edges for dataset '' @ sv_str S ds)
                (on_ledger (get_edges_by_dataset ds)))
         (\<lambda>edges. if nodes = [] \<and> edges = [] then ok (0, 0, 0, 0, [])
            else and_then (at_graph (delete_graph_artifacts (sv_env S) (Some (en_graph (sv_env S))) nodes))
              (\<lambda>(gn, gw). and_then (at_vector (delete_vector_artifacts (sv_env S) (Some (en_vector (sv_env S))) nodes edges
                      (unchecked_edge_type_vector_ids (sv_env S) edges)))
                (\<lambda>(vp, vw). and_then (delete_provenance_of_dataset S ds)
                  (\<lambda>_. ok (gn, vp, length nodes, length edges, gw @ vw))))))"
  unfolding cleanup_dataset_def no_dataset_storage option.case handles ..

lemma cleanup_dataset_bounds:
  assumes "cleanup_dataset S ds w = (r, w')"
  shows "cleans nodes_of points_of (slugs (dataset_nodes (led w) ds)) (dataset_points (sv_env S) (led w) ds)
    (holds (of_dataset ds)) (holds (of_dataset ds)) w w'"
proof -
  let ?E = "sv_env S" and ?L = "led w"
  have reads: "evolves (cleans nodes_of points_of A B P Q) (ask S what (on_ledger (query f)))" for A B P Q what and f :: "ledger \<Rightarrow> 'z"
    by (rule cleans_of_reads, rule ask_reads) auto
  note run = assms [unfolded cleanup_dataset_shared get_nodes_by_dataset_def get_edges_by_dataset_def]
  show ?thesis
  proof (rule cleaning.of_run [OF run reads], goal_cases)
    case (1 nodes w1)
    note q1 = ask_ledger_query [OF 1(1)]
    show ?case
    proof (rule cleaning.of_run [OF 1(2) reads], goal_cases)
      case (1 edges w2)
      note q2 = ask_ledger_query [OF 1(1)]
      have rows: "nodes = dataset_nodes ?L ds" "edges = dataset_edges ?L ds"
        using q1 q2 by (auto simp: dataset_nodes_def dataset_edges_def everything_eq)
      show ?case
      proof (cases "nodes = [] \<and> edges = []")
        case True
        with 1(2) show ?thesis by (simp add: ok_def cleans_refl)
      next
        case False
        with 1(2) have run: "and_then (at_graph (delete_graph_artifacts ?E (Some (en_graph ?E)) nodes))
              (\<lambda>(gn, gw). and_then (at_vector (delete_vector_artifacts ?E (Some (en_vector ?E)) nodes edges
                      (unchecked_edge_type_vector_ids ?E edges)))
                (\<lambda>(vp, vw). and_then (delete_provenance_of_dataset S ds)
                  (\<lambda>_. ok (gn, vp, length nodes, length edges, gw @ vw)))) w2 = (r, w')" by auto
        show ?thesis
        proof (rule cleaning.of_run [OF run], goal_cases)
          case 1
          show ?case by (intro evolvesI) (simp only: rows(1) [symmetric], rule graph_step_bounds)
        next
          case (2 g w3)
          obtain gn gw where g: "g = (gn, gw)" by fastforce
          show ?case
          proof (rule cleaning.of_run [OF 2(2) [unfolded g prod.case]], goal_cases)
            case 1
            show ?case
              by (intro evolvesI) (simp only: dataset_points_def [abs_def] rows [symmetric], rule vector_step_bounds)
          next
            case (2 v w4)
            obtain vp vw where v: "v = (vp, vw)" by fastforce
            have rows_step: "evolves (cleans nodes_of points_of A B (holds (of_dataset ds)) (holds (of_dataset ds)))
                (delete_provenance_of_dataset S ds)" for A B
              by (rule cleans_of_trims [OF delete_provenance_trims delete_provenance_frame])
            show ?case
              by (rule cleaning.of_run [OF 2(2) [unfolded v prod.case] rows_step]) (simp add: ok_def cleans_refl)
          qed
        qed
      qed
    qed
  qed
qed

text \<open>A cleanup fails with the ledger as it was or with the artifacts gone; one that returns has removed the rows.\<close>

lemma cleanup_dataset_stages:
  assumes "cleanup_dataset S ds w = (r, w')"
  obtains (failed) e where "r = Inl e" and "rel w' = rel w"
  | (nothing) "r = Inr (0, 0, 0, 0, [])" and "same_view everything w w'"
      and "dataset_nodes (led w) ds = []" and "dataset_edges (led w) ds = []"
  | (rows) wm q where "rel wm = rel w"
      and "nodes_of (es_graph wm) = nodes_of (es_graph w) - slugs (dataset_nodes (led w) ds)"
      and "\<And>k x. (k, x) \<in> node_points (dataset_nodes (led w) ds) \<Longrightarrow> k \<noteq> (triplet_data_type, triplet_field) \<Longrightarrow>
             x \<notin> points_of (es_vector wm) (collection_key (fst k) (snd k))"
      and "\<And>x. x \<in> set (unchecked_edge_type_vector_ids (sv_env S) (dataset_edges (led w) ds)) \<Longrightarrow>
             x \<notin> points_of (es_vector wm) (collection_key edge_type_data_type edge_type_field)"
      and "delete_provenance_of_dataset S ds wm = (q, w')"
      and "\<And>e. q = Inl e \<Longrightarrow> r = Inl e"
      and "q = Inr () \<Longrightarrow> \<exists>vp ws. r = Inr (card (g_slug ` set (dataset_nodes (led w) ds)), vp,
             length (dataset_nodes (led w) ds), length (dataset_edges (led w) ds), ws)"
proof -
  let ?E = "sv_env S"
  note run = assms [unfolded cleanup_dataset_shared get_nodes_by_dataset_def get_edges_by_dataset_def]
  let ?qn = "ask S (lit ''Failed to get provenance nodes for dataset '' @ sv_str S ds)
      (on_ledger (query (\<lambda>t. order_by_created (select_where (l_nodes t) (of_dataset ds)))))"
  let ?qe = "ask S (lit ''Failed to get provenance edges for dataset '' @ sv_str S ds)
      (on_ledger (query (\<lambda>t. order_by_created (select_where (l_edges t) (of_dataset ds)))))"
  have reads: "evolves (same_view everything) ?qn" "evolves (same_view everything) ?qe" by (rule ask_reads, auto)+
  obtain f1 w1 where 1: "?qn w = (f1, w1)" by fastforce
  have e1: "rel w1 = rel w" "es_graph w1 = es_graph w" "same_view everything w w1"
    using evolvesD [OF reads(1) 1] by (simp_all add: everything_eq)
  show thesis
  proof (cases f1)
    case (Inl e)
    with run 1 have "r = Inl e" "w' = w1" by (auto simp: and_then_def)
    with e1 failed show thesis by simp
  next
    case f1: (Inr ns)
    obtain f2 w2 where 2: "?qe w1 = (f2, w2)" by fastforce
    have e2: "rel w2 = rel w" "es_graph w2 = es_graph w" "same_view everything w w2"
      using evolvesD [OF reads(2) 2] e1 by (simp_all add: everything_eq)
    show thesis
    proof (cases f2)
      case (Inl e)
      with run 1 f1 2 have "r = Inl e" "w' = w2" by (auto simp: and_then_def)
      with e2 failed show thesis by simp
    next
      case f2: (Inr es)
      have found: "ns = dataset_nodes (led w) ds" "es = dataset_edges (led w) ds"
        using ask_ledger_query [OF 1 [unfolded f1]] ask_ledger_query [OF 2 [unfolded f2]] e1
        by (simp_all add: dataset_nodes_def dataset_edges_def)
      show thesis
      proof (cases "ns = [] \<and> es = []")
        case True
        with run 1 2 f1 f2 have "r = Inr (0, 0, 0, 0, [])" "w' = w2" by (auto simp: and_then_def ok_def)
        with e2 found True show thesis by - (rule nothing, simp_all)
      next
        case False
        obtain g w3 where 3: "at_graph (delete_graph_artifacts ?E (Some (en_graph ?E)) ns) w2 = (g, w3)" by fastforce
        have e3: "rel w3 = rel w" using 3 e2 by (auto simp: at_graph_outcome)
        show thesis
        proof (cases g)
          case (Inl e)
          with run 1 2 3 f1 f2 False have "r = Inl e" "w' = w3" by (auto simp: and_then_def)
          with e3 failed show thesis by simp
        next
          case g: (Inr gout)
          obtain gn gw where gout: "gout = (gn, gw)" by fastforce
          have graph: "nodes_of (es_graph w3) = nodes_of (es_graph w) - slugs ns" "gn = card (g_slug ` set ns)"
            using 3 e2 graph_artifacts_ok [of ns "es_graph w2" gout "es_graph w3"] by (auto simp: at_graph_outcome g gout)
          obtain v w4 where 4: "at_vector (delete_vector_artifacts ?E (Some (en_vector ?E)) ns es
              (unchecked_edge_type_vector_ids ?E es)) w3 = (v, w4)" by fastforce
          have e4: "rel w4 = rel w" "es_graph w4 = es_graph w3" using 4 e3 by (auto simp: at_vector_outcome)
          show thesis
          proof (cases v)
            case (Inl e)
            with run 1 2 3 4 f1 f2 g gout False have "r = Inl e" "w' = w4" by (auto simp: and_then_def)
            with e4 failed show thesis by simp
          next
            case v: (Inr vout)
            obtain vp vw where vout: "vout = (vp, vw)" by fastforce
            obtain q where q: "delete_provenance_of_dataset S ds w4 = (q, w')"
              and r: "r = (case q of Inl e \<Rightarrow> Inl e | Inr _ \<Rightarrow> Inr (gn, vp, length ns, length es, gw @ vw))"
              using run 1 2 3 4 f1 f2 g gout False v vout
              by (auto simp: and_then_def ok_def split: prod.splits sum.splits)
            have va: "delete_vector_artifacts ?E (Some (en_vector ?E)) ns es (unchecked_edge_type_vector_ids ?E es)
                (es_vector w3) = (Inr vout, es_vector w4)"
              using 4 v by (auto simp: at_vector_outcome)
            show thesis
            proof (rule rows [of w4 q])
              show "x \<notin> points_of (es_vector w4) (collection_key (fst k) (snd k))"
                if "(k, x) \<in> node_points (dataset_nodes (led w) ds)" "k \<noteq> (triplet_data_type, triplet_field)" for k x
                by (rule vector_artifacts_ok(1) [OF va]) (use that found in simp_all)
              show "x \<notin> points_of (es_vector w4) (collection_key edge_type_data_type edge_type_field)"
                if "x \<in> set (unchecked_edge_type_vector_ids ?E (dataset_edges (led w) ds))" for x
                by (rule vector_artifacts_ok(2) [OF va]) (use that found in simp)
            qed (use e4 graph q r found in auto)
          qed
        qed
      qed
    qed
  qed
qed

end

section \<open>Properties of the dataset cleanup\<close>

lemma filter_all_eq: "filter P xs = [] \<Longrightarrow> filter (\<lambda>x. \<not> P x) xs = xs"
  by (simp add: filter_empty_iff filter_id_conv)

text \<open>
  C38: the cleanup of a dataset, when it returns, has removed from the graph exactly the nodes that
  a row of the dataset names, and from the ledger exactly the dataset's rows; it reports their
  numbers; no point of its nodes' indexed fields and no edge-type point of its edges is left (the
  legacy triplet collection aside), and no point that no row of it names has gone.
\<close>

theorem dataset_cleanup_effect:
  assumes "shared_stores S nodes_of points_of" and "cleanup_dataset S ds w = (Inr (gn, vp, pn, pe, ws), w')"
  shows "rel w' = (rel w)\<lparr>rl_ledger := (led w)
        \<lparr>l_nodes := filter (\<lambda>n. g_dataset_id n \<noteq> ds) (l_nodes (led w)),
         l_edges := filter (\<lambda>e. g_dataset_id e \<noteq> ds) (l_edges (led w))\<rparr>\<rparr>
    \<and> nodes_of (es_graph w') = nodes_of (es_graph w) - en_uuid_str (sv_env S) ` g_slug ` set (dataset_nodes (led w) ds)
    \<and> gn = card (g_slug ` set (dataset_nodes (led w) ds))
    \<and> pn = length (dataset_nodes (led w) ds) \<and> pe = length (dataset_edges (led w) ds)
    \<and> (\<forall>(k, x) \<in> node_points (dataset_nodes (led w) ds). k \<noteq> (triplet_data_type, triplet_field) \<longrightarrow>
         x \<notin> points_of (es_vector w') (collection_key (fst k) (snd k)))
    \<and> set (unchecked_edge_type_vector_ids (sv_env S) (dataset_edges (led w) ds)) \<inter> points_of (es_vector w') edge_type_key = {}
    \<and> points_of (es_vector w) key - dataset_points (sv_env S) (led w) ds key \<subseteq> points_of (es_vector w') key"
proof -
  note bounds = shared_stores.cleanup_dataset_bounds [OF assms, unfolded cleans_def]
  show ?thesis
  proof (rule shared_stores.cleanup_dataset_stages [OF assms])
    assume "Inr (gn, vp, pn, pe, ws) = Inr (0, 0, 0, 0, [])" and same: "same_view everything w w'"
      and none: "dataset_nodes (led w) ds = []" "dataset_edges (led w) ds = []"
    have "\<forall>n \<in> set (l_nodes (led w)). g_dataset_id n \<noteq> ds" "\<forall>e \<in> set (l_edges (led w)). g_dataset_id e \<noteq> ds"
      using set_dataset_rows [of "led w" ds] none by auto
    then have "filter (\<lambda>n. g_dataset_id n \<noteq> ds) (l_nodes (led w)) = l_nodes (led w)"
      "filter (\<lambda>e. g_dataset_id e \<noteq> ds) (l_edges (led w)) = l_edges (led w)"
      by (simp_all add: filter_id_conv)
    moreover have "node_points [] = {}" by (simp add: node_points_def)
    ultimately show ?thesis
      using same none \<open>Inr (gn, vp, pn, pe, ws) = _\<close>
      by (simp add: everything_eq unchecked_edge_type_vector_ids_def List.map_filter_def)
  next
    fix wm q
    assume "rel wm = rel w"
      and graph: "nodes_of (es_graph wm) = nodes_of (es_graph w) - en_uuid_str (sv_env S) ` g_slug ` set (dataset_nodes (led w) ds)"
      and points: "\<And>k x. (k, x) \<in> node_points (dataset_nodes (led w) ds) \<Longrightarrow> k \<noteq> (triplet_data_type, triplet_field) \<Longrightarrow>
             x \<notin> points_of (es_vector wm) (collection_key (fst k) (snd k))"
        "\<And>x. x \<in> set (unchecked_edge_type_vector_ids (sv_env S) (dataset_edges (led w) ds)) \<Longrightarrow>
             x \<notin> points_of (es_vector wm) (collection_key edge_type_data_type edge_type_field)"
      and run: "delete_provenance_of_dataset S ds wm = (q, w')"
      and r: "\<And>e. q = Inl e \<Longrightarrow> Inr (gn, vp, pn, pe, ws) = Inl e"
        "q = Inr () \<Longrightarrow> \<exists>vp' ws'. Inr (gn, vp, pn, pe, ws) = Inr (card (g_slug ` set (dataset_nodes (led w) ds)), vp',
             length (dataset_nodes (led w) ds), length (dataset_edges (led w) ds), ws')"
    from r(1) obtain u where q: "q = Inr u" by (cases q) auto
    note rows = delete_provenance_ok [OF run [unfolded q]]
    have frame: "es_graph w' = es_graph wm" "es_vector w' = es_vector wm"
      using evolvesD [OF delete_provenance_frame run] by (simp_all add: beside_db_eq)
    have "\<forall>y \<in> node_points (dataset_nodes (led w) ds). case y of (k, x) \<Rightarrow> k \<noteq> (triplet_data_type, triplet_field) \<longrightarrow>
         x \<notin> points_of (es_vector w') (collection_key (fst k) (snd k))"
    proof
      show "case y of (k, x) \<Rightarrow> k \<noteq> (triplet_data_type, triplet_field) \<longrightarrow>
          x \<notin> points_of (es_vector w') (collection_key (fst k) (snd k))"
        if "y \<in> node_points (dataset_nodes (led w) ds)" for y
        using that points(1) by (cases y) (simp add: frame)
    qed
    moreover have "points_of (es_vector w) key - dataset_points (sv_env S) (led w) ds key \<subseteq> points_of (es_vector w') key"
      using bounds by blast
    moreover have "set (unchecked_edge_type_vector_ids (sv_env S) (dataset_edges (led w) ds)) \<inter> points_of (es_vector w') edge_type_key = {}"
      using points(2) by (auto simp: frame edge_type_key_def)
    ultimately show ?thesis
      using rows \<open>rel wm = rel w\<close> graph r(2) q by (simp add: frame)
  qed simp
qed

lemma returns_provenance_of_dataset: "settles calm (delete_provenance_of_dataset S ds)"
  unfolding delete_provenance_of_dataset_def delete_edges_by_dataset_def delete_nodes_by_dataset_def
  by (intro settles_rules ask_settles returns_on_ledger ledger_returns)

lemma cleanup_dataset_settles: "settles calm (cleanup_dataset (memory_service sg sv u5 lower) ds)"
  unfolding memory_service.cleanup_dataset_shared memory_service_simps
  by (intro settles_rules ask_settles returns_on_ledger ledger_returns returns_provenance_of_dataset
      memory_graph_settles memory_vector_settles)

theorem dataset_cleanup_effect_witness:
  "\<exists>out w'. cleanup_dataset sample_service 9 (sample_estate []) = (Inr out, w') \<and> node_ids_in (es_graph w') = {}
     \<and> fst out = 2"
proof -
  obtain gn vp pn pe ws w' where c: "cleanup_dataset sample_service 9 (sample_estate []) = (Inr (gn, vp, pn, pe, ws), w')"
    using settlesD [OF cleanup_dataset_settles sample_rows(5)] by (metis prod_cases5)
  note effect = dataset_cleanup_effect [OF memory_service.shared_stores_axioms c]
  have slugs: "g_slug ` set (dataset_nodes (led (sample_estate [])) 9) = {50, 60}"
    by (force simp: image_iff intro: exI [of _ "sample_node 11 50 2 None 0"] exI [of _ "sample_node 12 60 2 None 0"])
  have "node_ids_in (es_graph w') = {}" "gn = 2"
    using effect unfolding slugs by (simp_all add: memory_env_def node_ids_in_def)
  with c show ?thesis by fastforce
qed

text \<open>
  On a shared store the cleanup of a dataset weighs no other claim: a node that a row of another
  dataset names too leaves the graph, while that row stays in the ledger.
\<close>

lemma dataset_cleanup_takes_shared_node:
  assumes "shared_stores S nodes_of points_of" and "cleanup_dataset S ds w = (Inr out, w')"
    and "q \<in> set (l_nodes (led w))" and "g_dataset_id q \<noteq> ds" and "g_slug q \<in> g_slug ` set (dataset_nodes (led w) ds)"
  shows "q \<in> set (l_nodes (led w')) \<and> en_uuid_str (sv_env S) (g_slug q) \<notin> nodes_of (es_graph w')"
proof (rule shared_stores.cleanup_dataset_stages [OF assms(1,2)])
  fix wm and r :: "delete_error + unit"
  assume "rel wm = rel w" and "\<And>e. r = Inl e \<Longrightarrow> Inr out = Inl e"
    and graph: "nodes_of (es_graph wm) = nodes_of (es_graph w) - en_uuid_str (sv_env S) ` g_slug ` set (dataset_nodes (led w) ds)"
    and run: "delete_provenance_of_dataset S ds wm = (r, w')"
  then obtain u where "r = Inr u" by (cases r) auto
  from delete_provenance_ok [OF run [unfolded this]] \<open>rel wm = rel w\<close> assms(3,4)
  have "q \<in> set (l_nodes (led w'))" by simp
  moreover have "es_graph w' = es_graph wm"
    using evolvesD [OF delete_provenance_frame run] by (simp add: beside_db_eq)
  ultimately show ?thesis using graph assms(5) by (metis DiffD2 imageI)
qed (use assms(5) in auto)

end
