(* ===== verification/Delete_Isolation.thy ===== *)
theory Delete_Isolation
  imports Delete_Effects
begin

text \<open>
  A delete of one dataset, whatever its mode, its wiring and its outcome, leaves the rows of every
  other dataset as they are.
\<close>

section \<open>The rows of other datasets\<close>

definition edges_keyed :: "ledger \<Rightarrow> bool" where
  "edges_keyed t \<longleftrightarrow> distinct (map g_id (l_edges t))"

definition ledger_kept :: "uuid \<Rightarrow> ledger \<Rightarrow> ledger \<Rightarrow> bool" where
  "ledger_kept ds t t' \<longleftrightarrow> (data_keyed t \<longrightarrow> data_keyed t' \<and> (edges_keyed t \<longrightarrow> edges_keyed t')
     \<and> (\<forall>q \<in> set (l_data t). d_dataset_id q \<noteq> None \<and> d_dataset_id q \<noteq> Some ds \<longrightarrow> q \<in> set (l_data t'))
     \<and> (\<forall>n \<in> set (l_nodes t). g_dataset_id n \<noteq> ds \<longrightarrow> n \<in> set (l_nodes t'))
     \<and> (\<forall>e \<in> set (l_edges t). g_dataset_id e \<noteq> ds \<longrightarrow> e \<in> set (l_edges t')))"

definition rel_kept :: "uuid \<Rightarrow> relational \<Rightarrow> relational \<Rightarrow> bool" where
  "rel_kept ds t t' \<longleftrightarrow> ledger_kept ds (rl_ledger t) (rl_ledger t')
     \<and> (\<forall>d \<in> set (datasets_of t). ds_id d \<noteq> ds \<longrightarrow> d \<in> set (datasets_of t'))
     \<and> set (rt_runs (rl_runs t)) \<subseteq> set (rt_runs (rl_runs t'))
     \<and> rl_queries t' = rl_queries t \<and> rl_results t' = rl_results t"

abbreviation db_kept :: "uuid \<Rightarrow> relational database \<Rightarrow> relational database \<Rightarrow> bool" where
  "db_kept ds d d' \<equiv> rel_kept ds (db_tables d) (db_tables d')"

definition others_kept :: "uuid \<Rightarrow> ('g, 'v, 'f, 's) estate \<Rightarrow> ('g, 'v, 'f, 's) estate \<Rightarrow> bool" where
  "others_kept ds w w' \<longleftrightarrow> rel_kept ds (rel w) (rel w')"

lemma ledger_kept_refl [simp]: "ledger_kept ds t t"
  by (simp add: ledger_kept_def)

lemma ledger_kept_trans: "ledger_kept ds t t' \<Longrightarrow> ledger_kept ds t' t'' \<Longrightarrow> ledger_kept ds t t''"
  unfolding ledger_kept_def by auto

lemma rel_kept_refl [simp]: "rel_kept ds t t"
  by (simp add: rel_kept_def)

lemma rel_kept_trans: "rel_kept ds t t' \<Longrightarrow> rel_kept ds t' t'' \<Longrightarrow> rel_kept ds t t''"
  unfolding rel_kept_def by (auto intro: ledger_kept_trans)

interpretation ledger_keeping: evolution "\<lambda>d d'. ledger_kept ds (db_tables d) (db_tables d')"
  by unfold_locales (auto intro: ledger_kept_trans)

interpretation db_keeping: evolution "db_kept ds"
  by unfold_locales (auto intro: rel_kept_trans)

interpretation keeping: evolution "others_kept ds"
  by unfold_locales (auto simp: others_kept_def intro: rel_kept_trans)

lemma kept_of_reads: "evolves (same_view everything) m \<Longrightarrow> evolves (others_kept ds) m"
  by (erule evolves_mono) (simp add: everything_eq others_kept_def)

lemma kept_beside: "evolves (others_kept ds) (at_graph m)" "evolves (others_kept ds) (at_vector m')"
  "evolves (others_kept ds) (at_stores m'')"
  by (rule evolvesI, auto simp: at_graph_outcome at_vector_outcome at_stores_outcome others_kept_def)+

lemma kept_files: "evolves (others_kept ds) (within es_files (\<lambda>f w. w\<lparr>es_files := f\<rparr>) m)"
  "evolves (others_kept ds) (within es_sessions (\<lambda>s w. w\<lparr>es_sessions := s\<rparr>) m')"
  by (rule evolvesI, auto simp: within_outcome others_kept_def)+

lemma kept_at_db: "evolves (db_kept ds) m \<Longrightarrow> evolves (others_kept ds) (at_db m)"
  by (erule at_db_view) (simp add: others_kept_def)

lemma kept_ask: "evolves (db_kept ds) m \<Longrightarrow> evolves (others_kept ds) (ask S what m)"
  unfolding ask_def runtime_def by (intro kept_at_db db_keeping.of_map_err)

lemma kept_on_ledger:
  assumes "evolves (\<lambda>d d'. ledger_kept ds (db_tables d) (db_tables d')) m"
  shows "evolves (db_kept ds) (on_ledger m)"
proof (rule evolvesI)
  fix db db' :: "relational database" and r
  assume "on_ledger m db = (r, db')"
  then obtain d where "m \<lparr>db_tables = rl_ledger (db_tables db), db_faults = db_faults db\<rparr> = (r, d)"
    and "db' = \<lparr>db_tables = (db_tables db)\<lparr>rl_ledger := db_tables d\<rparr>, db_faults = db_faults d\<rparr>"
    by (auto simp: on_ledger_outcome)
  with evolvesD [OF assms this(1)] show "db_kept ds db db'" by (simp add: rel_kept_def)
qed

lemma kept_statement:
  fixes f :: "'t \<Rightarrow> 'a \<times> 't"
  assumes "\<And>t. R t (snd (f t))" and "\<And>t. R t t"
  shows "evolves (\<lambda>d d'. R (db_tables d) (db_tables d')) (statement f)"
proof (rule evolvesI)
  fix db db' :: "'t database" and r
  assume "statement f db = (r, db')"
  then have "db_tables db' = db_tables db \<or> db_tables db' = snd (f (db_tables db))"
    by (cases r) (auto dest: statement_err dest!: statement_ok)
  with assms show "R (db_tables db) (db_tables db')" by metis
qed

lemma kept_exec:
  "(\<And>t. R t (g t)) \<Longrightarrow> (\<And>t. R t t) \<Longrightarrow> evolves (\<lambda>d d'. R (db_tables d) (db_tables d')) (exec g)"
  unfolding exec_def by (rule kept_statement) simp_all

lemma kept_db_reads: "reads_only m \<Longrightarrow> evolves (db_kept ds) m"
  by (auto simp: evolves_def reads_only_def)

section \<open>The markers of a dataset's items\<close>

text \<open>Ids and memberships stay; so does every row outside the dataset.\<close>

definition statuses_only :: "uuid \<Rightarrow> ledger \<Rightarrow> ledger \<Rightarrow> bool" where
  "statuses_only ds t t' \<longleftrightarrow> map (\<lambda>q. (d_id q, d_dataset_id q)) (l_data t') = map (\<lambda>q. (d_id q, d_dataset_id q)) (l_data t)
     \<and> filter (\<lambda>q. d_dataset_id q \<noteq> Some ds) (l_data t') = filter (\<lambda>q. d_dataset_id q \<noteq> Some ds) (l_data t)
     \<and> l_nodes t' = l_nodes t \<and> l_edges t' = l_edges t"

definition items_of_dataset :: "uuid \<Rightarrow> data_row list \<Rightarrow> ledger \<Rightarrow> bool" where
  "items_of_dataset ds rs t \<longleftrightarrow> (\<forall>r \<in> set rs. \<forall>q \<in> set (l_data t). d_id q = d_id r \<longrightarrow> d_dataset_id q = Some ds)"

lemma statuses_only_trans: "statuses_only ds t t' \<Longrightarrow> statuses_only ds t' t'' \<Longrightarrow> statuses_only ds t t''"
  unfolding statuses_only_def by auto

lemma statuses_only_kept: "statuses_only ds t t' \<Longrightarrow> ledger_kept ds t t'"
proof -
  assume s: "statuses_only ds t t'"
  then have "map fst (map (\<lambda>q. (d_id q, d_dataset_id q)) (l_data t')) = map fst (map (\<lambda>q. (d_id q, d_dataset_id q)) (l_data t))"
    by (simp only: statuses_only_def)
  then have "map d_id (l_data t') = map d_id (l_data t)" by (simp add: comp_def)
  moreover have "q \<in> set (l_data t')" if "q \<in> set (l_data t)" "d_dataset_id q \<noteq> Some ds" for q
  proof -
    have "set (filter (\<lambda>q. d_dataset_id q \<noteq> Some ds) (l_data t')) = set (filter (\<lambda>q. d_dataset_id q \<noteq> Some ds) (l_data t))"
      using s by (simp only: statuses_only_def)
    then have "{q \<in> set (l_data t'). d_dataset_id q \<noteq> Some ds} = {q \<in> set (l_data t). d_dataset_id q \<noteq> Some ds}" by simp
    with that show ?thesis by blast
  qed
  ultimately show ?thesis using s by (simp add: ledger_kept_def statuses_only_def data_keyed_def edges_keyed_def)
qed

lemma items_of_dataset_statuses:
  assumes "statuses_only ds t t'" and "items_of_dataset ds rs t"
  shows "items_of_dataset ds rs t'"
proof -
  have "set (map (\<lambda>q. (d_id q, d_dataset_id q)) (l_data t')) = set (map (\<lambda>q. (d_id q, d_dataset_id q)) (l_data t))"
    using assms(1) unfolding statuses_only_def by metis
  then have "(\<lambda>q. (d_id q, d_dataset_id q)) ` set (l_data t') = (\<lambda>q. (d_id q, d_dataset_id q)) ` set (l_data t)" by simp
  then have same: "(d_id q, d_dataset_id q) \<in> (\<lambda>q. (d_id q, d_dataset_id q)) ` set (l_data t)" if "q \<in> set (l_data t')" for q
    using that by blast
  show ?thesis
    unfolding items_of_dataset_def
  proof (intro ballI impI)
    fix r q
    assume "r \<in> set rs" and q: "q \<in> set (l_data t')" and "d_id q = d_id r"
    from same [OF q] obtain p where p: "p \<in> set (l_data t)" "d_id p = d_id q" "d_dataset_id q = d_dataset_id p" by auto
    show "d_dataset_id q = Some ds"
      unfolding p(3) by (rule assms(2) [unfolded items_of_dataset_def, rule_format, OF \<open>r \<in> set rs\<close> p(1)])
        (simp only: p(2) \<open>d_id q = d_id r\<close>)
  qed
qed

lemma set_status_statuses:
  assumes "items_of_dataset ds (r # rs) t"
  shows "statuses_only ds t (set_status (d_id r) st t)"
proof -
  let ?f = "\<lambda>q. if d_id q = d_id r then q\<lparr>d_status := st\<rparr> else q"
  have "filter (\<lambda>q. d_dataset_id q \<noteq> Some ds) (map ?f (l_data t)) = map ?f (filter (\<lambda>q. d_dataset_id q \<noteq> Some ds) (l_data t))"
    by (simp add: filter_map comp_def if_distrib cong: if_cong)
  also have "\<dots> = filter (\<lambda>q. d_dataset_id q \<noteq> Some ds) (l_data t)"
    using assms by (intro map_idI) (auto simp: items_of_dataset_def)
  finally show ?thesis by (simp add: statuses_only_def set_status_def comp_def if_distrib cong: if_cong)
qed

lemma clear_one_statuses:
  assumes "clear_one sel keys r db = (x, db')" and "items_of_dataset ds (r # rs) (db_tables db)"
  shows "statuses_only ds (db_tables db) (db_tables db')"
proof -
  have "db_tables db' = db_tables db \<or> (\<exists>st. db_tables db' = set_status (d_id r) st (db_tables db))"
    using assms(1) by (auto simp: clear_one_def ok_def and_then_def split: option.splits prod.splits sum.splits dest: exec_cases)
  with set_status_statuses [OF assms(2)] show ?thesis by (auto simp: statuses_only_def)
qed

lemma clear_rows_statuses:
  "clear_rows sel keys rs db = (x, db') \<Longrightarrow> items_of_dataset ds rs (db_tables db) \<Longrightarrow> statuses_only ds (db_tables db) (db_tables db')"
proof (induction rs arbitrary: db x)
  case Nil
  then show ?case by (simp add: ok_def statuses_only_def)
next
  case (Cons r rs)
  obtain y db1 where 1: "clear_one sel keys r db = (y, db1)" by fastforce
  note s1 = clear_one_statuses [OF 1 Cons.prems(2)]
  have "items_of_dataset ds rs (db_tables db1)"
    by (rule items_of_dataset_statuses [OF s1]) (use Cons.prems(2) in \<open>simp add: items_of_dataset_def\<close>)
  with Cons.prems(1) 1 Cons.IH [of db1] s1 show ?case
    by (cases y) (auto simp: and_then_def ok_def split: prod.splits sum.splits intro: statuses_only_trans)
qed

lemma clear_dataset_kept:
  "evolves (\<lambda>d d'. ledger_kept ds (db_tables d) (db_tables d')) (clear_pipeline_status_for_dataset us uh ds)"
proof (rule evolvesI)
  fix db db' :: "ledger database" and r
  assume run: "clear_pipeline_status_for_dataset us uh ds db = (r, db')"
  obtain f db1 where q: "query (\<lambda>t. select_where (l_data t) (c_eq d_dataset_id ds)) db = (f, db1)" by fastforce
  have same: "db_tables db1 = db_tables db" using q by (cases f) (auto dest: query_ok query_err)
  show "ledger_kept ds (db_tables db) (db_tables db')"
  proof (cases "data_keyed (db_tables db)")
    case False
    then show ?thesis by (simp add: ledger_kept_def)
  next
    case True
    show ?thesis
    proof (cases f)
      case (Inl e)
      with run q same show ?thesis by (simp add: clear_pipeline_status_for_dataset_def and_then_def)
    next
      case (Inr rs)
      with q have "rs = select_where (l_data (db_tables db)) (c_eq d_dataset_id ds)" by (auto dest: query_ok)
      then have "items_of_dataset ds rs (db_tables db1)"
        using same_id_same_row [OF True] unfolding items_of_dataset_def same by fastforce
      moreover have "clear_rows (\<lambda>_. True) (pipeline_status_dataset_key_variants us uh ds) rs db1 = (r, db')"
        using run q Inr by (simp add: clear_pipeline_status_for_dataset_def and_then_def)
      ultimately show ?thesis using clear_rows_statuses statuses_only_kept same by fastforce
    qed
  qed
qed

section \<open>The steps of a delete\<close>

lemma kept_trimmed: "trimmed (holds (of_dataset ds)) (holds (of_dataset ds)) w w' \<Longrightarrow> others_kept ds w w'"
  unfolding trimmed_def others_kept_def rel_kept_def ledger_kept_def
  by (auto simp: data_keyed_def edges_keyed_def distinct_map_filter)

lemma cleanup_dataset_kept: "evolves (others_kept ds) (cleanup_dataset S ds)"
proof -
  have "evolves (others_kept ds) (delete_provenance_of_dataset S ds)"
    by (rule evolves_mono [OF delete_provenance_trims kept_trimmed])
  moreover have "evolves (others_kept ds) (ask S what (on_ledger (get_nodes_by_dataset ds)))"
    "evolves (others_kept ds) (ask S what (on_ledger (get_edges_by_dataset ds)))" for what
    by (rule kept_of_reads, rule ask_reads, auto)+
  ultimately show ?thesis
    unfolding cleanup_dataset_def by (intro keeping.rules kept_beside)
qed

lemma detach_kept: "evolves (db_kept ds) (detach_data_from_dataset ds i)"
proof -
  let ?f = "\<lambda>r. if d_id r = i \<and> d_dataset_id r = Some ds then r\<lparr>d_dataset_id := None\<rparr> else r"
  have ids: "map d_id (map ?f rows) = map d_id rows" for rows by simp
  have "q \<in> ?f ` set rows" if "q \<in> set rows" "d_dataset_id q \<noteq> Some ds" for q rows
    using that by (intro image_eqI [of q ?f q]) auto
  then have "rel_kept ds t (put_data (map ?f (data_of t)) t)" for t :: relational
    by (simp add: rel_kept_def ledger_kept_def data_keyed_def edges_keyed_def ids del: map_map)
  then show ?thesis
    unfolding detach_data_from_dataset_def update_data_where_def
    by (intro db_keeping.of_and_then db_keeping.of_ok kept_statement) simp_all
qed

lemma kept_evidence: "evolves (db_kept ds) (delete_edge_evidence i x)" "evolves (db_kept ds) (delete_edge_evidence_for_data j)"
  unfolding delete_edge_evidence_def delete_edge_evidence_for_data_def Let_def
  by (rule kept_statement, simp_all add: rel_kept_def)+

lemma delete_dataset_kept: "evolves (db_kept ds) (delete_dataset ds)"
proof -
  have "rel_kept ds t (cascade_dataset ds t)" for t
    by (auto simp: cascade_dataset_def rel_kept_def ledger_kept_def data_keyed_def edges_keyed_def delete_where_def distinct_map_filter)
  then show ?thesis
    unfolding delete_dataset_def
    by (intro db_keeping.of_and_then db_keeping.of_recover db_keeping.of_ok kept_exec kept_evidence) simp_all
qed

lemma log_kept: "evolves (db_kept ds) (log_forget S i)"
proof (rule evolvesI)
  fix db db' :: "relational database" and r
  assume "log_forget S i db = (r, db')"
  then obtain en d where log: "log_pipeline_run_entry en \<lparr>db_tables = rl_runs (db_tables db), db_faults = db_faults db\<rparr> = (r, d)"
    and db': "db' = \<lparr>db_tables = (db_tables db)\<lparr>rl_runs := db_tables d\<rparr>, db_faults = db_faults d\<rparr>"
    by (auto simp: log_forget_def log_pipeline_run_def on_runs_outcome)
  have "db_tables d = rl_runs (db_tables db) \<or> db_tables d = with_row en (rl_runs (db_tables db))"
    using log by (cases r) (auto dest: log_entry_ok log_entry_err)
  then show "db_kept ds db db'"
    by (auto simp: db' rel_kept_def with_row_def)
qed

text \<open>The files of a row: the relational store is only asked.\<close>

lemma rel_of_reads: "evolves (same_view everything) m \<Longrightarrow> evolves (same_view rel) m"
  by (erule evolves_mono) (simp add: same_view_def everything_def)

lemma remove_files_rel: "evolves (same_view rel) (remove_files S i locations)"
proof (induction S i locations rule: remove_files.induct)
  case (1 S i)
  show ?case by (simp add: view.of_ok)
next
  case (2 S i location is_original rest)
  have at_files: "evolves (same_view rel) (within es_files (\<lambda>f w. w\<lparr>es_files := f\<rparr>) m)" for m :: "('c, 'e, 'z) action"
    by (rule evolvesI) (auto simp: within_outcome same_view_def)
  have refs: "evolves (same_view rel) (ask S what (count_data_location_references location))" for what
    by (rule rel_of_reads, rule ask_reads) auto
  show ?case
    using 2 unfolding remove_files.simps
    by (intro view.rules at_files refs) (auto split: sum.split storage_error.split intro!: view.rules)
qed

lemma delete_data_kept:
  assumes "delete_data i db = (r, db')" and "\<forall>q \<in> set (data_of (db_tables db)). d_id q = i \<longrightarrow> d_dataset_id q = None"
  shows "db_kept ds db db'"
proof -
  let ?gone = "\<lambda>t. put_data (delete_where (data_of t) (c_eq (not_null d_id) i)) t"
  obtain x d where x: "exec ?gone db = (x, d)" by fastforce
  have "db_tables d = db_tables db \<or> db_tables d = ?gone (db_tables db)" using exec_cases [OF x] .
  then have first: "db_kept ds db d"
    using assms(2) by (auto simp: rel_kept_def ledger_kept_def data_keyed_def edges_keyed_def delete_where_def distinct_map_filter)
  have "evolves (db_kept ds) (and_then (recover (delete_edge_evidence_for_data i)) (\<lambda>_. ok ()))"
    by (intro db_keeping.rules kept_evidence)
  then have "db_kept ds d db' \<or> db' = d"
    using assms(1) x by (cases x) (auto simp: delete_data_def and_then_def dest: evolvesD)
  with first show ?thesis by (auto intro: rel_kept_trans)
qed

text \<open>A row goes only when no dataset holds it.\<close>

lemma unlinked_rows:
  assumes "ask S what (count_data_dataset_links i) w = (Inr 0, w')"
  shows "rel w' = rel w \<and> (\<forall>q \<in> set (data_of (rel w)). d_id q = i \<longrightarrow> d_dataset_id q = None)"
proof -
  have "rel w' = rel w" using evolvesD [OF ask_reads assms] by (simp add: everything_eq)
  moreover have none: "select_where (data_of (rel w)) (c_all [c_eq (not_null d_id) i, c_not (c_is_null d_dataset_id)]) = []"
    using assms by (auto simp: ask_Inr count_data_dataset_links_def dest!: query_ok)
  have "\<forall>q \<in> set (data_of (rel w)). \<not> holds (c_all [c_eq (not_null d_id) i, c_not (c_is_null d_dataset_id)]) q"
    using none by (simp only: select_where_def filter_empty_iff)
  ultimately show ?thesis by auto
qed

lemma remove_row_kept: "evolves (others_kept ds) (remove_row S i)"
proof (rule evolvesI)
  fix w w' :: "('a, 'b, 'c, 'd) estate" and r
  assume run: "remove_row S i w = (r, w')"
  show "others_kept ds w w'"
  proof (rule keeping.of_run [OF run [unfolded remove_row_def]], goal_cases)
    case 1
    show ?case by (rule kept_of_reads, rule ask_reads) auto
  next
    case (2 links w1)
    show ?case
    proof (cases "0 < links")
      case True
      with 2(2) show ?thesis by (simp add: ok_def others_kept_def)
    next
      case False
      with 2(1) have free: "\<forall>q \<in> set (data_of (rel w1)). d_id q = i \<longrightarrow> d_dataset_id q = None"
        using unlinked_rows by fastforce
      from False 2(2) have run: "and_then (at_db (fetch_data S i))
            (\<lambda>data. and_then (ask S (lit ''Failed to delete data '' @ sv_str S i) (delete_data i))
              (\<lambda>_. case data of
                 None \<Rightarrow> ok (1, 0, [])
               | Some d \<Rightarrow> and_then (remove_files S (d_id d) (file_locations d)) (\<lambda>(n, ws). ok (1, n, ws)))) w1 = (r, w')"
        by simp
      have fetch: "evolves (same_view everything) (at_db (fetch_data S i))"
        unfolding fetch_data_def by (intro at_db_reads reads_runtime) auto
      show ?thesis
      proof (rule keeping.of_run [OF run kept_of_reads [OF fetch]])
        fix data w2
        assume "at_db (fetch_data S i) w1 = (Inr data, w2)"
        then have same: "rel w2 = rel w1" using evolvesD [OF fetch, of w1 "Inr data" w2] by (simp add: everything_eq)
        assume run: "and_then (ask S (lit ''Failed to delete data '' @ sv_str S i) (delete_data i))
              (\<lambda>_. case data of
                 None \<Rightarrow> ok (1, 0, [])
               | Some d \<Rightarrow> and_then (remove_files S (d_id d) (file_locations d)) (\<lambda>(n, ws). ok (1, n, ws))) w2 = (r, w')"
        obtain x w3 where x: "ask S (lit ''Failed to delete data '' @ sv_str S i) (delete_data i) w2 = (x, w3)" by fastforce
        have "others_kept ds w2 w3"
          using x delete_data_kept [where i = i and ds = ds and db = "es_db w2"] free same
          by (cases x) (fastforce simp: ask_Inr others_kept_def dest!: ask_Inl)+
        moreover have "others_kept ds w3 w' \<or> w' = w3"
        proof -
          have files: "evolves (others_kept ds) (remove_files S j ls)" for j ls
            by (rule evolves_mono [OF remove_files_rel]) (simp add: same_view_def others_kept_def)
          have "evolves (others_kept ds) (case data of
                 None \<Rightarrow> ok (1, 0, [])
               | Some d \<Rightarrow> and_then (remove_files S (d_id d) (file_locations d)) (\<lambda>(n, ws). ok (1, n, ws)))"
            by (intro keeping.rules files)
          with run x show ?thesis by (cases x) (auto simp: and_then_def dest: evolvesD)
        qed
        ultimately show "others_kept ds w2 w'" by (auto intro: keeping.compose)
      qed
    qed
  qed
qed

section \<open>Resolving\<close>

lemma reads_option [intro]: "reads_only m \<Longrightarrow> (\<And>x. reads_only (k x)) \<Longrightarrow> reads_only (case v of None \<Rightarrow> m | Some x \<Rightarrow> k x)"
  by (cases v) auto

lemma lookup_reads [intro]:
  "reads_only (dataset_by_id S ds)" "reads_only (dataset_by_name_in_tenant S ow n te)" "reads_only (items_of S d)"
  "reads_only (fetch_data S i)" "reads_only (resolve_data_id_in S ds i)"
  unfolding dataset_by_id_def dataset_by_name_in_tenant_def items_of_def fetch_data_def resolve_data_id_in_def
  by (intro reads_only_and_then reads_option reads_runtime relational_reads reads_fail reads_only_ok | simp)+

lemma resolve_list_reads [intro]: "reads_only (resolve_dataset_list S datasets)"
  unfolding resolve_dataset_list_def
  by (intro reads_only_and_then reads_only_collect lookup_reads reads_only_ok)

lemma ghost_reads [intro]: "reads_only (ghost_targets S d i b)"
  unfolding ghost_targets_def by (intro reads_only_and_then reads_only_if lookup_reads reads_only_ok)

lemma links_of_item_reads [intro]: "reads_only (links_of_item S ow i te b named)"
  unfolding links_of_item_def Let_def
  by (intro reads_option reads_only_and_then reads_only_collect reads_only_if lookup_reads reads_runtime relational_reads
      reads_fail reads_only_ok)

lemma resolve_targets_reads [intro]: "reads_only (resolve_targets S scope)"
proof -
  have pair: "reads_only (case p of (x, y) \<Rightarrow> ok (g x y))" for p :: "'x \<times> 'y" and g :: "'x \<Rightarrow> 'y \<Rightarrow> 'z"
    by (cases p) auto
  show ?thesis
    unfolding resolve_targets_def resolve_data_scope_def resolve_data_in_dataset_scope_def
    by (cases scope)
      (auto intro!: reads_only_and_then lookup_reads resolve_list_reads ghost_reads links_of_item_reads pair reads_runtime
        split: option.split)
qed

lemma deletable_reads [intro]: "reads_only (compute_deletable_data_ids S targets)"
  unfolding compute_deletable_data_ids_def loses_last_link_def
  by (intro reads_only_collect reads_only_and_then reads_runtime relational_reads reads_only_ok)

lemma runtime_query_ok:
  assumes "runtime S what (query f) db = (Inr x, db')"
  shows "x = f (db_tables db) \<and> db_tables db' = db_tables db"
  using assms by (auto simp: runtime_Inr dest: query_ok)

lemma dataset_by_id_ok:
  assumes "dataset_by_id S ds db = (Inr d, db')"
  shows "d \<in> set (datasets_of (db_tables db)) \<and> ds_id d = ds \<and> db_tables db' = db_tables db"
proof -
  from assms obtain found db0 where f: "runtime S (lit ''Failed to resolve dataset '' @ sv_str S ds) (get_dataset ds) db = (Inr found, db0)"
    and "(case found of Some ds \<Rightarrow> ok ds | None \<Rightarrow> fail (Validation (lit ''Dataset '' @ sv_str S ds @ lit '' was not found''))) db0 = (Inr d, db')"
    by (auto simp: dataset_by_id_def outcomes)
  then have found: "found = Some d" and "db' = db0" by (auto simp: ok_outcome fail_outcome split: option.splits)
  with runtime_query_ok [OF f [unfolded get_dataset_def]] have "find (\<lambda>d. ds_id d = ds) (datasets_of (db_tables db)) = Some d"
    and "db_tables db' = db_tables db" by simp_all
  then show ?thesis by (auto simp: find_Some_iff)
qed

text \<open>The targets of one dataset: the dataset, its items, and their links to it.\<close>

lemma resolve_dataset_by_id_ok:
  assumes "resolve_targets S (DatasetById ds) db = (Inr targets, db')"
  obtains d rows where "d \<in> set (datasets_of (db_tables db))" and "ds_id d = ds"
    and "rows = oldest_data (select_where (data_of (db_tables db)) (c_eq d_dataset_id ds))"
    and "tg_datasets targets = [d]" and "tg_links targets = map (\<lambda>r. (ds, d_id r)) rows"
    and "tg_candidates targets = sv_hash_order S (remdups (map d_id rows))" and "db_tables db' = db_tables db"
proof -
  from assms obtain d db1 where d: "dataset_by_id S ds db = (Inr d, db1)" and l: "resolve_dataset_list S [d] db1 = (Inr targets, db')"
    by (auto simp: resolve_targets_def outcomes)
  note d = dataset_by_id_ok [OF d]
  from l obtain rows db2 where r: "items_of S d db1 = (Inr rows, db2)" and "db' = db2"
    and tg: "targets = \<lparr>tg_datasets = [d], tg_links = map (\<lambda>r. (ds_id d, d_id r)) rows,
              tg_candidates = sv_hash_order S (remdups (map d_id rows))\<rparr>"
    by (auto simp: resolve_dataset_list_def outcomes comp_def)
  from runtime_query_ok [OF r [unfolded items_of_def get_dataset_data_def]] d
  have "rows = oldest_data (select_where (data_of (db_tables db)) (c_eq d_dataset_id ds))" "db_tables db2 = db_tables db"
    by simp_all
  with d tg \<open>db' = db2\<close> that [of d rows] show thesis by simp
qed

section \<open>The phases\<close>

lemma orphan_sweeps_kept:
  "evolves (others_kept ds) (sweep_orphan_nodes S scope)" "evolves (others_kept ds) (sweep_orphan_edge_types S scope)"
  unfolding sweep_orphan_nodes_def sweep_orphan_edge_types_def Let_def
  by (intro keeping.rules kept_beside)+

lemma sweep_orphans_kept: "evolves (others_kept ds) (sweep_orphans S scopes)"
  by (induction scopes) (auto intro!: keeping.rules orphan_sweeps_kept)

lemma remove_rows_kept: "evolves (others_kept ds) (remove_rows S ids)"
  by (induction ids) (auto intro!: keeping.rules remove_row_kept)

lemma record_forget_kept: "evolves (others_kept ds) (record_forget S ids)"
  unfolding record_forget_def by (intro keeping.rules kept_at_db db_keeping.of_recover log_kept)

text \<open>What resolving \<open>DatasetById ds\<close> yields, as far as the phases need it.\<close>

definition targets_dataset :: "uuid \<Rightarrow> resolved_targets \<Rightarrow> bool" where
  "targets_dataset ds targets \<longleftrightarrow> (\<forall>d \<in> set (tg_datasets targets). ds_id d = ds) \<and> (\<forall>l \<in> set (tg_links targets). fst l = ds)"

lemma clear_ask_kept:
  assumes "targets_dataset ds targets" and "d \<in> set (tg_datasets targets)"
  shows "evolves (others_kept ds) (ask S what (on_ledger (clear_pipeline_status_for_dataset us uh (ds_id d))))"
proof -
  have "ds_id d = ds" using assms by (simp add: targets_dataset_def)
  then show ?thesis by (simp only:) (intro kept_ask kept_on_ledger clear_dataset_kept)
qed

lemma clear_statuses_kept:
  assumes "targets_dataset ds targets"
  shows "evolves (others_kept ds) (clear_statuses S False targets)"
  unfolding clear_statuses_def Let_def if_False
  by (intro keeping.of_and_then keeping.of_ok keeping.of_sum_each clear_ask_kept [OF assms])

lemma remove_artifacts_kept:
  assumes "targets_dataset ds targets"
  shows "evolves (others_kept ds) (remove_artifacts S (DatasetById i) targets)"
  unfolding remove_artifacts_def
  by (auto intro!: keeping.rules keeping.of_cleanup_each simp: targets_dataset_def)
    (use assms cleanup_dataset_kept in \<open>auto simp: targets_dataset_def\<close>)

lemma detach_links_kept:
  assumes "targets_dataset ds targets"
  shows "evolves (others_kept ds) (detach_links S (tg_links targets))"
  unfolding detach_links_def
proof (rule keeping.of_sum_each)
  fix l assume "l \<in> set (tg_links targets)"
  with assms obtain i where l: "l = (ds, i)" by (cases l) (auto simp: targets_dataset_def)
  show "evolves (others_kept ds) (case l of (dataset_id, data_id) \<Rightarrow> and_then
       (ask S (lit ''Failed to detach data '' @ sv_str S data_id @ lit '' from dataset '' @ sv_str S dataset_id)
         (detach_data_from_dataset dataset_id data_id)) (\<lambda>_. ok 1))"
    unfolding l prod.case by (intro keeping.of_and_then keeping.of_ok kept_ask detach_kept)
qed

lemma delete_datasets_kept:
  assumes "targets_dataset ds targets"
  shows "evolves (others_kept ds) (delete_datasets S (tg_datasets targets))"
  unfolding delete_datasets_def
  by (intro keeping.of_sum_each keeping.rules kept_ask) (use assms delete_dataset_kept in \<open>auto simp: targets_dataset_def\<close>)

lemma nothing_forgotten:
  "delete_history S (DatasetById i) = ok 0" "prune_sessions S (DatasetById i) = ok False"
  by (simp_all add: delete_history_def prune_sessions_def)

lemma execute_phases_kept:
  assumes "targets_dataset ds targets"
  shows "evolves (others_kept ds) (execute_phases S \<lparr>rq_scope = DatasetById i, rq_mode = mode, rq_memory_only = mem\<rparr> targets)"
  unfolding execute_phases_def Let_def delete_request.simps is_data_item.simps if_False nothing_forgotten
  by (intro keeping.rules clear_statuses_kept remove_artifacts_kept detach_links_kept delete_datasets_kept remove_rows_kept
      sweep_orphans_kept assms)

lemma sweep_evidence_kept: "evolves (others_kept ds) (sweep_evidence S scope targets)"
proof -
  have "evolves (others_kept ds) (case x of (dataset_id, data_id) \<Rightarrow>
      and_then (at_db (recover (delete_edge_evidence dataset_id data_id))) (\<lambda>_. ok ()))" for x
    by (cases x) (auto intro!: keeping.rules kept_at_db db_keeping.of_recover kept_evidence)
  then show ?thesis unfolding sweep_evidence_def by (intro keeping.of_for_each)
qed

lemma execute_memory_only_kept:
  assumes "targets_dataset ds targets"
  shows "evolves (others_kept ds) (execute_memory_only S \<lparr>rq_scope = DatasetById i, rq_mode = mode, rq_memory_only = mem\<rparr> targets)"
proof -
  have "evolves (others_kept ds) (reset_statuses S (DatasetById i) targets)"
    unfolding reset_statuses_def Let_def is_data_item.simps if_False
    by (intro keeping.of_each keeping.of_and_then keeping.of_ok clear_ask_kept [OF assms])
  then show ?thesis
    unfolding execute_memory_only_def delete_request.simps
    by (intro keeping.rules remove_artifacts_kept sweep_evidence_kept record_forget_kept assms)
qed

lemma execute_by_id_kept:
  "evolves (others_kept ds) (execute_resolved S \<lparr>rq_scope = DatasetById ds, rq_mode = mode, rq_memory_only = mem\<rparr>)"
proof (rule evolvesI)
  let ?rq = "\<lparr>rq_scope = DatasetById ds, rq_mode = mode, rq_memory_only = mem\<rparr>"
  fix w w' :: "('a, 'b, 'c, 'd) estate" and r
  assume run: "execute_resolved S ?rq w = (r, w')"
  show "others_kept ds w w'"
  proof (rule keeping.of_run [OF run [unfolded execute_resolved_def delete_request.simps]], goal_cases)
    case 1
    show ?case by (rule kept_of_reads) auto
  next
    case (2 targets w1)
    then obtain d where "resolve_targets S (DatasetById ds) (es_db w) = (Inr targets, d)" by (auto simp: at_db_outcome)
    then have targets: "targets_dataset ds targets"
      by (rule resolve_dataset_by_id_ok) (auto simp: targets_dataset_def)
    show ?case
      using 2(2) by (rule evolvesD [rotated])
        (intro keeping.rules execute_memory_only_kept execute_phases_kept record_forget_kept targets)
  qed
qed

section \<open>Properties\<close>

text \<open>
  C5: a delete of one dataset by id, soft or hard, with or without \<open>memory_only\<close>, on any stores
  and however it ends, leaves every other dataset's rows as they are: its data rows, markers
  included, its row in \<open>datasets\<close>, its ledger nodes and edges; no pipeline run and no search history
  is lost. (Data ids are the primary key of their table.)
\<close>

theorem delete_by_id_keeps_others:
  assumes "execute_resolved S \<lparr>rq_scope = DatasetById ds, rq_mode = mode, rq_memory_only = mem\<rparr> w = (r, w')"
    and "data_keyed (led w)"
  shows "(\<forall>q \<in> set (data_of (rel w)). d_dataset_id q \<noteq> None \<and> d_dataset_id q \<noteq> Some ds \<longrightarrow> q \<in> set (data_of (rel w')))
    \<and> (\<forall>d \<in> set (datasets_of (rel w)). ds_id d \<noteq> ds \<longrightarrow> d \<in> set (datasets_of (rel w')))
    \<and> (\<forall>n \<in> set (l_nodes (led w)). g_dataset_id n \<noteq> ds \<longrightarrow> n \<in> set (l_nodes (led w')))
    \<and> (\<forall>e \<in> set (l_edges (led w)). g_dataset_id e \<noteq> ds \<longrightarrow> e \<in> set (l_edges (led w')))
    \<and> set (rt_runs (rl_runs (rel w))) \<subseteq> set (rt_runs (rl_runs (rel w'))) \<and> rl_queries (rel w') = rl_queries (rel w)"
  using evolvesD [OF execute_by_id_kept assms(1)] assms(2)
  unfolding others_kept_def rel_kept_def ledger_kept_def by blast

theorem delete_by_id_keeps_others_witness:
  "\<exists>r w'. execute_resolved sample_service \<lparr>rq_scope = DatasetById 9, rq_mode = Hard, rq_memory_only = False\<rparr> (sample_estate [])
     = (r, w') \<and> sample_dataset 8 \<in> set (datasets_of (rel w'))"
proof -
  obtain r w' where x: "execute_resolved sample_service \<lparr>rq_scope = DatasetById 9, rq_mode = Hard, rq_memory_only = False\<rparr>
      (sample_estate []) = (r, w')" by fastforce
  have "data_keyed (led (sample_estate []))" by (simp add: sample_relational_def sample_estate_def data_keyed_def)
  note kept = delete_by_id_keeps_others [OF x this, THEN conjunct2, THEN conjunct1]
  have "sample_dataset 8 \<in> set (datasets_of (rel (sample_estate [])))" "ds_id (sample_dataset 8) \<noteq> 9"
    by (simp_all add: sample_estate_def sample_relational_def sample_dataset_def)
  with kept x show ?thesis by blast
qed

end
