(* ===== verification/Delete_Files.thy ===== *)
theory Delete_Files
  imports Delete_Isolation
begin

text \<open>
  Stored files under a delete: a file goes only when no data row refers to it any more, whatever
  the request and however it ends.
\<close>

section \<open>Locations\<close>

definition row_locations :: "data_row list \<Rightarrow> str set" where
  "row_locations rows = d_raw_location ` set rows \<union> d_original_location ` set rows"

abbreviation locations :: "relational \<Rightarrow> str set" where
  "locations t \<equiv> row_locations (data_of t)"

lemma row_locations_map:
  "(\<And>r. d_raw_location (f r) = d_raw_location r) \<Longrightarrow> (\<And>r. d_original_location (f r) = d_original_location r) \<Longrightarrow>
     row_locations (map f rows) = row_locations rows"
  by (simp add: row_locations_def image_image)

lemma row_locations_filter: "row_locations (filter P rows) \<subseteq> row_locations rows"
  by (auto simp: row_locations_def)

definition files_safe ::
  "('f \<Rightarrow> 'k set) \<Rightarrow> (str \<Rightarrow> 'k) \<Rightarrow> ('g, 'v, 'f, 's) estate \<Rightarrow> ('g, 'v, 'f, 's) estate \<Rightarrow> bool" where
  "files_safe files_of key w w' \<longleftrightarrow> locations (rel w') \<subseteq> locations (rel w) \<and> files_of (es_files w') \<subseteq> files_of (es_files w)
     \<and> (\<forall>k \<in> files_of (es_files w) - files_of (es_files w'). \<exists>l. key l = k \<and> l \<notin> locations (rel w'))"

lemma files_safe_refl: "files_safe files_of key w w"
  by (simp add: files_safe_def)

lemma files_safe_trans:
  assumes "files_safe files_of key w w'" and "files_safe files_of key w' w''"
  shows "files_safe files_of key w w''"
  using assms unfolding files_safe_def by blast

interpretation safe: evolution "files_safe files_of key"
  by unfold_locales (rule files_safe_refl, erule (1) files_safe_trans)

text \<open>What the steps on the relational store do to locations.\<close>

abbreviation db_shrinks :: "relational database \<Rightarrow> relational database \<Rightarrow> bool" where
  "db_shrinks d d' \<equiv> locations (db_tables d') \<subseteq> locations (db_tables d)"

abbreviation ledger_shrinks :: "ledger database \<Rightarrow> ledger database \<Rightarrow> bool" where
  "ledger_shrinks d d' \<equiv> row_locations (l_data (db_tables d')) \<subseteq> row_locations (l_data (db_tables d))"

interpretation shrinking: evolution db_shrinks
  by unfold_locales auto

interpretation ledger_shrinking: evolution ledger_shrinks
  by unfold_locales auto

lemma safe_at_db: "evolves db_shrinks m \<Longrightarrow> evolves (files_safe files_of key) (at_db m)"
  by (erule at_db_view) (simp add: files_safe_def)

lemma safe_ask: "evolves db_shrinks m \<Longrightarrow> evolves (files_safe files_of key) (ask S what m)"
  unfolding ask_def runtime_def by (intro safe_at_db shrinking.of_map_err)

lemma safe_reads: "evolves (same_view everything) m \<Longrightarrow> evolves (files_safe files_of key) m"
  by (erule evolves_mono) (simp add: everything_eq files_safe_def)

lemma shrinks_reads: "reads_only m \<Longrightarrow> evolves db_shrinks m"
  by (auto simp: evolves_def reads_only_def)

lemma safe_beside: "evolves (files_safe files_of key) (at_graph m)" "evolves (files_safe files_of key) (at_vector m')"
  "evolves (files_safe files_of key) (at_stores m'')"
  "evolves (files_safe files_of key) (within es_sessions (\<lambda>s w. w\<lparr>es_sessions := s\<rparr>) m3)"
  by (rule evolvesI, auto simp: at_graph_outcome at_vector_outcome at_stores_outcome within_outcome files_safe_def)+

lemma shrinks_on_ledger:
  assumes "evolves ledger_shrinks m"
  shows "evolves db_shrinks (on_ledger m)"
proof (rule evolvesI)
  fix db db' :: "relational database" and r
  assume "on_ledger m db = (r, db')"
  then obtain d where "m \<lparr>db_tables = rl_ledger (db_tables db), db_faults = db_faults db\<rparr> = (r, d)"
    and "db' = \<lparr>db_tables = (db_tables db)\<lparr>rl_ledger := db_tables d\<rparr>, db_faults = db_faults d\<rparr>"
    by (auto simp: on_ledger_outcome)
  with evolvesD [OF assms this(1)] show "db_shrinks db db'" by simp
qed

lemma shrinks_on_runs: "evolves db_shrinks (on_runs m)"
  by (rule evolvesI) (auto simp: on_runs_outcome)

lemma set_status_locations [simp]: "row_locations (l_data (set_status i st t)) = row_locations (l_data t)"
  by (simp add: set_status_def row_locations_map)

lemma shrinks_set_status: "evolves ledger_shrinks (exec (set_status i st))"
  by (rule kept_exec [where R = "\<lambda>t t'. row_locations (l_data t') \<subseteq> row_locations (l_data t)"]) simp_all

lemma clear_rows_shrinks: "evolves ledger_shrinks (clear_rows sel keys rs)"
  by (induction rs) (auto intro!: ledger_shrinking.rules shrinks_set_status simp: clear_one_def)

lemma query_shrinks: "evolves ledger_shrinks (query f)"
  by (rule evolves_mono [where R = "\<lambda>d d'. db_tables d' = db_tables d"])
    (auto simp: evolves_def query_def statement_def split: list.split option.split)

lemma clear_shrinks:
  "evolves ledger_shrinks (clear_pipeline_status_for_dataset us uh ds)"
  "evolves ledger_shrinks (clear_cognify_pipeline_status_for_data us uh i ds)"
  unfolding clear_pipeline_status_for_dataset_def clear_cognify_pipeline_status_for_data_def
  by (intro ledger_shrinking.rules clear_rows_shrinks shrinks_set_status query_shrinks)+

section \<open>The steps\<close>

lemma row_statement_shrinks:
  "(\<And>t. locations (snd (f t)) \<subseteq> locations t) \<Longrightarrow> evolves db_shrinks (statement f)"
  by (rule kept_statement [where R = "\<lambda>t t'. locations t' \<subseteq> locations t"]) simp_all

lemma detach_shrinks: "evolves db_shrinks (detach_data_from_dataset ds i)"
proof -
  have "row_locations (map (\<lambda>r. if P r then r\<lparr>d_dataset_id := None\<rparr> else r) rows) = row_locations rows" for P rows
    by (rule row_locations_map) simp_all
  then show ?thesis
    unfolding detach_data_from_dataset_def update_data_where_def
    by (intro shrinking.of_and_then shrinking.of_ok row_statement_shrinks) simp
qed

lemma side_shrinks:
  "evolves db_shrinks (delete_edge_evidence ds x)" "evolves db_shrinks (delete_edge_evidence_for_data i)"
  "evolves db_shrinks (delete_pipeline_runs_by_dataset ds)" "evolves db_shrinks delete_all_queries"
  unfolding delete_edge_evidence_def delete_edge_evidence_for_data_def delete_pipeline_runs_by_dataset_def
    delete_all_queries_def delete_queries_def Let_def
  by (rule row_statement_shrinks, simp)+

lemma delete_dataset_shrinks: "evolves db_shrinks (delete_dataset ds)"
  unfolding delete_dataset_def
  by (intro shrinking.of_and_then shrinking.of_ok shrinking.of_recover side_shrinks
      kept_exec [where R = "\<lambda>t t'. locations t' \<subseteq> locations t"]) (simp_all add: cascade_dataset_def)

lemma delete_data_shrinks: "evolves db_shrinks (delete_data i)"
  unfolding delete_data_def
  by (intro shrinking.of_and_then shrinking.of_ok shrinking.of_recover side_shrinks
      kept_exec [where R = "\<lambda>t t'. locations t' \<subseteq> locations t"]) (simp_all add: delete_where_def row_locations_filter)

lemma ledger_rows_shrink:
  "evolves ledger_shrinks (delete_nodes c)" "evolves ledger_shrinks (delete_edges c')"
  "evolves ledger_shrinks (delete_edges_by_ids ids)"
  by (rule evolvesI, drule delete_rows_cases, auto)+

lemma log_forget_shrinks: "evolves db_shrinks (log_forget S i)"
proof -
  have "log_forget S i db = on_runs (log_pipeline_run (sv_fresh S (rt_tick (rl_runs (db_tables db))))
       (en_u5 (sv_env S) forget_pipeline_name) forget_pipeline_name i Completed None) db" for db
    by (simp add: log_forget_def)
  then show ?thesis using shrinks_on_runs unfolding evolves_def by metis
qed

lemmas shrinking_steps = detach_shrinks side_shrinks delete_dataset_shrinks delete_data_shrinks log_forget_shrinks
  shrinks_on_ledger ledger_rows_shrink clear_shrinks

section \<open>The phases\<close>

lemma ask_reads_safe: "reads_only m \<Longrightarrow> evolves (files_safe files_of key) (ask S what m)"
  by (rule safe_reads) auto

lemma delete_provenance_safe: "evolves (files_safe files_of key) (delete_provenance_of_dataset S ds)"
  unfolding delete_provenance_of_dataset_def delete_edges_by_dataset_def delete_nodes_by_dataset_def
  by (intro safe.rules safe_ask shrinking_steps)

lemma cleanup_dataset_safe: "evolves (files_safe files_of key) (cleanup_dataset S ds)"
  unfolding cleanup_dataset_def
  by (intro safe.rules ask_reads_safe safe_beside delete_provenance_safe reads_on_ledger ledger_reads)

lemma cleanup_data_safe: "evolves (files_safe files_of key) (cleanup_data S i ds)"
  unfolding cleanup_data_def cleanup_data_in_scope_def delete_item_rows_def delete_edges_for_data_def delete_nodes_for_data_def
  by (intro safe.rules safe_reads [OF item_rows_reads] safe_reads [OF edge_type_ids_reads] safe_beside safe_ask shrinking_steps)

lemma cleanup_all_safe: "evolves (files_safe files_of key) (cleanup_all S)"
proof -
  have "evolves (files_safe files_of key) (ledger_vector_collections S)"
    unfolding ledger_vector_collections_def
    by (intro safe.rules ask_reads_safe relational_reads reads_on_ledger ledger_reads)
  then show ?thesis unfolding cleanup_all_def by (intro safe.rules safe_beside)
qed

lemma count_datasets_reads: "evolves (files_safe files_of key) (count_datasets S datasets counts edges)"
proof (induction datasets arbitrary: counts edges)
  case (Cons d datasets)
  obtain a b c e where "counts = (a, b, c, e)" by (cases counts)
  then show ?case
    by (simp only: count_datasets.simps)
      (intro safe.rules safe.of_pair_app ask_reads_safe reads_on_ledger ledger_reads safe_beside Cons.IH)
qed (simp add: safe.of_ok)

lemma count_artifacts_safe: "evolves (files_safe files_of key) (count_graph_vector_artifacts S targets)"
  unfolding count_graph_vector_artifacts_def by (intro safe.rules safe.of_pair_app count_datasets_reads safe_beside)

lemma remove_artifacts_safe: "evolves (files_safe files_of key) (remove_artifacts S scope targets)"
  unfolding remove_artifacts_def
  by (intro safe.rules safe.of_cleanup_each count_artifacts_safe cleanup_all_safe cleanup_dataset_safe cleanup_data_safe
      safe_at_db shrinks_reads deletable_reads)

lemma clear_statuses_safe: "evolves (files_safe files_of key) (clear_statuses S b targets)"
  unfolding clear_statuses_def Let_def
  by (intro safe.rules safe.of_sum_each safe_ask shrinking_steps)

lemma detach_links_safe: "evolves (files_safe files_of key) (detach_links S links)"
  unfolding detach_links_def by (intro safe.of_sum_each safe.rules safe_ask shrinking_steps)

lemma invalidate_runs_safe: "evolves (files_safe files_of key) (invalidate_runs S links)"
  unfolding invalidate_runs_def by (intro safe.of_sum_each safe.rules safe_ask shrinking_steps)

lemma delete_datasets_safe: "evolves (files_safe files_of key) (delete_datasets S datasets)"
  unfolding delete_datasets_def by (intro safe.of_sum_each safe.rules safe_ask shrinking_steps)

lemma orphan_sweeps_safe: "evolves (files_safe files_of key) (sweep_orphans S scopes)"
proof (induction scopes)
  case (Cons scope scopes)
  have "evolves (files_safe files_of key) (sweep_orphan_nodes S scope)" "evolves (files_safe files_of key) (sweep_orphan_edge_types S scope)"
    unfolding sweep_orphan_nodes_def sweep_orphan_edge_types_def Let_def by (intro safe.rules safe_beside)+
  with Cons show ?case by (simp only: sweep_orphans.simps) (intro safe.rules)
qed (simp add: safe.of_ok)

lemma record_forget_safe: "evolves (files_safe files_of key) (record_forget S ids)"
  unfolding record_forget_def by (intro safe.rules safe_at_db shrinking.of_recover shrinking_steps)

lemma history_safe: "evolves (files_safe files_of key) (delete_history S scope)"
  unfolding delete_history_def by (intro safe.rules safe_ask shrinking_steps)

lemma prune_safe: "evolves (files_safe files_of key) (prune_sessions S scope)"
  unfolding prune_sessions_def by (cases scope) (auto intro!: safe.rules safe_beside split: option.split)

lemma memory_only_safe: "evolves (files_safe files_of key) (execute_memory_only S request targets)"
  unfolding execute_memory_only_def sweep_evidence_def reset_statuses_def Let_def
  by (intro safe.rules remove_artifacts_safe record_forget_safe safe_at_db safe_ask shrinking.of_recover shrinking_steps)

section \<open>The files\<close>

text \<open>Counting references reads; zero means that no row names the location.\<close>

lemma unreferenced:
  assumes "ask S what (count_data_location_references l) w = (Inr 0, w')"
  shows "rel w' = rel w \<and> l \<notin> locations (rel w)"
proof -
  have "rel w' = rel w" using evolvesD [OF ask_reads assms] by (simp add: everything_eq)
  moreover have "select_where (data_of (rel w)) (c_any [c_eq (not_null d_raw_location) l, c_eq (not_null d_original_location) l]) = []"
    using assms by (auto simp: ask_Inr count_data_location_references_def dest!: query_ok)
  then have "\<forall>q \<in> set (data_of (rel w)). \<not> holds (c_any [c_eq (not_null d_raw_location) l, c_eq (not_null d_original_location) l]) q"
    by (simp only: select_where_def filter_empty_iff)
  ultimately show ?thesis by (auto simp: row_locations_def)
qed

lemma file_step_safe:
  assumes "file_store (sv_storage S) files_of key"
    and "within es_files (\<lambda>f w. w\<lparr>es_files := f\<rparr>) (recover (st_delete (sv_storage S) l)) w = (r, w')"
    and "l \<notin> locations (rel w)"
  shows "files_safe files_of key w w'"
proof -
  from assms(2) obtain x f where "st_delete (sv_storage S) l (es_files w) = (x, f)" and w': "w' = w\<lparr>es_files := f\<rparr>"
    by (cases r) (auto simp: within_outcome recover_Inr recover_Inl)
  from file_store.delete_bounds [OF assms(1) this(1)] assms(3) show ?thesis
    by (auto simp: files_safe_def w')
qed

lemma remove_files_safe:
  assumes F: "file_store (sv_storage S) files_of key"
  shows "evolves (files_safe files_of key) (remove_files S i ls)"
proof (induction ls)
  case Nil
  show ?case by (simp add: safe.of_ok)
next
  case (Cons x rest)
  obtain l original where x: "x = (l, original)" by fastforce
  show ?case
  proof (cases "original \<and> \<not> is_storage_managed (sv_current_dir S) (st_base_path (sv_storage S)) l")
    case True
    with Cons show ?thesis by (simp add: x)
  next
    case False
    let ?refs = "ask S (lit ''Failed to count references to the file of data '' @ sv_str S i) (count_data_location_references l)"
    let ?rm = "within es_files (\<lambda>f w. w\<lparr>es_files := f\<rparr>) (recover (st_delete (sv_storage S) l))"
    define after where "after = (\<lambda>deleted :: storage_error + unit. case deleted of
                Inr _ \<Rightarrow> and_then (remove_files S i rest) (\<lambda>(n, ws). ok (n + 1, ws))
              | Inl (FileNotFound _) \<Rightarrow> and_then (remove_files S i rest)
                  (\<lambda>(n, ws). ok (n, (lit ''Storage file already missing for data '' @ sv_str S i @ lit '' at ''
                     @ [39] @ l @ [39]) # ws))
              | Inl e \<Rightarrow> fail (Runtime (lit ''Failed to delete storage for data '' @ sv_str S i @ lit '': ''
                     @ show_storage_error e)))"
    have after: "evolves (files_safe files_of key) (after deleted)" for deleted
      unfolding after_def by (auto split: sum.split storage_error.split intro!: safe.rules Cons)
    have refs: "evolves (files_safe files_of key) ?refs" by (intro ask_reads_safe relational_reads)
    have step: "remove_files S i (x # rest) =
        and_then ?refs (\<lambda>references. if 0 < references then remove_files S i rest else and_then ?rm after)"
      unfolding x remove_files.simps if_not_P [OF False] after_def ..
    show ?thesis
      unfolding step
    proof (rule evolvesI)
      fix w w' and r
      assume run: "and_then ?refs (\<lambda>references. if 0 < references then remove_files S i rest else and_then ?rm after) w = (r, w')"
      show "files_safe files_of key w w'"
      proof (rule safe.of_run [OF run refs])
        fix references w1
        assume counted: "?refs w = (Inr references, w1)"
          and run: "(if 0 < references then remove_files S i rest else and_then ?rm after) w1 = (r, w')"
        show "files_safe files_of key w1 w'"
        proof (cases "0 < references")
          case True
          with run Cons show ?thesis by (auto dest: evolvesD)
        next
          case False
          with counted have free: "l \<notin> locations (rel w1)" using unreferenced by fastforce
          obtain deleted :: "delete_error + storage_error + unit" and w2 where d: "?rm w1 = (deleted, w2)" by fastforce
          have "files_safe files_of key w1 w2" by (rule file_step_safe [OF F d free])
          moreover have "files_safe files_of key w2 w' \<or> w' = w2"
            using run False d after by (cases deleted) (auto simp: and_then_def dest: evolvesD)
          ultimately show ?thesis by (auto intro: files_safe_trans)
        qed
      qed
    qed
  qed
qed

lemma remove_rows_safe:
  assumes F: "file_store (sv_storage S) files_of key"
  shows "evolves (files_safe files_of key) (remove_rows S ids)"
proof (induction ids)
  case (Cons i ids)
  have "evolves (files_safe files_of key) (remove_row S i)"
    unfolding remove_row_def
    by (intro safe.rules ask_reads_safe relational_reads safe_at_db shrinks_reads lookup_reads safe_ask shrinking_steps
        remove_files_safe [OF F])
  with Cons show ?case by (simp only: remove_rows.simps) (intro safe.rules)
qed (simp add: safe.of_ok)

lemma execute_safe:
  assumes F: "file_store (sv_storage S) files_of key"
  shows "evolves (files_safe files_of key) (execute_resolved S request)"
proof -
  have "evolves (files_safe files_of key) (execute_phases S request targets)" for targets
    unfolding execute_phases_def Let_def
    by (intro safe.rules clear_statuses_safe remove_artifacts_safe detach_links_safe invalidate_runs_safe
        delete_datasets_safe remove_rows_safe [OF F] orphan_sweeps_safe history_safe prune_safe)
  then show ?thesis
    unfolding execute_resolved_def
    by (intro safe.rules safe_at_db shrinks_reads resolve_targets_reads memory_only_safe record_forget_safe)
qed

section \<open>Properties\<close>

text \<open>
  C6: a delete, whatever it asks for and however it ends, removes a stored file only when no data
  row refers to it any more: some location of the file is neither the raw nor the original location
  of a row that is left. It adds no file and changes no location of a row.
\<close>

theorem delete_keeps_referenced_files:
  assumes "file_store (sv_storage S) files_of key" and "execute_resolved S request w = (r, w')"
    and "k \<in> files_of (es_files w)"
  shows "(k \<in> files_of (es_files w')
      \<or> (\<exists>l. key l = k \<and> (\<forall>q \<in> set (data_of (rel w')). d_raw_location q \<noteq> l \<and> d_original_location q \<noteq> l)))
    \<and> files_of (es_files w') \<subseteq> files_of (es_files w)"
  using evolvesD [OF execute_safe [OF assms(1)] assms(2)] assms(3)
  unfolding files_safe_def row_locations_def by blast

text \<open>The raw location of a row is not held against the storage root: its file goes wherever it lies.\<close>

lemma raw_location_is_not_checked:
  assumes "\<not> is_storage_managed (sv_current_dir S) (st_base_path (sv_storage S)) l"
    and "db_faults (es_db w) = []" and "l \<notin> locations (rel w)"
    and "st_delete (sv_storage S) l (es_files w) = (Inr (), f)"
  shows "remove_files S i [(l, False)] w = (Inr (1, []), w\<lparr>es_files := f\<rparr>)"
    and "remove_files S i [(l, True)] w = (Inr (0, []), w)"
proof -
  have "select_where (data_of (rel w)) (c_any [c_eq (not_null d_raw_location) l, c_eq (not_null d_original_location) l]) = []"
    using assms(3) by (auto simp: select_where_def filter_empty_iff row_locations_def)
  then have "count_data_location_references l (es_db w) = (Inr 0, es_db w)"
    by (simp add: count_data_location_references_def query_no_faults [OF assms(2)])
  then have "ask S what (count_data_location_references l) w = (Inr 0, w)" for what
    by (simp add: ask_def at_db_def within_def runtime_def map_err_def)
  with assms(4) show "remove_files S i [(l, False)] w = (Inr (1, []), w\<lparr>es_files := f\<rparr>)"
    by (simp add: and_then_def within_def recover_def ok_def)
  show "remove_files S i [(l, True)] w = (Inr (0, []), w)"
    using assms(1) by (simp add: ok_def)
qed

theorem delete_keeps_referenced_files_witness:
  "\<exists>r w'. execute_resolved sample_service \<lparr>rq_scope = DataInDataset 9 2 False, rq_mode = Soft, rq_memory_only = False\<rparr>
     (sample_estate []) = (r, w') \<and> ([97] \<in> mock_keys (es_files w') \<or> (\<forall>q \<in> set (data_of (rel w')). d_original_location q \<noteq> [97]))"
proof -
  obtain r w' where x: "execute_resolved sample_service \<lparr>rq_scope = DataInDataset 9 2 False, rq_mode = Soft, rq_memory_only = False\<rparr>
      (sample_estate []) = (r, w')" by fastforce
  have "file_store (sv_storage sample_service) mock_keys (\<lambda>l. l)" by (simp add: mock.file_store_axioms)
  moreover have "[97] \<in> mock_keys (es_files (sample_estate []))" by (simp add: sample_estate_def mock_keys_def)
  ultimately have "[97] \<in> mock_keys (es_files w') \<or> (\<forall>q \<in> set (data_of (rel w')). d_original_location q \<noteq> [97])"
    using delete_keeps_referenced_files [OF _ x, of mock_keys "\<lambda>l. l" "[97]"] by auto
  with x show ?thesis by blast
qed

end
