(* ===== verification/Access.thy ===== *)
theory Access
  imports Relational "HOL-Library.AList"
begin

text \<open>
  Who may do what to a dataset: the calls of the trait \<open>AclDb\<close> (\<open>crates/database/src/traits/acl_db.rs\<close>),
  the helpers of \<open>crates/database/src/ops/acl.rs\<close>, and the in-memory implementation
  \<open>crates/test-utils/src/mock_acl_db.rs\<close> that provides the contract \<open>acl_contract\<close>.
\<close>

section \<open>The interface\<close>

text \<open>\<open>acl_has_in_tenant user dataset permission tenant\<close>; \<open>None\<close> admits only datasets without a tenant.\<close>

record 'k acl_db =
  acl_has :: "uuid \<Rightarrow> uuid \<Rightarrow> str \<Rightarrow> ('k, db_error, bool) action"
  acl_ids :: "uuid \<Rightarrow> str \<Rightarrow> ('k, db_error, uuid list) action"
  acl_grant :: "uuid \<Rightarrow> uuid \<Rightarrow> str \<Rightarrow> ('k, db_error, unit) action"
  acl_revoke :: "uuid \<Rightarrow> uuid \<Rightarrow> str \<Rightarrow> ('k, db_error, unit) action"
  acl_ensure_principal :: "uuid \<Rightarrow> str \<Rightarrow> ('k, db_error, unit) action"
  acl_ids_with_roles :: "uuid \<Rightarrow> str \<Rightarrow> ('k, db_error, uuid list) action"
  acl_ids_in_tenant :: "uuid \<Rightarrow> str \<Rightarrow> uuid option \<Rightarrow> ('k, db_error, uuid list) action"
  acl_has_in_tenant :: "uuid \<Rightarrow> uuid \<Rightarrow> str \<Rightarrow> uuid option \<Rightarrow> ('k, db_error, bool) action"

text \<open>The trait's default body of \<open>has_permission_in_tenant\<close>.\<close>

definition has_permission_in_tenant ::
  "(uuid \<Rightarrow> str \<Rightarrow> uuid option \<Rightarrow> ('k, db_error, uuid list) action)
   \<Rightarrow> uuid \<Rightarrow> uuid \<Rightarrow> str \<Rightarrow> uuid option \<Rightarrow> ('k, db_error, bool) action" where
  "has_permission_in_tenant ids_of user_id dataset_id permission_name tenant_id =
     and_then (ids_of user_id permission_name tenant_id) (\<lambda>ids. ok (dataset_id \<in> set ids))"

text \<open>
  The documented contract of the two calls that authorize: the listing is exactly what the user
  holds in the tenant, the point check says whether the dataset is in it, and neither changes
  any grant.
\<close>

locale acl_contract =
  fixes A :: "'k acl_db" and held :: "'k \<Rightarrow> uuid \<Rightarrow> str \<Rightarrow> uuid option \<Rightarrow> uuid set"
  assumes ids_in_tenant: "acl_ids_in_tenant A u p t k = (Inr ids, k') \<Longrightarrow> set ids = held k u p t \<and> distinct ids"
    and ids_in_tenant_reads: "acl_ids_in_tenant A u p t k = (r, k') \<Longrightarrow> held k' = held k"
    and has_in_tenant: "acl_has_in_tenant A u ds p t k = (Inr b, k') \<Longrightarrow> b = (ds \<in> held k u p t)"
    and has_in_tenant_reads: "acl_has_in_tenant A u ds p t k = (s, k') \<Longrightarrow> held k' = held k"

section \<open>Helpers\<close>

definition permission_names :: "str list" where
  "permission_names = [lit ''read'', lit ''write'', lit ''delete'', lit ''share'']"

definition grant_all_permissions_on_dataset :: "'k acl_db \<Rightarrow> uuid \<Rightarrow> uuid \<Rightarrow> ('k, db_error, unit) action" where
  "grant_all_permissions_on_dataset A principal_id dataset_id =
     and_then (acl_ensure_principal A principal_id (lit ''user''))
       (\<lambda>_. for_each (acl_grant A principal_id dataset_id) permission_names)"

text \<open>The access store and the database are two components of one state.\<close>

abbreviation on_acl :: "('k, 'e, 'a) action \<Rightarrow> ('k \<times> 'w, 'e, 'a) action" where
  "on_acl \<equiv> within fst (\<lambda>k w. (k, snd w))"

abbreviation beside_acl :: "('w, 'e, 'a) action \<Rightarrow> ('k \<times> 'w, 'e, 'a) action" where
  "beside_acl \<equiv> within snd (\<lambda>w s. (fst s, w))"

definition authorized_datasets_in_tenant ::
  "'k acl_db \<Rightarrow> uuid \<Rightarrow> str \<Rightarrow> uuid option \<Rightarrow> ('k \<times> relational database, db_error, dataset_row list) action" where
  "authorized_datasets_in_tenant A user_id permission_name tenant_id =
     and_then (on_acl (acl_ids_in_tenant A user_id permission_name tenant_id))
       (\<lambda>ids. if ids = [] then ok []
          else and_then (beside_acl (get_datasets_by_ids ids))
                 (\<lambda>found. ok (filter (\<lambda>ds. ds_tenant_id ds = tenant_id) found)))"

section \<open>The in-memory store\<close>

text \<open>
  A hash set is a list without duplicates, iterated in some order; a hash map is an association
  list. The gate that parks a test's first grant is not modelled.
\<close>

record mock_acl =
  ma_grants :: "(uuid \<times> uuid \<times> str) list"
  ma_principals :: "(uuid \<times> str) list"
  ma_tenants :: "(uuid \<times> uuid) list"
  ma_roles :: "(uuid \<times> uuid) list"
  ma_dataset_tenants :: "(uuid \<times> uuid) list"
  ma_grant_failure :: "str option"
  ma_grant_failure_only :: "str option"
  ma_revokes_fail :: bool

definition mock_acl_new :: mock_acl where
  "mock_acl_new = \<lparr>ma_grants = [], ma_principals = [], ma_tenants = [], ma_roles = [], ma_dataset_tenants = [],
     ma_grant_failure = None, ma_grant_failure_only = None, ma_revokes_fail = False\<rparr>"

text \<open>\<open>ma_tenants\<close> and \<open>ma_roles\<close> hold the pairs of a user and one tenant or role of it.\<close>

definition add_user_to_tenant :: "uuid \<Rightarrow> uuid \<Rightarrow> mock_acl \<Rightarrow> mock_acl" where
  "add_user_to_tenant user_id tenant_id m =
     m\<lparr>ma_principals := List.insert (tenant_id, lit ''tenant'') (ma_principals m),
       ma_tenants := List.insert (user_id, tenant_id) (ma_tenants m)\<rparr>"

definition add_user_to_role :: "uuid \<Rightarrow> uuid \<Rightarrow> mock_acl \<Rightarrow> mock_acl" where
  "add_user_to_role user_id role_id m =
     m\<lparr>ma_principals := List.insert (role_id, lit ''role'') (ma_principals m),
       ma_roles := List.insert (user_id, role_id) (ma_roles m)\<rparr>"

definition set_dataset_tenant :: "uuid \<Rightarrow> uuid \<Rightarrow> mock_acl \<Rightarrow> mock_acl" where
  "set_dataset_tenant dataset_id tenant_id m =
     m\<lparr>ma_dataset_tenants := AList.update dataset_id tenant_id (ma_dataset_tenants m)\<rparr>"

definition cascade_delete_dataset :: "uuid \<Rightarrow> mock_acl \<Rightarrow> mock_acl" where
  "cascade_delete_dataset dataset_id m = m\<lparr>ma_grants := filter (\<lambda>(_, ds, _). ds \<noteq> dataset_id) (ma_grants m)\<rparr>"

definition memberships :: "(uuid \<times> uuid) list \<Rightarrow> uuid \<Rightarrow> uuid list" where
  "memberships pairs user_id = map snd (filter (\<lambda>(u, _). u = user_id) pairs)"

definition inherited_principals :: "mock_acl \<Rightarrow> uuid \<Rightarrow> uuid list" where
  "inherited_principals m user_id =
     (let tenants = memberships (ma_tenants m) user_id in
      user_id # tenants @ (if tenants = [] then [] else memberships (ma_roles m) user_id))"

definition mock_has_permission :: "uuid \<Rightarrow> uuid \<Rightarrow> str \<Rightarrow> (mock_acl, db_error, bool) action" where
  "mock_has_permission principal_id dataset_id permission_name m =
     (Inr ((principal_id, dataset_id, permission_name) \<in> set (ma_grants m)), m)"

definition mock_authorized_ids :: "uuid \<Rightarrow> str \<Rightarrow> (mock_acl, db_error, uuid list) action" where
  "mock_authorized_ids principal_id permission_name m =
     (Inr (map (\<lambda>(_, ds, _). ds) (filter (\<lambda>(p, _, name). p = principal_id \<and> name = permission_name) (ma_grants m))), m)"

definition mock_grant :: "uuid \<Rightarrow> uuid \<Rightarrow> str \<Rightarrow> (mock_acl, db_error, unit) action" where
  "mock_grant principal_id dataset_id permission_name m =
     (case ma_grant_failure m of
        Some reason \<Rightarrow> (Inl (QueryError reason), m)
      | None \<Rightarrow>
          if ma_grant_failure_only m = Some permission_name
          then (Inl (QueryError (lit ''simulated failure granting '' @ [39] @ permission_name @ [39])), m)
          else (Inr (), m\<lparr>ma_grants := List.insert (principal_id, dataset_id, permission_name) (ma_grants m)\<rparr>))"

definition mock_revoke :: "uuid \<Rightarrow> uuid \<Rightarrow> str \<Rightarrow> (mock_acl, db_error, unit) action" where
  "mock_revoke principal_id dataset_id permission_name m =
     (if ma_revokes_fail m
      then (Inl (QueryError (lit ''simulated failure revoking '' @ [39] @ permission_name @ [39])), m)
      else (Inr (), m\<lparr>ma_grants := removeAll (principal_id, dataset_id, permission_name) (ma_grants m)\<rparr>))"

definition mock_ensure_principal :: "uuid \<Rightarrow> str \<Rightarrow> (mock_acl, db_error, unit) action" where
  "mock_ensure_principal principal_id principal_type m =
     (Inr (), m\<lparr>ma_principals := List.insert (principal_id, principal_type) (ma_principals m)\<rparr>)"

text \<open>The ids in the order the grants are iterated, each at its first occurrence.\<close>

definition mock_ids_with_roles :: "uuid \<Rightarrow> str \<Rightarrow> (mock_acl, db_error, uuid list) action" where
  "mock_ids_with_roles user_id permission_name m =
     (let principals = inherited_principals m user_id in
      (Inr (rev (remdups (rev (map (\<lambda>(_, ds, _). ds)
         (filter (\<lambda>(p, _, name). p \<in> set principals \<and> name = permission_name) (ma_grants m)))))), m))"

definition mock_ids_in_tenant :: "uuid \<Rightarrow> str \<Rightarrow> uuid option \<Rightarrow> (mock_acl, db_error, uuid list) action" where
  "mock_ids_in_tenant user_id permission_name tenant_id =
     and_then (mock_ids_with_roles user_id permission_name)
       (\<lambda>ids m. (Inr (filter (\<lambda>i. map_of (ma_dataset_tenants m) i = tenant_id) ids), m))"

definition mock_acl_db :: "mock_acl acl_db" where
  "mock_acl_db = \<lparr>acl_has = mock_has_permission, acl_ids = mock_authorized_ids, acl_grant = mock_grant,
     acl_revoke = mock_revoke, acl_ensure_principal = mock_ensure_principal, acl_ids_with_roles = mock_ids_with_roles,
     acl_ids_in_tenant = mock_ids_in_tenant, acl_has_in_tenant = has_permission_in_tenant mock_ids_in_tenant\<rparr>"

section \<open>What the in-memory store promises\<close>

text \<open>The datasets of the tenant that the user, a tenant of it or a role of it was granted.\<close>

definition mock_held :: "mock_acl \<Rightarrow> uuid \<Rightarrow> str \<Rightarrow> uuid option \<Rightarrow> uuid set" where
  "mock_held m u p t = {ds. map_of (ma_dataset_tenants m) ds = t
     \<and> (\<exists>pr \<in> set (inherited_principals m u). (pr, ds, p) \<in> set (ma_grants m))}"

lemma mock_ids_outcome:
  "mock_ids_in_tenant u p t m = (r, m') \<Longrightarrow> m' = m \<and> (\<exists>ids. r = Inr ids \<and> set ids = mock_held m u p t \<and> distinct ids)"
  by (auto simp: mock_ids_in_tenant_def mock_ids_with_roles_def and_then_def mock_held_def Let_def image_iff)

interpretation mock_acl: acl_contract mock_acl_db mock_held
proof unfold_locales
  show "b = (ds \<in> mock_held k u p t)" if "acl_has_in_tenant mock_acl_db u ds p t k = (Inr b, k')" for u ds p t k b k'
    using that by (auto simp: mock_acl_db_def has_permission_in_tenant_def outcomes dest!: mock_ids_outcome)
  show "mock_held k' = mock_held k" if "acl_has_in_tenant mock_acl_db u ds p t k = (s, k')" for u ds p t k s k'
    using that by (cases s) (auto simp: mock_acl_db_def has_permission_in_tenant_def outcomes dest!: mock_ids_outcome)
qed (auto simp: mock_acl_db_def dest!: mock_ids_outcome)

text \<open>A grant to a role reaches only a user that is a member of some tenant.\<close>

lemma role_grants_need_a_tenant:
  "memberships (ma_tenants m) u = [] \<Longrightarrow> mock_held m u p t = {ds. map_of (ma_dataset_tenants m) ds = t \<and> (u, ds, p) \<in> set (ma_grants m)}"
  by (simp add: mock_held_def inherited_principals_def)

lemma granting_each:
  assumes "for_each (mock_grant u ds) names m = (r, m')"
  shows "(\<exists>given. set given \<subseteq> set names \<and> (r = Inr () \<longrightarrow> set given = set names)
      \<and> set (ma_grants m') = set (ma_grants m) \<union> (\<lambda>p. (u, ds, p)) ` set given)
    \<and> ma_tenants m' = ma_tenants m \<and> ma_roles m' = ma_roles m \<and> ma_dataset_tenants m' = ma_dataset_tenants m"
  using assms
proof (induction names arbitrary: m)
  case Nil
  then show ?case by (auto simp: ok_def)
next
  case (Cons p names)
  show ?case
  proof (cases "mock_grant u ds p m")
    case (Pair s m1)
    show ?thesis
    proof (cases s)
      case (Inl e)
      with Cons.prems Pair have "r = Inl e" "m' = m1" by (simp_all add: and_then_def)
      moreover have "m1 = m" using Pair Inl by (auto simp: mock_grant_def split: option.splits if_splits)
      ultimately show ?thesis by (auto intro: exI [of _ "[]"])
    next
      case (Inr x)
      with Cons.prems Pair have run: "for_each (mock_grant u ds) names m1 = (r, m')" by (simp add: and_then_def)
      have m1: "m1 = m\<lparr>ma_grants := List.insert (u, ds, p) (ma_grants m)\<rparr>"
        using Pair Inr by (auto simp: mock_grant_def split: option.splits if_splits)
      from Cons.IH [OF run] obtain given where "set given \<subseteq> set names" "r = Inr () \<longrightarrow> set given = set names"
        "set (ma_grants m') = set (ma_grants m1) \<union> (\<lambda>p. (u, ds, p)) ` set given" by auto
      then show ?thesis using Cons.IH [OF run] m1
        by (auto intro!: exI [of _ "p # given"])
    qed
  qed
qed

text \<open>
  What an owner is granted on a new dataset: all four permissions when the call returns; when it
  fails, the grants that had landed stay.
\<close>

lemma owner_is_granted_all:
  assumes "grant_all_permissions_on_dataset mock_acl_db u ds m = (Inr x, m')" and "p \<in> set permission_names"
  shows "mock_held m' u p t = mock_held m u p t \<union> (if map_of (ma_dataset_tenants m) ds = t then {ds} else {})"
proof -
  from assms(1) obtain m1 where e: "mock_ensure_principal u (lit ''user'') m = (Inr (), m1)"
    and g: "for_each (mock_grant u ds) permission_names m1 = (Inr (), m')"
    by (auto simp: grant_all_permissions_on_dataset_def mock_acl_db_def outcomes)
  have m1: "ma_grants m1 = ma_grants m" "ma_tenants m1 = ma_tenants m" "ma_roles m1 = ma_roles m"
    "ma_dataset_tenants m1 = ma_dataset_tenants m"
    using e by (auto simp: mock_ensure_principal_def)
  have same: "ma_tenants m' = ma_tenants m" "ma_roles m' = ma_roles m" "ma_dataset_tenants m' = ma_dataset_tenants m"
    and grants: "set (ma_grants m') = set (ma_grants m) \<union> (\<lambda>p. (u, ds, p)) ` set permission_names"
    using granting_each [OF g] by (auto simp: m1)
  have "inherited_principals m' u = inherited_principals m u" unfolding inherited_principals_def same ..
  moreover note same(3) grants
  moreover have "u \<in> set (inherited_principals m u)" by (simp add: inherited_principals_def Let_def)
  ultimately show ?thesis using assms(2) by (auto simp: mock_held_def)
qed

end
