(* ===== verification/Delete_Authorized.thy ===== *)
theory Delete_Authorized
  imports Delete_Isolation Access
begin

text \<open>
  \<open>AuthorizedDeleteService\<close> of \<open>crates/delete/src/authorized.rs\<close>: every delete and preview is checked
  against the access store first, and a by-name request is turned into a by-id one on the dataset
  that was checked. What such a delete can reach: only rows of datasets on which the caller holds
  \<open>delete\<close> in its tenant.
\<close>

section \<open>The service\<close>

record ('k, 'g, 'v, 'f, 's) authorized_service =
  au_inner :: "('g, 'v, 'f, 's) delete_service"
  au_acl :: "'k acl_db"

type_synonym ('k, 'g, 'v, 'f, 's, 'a) authorized_action = "('k \<times> ('g, 'v, 'f, 's) estate, delete_error, 'a) action"

definition scope_denied :: str where
  "scope_denied = lit ''delete permission denied for the requested scope''"

text \<open>The access store and the database of the inner service, as one state.\<close>

abbreviation with_db :: "('k \<times> relational database, 'e, 'a) action \<Rightarrow> ('k \<times> ('g, 'v, 'f, 's) estate, 'e, 'a) action" where
  "with_db \<equiv> within (\<lambda>s. (fst s, es_db (snd s))) (\<lambda>t s. (fst t, (snd s)\<lparr>es_db := snd t\<rparr>))"

definition deletable_in_tenant ::
  "('k, 'g, 'v, 'f, 's) authorized_service \<Rightarrow> uuid \<Rightarrow> uuid option \<Rightarrow> ('k, 'g, 'v, 'f, 's, dataset_row list) authorized_action" where
  "deletable_in_tenant U principal_id tenant_id =
     with_db (map_err (\<lambda>e. Runtime (lit ''ACL query failed: '' @ en_show (sv_env (au_inner U)) e))
       (authorized_datasets_in_tenant (au_acl U) principal_id (lit ''delete'') tenant_id))"

definition require_caller_tenant :: "uuid option \<Rightarrow> uuid option \<Rightarrow> ('s, delete_error, unit) action" where
  "require_caller_tenant tenant_id scope_tenant =
     (if scope_tenant \<noteq> tenant_id then fail (PermissionDenied scope_denied) else ok ())"

definition require_own_name_scope ::
  "uuid \<Rightarrow> uuid option \<Rightarrow> uuid \<Rightarrow> uuid option \<Rightarrow> ('s, delete_error, unit) action" where
  "require_own_name_scope principal_id tenant_id owner_id scope_tenant =
     (if owner_id \<noteq> principal_id then fail (PermissionDenied scope_denied)
      else require_caller_tenant tenant_id scope_tenant)"

definition covered_user_datasets ::
  "('k, 'g, 'v, 'f, 's) authorized_service \<Rightarrow> uuid \<Rightarrow> uuid option \<Rightarrow> uuid \<Rightarrow> uuid option
   \<Rightarrow> ('k, 'g, 'v, 'f, 's, uuid list) authorized_action" where
  "covered_user_datasets U principal_id tenant_id owner_id scope_tenant =
     and_then (require_caller_tenant tenant_id scope_tenant)
       (\<lambda>_. and_then (beside_acl (at_db (owner_dataset_ids_in_tenant (au_inner U) owner_id tenant_id)))
         (\<lambda>owner_ids. and_then
           (on_acl (map_err (\<lambda>e. Runtime (lit ''ACL query failed: '' @ en_show (sv_env (au_inner U)) e))
             (acl_ids_in_tenant (au_acl U) principal_id (lit ''delete'') tenant_id)))
           (\<lambda>authorized. if \<exists>i \<in> set owner_ids. i \<notin> set authorized then fail (PermissionDenied scope_denied)
              else ok owner_ids)))"

definition resolve_dataset_id ::
  "('k, 'g, 'v, 'f, 's) authorized_service \<Rightarrow> uuid \<Rightarrow> str \<Rightarrow> uuid option \<Rightarrow> ('k, 'g, 'v, 'f, 's, uuid) authorized_action" where
  "resolve_dataset_id U owner_id dataset_name tenant_id =
     beside_acl (at_db (and_then (dataset_by_name_in_tenant (au_inner U) owner_id dataset_name tenant_id) (\<lambda>ds. ok (ds_id ds))))"

definition require_delete_permission ::
  "('k, 'g, 'v, 'f, 's) authorized_service \<Rightarrow> uuid \<Rightarrow> uuid option \<Rightarrow> uuid \<Rightarrow> ('k, 'g, 'v, 'f, 's, unit) authorized_action" where
  "require_delete_permission U principal_id tenant_id dataset_id =
     and_then (on_acl (map_err (\<lambda>e. Runtime (lit ''ACL check failed: '' @ en_show (sv_env (au_inner U)) e))
                (acl_has_in_tenant (au_acl U) principal_id dataset_id (lit ''delete'') tenant_id)))
       (\<lambda>has_perm. if \<not> has_perm
          then fail (PermissionDenied (lit ''Principal '' @ sv_str (au_inner U) principal_id
                 @ lit '' does not have '' @ [39] @ lit ''delete'' @ [39] @ lit '' permission on dataset '' @ sv_str (au_inner U) dataset_id))
          else ok ())"

definition check_authorization ::
  "('k, 'g, 'v, 'f, 's) authorized_service \<Rightarrow> delete_scope \<Rightarrow> uuid \<Rightarrow> uuid option \<Rightarrow> ('k, 'g, 'v, 'f, 's, unit) authorized_action" where
  "check_authorization U scope principal_id tenant_id =
     (case scope of
        DataInDataset dataset_id _ _ \<Rightarrow> require_delete_permission U principal_id tenant_id dataset_id
      | DatasetById dataset_id \<Rightarrow> require_delete_permission U principal_id tenant_id dataset_id
      | _ \<Rightarrow> fail (PermissionDenied scope_denied))"

definition authorize ::
  "('k, 'g, 'v, 'f, 's) authorized_service \<Rightarrow> delete_request \<Rightarrow> uuid \<Rightarrow> uuid option
   \<Rightarrow> ('k, 'g, 'v, 'f, 's, delete_request) authorized_action" where
  "authorize U request principal_id tenant_id =
     and_then
       (case rq_scope request of
          DataScope owner_id data_id None _ _ \<Rightarrow>
            fail (Validation (lit ''deleting a data item under an ACL requires its dataset (name or id)''))
        | DataScope owner_id data_id (Some dataset_name) delete_dataset_if_empty scope_tenant \<Rightarrow>
            and_then (require_own_name_scope principal_id tenant_id owner_id scope_tenant)
              (\<lambda>_. and_then (resolve_dataset_id U owner_id dataset_name tenant_id)
                (\<lambda>dataset_id. and_then (require_delete_permission U principal_id tenant_id dataset_id)
                  (\<lambda>_. ok (DataInDataset dataset_id data_id delete_dataset_if_empty))))
        | DatasetScope owner_id dataset_name scope_tenant \<Rightarrow>
            and_then (require_own_name_scope principal_id tenant_id owner_id scope_tenant)
              (\<lambda>_. and_then (resolve_dataset_id U owner_id dataset_name tenant_id)
                (\<lambda>dataset_id. and_then (require_delete_permission U principal_id tenant_id dataset_id)
                  (\<lambda>_. ok (DatasetById dataset_id))))
        | scope \<Rightarrow> and_then (check_authorization U scope principal_id tenant_id) (\<lambda>_. ok scope))
       (\<lambda>scope. ok (request\<lparr>rq_scope := scope\<rparr>))"

definition authorized_execute ::
  "('k, 'g, 'v, 'f, 's) authorized_service \<Rightarrow> delete_request \<Rightarrow> uuid \<Rightarrow> uuid option
   \<Rightarrow> ('k, 'g, 'v, 'f, 's, delete_result) authorized_action" where
  "authorized_execute U request principal_id tenant_id =
     (case rq_scope request of
        AllScope \<Rightarrow>
          and_then (deletable_in_tenant U principal_id tenant_id)
            (\<lambda>datasets. beside_acl (execute_datasets_by_id (au_inner U) (rq_mode request) (rq_memory_only request)
               (map ds_id datasets)))
      | UserScope owner_id scope_tenant \<Rightarrow>
          and_then (covered_user_datasets U principal_id tenant_id owner_id scope_tenant)
            (\<lambda>ids. beside_acl (execute_datasets_by_id (au_inner U) (rq_mode request) (rq_memory_only request) ids))
      | _ \<Rightarrow>
          and_then (authorize U request principal_id tenant_id) (\<lambda>authorized. beside_acl (execute (au_inner U) authorized)))"

definition authorized_preview ::
  "('k, 'g, 'v, 'f, 's) authorized_service \<Rightarrow> delete_request \<Rightarrow> uuid \<Rightarrow> uuid option
   \<Rightarrow> ('k, 'g, 'v, 'f, 's, delete_preview) authorized_action" where
  "authorized_preview U request principal_id tenant_id =
     (case rq_scope request of
        AllScope \<Rightarrow>
          and_then (deletable_in_tenant U principal_id tenant_id)
            (\<lambda>datasets. beside_acl (preview_datasets_by_id (au_inner U) (map ds_id datasets)))
      | UserScope owner_id scope_tenant \<Rightarrow>
          and_then (covered_user_datasets U principal_id tenant_id owner_id scope_tenant)
            (\<lambda>ids. beside_acl (preview_datasets_by_id (au_inner U) ids))
      | _ \<Rightarrow>
          and_then (authorize U request principal_id tenant_id) (\<lambda>authorized. beside_acl (preview (au_inner U) authorized)))"

section \<open>The rows of datasets outside a set\<close>

text \<open>
  Between two states of the database, what the datasets outside \<open>D\<close> have is kept. Ids are the primary
  keys of the data rows and of the ledger's edges.
\<close>

definition rel_spared :: "uuid set \<Rightarrow> relational \<Rightarrow> relational \<Rightarrow> bool" where
  "rel_spared D t t' \<longleftrightarrow> (data_keyed (rl_ledger t) \<and> edges_keyed (rl_ledger t) \<longrightarrow>
     data_keyed (rl_ledger t') \<and> edges_keyed (rl_ledger t')
     \<and> (\<forall>ds. ds \<notin> D \<longrightarrow>
          (\<forall>q \<in> set (data_of t). d_dataset_id q = Some ds \<longrightarrow> q \<in> set (data_of t'))
        \<and> (\<forall>d \<in> set (datasets_of t). ds_id d = ds \<longrightarrow> d \<in> set (datasets_of t'))
        \<and> (\<forall>n \<in> set (l_nodes (rl_ledger t)). g_dataset_id n = ds \<longrightarrow> n \<in> set (l_nodes (rl_ledger t')))
        \<and> (\<forall>e \<in> set (l_edges (rl_ledger t)). g_dataset_id e = ds \<longrightarrow> e \<in> set (l_edges (rl_ledger t')))
        \<and> (\<forall>r \<in> set (rt_runs (rl_runs t)). pr_dataset_id r = Some ds \<longrightarrow> r \<in> set (rt_runs (rl_runs t')))))"

definition spares :: "uuid set \<Rightarrow> ('g, 'v, 'f, 's) estate \<Rightarrow> ('g, 'v, 'f, 's) estate \<Rightarrow> bool" where
  "spares D w w' \<longleftrightarrow> rel_spared D (rel w) (rel w')"

lemma rel_spared_trans: "rel_spared D t t' \<Longrightarrow> rel_spared D t' t'' \<Longrightarrow> rel_spared D t t''"
  unfolding rel_spared_def by blast

interpretation sparing: evolution "spares D"
  by unfold_locales (auto simp: spares_def rel_spared_def intro: rel_spared_trans)

lemma rel_kept_spared:
  assumes "rel_kept ds t t'" and "ds \<in> D"
  shows "rel_spared D t t'"
proof -
  have "i \<notin> D \<Longrightarrow> i \<noteq> ds" for i using assms(2) by blast
  with assms(1) show ?thesis
    unfolding rel_kept_def ledger_kept_def rel_spared_def by (auto simp: subset_iff)
qed

lemma spares_of_kept: "evolves (others_kept ds) m \<Longrightarrow> ds \<in> D \<Longrightarrow> evolves (spares D) m"
  by (erule evolves_mono) (auto simp: others_kept_def spares_def intro: rel_kept_spared)

lemma spares_of_reads: "evolves (same_view everything) m \<Longrightarrow> evolves (spares D) m"
  by (erule evolves_mono) (simp add: everything_eq spares_def rel_spared_def)

lemma spares_mono: "evolves (spares D) m \<Longrightarrow> D \<subseteq> D' \<Longrightarrow> evolves (spares D') m"
  by (erule evolves_mono) (auto simp: spares_def rel_spared_def)


section \<open>A delete of one data item\<close>

text \<open>What resolving \<open>DataInDataset ds i\<close> yields: no more than one link, to a row of the dataset.\<close>

definition targets_item :: "uuid \<Rightarrow> relational \<Rightarrow> resolved_targets \<Rightarrow> bool" where
  "targets_item ds t targets \<longleftrightarrow> targets_dataset ds targets
     \<and> (tg_links targets = [] \<or> (\<exists>i. tg_links targets = [(ds, i)]
          \<and> (\<exists>q \<in> set (data_of t). d_id q = i \<and> d_dataset_id q = Some ds)))"

lemma items_of_ok:
  "items_of S d db = (Inr rows, db') \<Longrightarrow>
     set rows = {q \<in> set (data_of (db_tables db)). d_dataset_id q = Some (ds_id d)} \<and> db_tables db' = db_tables db"
  by (auto simp: items_of_def get_dataset_data_def oldest_data_def dest!: runtime_query_ok)

lemma reads_same: "reads_only m \<Longrightarrow> m db = (r, db') \<Longrightarrow> db_tables db' = db_tables db"
  by (metis reads_only_def snd_conv)

lemma resolve_item_ok:
  assumes "resolve_targets S (DataInDataset ds i b) db = (Inr targets, db')"
  shows "targets_item ds (db_tables db) targets"
proof -
  from assms obtain d j row db1 db2 db3 where d: "dataset_by_id S ds db = (Inr d, db1)"
    and j: "resolve_data_id_in S (ds_id d) i db1 = (Inr j, db2)" and row: "fetch_data S j db2 = (Inr row, db3)"
    and rest: "(if row = None then ghost_targets S d j b
         else and_then (items_of S d) (\<lambda>items. if j \<notin> d_id ` set items then fail (not_attached S j d)
                 else ok \<lparr>tg_datasets = (if b \<and> length items = 1 then [d] else []),
                          tg_links = [(ds_id d, j)], tg_candidates = [j]\<rparr>)) db3 = (Inr targets, db')"
    by (auto simp: resolve_targets_def resolve_data_in_dataset_scope_def outcomes)
  note d = dataset_by_id_ok [OF d]
  have same: "db_tables db3 = db_tables db"
    using d reads_same [OF lookup_reads(5) j] reads_same [OF lookup_reads(4) row] by simp
  show ?thesis
  proof (cases "row = None")
    case True
    with rest d show ?thesis
      by (auto simp: ghost_targets_def outcomes targets_item_def targets_dataset_def)
  next
    case False
    with rest obtain items db4 where "items_of S d db3 = (Inr items, db4)" and "j \<in> d_id ` set items"
      and "targets = \<lparr>tg_datasets = (if b \<and> length items = 1 then [d] else []), tg_links = [(ds_id d, j)], tg_candidates = [j]\<rparr>"
      by (auto simp: outcomes ok_outcome fail_outcome split: if_splits)
    with items_of_ok [OF this(1)] d same show ?thesis
      by (auto simp: targets_item_def targets_dataset_def)
  qed
qed

lemma trimmed_of_reads: "evolves (same_view everything) m \<Longrightarrow> evolves (trimmed P Q) m"
  by (erule evolves_mono) (simp add: everything_eq trimmed_same)

lemma trimmed_beside_db: "evolves (trimmed P Q) (at_graph m)" "evolves (trimmed P Q) (at_vector m')"
  by (rule evolvesI, rule trimmed_same, auto simp: at_graph_outcome at_vector_outcome)+

text \<open>The structural edges of an item are rows of its dataset, and go by their ids.\<close>

lemma cleanup_data_trims:
  assumes "cleanup_data S i ds w = (r, w')"
  shows "trimmed (holds (of_item i ds)) (\<lambda>e. holds (of_item i ds) e \<or> g_id e \<in> g_id ` set (item_structural (led w) i ds)) w w'"
    (is "trimmed ?P ?Q w w'")
proof (rule trimming.of_run [OF assms [unfolded cleanup_data_def cleanup_data_in_scope_def] trimmed_of_reads [OF item_rows_reads]])
  fix rows w1
  assume rows: "item_rows S i ds w = (Inr rows, w1)"
  obtain ns es ss an ae where eq: "rows = (ns, es, ss, an, ae)" by (cases rows)
  have ss: "ss = item_structural (led w) i ds" using item_rows_ok [OF rows [unfolded eq]] by (simp add: item_structural_def)
  assume run: "(case rows of (nodes, edges, structural_edges, all_nodes, all_edges) \<Rightarrow>
      if nodes = [] \<and> edges = [] \<and> structural_edges = [] \<and> all_nodes = 0 \<and> all_edges = 0 then ok (0, 0, 0, 0, [])
      else and_then (at_graph (delete_graph_artifacts (sv_env S) (graph_handle S (Some ds)) nodes))
           (\<lambda>(gn, gw). and_then (edge_type_ids_to_delete S i ds edges structural_edges)
             (\<lambda>edge_type_ids. and_then
               (at_vector (delete_vector_artifacts (sv_env S) (vector_handle S (Some ds)) nodes edges edge_type_ids))
               (\<lambda>(vp, vw). and_then (delete_item_rows S i ds structural_edges)
                 (\<lambda>structural_deleted. ok (gn, vp, all_nodes, all_edges + structural_deleted, gw @ vw)))))) w1 = (r, w')"
  show "trimmed ?P ?Q w1 w'"
    using run unfolding eq prod.case ss
    by (rule evolvesD [rotated])
      (intro trimming.rules trimmed_beside_db trimmed_of_reads edge_type_ids_reads delete_item_rows_trims)
qed

lemma cleanup_data_spares:
  assumes "ds \<in> D"
  shows "evolves (spares D) (cleanup_data S i ds)"
proof (rule evolvesI)
  fix w w' :: "('a, 'b, 'c, 'd) estate" and r
  assume "cleanup_data S i ds w = (r, w')"
  from cleanup_data_trims [OF this] obtain P Q where "\<forall>n. \<not> P n \<longrightarrow> holds (of_item i ds) n"
    and "\<forall>e. \<not> Q e \<longrightarrow> holds (of_item i ds) e \<or> g_id e \<in> g_id ` set (item_structural (led w) i ds)"
    and w': "rel w' = (rel w)\<lparr>rl_ledger := (led w)\<lparr>l_nodes := filter P (l_nodes (led w)), l_edges := filter Q (l_edges (led w))\<rparr>\<rparr>"
    unfolding trimmed_def by blast
  then have P: "\<And>n. \<not> P n \<Longrightarrow> g_dataset_id n = ds"
    and Q: "\<And>e. \<not> Q e \<Longrightarrow> g_dataset_id e = ds \<or> g_id e \<in> g_id ` set (item_structural (led w) i ds)"
    by (auto simp: of_item_def of_data_def of_dataset_def)
  have "Q e" if "edges_keyed (led w)" "e \<in> set (l_edges (led w))" "g_dataset_id e \<noteq> ds" for e
  proof (rule ccontr)
    assume "\<not> Q e"
    with Q that(3) obtain s where s: "s \<in> set (item_structural (led w) i ds)" "g_id s = g_id e" by fastforce
    then have "s \<in> set (l_edges (led w))" "g_dataset_id s = ds"
      by (auto simp: item_structural_def structural_edges_owned_by_def of_dataset_def)
    with that s(2) show False by (auto simp: edges_keyed_def distinct_map inj_on_def)
  qed
  with P assms show "spares D w w'"
    unfolding spares_def rel_spared_def w' by (auto simp: data_keyed_def edges_keyed_def distinct_map_filter)
qed


lemma rel_spared_refl [simp]: "rel_spared D t t"
  by (simp add: rel_spared_def)

interpretation rel_sparing: evolution "\<lambda>d d'. rel_spared D (db_tables d) (db_tables d')"
  by unfold_locales (auto intro: rel_spared_trans)

lemma spares_ask:
  assumes "evolves (\<lambda>d d'. rel_spared D (db_tables d) (db_tables d')) m"
  shows "evolves (spares D) (ask S what m)"
  unfolding ask_def runtime_def
  by (rule at_db_view [OF rel_sparing.of_map_err [OF assms]]) (simp add: spares_def)

lemma invalidate_runs_spares:
  assumes "targets_dataset ds targets" and "ds \<in> D"
  shows "evolves (spares D) (invalidate_runs S (tg_links targets))"
proof -
  have "evolves (\<lambda>d d'. rel_spared D (db_tables d) (db_tables d')) (delete_pipeline_runs_by_dataset i)" if "i \<in> D" for i
    unfolding delete_pipeline_runs_by_dataset_def Let_def
    by (rule kept_statement) (use that in \<open>auto simp: rel_spared_def delete_where_def\<close>)
  then show ?thesis
    unfolding invalidate_runs_def
    by (intro sparing.of_sum_each spares_ask) (use assms in \<open>auto simp: targets_dataset_def\<close>)
qed

lemma clear_statuses_of_links:
  assumes "targets_dataset ds targets"
    and "\<And>ids. set (sv_hash_order S ids) \<subseteq> set ids"
  shows "evolves (others_kept ds) (clear_statuses S b targets)"
proof -
  have "evolves (others_kept ds) (ask S what (on_ledger (clear_pipeline_status_for_dataset us uh i)))"
    if "i \<in> set (sv_hash_order S (remdups (filter (\<lambda>i. i \<notin> ds_id ` set (tg_datasets targets)) (map fst (tg_links targets)))))"
    for i what us uh
  proof -
    have "i = ds" using that assms subsetD [OF assms(2) that] by (auto simp: targets_dataset_def)
    then show ?thesis by (simp only:) (intro kept_ask kept_on_ledger clear_dataset_kept)
  qed
  then show ?thesis
    unfolding clear_statuses_def Let_def
    by (intro keeping.of_and_then keeping.of_ok keeping.of_if keeping.of_sum_each clear_ask_kept [OF assms(1)])
qed

lemma item_artifacts:
  "remove_artifacts S (DataInDataset ds i b) targets =
     and_then (cleanup_each (\<lambda>ds. cleanup_dataset S (ds_id ds)) (tg_datasets targets))
       (\<lambda>c. and_then (at_db (compute_deletable_data_ids S targets))
         (\<lambda>deletable. and_then
           (cleanup_each (\<lambda>i. cleanup_each (\<lambda>(dataset_id, _). cleanup_data S i dataset_id)
                                (filter (\<lambda>(_, j). j = i) (tg_links targets))) deletable)
           (\<lambda>d. ok (add_counts c d))))"
  by (simp add: remove_artifacts_def)

lemma remove_artifacts_spares:
  assumes "targets_dataset ds targets" and "ds \<in> D"
  shows "evolves (spares D) (remove_artifacts S (DataInDataset ds' i b) targets)"
proof -
  have datasets: "evolves (spares D) (cleanup_dataset S (ds_id d))" if "d \<in> set (tg_datasets targets)" for d
    by (rule spares_of_kept [OF cleanup_dataset_kept]) (use that assms in \<open>auto simp: targets_dataset_def\<close>)
  have items: "evolves (spares D) (case l of (dataset_id, _) \<Rightarrow> cleanup_data S j dataset_id)"
    if l: "l \<in> set (filter (\<lambda>(_, k). k = j) (tg_links targets))" for l j
  proof -
    from l have "l \<in> set (tg_links targets)" by (simp only: set_filter mem_Collect_eq)
    with assms(1) obtain k where "l = (ds, k)" by (cases l) (auto simp: targets_dataset_def)
    then show ?thesis using cleanup_data_spares [OF assms(2)] by simp
  qed
  have "evolves (spares D) (at_db (compute_deletable_data_ids S targets))"
    by (intro spares_of_reads at_db_reads deletable_reads)
  then show ?thesis
    unfolding item_artifacts
    by (intro sparing.of_and_then sparing.of_ok sparing.of_cleanup_each datasets items)
qed

lemma statuses_of_item:
  assumes "clear_cognify_pipeline_status_for_data us uh i ds' db = (x, db')"
    and "data_keyed (db_tables db)" and "q \<in> set (l_data (db_tables db))" and "d_id q = i" and "d_dataset_id q = Some ds"
  shows "ledger_kept ds (db_tables db) (db_tables db')"
proof -
  have "items_of_dataset ds [q] (db_tables db)"
    using same_id_same_row [OF assms(2,3)] assms(5) by (simp add: items_of_dataset_def) metis
  then have "ledger_kept ds (db_tables db) (set_status i st (db_tables db))" for st
    using statuses_only_kept [OF set_status_statuses [of ds q "[]" "db_tables db" st]] assms(4) by simp
  moreover have "db_tables db' = db_tables db \<or> (\<exists>st. db_tables db' = set_status i st (db_tables db))"
  proof -
    obtain found db1 where f: "query (\<lambda>t. find_data i (l_data t)) db = (found, db1)" by fastforce
    then have "db_tables db1 = db_tables db" by (cases found) (auto dest: query_ok query_err)
    with assms(1) f show ?thesis
      by (auto simp: clear_cognify_pipeline_status_for_data_def and_then_def ok_def
          split: sum.splits option.splits dest!: exec_cases)
  qed
  ultimately show ?thesis by auto
qed


text \<open>The data rows, which the artifacts and the evidence do not touch.\<close>

definition rows_of :: "('g, 'v, 'f, 's) estate \<Rightarrow> data_row list" where
  "rows_of w = data_of (rel w)"

lemma trimmed_rows: "evolves (trimmed P Q) m \<Longrightarrow> evolves (same_view rows_of) m"
  by (erule evolves_mono) (auto simp: trimmed_def same_view_def rows_of_def)

lemma rows_of_reads: "evolves (same_view everything) m \<Longrightarrow> evolves (same_view rows_of) m"
  by (erule evolves_mono) (simp add: rows_of_def same_view_def everything_def)

lemma rows_beside: "evolves (same_view rows_of) (at_graph m)" "evolves (same_view rows_of) (at_vector m')"
  "evolves (same_view rows_of) (at_stores m'')"
  by (rule evolvesI, auto simp: at_graph_outcome at_vector_outcome at_stores_outcome same_view_def rows_of_def)+

lemma cleanup_dataset_rows: "evolves (same_view rows_of) (cleanup_dataset S ds)"
proof -
  have "evolves (same_view rows_of) (ask S what (on_ledger (get_nodes_by_dataset ds)))"
    "evolves (same_view rows_of) (ask S what (on_ledger (get_edges_by_dataset ds)))" for what
    by (rule rows_of_reads, rule ask_reads, auto)+
  then show ?thesis
    unfolding cleanup_dataset_def by (intro view.rules rows_beside trimmed_rows [OF delete_provenance_trims])
qed

lemma cleanup_data_rows: "evolves (same_view rows_of) (cleanup_data S i ds)"
  by (rule evolvesI, drule cleanup_data_trims) (auto simp: trimmed_def same_view_def rows_of_def)

lemma remove_artifacts_rows: "evolves (same_view rows_of) (remove_artifacts S (DataInDataset ds i b) targets)"
proof -
  have "evolves (same_view rows_of) (case l of (dataset_id, _) \<Rightarrow> cleanup_data S j dataset_id)" for l :: "uuid \<times> uuid" and j
    by (cases l) (simp add: cleanup_data_rows)
  moreover have "evolves (same_view rows_of) (at_db (compute_deletable_data_ids S targets))"
    by (intro rows_of_reads at_db_reads deletable_reads)
  ultimately show ?thesis
    unfolding item_artifacts
    by (intro view.of_and_then view.of_ok view.of_cleanup_each cleanup_dataset_rows)
qed

lemma sweep_evidence_rows: "evolves (same_view rows_of) (sweep_evidence S scope targets)"
proof -
  have "evolves (same_view rows_of) (at_db (recover (delete_edge_evidence i x)))" for i x
    by (rule at_db_view [where P = "same_view (\<lambda>d. data_of (db_tables d))"])
      (auto simp: same_view_def rows_of_def delete_edge_evidence_def Let_def evolves_def recover_def statement_def
        split: prod.split list.split option.split)
  then show ?thesis
    unfolding sweep_evidence_def by (intro view.of_for_each view.rules)
qed


lemma targets_itemD: "targets_item ds t targets \<Longrightarrow> targets_dataset ds targets"
  by (simp add: targets_item_def)

lemma nothing_forgotten_item:
  "delete_history S (DataInDataset ds i b) = ok 0" "prune_sessions S (DataInDataset ds i b) = ok False"
  by (simp_all add: delete_history_def prune_sessions_def)

lemma item_phases_spare:
  assumes "targets_dataset ds targets" and "ds \<in> D" and "\<And>ids. set (sv_hash_order S ids) \<subseteq> set ids"
  shows "evolves (spares D) (execute_phases S \<lparr>rq_scope = DataInDataset ds' i b, rq_mode = mode, rq_memory_only = mem\<rparr> targets)"
proof -
  note kept = spares_of_kept [OF _ assms(2)]
  show ?thesis
    unfolding execute_phases_def Let_def delete_request.simps nothing_forgotten_item
    by (intro sparing.rules remove_artifacts_spares [OF assms(1,2)] invalidate_runs_spares [OF assms(1,2)]
        kept [OF clear_statuses_of_links [OF assms(1,3)]] kept [OF detach_links_kept [OF assms(1)]]
        kept [OF delete_datasets_kept [OF assms(1)]] kept [OF remove_rows_kept] kept [OF sweep_orphans_kept])
qed

lemma reset_item_spares:
  assumes "targets_item ds (rel w) targets" and "ds \<in> D"
    and "reset_statuses S (DataInDataset ds' i b) targets w = (r, w')"
  shows "spares D w w'"
proof (cases "tg_links targets")
  case Nil
  with assms(3) show ?thesis by (simp add: reset_statuses_def Let_def ok_def spares_def)
next
  case (Cons l ls)
  with assms(1) obtain j q where links: "tg_links targets = [(ds, j)]"
    and q: "q \<in> set (data_of (rel w))" "d_id q = j" "d_dataset_id q = Some ds"
    by (auto simp: targets_item_def)
  let ?m = "clear_cognify_pipeline_status_for_data (en_uuid_str (sv_env S)) (en_uuid_hex (sv_env S)) j ds"
  obtain what where "and_then (ask S what (on_ledger ?m)) (\<lambda>_. ok ()) w = (r, w')"
    using assms(3) by (auto simp: reset_statuses_def links Let_def)
  then obtain x where "ask S what (on_ledger ?m) w = (x, w')"
    by (cases "ask S what (on_ledger ?m) w") (auto simp: and_then_def ok_def split: sum.splits)
  then obtain y d where run: "?m \<lparr>db_tables = led w, db_faults = db_faults (es_db w)\<rparr> = (y, d)"
    and w': "rel w' = (rel w)\<lparr>rl_ledger := db_tables d\<rparr>"
    by (cases x) (auto simp: ask_Inr on_ledger_outcome dest!: ask_Inl)
  have "ledger_kept ds (led w) (db_tables d)" if "data_keyed (led w)"
    using statuses_of_item [OF run, of q] that q by simp
  then have "rel_kept ds (rel w) (rel w')" by (auto simp: rel_kept_def w' ledger_kept_def)
  then show ?thesis unfolding spares_def using assms(2) by (rule rel_kept_spared)
qed

lemma item_memory_only_spares:
  assumes "targets_item ds (rel w) targets" and "ds \<in> D"
    and "execute_memory_only S \<lparr>rq_scope = DataInDataset ds' i b, rq_mode = mode, rq_memory_only = mem\<rparr> targets w = (r, w')"
  shows "spares D w w'"
proof (rule sparing.of_run [OF assms(3) [unfolded execute_memory_only_def delete_request.simps]], goal_cases)
  case 1
  show ?case by (rule remove_artifacts_spares [OF targets_itemD [OF assms(1)] assms(2)])
next
  case (2 c w1)
  obtain gn vp pn pe ws where c: "c = (gn, vp, pn, pe, ws)" by (cases c)
  have rows: "rows_of w1 = rows_of w" using evolvesD [OF remove_artifacts_rows 2(1)] by (simp add: same_view_def)
  show ?case
  proof (rule sparing.of_run [OF 2(2) [unfolded c prod.case]], goal_cases)
    case 1
    show ?case by (rule spares_of_kept [OF sweep_evidence_kept assms(2)])
  next
    case (2 u w2)
    have "rows_of w2 = rows_of w" using evolvesD [OF sweep_evidence_rows 2(1)] rows by (simp add: same_view_def)
    then have item: "targets_item ds (rel w2) targets" using assms(1) by (simp add: targets_item_def rows_of_def)
    obtain s w3 where reset: "reset_statuses S (DataInDataset ds' i b) targets w2 = (s, w3)" by fastforce
    then have first: "spares D w2 w3" by (rule reset_item_spares [OF item assms(2)])
    have "spares D w3 w'"
    proof (cases s)
      case (Inl e)
      with 2(2) reset show ?thesis by (simp add: and_then_def spares_def)
    next
      case (Inr u)
      have "evolves (spares D) (record_forget S ids)" for ids by (rule spares_of_kept [OF record_forget_kept assms(2)])
      then have "evolves (spares D) (and_then (record_forget S ids) (\<lambda>_. ok z))" for ids and z :: delete_result
        by (intro sparing.of_and_then sparing.of_ok)
      with 2(2) reset Inr show ?thesis by (auto simp: and_then_def [of "reset_statuses _ _ _"] dest: evolvesD)
    qed
    with first show ?case by (rule sparing.compose)
  qed
qed

lemma item_delete_spares:
  assumes "ds \<in> D" and "\<And>ids. set (sv_hash_order S ids) \<subseteq> set ids"
  shows "evolves (spares D) (execute_resolved S \<lparr>rq_scope = DataInDataset ds i b, rq_mode = mode, rq_memory_only = mem\<rparr>)"
proof (rule evolvesI)
  let ?rq = "\<lparr>rq_scope = DataInDataset ds i b, rq_mode = mode, rq_memory_only = mem\<rparr>"
  fix w w' :: "('a, 'b, 'c, 'd) estate" and r
  assume run: "execute_resolved S ?rq w = (r, w')"
  show "spares D w w'"
  proof (rule sparing.of_run [OF run [unfolded execute_resolved_def delete_request.simps]], goal_cases)
    case 1
    show ?case by (rule spares_of_reads) auto
  next
    case (2 targets w1)
    have same: "rel w1 = rel w" using evolvesD [OF at_db_reads [OF resolve_targets_reads] 2(1)] by (simp add: everything_eq)
    from 2(1) obtain d where "resolve_targets S (DataInDataset ds i b) (es_db w) = (Inr targets, d)" by (auto simp: at_db_outcome)
    then have item: "targets_item ds (rel w1) targets" unfolding same by (rule resolve_item_ok)
    show ?case
    proof (cases mem)
      case True
      with 2(2) have "execute_memory_only S ?rq targets w1 = (r, w')" by simp
      then show ?thesis by (rule item_memory_only_spares [OF item assms(1)])
    next
      case False
      have "evolves (spares D) (record_forget S ids)" for ids by (rule spares_of_kept [OF record_forget_kept assms(1)])
      then have "evolves (spares D) (and_then (execute_phases S ?rq targets)
          (\<lambda>result. and_then (record_forget S (forgotten_datasets (DataInDataset ds i b) targets)) (\<lambda>_. ok result)))"
        by (intro sparing.of_and_then sparing.of_ok item_phases_spare [OF targets_itemD [OF item] assms])
      then show ?thesis by (rule evolvesD) (use 2(2) False in simp)
    qed
  qed
qed


section \<open>Locks and the loop over datasets\<close>

text \<open>The tasks a delete waits for leave the rows of datasets outside \<open>D\<close> alone.\<close>

definition undisturbed :: "uuid set \<Rightarrow> ('g, 'v, 'f, 's) delete_service \<Rightarrow> bool" where
  "undisturbed D S \<longleftrightarrow> (\<forall>wait keys w. sv_dataset_locks S = Some wait \<longrightarrow> spares D w (wait keys w))"

lemma holding_spares:
  assumes "undisturbed D S" and "evolves (spares D) m"
  shows "evolves (spares D) (holding S keys m)"
proof (rule evolvesI)
  fix w w' :: "('a, 'b, 'c, 'd) estate" and r
  assume "holding S keys m w = (r, w')"
  then consider "m w = (r, w')" | wait where "sv_dataset_locks S = Some wait" "m (wait keys w) = (r, w')"
    by (auto simp: holding_def split: option.splits)
  then show "spares D w w'"
  proof cases
    case 2
    with assms(1) have "spares D w (wait keys w)" by (simp add: undisturbed_def)
    then show ?thesis using evolvesD [OF assms(2) 2(2)] by (rule sparing.compose)
  qed (rule evolvesD [OF assms(2)])
qed

lemma dataset_delete_spares:
  assumes "ds \<in> D"
  shows "evolves (spares D) (execute_resolved S \<lparr>rq_scope = DatasetById ds, rq_mode = mode, rq_memory_only = mem\<rparr>)"
  by (rule spares_of_kept [OF execute_by_id_kept assms])

lemma datasets_from_spares:
  assumes "undisturbed D S" and "set ids \<subseteq> D"
  shows "evolves (spares D) (datasets_from S mode mem ids so_far n)"
  using assms(2)
proof (induction ids arbitrary: so_far n)
  case Nil
  then show ?case by (simp add: sparing.of_ok)
next
  case (Cons i ids)
  then have i: "i \<in> D" and rest: "\<And>so_far n. evolves (spares D) (datasets_from S mode mem ids so_far n)" by simp_all
  have "evolves (spares D) (ask S what (get_dataset i))" for what
    by (rule spares_of_reads, rule ask_reads) auto
  then have "evolves (spares D) (delete_dataset_if_present S mode mem i)"
    unfolding delete_dataset_if_present_def by (intro sparing.rules dataset_delete_spares [OF i])
  then show ?case
    unfolding datasets_from.simps by (intro sparing.rules holding_spares [OF assms(1)] rest)
qed

lemma lock_keys_reads [intro]: "reads_only (lock_keys S scope)"
  unfolding lock_keys_def Let_def
  by (cases scope) (auto intro!: reads_only_and_then reads_runtime relational_reads split: option.split)

text \<open>A request by id, on a dataset of \<open>D\<close>.\<close>

definition by_id_in :: "uuid set \<Rightarrow> delete_scope \<Rightarrow> bool" where
  "by_id_in D scope \<longleftrightarrow> (\<exists>ds \<in> D. scope = DatasetById ds \<or> (\<exists>i b. scope = DataInDataset ds i b))"

lemma execute_spares:
  assumes "by_id_in D (rq_scope request)" and "undisturbed D S" and "\<And>ids. set (sv_hash_order S ids) \<subseteq> set ids"
  shows "evolves (spares D) (execute S request)"
proof -
  have "request = \<lparr>rq_scope = rq_scope request, rq_mode = rq_mode request, rq_memory_only = rq_memory_only request\<rparr>" by simp
  then have "evolves (spares D) (execute_resolved S request)"
    using assms(1) dataset_delete_spares item_delete_spares [OF _ assms(3)] unfolding by_id_in_def by metis
  moreover have "execute S request = (if sv_dataset_locks S = None then execute_resolved S request
      else and_then (at_db (lock_keys S (rq_scope request))) (\<lambda>keys. holding S keys (execute_resolved S request)))"
    using assms(1) by (auto simp: execute_def by_id_in_def)
  moreover have "evolves (spares D) (at_db (lock_keys S scope))" for scope
    by (intro spares_of_reads at_db_reads lock_keys_reads)
  ultimately show ?thesis
    by (simp only:) (intro sparing.rules holding_spares [OF assms(2)])
qed

section \<open>What is authorized\<close>

text \<open>
  Authorizing reads both stores and changes neither; what it lets through is by id, on a dataset
  the caller holds \<open>delete\<close> on.
\<close>

definition unchanged :: "('k \<Rightarrow> 'h) \<Rightarrow> 'k \<times> ('g, 'v, 'f, 's) estate \<Rightarrow> 'h \<times> relational" where
  "unchanged held s = (held (fst s), rel (snd s))"

lemma unchanged_within:
  "(\<And>k r k'. m k = (r, k') \<Longrightarrow> held k' = held k) \<Longrightarrow> evolves (same_view (unchanged held)) (on_acl m)"
  "reads_only m' \<Longrightarrow> evolves (same_view (unchanged held)) (beside_acl (at_db m'))"
  by (auto simp: evolves_def same_view_def unchanged_def within_def at_db_def reads_only_def split: prod.split)
    (metis snd_conv)

text \<open>A check that changes nothing, then a deletion that spares what the check did not grant.\<close>

lemma checked_then:
  assumes "and_then check (\<lambda>x. beside_acl (go x)) (k, w) = (r, (k', w'))"
    and check: "\<And>z s'. check (k, w) = (z, s') \<Longrightarrow> unchanged held s' = unchanged held (k, w)"
    and go: "\<And>x s'. check (k, w) = (Inr x, s') \<Longrightarrow> evolves (spares D) (go x)"
  shows "spares D w w' \<and> held k' = held k"
proof -
  obtain z k1 w1 where c: "check (k, w) = (z, k1, w1)" by (cases "check (k, w)") auto
  from check [OF c] have same: "held k1 = held k" "spares D w w1"
    by (simp_all add: unchanged_def spares_def)
  show ?thesis
  proof (cases z)
    case (Inl e)
    with assms(1) c same show ?thesis by (simp add: and_then_def)
  next
    case (Inr x)
    with assms(1) c have "go x w1 = (r, w')" "k' = k1" by (auto simp: and_then_def within_def split: prod.splits)
    with evolvesD [OF go [OF c [unfolded Inr]]] same show ?thesis by (auto intro: sparing.compose)
  qed
qed

lemma owner_ids_reads [intro]: "reads_only (owner_dataset_ids_in_tenant S ow t)"
  unfolding owner_dataset_ids_in_tenant_def by (intro reads_only_and_then reads_runtime relational_reads reads_only_ok)

context acl_contract
begin

lemma permission_reads:
  assumes "au_acl U = A"
  shows "evolves (same_view (unchanged held)) (require_delete_permission U p t ds)"
  unfolding require_delete_permission_def assms
  by (intro view.of_and_then view.of_if view.of_ok view.of_fail unchanged_within(1))
    (auto simp: map_err_def split: prod.splits sum.splits dest: has_in_tenant_reads)

lemma permission_ok:
  assumes "require_delete_permission U p t ds s = (Inr u, s')" and "au_acl U = A"
  shows "ds \<in> held (fst s) p (lit ''delete'') t"
  using assms(1) has_in_tenant
  by (auto simp: require_delete_permission_def assms(2) outcomes ok_outcome fail_outcome split: if_splits)

lemma authorize_reads:
  assumes "au_acl U = A"
  shows "evolves (same_view (unchanged held)) (authorize U request p t)"
proof -
  have "evolves (same_view (unchanged held)) (resolve_dataset_id U ow name t)" for ow name
    unfolding resolve_dataset_id_def by (intro unchanged_within(2) reads_only_and_then lookup_reads reads_only_ok)
  then show ?thesis
    unfolding authorize_def check_authorization_def require_own_name_scope_def require_caller_tenant_def
    by (cases "rq_scope request")
      (auto intro!: view.of_and_then view.of_ok view.of_fail permission_reads [OF assms] split: option.split)
qed

lemma authorize_ok:
  assumes "authorize U request p t s = (Inr rq, s')" and "au_acl U = A"
  shows "by_id_in (held (fst s) p (lit ''delete'') t) (rq_scope rq)"
proof -
  have checked: "ds \<in> held (fst s) p (lit ''delete'') t"
    if "require_delete_permission U p t ds s1 = (Inr u, s2)" "resolve_dataset_id U ow name t s = (Inr ds, s1)" for ds u ow name s1 s2
    using permission_ok [OF that(1) assms(2)] that(2) by (auto simp: resolve_dataset_id_def within_outcome)
  show ?thesis
    using assms(1) checked
    by (cases "rq_scope request")
      (auto intro: permission_ok [OF _ assms(2)] simp: authorize_def check_authorization_def require_own_name_scope_def require_caller_tenant_def by_id_in_def
        outcomes ok_outcome fail_outcome split: option.splits if_splits)
qed

lemma covered_ok:
  assumes "covered_user_datasets U p t ow st s = (r, s')" and "au_acl U = A"
  shows "unchanged held s' = unchanged held s \<and> (\<forall>ids. r = Inr ids \<longrightarrow> st = t \<and> set ids \<subseteq> held (fst s) p (lit ''delete'') t)"
proof
  have "evolves (same_view (unchanged held)) (covered_user_datasets U p t ow st)"
    unfolding covered_user_datasets_def require_caller_tenant_def assms(2)
    by (intro view.of_and_then view.of_if view.of_ok view.of_fail unchanged_within owner_ids_reads)
      (auto simp: map_err_def split: prod.splits sum.splits dest: ids_in_tenant_reads)
  from evolvesD [OF this assms(1)] show "unchanged held s' = unchanged held s" by (simp add: same_view_def)
  show "\<forall>ids. r = Inr ids \<longrightarrow> st = t \<and> set ids \<subseteq> held (fst s) p (lit ''delete'') t"
    using assms(1) ids_in_tenant
    by (auto simp: covered_user_datasets_def require_caller_tenant_def assms(2) outcomes ok_outcome fail_outcome split: if_splits)
qed

lemma found_ids: "x \<in> set (List.map_filter (\<lambda>i. find (\<lambda>d. ds_id d = i) rows) ids) \<Longrightarrow> ds_id x \<in> set ids"
proof -
  assume "x \<in> set (List.map_filter (\<lambda>i. find (\<lambda>d. ds_id d = i) rows) ids)"
  then obtain i where "i \<in> set ids" "find (\<lambda>d. ds_id d = i) rows = Some x"
    by (auto simp: List.map_filter_def)
  then show ?thesis by (auto simp: find_Some_iff)
qed

text \<open>Deleting everything is bounded twice: by the grants, and by the tenant of the dataset's own row.\<close>

lemma deletable_ok:
  assumes "deletable_in_tenant U p t s = (r, s')" and "au_acl U = A"
  shows "unchanged held s' = unchanged held s
    \<and> (\<forall>datasets. r = Inr datasets \<longrightarrow> (\<forall>d \<in> set datasets. ds_id d \<in> held (fst s) p (lit ''delete'') t \<and> ds_tenant_id d = t))"
proof -
  let ?m = "authorized_datasets_in_tenant A p (lit ''delete'') t"
  obtain q k d where run: "?m (fst s, es_db (snd s)) = (q, k, d)" by (cases "?m (fst s, es_db (snd s))") auto
  then have s': "s' = (k, (snd s)\<lparr>es_db := d\<rparr>)" and r: "\<And>x. r = Inr x \<Longrightarrow> q = Inr x"
    using assms(1) by (simp_all add: deletable_in_tenant_def assms(2) within_def map_err_def split: sum.splits)
  obtain ids0 k1 where ids: "acl_ids_in_tenant A p (lit ''delete'') t (fst s) = (ids0, k1)" by fastforce
  note kept = ids_in_tenant_reads [OF ids]
  show ?thesis
  proof (cases ids0)
    case (Inl e)
    with run ids have "q = Inl e" "k = k1" "d = es_db (snd s)"
      by (auto simp: authorized_datasets_in_tenant_def and_then_def within_def)
    with kept show ?thesis by (auto simp: s' unchanged_def dest!: r)
  next
    case (Inr ids')
    let ?k = "\<lambda>found. ok (filter (\<lambda>ds. ds_tenant_id ds = t) found)"
    have run: "(if ids' = [] then ok [] else and_then (beside_acl (get_datasets_by_ids ids')) ?k) (k1, es_db (snd s)) = (q, k, d)"
      using run by (simp add: authorized_datasets_in_tenant_def and_then_def [of "within _ _ (acl_ids_in_tenant _ _ _ _)"] within_def ids Inr)
    have reads: "reads_only (get_datasets_by_ids ids')" by (rule relational_reads)
    show ?thesis
    proof (cases "ids' = []")
      case True
      with run have "q = Inr []" "k = k1" "d = es_db (snd s)" by (auto simp: ok_def)
      with kept show ?thesis by (auto simp: s' unchanged_def dest!: r)
    next
      case False
      obtain f d1 where f: "get_datasets_by_ids ids' (es_db (snd s)) = (f, d1)" by (rule prod.exhaust)
      with run False have "(q, k, d) = (case f of Inl e \<Rightarrow> (Inl e, k1, d1)
          | Inr found \<Rightarrow> (Inr (filter (\<lambda>ds. ds_tenant_id ds = t) found), k1, d1))"
        by (cases f) (auto simp: and_then_def within_def ok_def)
      then have q: "k = k1" "d = d1" "q = Inr x \<Longrightarrow> \<exists>found. f = Inr found \<and> x = filter (\<lambda>ds. ds_tenant_id ds = t) found" for x
        by (simp_all split: sum.splits)
      have "ds_id x \<in> set ids'" if "f = Inr found" "x \<in> set found" for found x
        using f that by (auto simp: get_datasets_by_ids_def outcomes dest!: found_ids)
      then have "\<forall>x \<in> set datasets. ds_id x \<in> set ids' \<and> ds_tenant_id x = t" if "q = Inr datasets" for datasets
        using q(3) [OF that] by auto
      moreover have "db_tables d1 = db_tables (es_db (snd s))"
        using reads f by (rule reads_same)
      ultimately show ?thesis
        using kept q(1,2) ids_in_tenant [OF ids [unfolded Inr]] by (auto simp: s' unchanged_def dest!: r)
    qed
  qed
qed

text \<open>Whatever the request: what is deleted lies in the caller's grants.\<close>

lemma authorized_spares:
  assumes "authorized_execute U request p t (k, w) = (r, (k', w'))" and "au_acl U = A"
    and "undisturbed (held k p (lit ''delete'') t) (au_inner U)"
    and "\<And>ids. set (sv_hash_order (au_inner U) ids) \<subseteq> set ids"
  shows "spares (held k p (lit ''delete'') t) w w' \<and> held k' = held k"
proof -
  let ?D = "held k p (lit ''delete'') t"
  have loop: "evolves (spares ?D) (execute_datasets_by_id (au_inner U) mode mem ids)" if "set ids \<subseteq> ?D" for ids mode mem
    unfolding execute_datasets_by_id_def by (rule datasets_from_spares [OF assms(3) that])
  have by_id: "spares ?D w w' \<and> held k' = held k"
    if "and_then (authorize U request p t) (\<lambda>rq. beside_acl (execute (au_inner U) rq)) (k, w) = (r, (k', w'))"
    using that
  proof (rule checked_then)
    show "unchanged held s' = unchanged held (k, w)" if "authorize U request p t (k, w) = (z, s')" for z s'
      using evolvesD [OF authorize_reads [OF assms(2)] that] by (simp add: same_view_def)
    show "evolves (spares ?D) (execute (au_inner U) rq)" if "authorize U request p t (k, w) = (Inr rq, s')" for rq s'
      using authorize_ok [OF that assms(2)] by (intro execute_spares assms(3,4)) simp
  qed
  show ?thesis
  proof (cases "rq_scope request")
    case (UserScope ow st)
    show ?thesis
    proof (rule checked_then [OF assms(1) [unfolded authorized_execute_def UserScope delete_scope.case]])
      show "evolves (spares ?D) (execute_datasets_by_id (au_inner U) (rq_mode request) (rq_memory_only request) ids)"
        if "covered_user_datasets U p t ow st (k, w) = (Inr ids, s')" for ids s'
        using covered_ok [OF that assms(2)] by (intro loop) simp
    qed (use covered_ok [OF _ assms(2)] in blast)
  next
    case AllScope
    show ?thesis
    proof (rule checked_then [OF assms(1) [unfolded authorized_execute_def AllScope delete_scope.case]])
      show "evolves (spares ?D) (execute_datasets_by_id (au_inner U) (rq_mode request) (rq_memory_only request) (map ds_id datasets))"
        if "deletable_in_tenant U p t (k, w) = (Inr datasets, s')" for datasets s'
        using deletable_ok [OF that assms(2)] by (intro loop) auto
    qed (use deletable_ok [OF _ assms(2)] in blast)
  qed (use assms(1) by_id in \<open>simp_all add: authorized_execute_def\<close>)
qed

end


section \<open>Properties of authorized deletes\<close>

text \<open>
  C2: an authorized delete, whatever its scope, mode and outcome, touches no row of a dataset on
  which the caller does not hold \<open>delete\<close> in its tenant: its data rows with their markers, its row in
  \<open>datasets\<close>, its ledger nodes and edges and its pipeline runs are as they were; and no grant changes.
  The access store keeps its documented contract, tasks the delete waits for leave those rows
  alone, and ids are primary keys.
\<close>

theorem authorized_delete_within_grants:
  assumes "acl_contract (au_acl U) held" and "authorized_execute U request user tenant (k, w) = (r, (k', w'))"
    and "ds \<notin> held k user (lit ''delete'') tenant"
    and "undisturbed (held k user (lit ''delete'') tenant) (au_inner U)"
    and "\<And>ids. mset (sv_hash_order (au_inner U) ids) = mset ids"
    and "data_keyed (led w)" and "edges_keyed (led w)"
  shows "(\<forall>q \<in> set (data_of (rel w)). d_dataset_id q = Some ds \<longrightarrow> q \<in> set (data_of (rel w')))
    \<and> (\<forall>d \<in> set (datasets_of (rel w)). ds_id d = ds \<longrightarrow> d \<in> set (datasets_of (rel w')))
    \<and> (\<forall>n \<in> set (l_nodes (led w)). g_dataset_id n = ds \<longrightarrow> n \<in> set (l_nodes (led w')))
    \<and> (\<forall>e \<in> set (l_edges (led w)). g_dataset_id e = ds \<longrightarrow> e \<in> set (l_edges (led w')))
    \<and> (\<forall>p \<in> set (rt_runs (rl_runs (rel w))). pr_dataset_id p = Some ds \<longrightarrow> p \<in> set (rt_runs (rl_runs (rel w'))))
    \<and> held k' = held k"
proof -
  have "set (sv_hash_order (au_inner U) ids) \<subseteq> set ids" for ids
    using assms(5) mset_eq_setD by blast
  from acl_contract.authorized_spares [OF assms(1,2) refl assms(4) this]
  have "spares (held k user (lit ''delete'') tenant) w w'" and "held k' = held k" by simp_all
  with assms(3,6,7) show ?thesis unfolding spares_def rel_spared_def by blast
qed

text \<open>User 1 was granted dataset 9 and asks for everything: dataset 8 stays.\<close>

definition sample_acl :: mock_acl where
  "sample_acl = mock_acl_new\<lparr>ma_grants := [(1, 9, lit ''delete''), (2, 8, lit ''delete'')]\<rparr>"

definition sample_authorized :: "(mock_acl, graph_mem, nat brute_force, mock_files, unit) authorized_service" where
  "sample_authorized = \<lparr>au_inner = sample_service, au_acl = mock_acl_db\<rparr>"

lemma sample_held: "mock_held sample_acl 1 (lit ''delete'') None = {9}"
  by (auto simp: mock_held_def sample_acl_def mock_acl_new_def inherited_principals_def memberships_def Let_def)

theorem authorized_delete_within_grants_witness:
  "\<exists>r k' w'. authorized_execute sample_authorized \<lparr>rq_scope = AllScope, rq_mode = Hard, rq_memory_only = False\<rparr> 1 None
       (sample_acl, sample_estate []) = (r, (k', w')) \<and> sample_dataset 8 \<in> set (datasets_of (rel w'))"
proof -
  obtain r k' w' where x: "authorized_execute sample_authorized \<lparr>rq_scope = AllScope, rq_mode = Hard, rq_memory_only = False\<rparr>
      1 None (sample_acl, sample_estate []) = (r, (k', w'))" by (metis surj_pair)
  have "8 \<notin> mock_held sample_acl 1 (lit ''delete'') None" unfolding sample_held by simp
  moreover have "undisturbed D (au_inner sample_authorized)" for D
    by (simp add: undisturbed_def sample_authorized_def memory_service_def)
  moreover have "mset (sv_hash_order (au_inner sample_authorized) ids) = mset ids" for ids
    by (simp add: sample_authorized_def memory_service_def)
  moreover have "data_keyed (led (sample_estate []))" "edges_keyed (led (sample_estate []))"
    by (simp_all add: sample_relational_def sample_estate_def data_keyed_def edges_keyed_def)
  moreover have "acl_contract (au_acl sample_authorized) mock_held"
    by (simp add: sample_authorized_def mock_acl.acl_contract_axioms)
  ultimately have "d \<in> set (datasets_of (rel w'))"
    if "d \<in> set (datasets_of (rel (sample_estate [])))" "ds_id d = 8" for d
    using authorized_delete_within_grants [OF _ x, of mock_held 8] that by blast
  moreover have "sample_dataset 8 \<in> set (datasets_of (rel (sample_estate [])))" "ds_id (sample_dataset 8) = 8"
    by (simp_all add: sample_estate_def sample_relational_def sample_dataset_def)
  ultimately show ?thesis using x by blast
qed

fun scope_dataset :: "delete_scope \<Rightarrow> uuid option" where
  "scope_dataset (DatasetById ds) = Some ds"
| "scope_dataset (DataInDataset ds _ _) = Some ds"
| "scope_dataset _ = None"

text \<open>
  C11: a by-id delete of a dataset the caller holds no \<open>delete\<close> on fails, with the denial or with the
  access store's own error, and has changed nothing: not the database, nor the stores, nor a file.
  Whether the dataset exists plays no part in the answer.
\<close>

theorem delete_without_grant_denied:
  assumes "acl_contract (au_acl U) held" and "scope_dataset (rq_scope request) = Some ds"
    and "ds \<notin> held k user (lit ''delete'') tenant"
    and "authorized_execute U request user tenant (k, w) = (r, (k', w'))"
  shows "w' = w \<and> held k' = held k \<and> (\<exists>msg. r = Inl (Runtime msg) \<or> r = Inl (PermissionDenied
           (lit ''Principal '' @ sv_str (au_inner U) user @ lit '' does not have '' @ [39] @ lit ''delete'' @ [39]
             @ lit '' permission on dataset '' @ sv_str (au_inner U) ds)))"
proof -
  obtain b k1 where c: "acl_has_in_tenant (au_acl U) user ds (lit ''delete'') tenant k = (b, k1)" by fastforce
  have "b \<noteq> Inr True" using acl_contract.has_in_tenant [OF assms(1), of user ds "lit ''delete''" tenant k] c assms(3) by auto
  with c acl_contract.has_in_tenant_reads [OF assms(1) c] assms(2,4) show ?thesis
    by (cases "rq_scope request"; cases b)
      (auto simp: authorized_execute_def authorize_def check_authorization_def require_delete_permission_def
        and_then_def within_def map_err_def fail_def)
qed

theorem delete_without_grant_denied_witness:
  "\<exists>r k'. authorized_execute sample_authorized \<lparr>rq_scope = DatasetById 8, rq_mode = Soft, rq_memory_only = True\<rparr> 1 None
       (sample_acl, sample_estate []) = (r, (k', sample_estate []))"
proof -
  obtain r k' w' where x: "authorized_execute sample_authorized \<lparr>rq_scope = DatasetById 8, rq_mode = Soft, rq_memory_only = True\<rparr>
      1 None (sample_acl, sample_estate []) = (r, (k', w'))" by (metis surj_pair)
  have "acl_contract (au_acl sample_authorized) mock_held"
    by (simp add: sample_authorized_def mock_acl.acl_contract_axioms)
  moreover have "8 \<notin> mock_held sample_acl 1 (lit ''delete'') None" unfolding sample_held by simp
  ultimately have "w' = sample_estate []"
    using delete_without_grant_denied [OF _ _ _ x] by simp
  with x show ?thesis by blast
qed

text \<open>A scope of another owner or tenant is turned away before anything is looked up.\<close>

lemma foreign_scope_denied:
  assumes "rq_scope request = DatasetScope owner name scope_tenant \<or> rq_scope request = DataScope owner i (Some name) b scope_tenant"
    and "owner \<noteq> user \<or> scope_tenant \<noteq> tenant"
  shows "authorized_execute U request user tenant s = (Inl (PermissionDenied scope_denied), s)"
    and "authorized_preview U request user tenant s = (Inl (PermissionDenied scope_denied), s)"
  using assms
  by (auto simp: authorized_execute_def authorized_preview_def authorize_def require_own_name_scope_def
      require_caller_tenant_def and_then_def fail_def ok_def)

end
