(* ===== verification/Extracted.thy ===== *)
theory Extracted
  imports Provenance Sql "HOL-Library.AList"
begin

text \<open>
  What the language model extracts and what the storage layer makes of it: the graph types of
  \<open>crates/cognify/src/fact_extraction/models.rs\<close>, the entity models of \<open>crates/models/src\<close>, the pair types
  and the list of producers of \<open>crates/cognify/src/graph_integration/types.rs\<close>, and the two
  deduplications beside it (\<open>deduplication.rs\<close>, \<open>db_deduplication.rs\<close>).

  A hash map is an association list: \<open>AList.update\<close> inserts, \<open>map_of\<close> looks up. The order in which the
  code drains one is left open; here it is the order of insertion, and no property speaks of it.
\<close>

section \<open>Extracted graphs\<close>

record knode =
  kn_id :: str
  kn_name :: str
  kn_type :: str
  kn_description :: str

record kedge =
  ke_source :: str
  ke_target :: str
  ke_relationship :: str
  ke_description :: "str option"

record kgraph =
  kg_nodes :: "knode list"
  kg_edges :: "kedge list"

section \<open>Names and ids\<close>

definition generate_node_name :: "(str \<Rightarrow> str) \<Rightarrow> str \<Rightarrow> str" where
  "generate_node_name lower name = replace_char 39 [] (lower name)"

definition generate_edge_name :: "(str \<Rightarrow> str) \<Rightarrow> str \<Rightarrow> str" where
  "generate_edge_name lower name = normalize_identifier lower name"

definition entity_id_for :: "(str \<Rightarrow> str) \<Rightarrow> (str \<Rightarrow> uuid) \<Rightarrow> str \<Rightarrow> uuid" where
  "entity_id_for lower u5 name = data_point_id_for lower u5 (lit ''Entity'') [name]"

definition entity_type_id_for :: "(str \<Rightarrow> str) \<Rightarrow> (str \<Rightarrow> uuid) \<Rightarrow> str \<Rightarrow> uuid" where
  "entity_type_id_for lower u5 name = data_point_id_for lower u5 (lit ''EntityType'') [name]"

definition timestamp_id_for :: "(str \<Rightarrow> str) \<Rightarrow> (str \<Rightarrow> uuid) \<Rightarrow> str \<Rightarrow> uuid" where
  "timestamp_id_for lower u5 timestamp_str = data_point_id_for lower u5 (lit ''Timestamp'') [timestamp_str]"

text \<open>\<open>format!("{source}_{target}_{relationship}")\<close>.\<close>

definition edge_db_key :: "(uuid \<Rightarrow> str) \<Rightarrow> uuid \<Rightarrow> uuid \<Rightarrow> str \<Rightarrow> str" where
  "edge_db_key uuid_str source target relationship =
     uuid_str source @ lit ''_'' @ uuid_str target @ lit ''_'' @ relationship"

section \<open>Storage models\<close>

text \<open>
  What a data point holds beside its id and its provenance; creation times and versions are not
  modelled. A weight is an opaque number, \<open>half\<close> the default 0.5.
\<close>

record 'w body =
  bo_type :: str
  bo_ontology_valid :: bool
  bo_metadata :: "(str \<times> json) list"
  bo_belongs_to_set :: "json list option"
  bo_importance :: "'w option"

type_synonym 'w point = "'w body data_point"

definition point_with_metadata ::
  "(uuid \<Rightarrow> str) \<Rightarrow> 'w \<Rightarrow> uuid \<Rightarrow> str \<Rightarrow> uuid option \<Rightarrow> (str \<times> json) list \<Rightarrow> 'w point" where
  "point_with_metadata uuid_str half i data_type dataset_id metadata =
     \<lparr>dp_id = i, dp_source_pipeline = None, dp_source_task = None, dp_source_user = None, dp_source_node_set = None,
      dp_source_content_hash = None, dp_topological_rank = Some 0,
      dp_payload = \<lparr>bo_type = data_type, bo_ontology_valid = False, bo_metadata = metadata,
        bo_belongs_to_set = map_option (\<lambda>ds. [JString (uuid_str ds)]) dataset_id, bo_importance = Some half\<rparr>\<rparr>"

abbreviation on_body :: "('w body \<Rightarrow> 'w body) \<Rightarrow> 'w point \<Rightarrow> 'w point" where
  "on_body f p \<equiv> p\<lparr>dp_payload := f (dp_payload p)\<rparr>"

definition set_metadata :: "str \<Rightarrow> json \<Rightarrow> 'w point \<Rightarrow> 'w point" where
  "set_metadata key v = on_body (\<lambda>b. b\<lparr>bo_metadata := AList.update key v (bo_metadata b)\<rparr>)"

definition set_ontology_valid :: "bool \<Rightarrow> 'w point \<Rightarrow> 'w point" where
  "set_ontology_valid valid = on_body (\<lambda>b. b\<lparr>bo_ontology_valid := valid\<rparr>)"

definition set_importance :: "'w \<Rightarrow> 'w point \<Rightarrow> 'w point" where
  "set_importance weight = on_body (\<lambda>b. b\<lparr>bo_importance := Some weight\<rparr>)"

record 'w entity =
  ent_base :: "'w point"
  ent_name :: str
  ent_is_a :: "uuid option"
  ent_description :: str

record 'w entity_type =
  ety_base :: "'w point"
  ety_name :: str
  ety_description :: str

record 'w timestamp =
  ti_base :: "'w point"
  ti_timestamp_str :: str

definition index_fields_name :: "(str \<times> json) list" where
  "index_fields_name = [(lit ''index_fields'', JArray [JString (lit ''name'')])]"

definition entity_new ::
  "(str \<Rightarrow> str) \<Rightarrow> (str \<Rightarrow> uuid) \<Rightarrow> (uuid \<Rightarrow> str) \<Rightarrow> 'w \<Rightarrow> str \<Rightarrow> uuid option \<Rightarrow> str \<Rightarrow> uuid option \<Rightarrow> 'w entity" where
  "entity_new lower u5 uuid_str half name entity_type_id description dataset_id =
     \<lparr>ent_base = point_with_metadata uuid_str half (entity_id_for lower u5 name) (lit ''Entity'') dataset_id index_fields_name,
      ent_name = name, ent_is_a = entity_type_id, ent_description = description\<rparr>"

definition entity_from_node ::
  "(str \<Rightarrow> str) \<Rightarrow> (str \<Rightarrow> uuid) \<Rightarrow> (uuid \<Rightarrow> str) \<Rightarrow> 'w \<Rightarrow> str \<Rightarrow> str \<Rightarrow> str \<Rightarrow> uuid \<Rightarrow> uuid option \<Rightarrow> 'w entity" where
  "entity_from_node lower u5 uuid_str half node_id name description entity_type_id dataset_id =
     (let e = entity_new lower u5 uuid_str half name (Some entity_type_id) description dataset_id in
      e\<lparr>ent_base := set_metadata (lit ''original_node_id'') (JString node_id)
                      ((ent_base e)\<lparr>dp_id := entity_id_for lower u5 node_id\<rparr>)\<rparr>)"

definition entity_type_new ::
  "(str \<Rightarrow> str) \<Rightarrow> (str \<Rightarrow> uuid) \<Rightarrow> (uuid \<Rightarrow> str) \<Rightarrow> 'w \<Rightarrow> str \<Rightarrow> str \<Rightarrow> uuid option \<Rightarrow> 'w entity_type" where
  "entity_type_new lower u5 uuid_str half name description dataset_id =
     \<lparr>ety_base = point_with_metadata uuid_str half (entity_type_id_for lower u5 name) (lit ''EntityType'') dataset_id index_fields_name,
      ety_name = name,
      ety_description = (if description = [] then lit ''Entity type: '' @ name else description)\<rparr>"

definition entity_type_from_node_type ::
  "(str \<Rightarrow> str) \<Rightarrow> (str \<Rightarrow> uuid) \<Rightarrow> (uuid \<Rightarrow> str) \<Rightarrow> 'w \<Rightarrow> str \<Rightarrow> uuid option \<Rightarrow> 'w entity_type" where
  "entity_type_from_node_type lower u5 uuid_str half type_name dataset_id =
     entity_type_new lower u5 uuid_str half type_name (lit ''Entity type: '' @ type_name) dataset_id"

definition mark_ontology_valid :: "str option \<Rightarrow> 'w entity_type \<Rightarrow> 'w entity_type" where
  "mark_ontology_valid canonical_name et =
     (let et = et\<lparr>ety_base := set_ontology_valid True (ety_base et)\<rparr> in
      case canonical_name of
        Some canonical \<Rightarrow>
          if canonical \<noteq> ety_name et
          then et\<lparr>ety_base := set_metadata (lit ''original_name'') (JString (ety_name et)) (ety_base et), ety_name := canonical\<rparr>
          else et
      | None \<Rightarrow> et)"

text \<open>The calendar fields of a timestamp are not modelled.\<close>

definition timestamp_new :: "(str \<Rightarrow> str) \<Rightarrow> (str \<Rightarrow> uuid) \<Rightarrow> (uuid \<Rightarrow> str) \<Rightarrow> 'w \<Rightarrow> str \<Rightarrow> 'w timestamp" where
  "timestamp_new lower u5 uuid_str half timestamp_str =
     \<lparr>ti_base = point_with_metadata uuid_str half (timestamp_id_for lower u5 timestamp_str) (lit ''Timestamp'') None
        [(lit ''index_fields'', JArray []), (lit ''identity_fields'', JArray [JString (lit ''timestamp_str'')])],
      ti_timestamp_str = timestamp_str\<rparr>"

section \<open>Pairs and producers\<close>

record 'w node_pair =
  np_entity :: "'w entity"
  np_type :: "'w entity_type option"

record 'w timestamp_node =
  tn_timestamp :: "'w timestamp"
  tn_description :: str

record edge_pair =
  ge_source :: uuid
  ge_target :: uuid
  ge_relationship :: str
  ge_properties :: "(str \<times> str) list"

abbreviation node_id :: "'w node_pair \<Rightarrow> uuid" where
  "node_id p \<equiv> dp_id (ent_base (np_entity p))"

abbreviation timestamp_id :: "'w timestamp_node \<Rightarrow> uuid" where
  "timestamp_id n \<equiv> dp_id (ti_base (tn_timestamp n))"

type_synonym edge_key = "uuid \<times> uuid \<times> str"

definition edge_pair_new :: "uuid \<Rightarrow> uuid \<Rightarrow> str \<Rightarrow> edge_pair" where
  "edge_pair_new source target relationship =
     \<lparr>ge_source = source, ge_target = target, ge_relationship = relationship, ge_properties = []\<rparr>"

definition dedup_key :: "edge_pair \<Rightarrow> edge_key" where
  "dedup_key e = (ge_source e, ge_target e, ge_relationship e)"

definition add_property :: "str \<Rightarrow> str \<Rightarrow> edge_pair \<Rightarrow> edge_pair" where
  "add_property key v e = e\<lparr>ge_properties := AList.update key v (ge_properties e)\<rparr>"

record producers =
  ap_entities :: "(uuid \<times> uuid list) list"
  ap_edges :: "(edge_key \<times> uuid list) list"

definition no_producers :: producers where
  "no_producers = \<lparr>ap_entities = [], ap_edges = []\<rparr>"

text \<open>\<open>entry(key).or_default()\<close>, then push unless present.\<close>

definition record_producer :: "'k \<Rightarrow> uuid \<Rightarrow> ('k \<times> uuid list) list \<Rightarrow> ('k \<times> uuid list) list" where
  "record_producer key chunk_id m =
     (let chunks = (case map_of m key of Some cs \<Rightarrow> cs | None \<Rightarrow> []) in
      AList.update key (if chunk_id \<in> set chunks then chunks else chunks @ [chunk_id]) m)"

definition record_entity :: "uuid \<Rightarrow> uuid \<Rightarrow> producers \<Rightarrow> producers" where
  "record_entity entity_id chunk_id ap = ap\<lparr>ap_entities := record_producer entity_id chunk_id (ap_entities ap)\<rparr>"

definition record_edge :: "edge_key \<Rightarrow> uuid \<Rightarrow> producers \<Rightarrow> producers" where
  "record_edge key chunk_id ap = ap\<lparr>ap_edges := record_producer key chunk_id (ap_edges ap)\<rparr>"

definition entity_chunks :: "producers \<Rightarrow> uuid \<Rightarrow> uuid list" where
  "entity_chunks ap entity_id = (case map_of (ap_entities ap) entity_id of Some cs \<Rightarrow> cs | None \<Rightarrow> [])"

definition edge_chunks :: "producers \<Rightarrow> edge_key \<Rightarrow> uuid list" where
  "edge_chunks ap key = (case map_of (ap_edges ap) key of Some cs \<Rightarrow> cs | None \<Rightarrow> [])"

section \<open>Deduplication\<close>

text \<open>Later entries overwrite earlier ones.\<close>

definition keep_last :: "('a \<Rightarrow> 'k) \<Rightarrow> 'a list \<Rightarrow> ('k \<times> 'a) list" where
  "keep_last key xs = fold (\<lambda>x. AList.update (key x) x) xs []"

definition deduplicate_nodes_and_edges :: "'w node_pair list \<Rightarrow> edge_pair list \<Rightarrow> 'w node_pair list \<times> edge_pair list" where
  "deduplicate_nodes_and_edges nodes edges =
     (map snd (keep_last node_id nodes), map snd (keep_last dedup_key edges))"

definition collect_distinct_candidate_edges ::
  "(str \<Rightarrow> str) \<Rightarrow> (str \<Rightarrow> uuid) \<Rightarrow> (uuid \<Rightarrow> str) \<Rightarrow> kgraph list \<Rightarrow> (str \<times> str \<times> str) list" where
  "collect_distinct_candidate_edges lower u5 uuid_str graphs =
     rev (remdups (rev (map (\<lambda>e. (uuid_str (entity_id_for lower u5 (ke_source e)),
        uuid_str (entity_id_for lower u5 (ke_target e)), ke_relationship e)) (concat (map kg_edges graphs)))))"

text \<open>\<open>has_edges\<close> is the graph store's: of the given edges, those that exist.\<close>

definition retrieve_existing_edges ::
  "(str \<Rightarrow> str) \<Rightarrow> (str \<Rightarrow> uuid) \<Rightarrow> (uuid \<Rightarrow> str) \<Rightarrow> ((str \<times> str \<times> str) list \<Rightarrow> ('g, 'e, (str \<times> str \<times> str) list) action)
   \<Rightarrow> kgraph list \<Rightarrow> ('g, 'e, str list) action" where
  "retrieve_existing_edges lower u5 uuid_str has_edges graphs =
     (let edges_to_check = collect_distinct_candidate_edges lower u5 uuid_str graphs in
      if edges_to_check = [] then ok []
      else and_then (has_edges edges_to_check)
             (\<lambda>existing. ok (remdups (map (\<lambda>(s, t, r). s @ lit ''_'' @ t @ lit ''_'' @ r) existing))))"

section \<open>Lemmas\<close>

lemma map_of_record_producer:
  "map_of (record_producer key c m) k =
     (if k = key then Some (let cs = (case map_of m key of Some cs \<Rightarrow> cs | None \<Rightarrow> []) in
        if c \<in> set cs then cs else cs @ [c]) else map_of m k)"
  by (simp add: record_producer_def Let_def update_conv')

lemma entity_chunks_record:
  "set (entity_chunks (record_entity i c ap) j) = set (entity_chunks ap j) \<union> (if j = i then {c} else {})"
  "entity_chunks (record_edge k c ap) j = entity_chunks ap j"
  by (auto simp: entity_chunks_def record_entity_def record_edge_def map_of_record_producer Let_def)

lemma edge_chunks_record:
  "set (edge_chunks (record_edge k c ap) l) = set (edge_chunks ap l) \<union> (if l = k then {c} else {})"
  "edge_chunks (record_entity i c ap) = edge_chunks ap"
  by (auto simp: fun_eq_iff edge_chunks_def record_entity_def record_edge_def map_of_record_producer Let_def)

lemma record_producer_distinct:
  "\<forall>cs \<in> ran (map_of m). distinct cs \<Longrightarrow> \<forall>cs \<in> ran (map_of (record_producer key c m)). distinct cs"
  by (auto simp: ran_def map_of_record_producer Let_def split: option.splits if_splits)

lemma map_of_keep_last_acc:
  "map_of (fold (\<lambda>x. AList.update (key x) x) xs acc) k =
     (case find (\<lambda>x. key x = k) (rev xs) of Some x \<Rightarrow> Some x | None \<Rightarrow> map_of acc k)"
proof (induction xs arbitrary: acc)
  case (Cons x xs)
  have "find P (ys @ [z]) = (case find P ys of Some y \<Rightarrow> Some y | None \<Rightarrow> if P z then Some z else None)" for P :: "'a \<Rightarrow> bool" and ys z
    by (induction ys) simp_all
  then show ?case by (simp add: Cons.IH update_conv' split: option.split)
qed simp

lemma map_of_keep_last: "map_of (keep_last key xs) k = find (\<lambda>x. key x = k) (rev xs)"
  by (simp add: keep_last_def map_of_keep_last_acc split: option.split)

lemma keep_last_keys: "distinct (map fst (keep_last key xs)) \<and> (\<forall>(k, x) \<in> set (keep_last key xs). key x = k)"
proof -
  have "distinct (map fst (fold (\<lambda>x. AList.update (key x) x) xs acc))
      \<and> (\<forall>(k, x) \<in> set (fold (\<lambda>x. AList.update (key x) x) xs acc). key x = k)"
    if "distinct (map fst acc)" "\<forall>(k, x) \<in> set acc. key x = k" for acc
    using that
  proof (induction xs arbitrary: acc)
    case (Cons x xs)
    have d: "distinct (map fst (AList.update (key x) x acc))" using Cons.prems(1) by (rule distinct_update)
    have "key z = k" if "(k, z) \<in> set (AList.update (key x) x acc)" for k z
      using map_of_is_SomeI [OF d that] Cons.prems(2) by (auto simp: update_conv' dest: map_of_SomeD split: if_splits)
    with Cons.IH [OF d] show ?case by auto
  qed simp
  from this [of "[]"] show ?thesis by (simp add: keep_last_def)
qed

end
