(* ===== verification/Expansion.thy ===== *)
theory Expansion
  imports Extracted
begin

text \<open>
  \<open>crates/cognify/src/graph_integration/expansion.rs\<close>: the graphs that a model extracted from the chunks
  of a run become entities, entity types, timestamps and edges. One pass over the chunks in order;
  node ids and names resolve run-wide, an edge whose endpoint no chunk declared so far is dropped.

  \<open>Timestamp::from_text\<close> (a date parser) and the ontology are parameters; a panic of an \<open>expect\<close> is \<open>None\<close>.
\<close>

section \<open>The ontology\<close>

datatype node_category = Classes | Individuals

record ontology_node =
  on_uri :: str
  on_name :: str
  on_category :: node_category

type_synonym ontology_edge = "str \<times> str \<times> str"

record ontology_resolver =
  or_is_loaded :: bool
  or_get_subgraph :: "str \<Rightarrow> str \<Rightarrow> bool \<Rightarrow> str + (ontology_node list \<times> ontology_edge list \<times> ontology_node option)"

section \<open>State of the pass\<close>

text \<open>\<open>xe_time_period text\<close> is the normalized string of the time that \<open>text\<close> names, if it names one.\<close>

record 'w expansion_env =
  xe_lower :: "str \<Rightarrow> str"
  xe_u5 :: "str \<Rightarrow> uuid"
  xe_uuid_str :: "uuid \<Rightarrow> str"
  xe_half :: 'w
  xe_dataset :: uuid
  xe_chunk_sets :: "uuid \<Rightarrow> json list option"
  xe_weights :: "uuid \<Rightarrow> 'w option"
  xe_existing :: "str list"
  xe_ontology :: ontology_resolver
  xe_user_label :: "str option"
  xe_task_rank :: "int option"
  xe_time_period :: "str \<Rightarrow> str option"

record edge_stats =
  es_attempted :: nat
  es_by_id :: nat
  es_by_name :: nat
  es_by_id_cross :: nat
  es_by_name_cross :: nat
  es_max_distance :: nat
  es_source_missing :: nat
  es_target_missing :: nat
  es_ambiguous :: nat

definition no_stats :: edge_stats where
  "no_stats = \<lparr>es_attempted = 0, es_by_id = 0, es_by_name = 0, es_by_id_cross = 0, es_by_name_cross = 0,
     es_max_distance = 0, es_source_missing = 0, es_target_missing = 0, es_ambiguous = 0\<rparr>"

definition dropped :: "edge_stats \<Rightarrow> nat" where
  "dropped st = es_source_missing st + es_target_missing st + es_ambiguous st"

definition resolved_cross_chunk :: "edge_stats \<Rightarrow> nat" where
  "resolved_cross_chunk st = es_by_id_cross st + es_by_name_cross st"

definition widen_cross_chunk_distance :: "nat \<Rightarrow> nat \<Rightarrow> edge_stats \<Rightarrow> edge_stats" where
  "widen_cross_chunk_distance origin position st = st\<lparr>es_max_distance := max (es_max_distance st) (position - origin)\<rparr>"

definition record_resolved_by_id :: "nat \<Rightarrow> nat \<Rightarrow> edge_stats \<Rightarrow> edge_stats" where
  "record_resolved_by_id origin position st =
     (let st = st\<lparr>es_by_id := es_by_id st + 1\<rparr> in
      if origin \<noteq> position
      then widen_cross_chunk_distance origin position (st\<lparr>es_by_id_cross := es_by_id_cross st + 1\<rparr>) else st)"

definition record_resolved_by_name :: "nat \<Rightarrow> nat \<Rightarrow> edge_stats \<Rightarrow> edge_stats" where
  "record_resolved_by_name origin position st =
     (let st = st\<lparr>es_by_name := es_by_name st + 1\<rparr> in
      if origin \<noteq> position
      then widen_cross_chunk_distance origin position (st\<lparr>es_by_name_cross := es_by_name_cross st + 1\<rparr>) else st)"

text \<open>
  A registry entry is an entity and the position of the chunk that declared it last. An alias that
  two entities claim is \<open>None\<close>. Timestamps are kept in the order of their first declaration.
\<close>

type_synonym id_registry = "(str \<times> uuid \<times> nat) list"
type_synonym alias_registry = "(str \<times> (uuid \<times> nat) option) list"

record 'w expansion_state =
  xs_nodes :: "(str \<times> 'w node_pair) list"
  xs_edges :: "(edge_key \<times> edge_pair) list"
  xs_types :: "(str \<times> 'w entity_type) list"
  xs_claimed :: "(edge_key \<times> edge_pair) list"
  xs_producers :: producers
  xs_ids :: id_registry
  xs_names :: alias_registry
  xs_timestamps :: "(uuid \<times> 'w timestamp_node) list"
  xs_stats :: edge_stats
  xs_key_mapping :: "(str \<times> str) list"
  xs_onto_types :: "(str \<times> 'w entity_type) list"
  xs_onto_entities :: "(str \<times> 'w node_pair) list"
  xs_onto_edge_keys :: "str list"
  xs_onto_edges :: "edge_pair list"
  xs_visited :: "uuid set"

definition expansion_start :: "'w expansion_state" where
  "expansion_start = \<lparr>xs_nodes = [], xs_edges = [], xs_types = [], xs_claimed = [], xs_producers = no_producers,
     xs_ids = [], xs_names = [], xs_timestamps = [], xs_stats = no_stats, xs_key_mapping = [], xs_onto_types = [],
     xs_onto_entities = [], xs_onto_edge_keys = [], xs_onto_edges = [], xs_visited = {}\<rparr>"

abbreviation knows :: "'k \<Rightarrow> ('k \<times> 'a) list \<Rightarrow> bool" where
  "knows k m \<equiv> map_of m k \<noteq> None"

section \<open>Names and endpoints\<close>

datatype endpoint = ById uuid nat | ByName uuid nat | Ambiguous | Missing

definition register_name_alias ::
  "(str \<Rightarrow> str) \<Rightarrow> str \<Rightarrow> uuid \<Rightarrow> str \<Rightarrow> nat \<Rightarrow> alias_registry \<Rightarrow> alias_registry" where
  "register_name_alias lower raw_name entity_id id_key position aliases =
     (let key = normalize_identifier lower raw_name in
      if key = [] \<or> key = id_key then aliases
      else AList.update key
        (case map_of aliases key of
           Some (Some (i, origin)) \<Rightarrow> if i = entity_id then Some (i, position) else None
         | Some None \<Rightarrow> None
         | None \<Rightarrow> Some (entity_id, position)) aliases)"

definition refresh_name_alias_origin :: "(str \<Rightarrow> str) \<Rightarrow> str \<Rightarrow> uuid \<Rightarrow> nat \<Rightarrow> alias_registry \<Rightarrow> alias_registry" where
  "refresh_name_alias_origin lower raw_name entity_id position aliases =
     (let key = normalize_identifier lower raw_name in
      case map_of aliases key of
        Some (Some (i, origin)) \<Rightarrow> if i = entity_id then AList.update key (Some (i, position)) aliases else aliases
      | _ \<Rightarrow> aliases)"

definition resolve_endpoint :: "(str \<Rightarrow> str) \<Rightarrow> id_registry \<Rightarrow> alias_registry \<Rightarrow> str \<Rightarrow> endpoint" where
  "resolve_endpoint lower by_id by_name raw =
     (let key = normalize_identifier lower raw in
      case map_of by_id key of
        Some (entity, origin) \<Rightarrow> ById entity origin
      | None \<Rightarrow> (case map_of by_name key of
                   Some (Some (entity, origin)) \<Rightarrow> ByName entity origin
                 | Some None \<Rightarrow> Ambiguous
                 | None \<Rightarrow> Missing))"

section \<open>Stamping and identities\<close>

definition extraction_context :: "'w expansion_env \<Rightarrow> provenance_context" where
  "extraction_context E = \<lparr>pv_pipeline_name = lit ''cognify_pipeline'', pv_task_name = lit ''extract_graph_from_data'',
     pv_user_label = xe_user_label E, pv_node_set = None, pv_content_hash = None, pv_task_rank = xe_task_rank E\<rparr>"

text \<open>None of the stamped models owns another point.\<close>

definition pre_stamp :: "'w expansion_env \<Rightarrow> 'w point \<Rightarrow> uuid set \<Rightarrow> 'w point \<times> uuid set" where
  "pre_stamp E p visited = (case stamp_tree (extraction_context E) (DP p []) visited of (t, v) \<Rightarrow> (root t, v))"

definition without_duplicate_node_ids :: "kgraph \<Rightarrow> kgraph" where
  "without_duplicate_node_ids graph =
     graph\<lparr>kg_nodes := rev (fold (\<lambda>n seen. if kn_id n \<in> kn_id ` set seen then seen else n # seen) (kg_nodes graph) [])\<rparr>"

text \<open>Nodes of one chunk with one name are told apart by an ordinal, in an order that ignores the model's own.\<close>

definition ids_of_group :: "'w expansion_env \<Rightarrow> uuid \<Rightarrow> uuid \<times> knode list \<Rightarrow> (str \<times> uuid) list" where
  "ids_of_group E chunk_id g =
     (case g of (name_based, members) \<Rightarrow>
        (case members of
           [only] \<Rightarrow> [(kn_id only, name_based)]
         | _ \<Rightarrow> map (\<lambda>(ordinal, n). (kn_id n, data_point_id_for (xe_lower E) (xe_u5 E) (lit ''Entity'')
                     [kn_name n, xe_uuid_str E chunk_id, decimal ordinal]))
                (enumerate 1 (sort_key (\<lambda>n. (generate_node_name (xe_lower E) (kn_type n),
                   generate_node_name (xe_lower E) (kn_description n), generate_node_name (xe_lower E) (kn_id n))) members))))"

definition entity_ids_by_node_id :: "'w expansion_env \<Rightarrow> kgraph \<Rightarrow> uuid \<Rightarrow> (str \<times> uuid) list" where
  "entity_ids_by_node_id E graph chunk_id =
     (let name_based = (\<lambda>n. entity_id_for (xe_lower E) (xe_u5 E) (kn_name n));
          order = rev (remdups (rev (map name_based (kg_nodes graph))));
          groups = map (\<lambda>i. (i, filter (\<lambda>n. name_based n = i) (kg_nodes graph))) order in
      fold (\<lambda>(k, i). AList.update k i) (concat (map (ids_of_group E chunk_id) groups)) [])"

definition is_timestamp_type :: "(str \<Rightarrow> str) \<Rightarrow> str \<Rightarrow> bool" where
  "is_timestamp_type lower node_type = (generate_node_name lower node_type = lit ''timestamp'')"


section \<open>Ontology nodes and edges\<close>

definition ontology_class :: "'w expansion_env \<Rightarrow> 'w \<Rightarrow> str \<Rightarrow> uuid set \<Rightarrow> 'w entity_type \<times> uuid set" where
  "ontology_class E weight name visited =
     (let normalized = generate_node_name (xe_lower E) name;
          et = entity_type_new (xe_lower E) (xe_u5 E) (xe_uuid_str E) (xe_half E) normalized normalized (Some (xe_dataset E));
          base = set_importance weight (set_ontology_valid True
                   ((ety_base et)\<lparr>dp_id := entity_type_id_for (xe_lower E) (xe_u5 E) name\<rparr>));
          (base, visited) = pre_stamp E base visited in
      (et\<lparr>ety_base := base\<rparr>, visited))"

definition ontology_individual :: "'w expansion_env \<Rightarrow> 'w \<Rightarrow> str \<Rightarrow> uuid set \<Rightarrow> 'w node_pair \<times> uuid set" where
  "ontology_individual E weight name visited =
     (let normalized = generate_node_name (xe_lower E) name;
          e = entity_new (xe_lower E) (xe_u5 E) (xe_uuid_str E) (xe_half E) normalized None normalized (Some (xe_dataset E));
          base = set_importance weight (set_ontology_valid True
                   ((ent_base e)\<lparr>dp_id := entity_id_for (xe_lower E) (xe_u5 E) name\<rparr>));
          (base, visited) = pre_stamp E base visited;
          et = entity_type_new (xe_lower E) (xe_u5 E) (xe_uuid_str E) (xe_half E) (lit ''OntologyIndividual'') [] (Some (xe_dataset E));
          (type_base, visited) = pre_stamp E
            ((ety_base et)\<lparr>dp_id := entity_type_id_for (xe_lower E) (xe_u5 E) (lit ''OntologyIndividual'')\<rparr>) visited in
      (\<lparr>np_entity = e\<lparr>ent_base := base\<rparr>, np_type = Some (et\<lparr>ety_base := type_base\<rparr>)\<rparr>, visited))"

definition process_ontology_node ::
  "'w expansion_env \<Rightarrow> 'w \<Rightarrow> ontology_node \<Rightarrow> 'w expansion_state \<Rightarrow> 'w expansion_state" where
  "process_ontology_node E weight n s =
     (case on_category n of
        Classes \<Rightarrow>
          (let i = entity_type_id_for (xe_lower E) (xe_u5 E) (on_name n);
               dedup = xe_uuid_str E i @ lit ''_type'' in
           if knows (generate_node_name (xe_lower E) (on_name n) @ lit ''_type'') (xs_types s)
              \<or> knows dedup (xs_onto_types s) \<or> knows (xe_uuid_str E i @ lit ''_entity'') (xs_nodes s)
           then s
           else (case ontology_class E weight (on_name n) (xs_visited s) of
                   (et, visited) \<Rightarrow> s\<lparr>xs_onto_types := AList.update dedup et (xs_onto_types s), xs_visited := visited\<rparr>))
      | Individuals \<Rightarrow>
          (let dedup = xe_uuid_str E (entity_id_for (xe_lower E) (xe_u5 E) (on_name n)) @ lit ''_entity'' in
           if knows dedup (xs_nodes s) \<or> knows dedup (xs_onto_entities s) then s
           else (case ontology_individual E weight (on_name n) (xs_visited s) of
                   (p, visited) \<Rightarrow> s\<lparr>xs_onto_entities := AList.update dedup p (xs_onto_entities s), xs_visited := visited\<rparr>)))"

definition process_ontology_nodes ::
  "'w expansion_env \<Rightarrow> 'w \<Rightarrow> ontology_node list \<Rightarrow> 'w expansion_state \<Rightarrow> 'w expansion_state" where
  "process_ontology_nodes E weight ns = fold (process_ontology_node E weight) ns"

text \<open>An endpoint that names a class of the given nodes is that class, any other an individual.\<close>

definition ontology_endpoint :: "'w expansion_env \<Rightarrow> ontology_node list \<Rightarrow> str \<Rightarrow> uuid" where
  "ontology_endpoint E ns name =
     (let is_class = map_of (rev (map (\<lambda>n. (generate_edge_name (xe_lower E) (on_name n), on_category n = Classes)) ns)) in
      if is_class (generate_edge_name (xe_lower E) name) = Some True
      then entity_type_id_for (xe_lower E) (xe_u5 E) name else entity_id_for (xe_lower E) (xe_u5 E) name)"

definition process_ontology_edge ::
  "'w expansion_env \<Rightarrow> ontology_node list \<Rightarrow> ontology_edge \<Rightarrow> 'w expansion_state \<Rightarrow> 'w expansion_state" where
  "process_ontology_edge E ns e s =
     (case e of (source, relation, target) \<Rightarrow>
        let source_id = ontology_endpoint E ns source; target_id = ontology_endpoint E ns target;
            rel_name = generate_edge_name (xe_lower E) relation;
            key = edge_db_key (xe_uuid_str E) source_id target_id rel_name in
        if key \<in> set (xe_existing E) \<or> key \<in> set (xs_onto_edge_keys s) then s
        else s\<lparr>xs_onto_edge_keys := xs_onto_edge_keys s @ [key],
               xs_onto_edges := xs_onto_edges s @
                 [fold (\<lambda>(k, v). add_property k v)
                    [(lit ''ontology_valid'', lit ''true''), (lit ''relationship_name'', rel_name),
                     (lit ''source_node_id'', xe_uuid_str E source_id), (lit ''target_node_id'', xe_uuid_str E target_id)]
                    (edge_pair_new source_id target_id rel_name)]\<rparr>)"

definition process_ontology_edges ::
  "'w expansion_env \<Rightarrow> ontology_node list \<Rightarrow> ontology_edge list \<Rightarrow> 'w expansion_state \<Rightarrow> 'w expansion_state" where
  "process_ontology_edges E ns edges = fold (process_ontology_edge E ns) edges"

section \<open>Declaring nodes\<close>

definition take_timestamp ::
  "'w expansion_env \<Rightarrow> uuid \<Rightarrow> nat \<Rightarrow> 'w \<Rightarrow> knode \<Rightarrow> str \<Rightarrow> 'w expansion_state \<Rightarrow> 'w expansion_state" where
  "take_timestamp E chunk_id position weight n timestamp_str s =
     (let timestamp = timestamp_new (xe_lower E) (xe_u5 E) (xe_uuid_str E) (xe_half E) timestamp_str;
          i = dp_id (ti_base timestamp);
          s = (if knows i (xs_timestamps s) then s
               else (case pre_stamp E (set_importance weight (ti_base timestamp)) (xs_visited s) of
                       (base, visited) \<Rightarrow>
                         s\<lparr>xs_timestamps := xs_timestamps s @ [(i, \<lparr>tn_timestamp = timestamp\<lparr>ti_base := base\<rparr>,
                             tn_description = kn_description n\<rparr>)], xs_visited := visited\<rparr>));
          id_key = normalize_identifier (xe_lower E) (kn_id n);
          by_name = register_name_alias (xe_lower E) (kn_name n) i id_key position (xs_names s);
          registered = (case map_of (xs_timestamps s) i of
                          Some t \<Rightarrow> register_name_alias (xe_lower E) (ti_timestamp_str (tn_timestamp t)) i id_key position by_name
                        | None \<Rightarrow> by_name);
          names = (case map_of (xs_ids s) id_key of
                     Some (e, origin) \<Rightarrow>
                       if e = i then refresh_name_alias_origin (xe_lower E) (kn_name n) i position (xs_names s) else registered
                   | None \<Rightarrow> registered);
          s = s\<lparr>xs_ids := AList.update id_key (i, position) (xs_ids s), xs_names := names\<rparr> in
      s\<lparr>xs_producers := record_entity i chunk_id (xs_producers s)\<rparr>)"

definition effective_key :: "'w expansion_state \<Rightarrow> str \<Rightarrow> str" where
  "effective_key s type_key = (case map_of (xs_key_mapping s) type_key of Some k \<Rightarrow> k | None \<Rightarrow> type_key)"

definition put_type :: "str \<Rightarrow> 'w entity_type \<Rightarrow> 'w expansion_state \<Rightarrow> 'w expansion_state" where
  "put_type key et s = s\<lparr>xs_types := AList.update key et (xs_types s)\<rparr>"

text \<open>A type seen for the first time: the ontology may give it its canonical name, and a subgraph.\<close>

definition new_type ::
  "'w expansion_env \<Rightarrow> 'w \<Rightarrow> knode \<Rightarrow> str \<Rightarrow> 'w expansion_state \<Rightarrow> 'w expansion_state" where
  "new_type E weight n type_key s =
     (let effective = effective_key s type_key;
          et = entity_type_from_node_type (xe_lower E) (xe_u5 E) (xe_uuid_str E) (xe_half E)
                 (generate_node_name (xe_lower E) (kn_type n)) (Some (xe_dataset E));
          (base, visited) = pre_stamp E (set_importance weight (ety_base et)) (xs_visited s);
          et = et\<lparr>ety_base := base\<rparr>;
          s = s\<lparr>xs_visited := visited\<rparr> in
      if or_is_loaded (xe_ontology E)
      then (case or_get_subgraph (xe_ontology E) (kn_type n) (lit ''classes'') True of
              Inr (onto_nodes, onto_edges, Some root_node) \<Rightarrow>
                (let canonical = generate_node_name (xe_lower E) (on_name root_node);
                     et = mark_ontology_valid (Some canonical) et;
                     et = et\<lparr>ety_base := (ety_base et)\<lparr>dp_id := entity_type_id_for (xe_lower E) (xe_u5 E) canonical\<rparr>\<rparr>;
                     new_key = canonical @ lit ''_type'';
                     s = (if new_key \<noteq> type_key then s\<lparr>xs_key_mapping := AList.update type_key new_key (xs_key_mapping s)\<rparr> else s);
                     s = process_ontology_edges E (onto_nodes @ [root_node]) onto_edges (process_ontology_nodes E weight onto_nodes s) in
                 put_type (if new_key \<noteq> type_key then new_key else effective) et s)
            | _ \<Rightarrow> put_type effective et s)
      else put_type effective et s)"

text \<open>A type whose name is blank is no type.\<close>

definition type_for ::
  "'w expansion_env \<Rightarrow> 'w \<Rightarrow> knode \<Rightarrow> 'w expansion_state \<Rightarrow> ('w entity_type option \<times> 'w expansion_state) option" where
  "type_for E weight n s =
     (let normalized = generate_node_name (xe_lower E) (kn_type n) in
      if trim normalized = [] then Some (None, s)
      else (let type_key = normalized @ lit ''_type'';
                s = (if knows (effective_key s type_key) (xs_types s) then s else new_type E weight n type_key s) in
            case map_of (xs_types s) (effective_key s type_key) of
              Some et \<Rightarrow> Some (Some et, s)
            | None \<Rightarrow> None))"

definition create_entity_node ::
  "'w expansion_env \<Rightarrow> knode \<Rightarrow> uuid \<Rightarrow> 'w entity_type option \<Rightarrow> uuid \<Rightarrow> 'w \<Rightarrow> 'w node_pair" where
  "create_entity_node E n entity_id et chunk_id weight =
     (let e = entity_new (xe_lower E) (xe_u5 E) (xe_uuid_str E) (xe_half E) (generate_node_name (xe_lower E) (kn_name n))
                (map_option (\<lambda>t. dp_id (ety_base t)) et) (kn_description n) (Some (xe_dataset E));
          base = (ent_base e)\<lparr>dp_id := entity_id\<rparr>;
          base = set_metadata (lit ''original_node_id'') (JString (kn_id n)) base;
          base = set_metadata (lit ''chunk_id'') (JString (xe_uuid_str E chunk_id)) base;
          base = set_importance weight base;
          base = (case xe_chunk_sets E chunk_id of
                    Some sets \<Rightarrow> on_body (\<lambda>b. b\<lparr>bo_belongs_to_set := Some (fold (\<lambda>x xs. if x \<in> set xs then xs else xs @ [x]) sets
                        (case bo_belongs_to_set b of Some xs \<Rightarrow> xs | None \<Rightarrow> []))\<rparr>) base
                  | None \<Rightarrow> base) in
      \<lparr>np_entity = e\<lparr>ent_base := base\<rparr>, np_type = et\<rparr>)"

text \<open>An entity that the ontology knows takes its canonical name and id; its subgraph is taken in later.\<close>

definition canonical_entity ::
  "'w expansion_env \<Rightarrow> knode \<Rightarrow> 'w node_pair \<Rightarrow> 'w node_pair \<times> (ontology_node list \<times> ontology_edge list) option" where
  "canonical_entity E n p =
     (if \<not> or_is_loaded (xe_ontology E) then (p, None)
      else (case or_get_subgraph (xe_ontology E) (kn_name n) (lit ''individuals'') True of
              Inr (ns, es, Some root_individual) \<Rightarrow>
                (let canonical = generate_node_name (xe_lower E) (on_name root_individual); e = np_entity p;
                     base = set_metadata (lit ''original_name'') (JString (ent_name e)) (ent_base e);
                     base = set_ontology_valid True (base\<lparr>dp_id := entity_id_for (xe_lower E) (xe_u5 E) canonical\<rparr>) in
                 (p\<lparr>np_entity := e\<lparr>ent_name := canonical, ent_base := base\<rparr>\<rparr>, Some (ns, es)))
            | _ \<Rightarrow> (p, None)))"

definition new_entity ::
  "'w expansion_env \<Rightarrow> uuid \<Rightarrow> nat \<Rightarrow> 'w \<Rightarrow> knode \<Rightarrow> uuid \<Rightarrow> 'w entity_type option \<Rightarrow> str
   \<Rightarrow> 'w expansion_state \<Rightarrow> 'w expansion_state" where
  "new_entity E chunk_id position weight n entity_id et entity_key s =
     (let p = create_entity_node E n entity_id et chunk_id weight;
          (base, visited) = pre_stamp E (ent_base (np_entity p)) (xs_visited s);
          (p, deferred) = canonical_entity E n (p\<lparr>np_entity := (np_entity p)\<lparr>ent_base := base\<rparr>\<rparr>);
          i = node_id p; id_key = normalize_identifier (xe_lower E) (kn_id n);
          names = register_name_alias (xe_lower E) (kn_name n) i id_key position (xs_names s);
          names = register_name_alias (xe_lower E) (ent_name (np_entity p)) i id_key position names;
          s = s\<lparr>xs_visited := visited, xs_names := names, xs_ids := AList.update id_key (i, position) (xs_ids s),
                xs_nodes := AList.update entity_key p (xs_nodes s)\<rparr> in
      case deferred of
        Some (ns, es) \<Rightarrow> process_ontology_edges E ns es (process_ontology_nodes E weight ns s)
      | None \<Rightarrow> s)"

text \<open>On every declaration: the node id means this entity from here on, and the chunk is a producer of it.\<close>

definition register_declaration ::
  "'w expansion_env \<Rightarrow> uuid \<Rightarrow> nat \<Rightarrow> knode \<Rightarrow> 'w node_pair \<Rightarrow> 'w expansion_state \<Rightarrow> 'w expansion_state" where
  "register_declaration E chunk_id position n p s =
     (let i = node_id p; id_key = normalize_identifier (xe_lower E) (kn_id n);
          names = (case map_of (xs_ids s) id_key of
                     Some (e, origin) \<Rightarrow> if e = i then xs_names s
                       else register_name_alias (xe_lower E) (kn_name n) i id_key position (xs_names s)
                   | None \<Rightarrow> register_name_alias (xe_lower E) (kn_name n) i id_key position (xs_names s));
          names = refresh_name_alias_origin (xe_lower E) (kn_name n) i position names;
          names = refresh_name_alias_origin (xe_lower E) (ent_name (np_entity p)) i position names in
      s\<lparr>xs_ids := AList.update id_key (i, position) (xs_ids s), xs_names := names,
        xs_producers := record_entity i chunk_id (xs_producers s)\<rparr>)"

definition declare_entity ::
  "'w expansion_env \<Rightarrow> uuid \<Rightarrow> nat \<Rightarrow> 'w \<Rightarrow> (str \<times> uuid) list \<Rightarrow> knode \<Rightarrow> 'w expansion_state \<Rightarrow> 'w expansion_state option" where
  "declare_entity E chunk_id position weight entity_ids n s =
     (case type_for E weight n s of
        None \<Rightarrow> None
      | Some (et, s) \<Rightarrow>
          (case map_of entity_ids (kn_id n) of
             None \<Rightarrow> None
           | Some entity_id \<Rightarrow>
               (let entity_key = xe_uuid_str E entity_id @ lit ''_entity'';
                    s = (if knows entity_key (xs_nodes s) then s
                         else new_entity E chunk_id position weight n entity_id et entity_key s) in
                case map_of (xs_nodes s) entity_key of
                  None \<Rightarrow> None
                | Some p \<Rightarrow> Some (register_declaration E chunk_id position n p s))))"

definition declare_node ::
  "'w expansion_env \<Rightarrow> uuid \<Rightarrow> nat \<Rightarrow> 'w \<Rightarrow> (str \<times> uuid) list \<Rightarrow> knode \<Rightarrow> 'w expansion_state \<Rightarrow> 'w expansion_state option" where
  "declare_node E chunk_id position weight entity_ids n s =
     (case (if is_timestamp_type (xe_lower E) (kn_type n) then xe_time_period E (kn_name n) else None) of
        Some timestamp_str \<Rightarrow> Some (take_timestamp E chunk_id position weight n timestamp_str s)
      | None \<Rightarrow> declare_entity E chunk_id position weight entity_ids n s)"


section \<open>Edges\<close>

definition count_resolved :: "nat \<Rightarrow> endpoint \<Rightarrow> edge_stats \<Rightarrow> edge_stats" where
  "count_resolved position r st =
     (case r of
        ById entity origin \<Rightarrow> record_resolved_by_id origin position st
      | ByName entity origin \<Rightarrow> record_resolved_by_name origin position st
      | _ \<Rightarrow> st)"

definition entity_of :: "endpoint \<Rightarrow> uuid option" where
  "entity_of r = (case r of ById entity _ \<Rightarrow> Some entity | ByName entity _ \<Rightarrow> Some entity | _ \<Rightarrow> None)"

text \<open>Both ends resolved, or the edge is counted as dropped.\<close>

definition resolve_edge ::
  "'w expansion_env \<Rightarrow> nat \<Rightarrow> kedge \<Rightarrow> 'w expansion_state \<Rightarrow> (uuid \<times> uuid) option \<times> edge_stats" where
  "resolve_edge E position e s =
     (let st = (xs_stats s)\<lparr>es_attempted := es_attempted (xs_stats s) + 1\<rparr>;
          source = resolve_endpoint (xe_lower E) (xs_ids s) (xs_names s) (ke_source e) in
      case entity_of source of
        None \<Rightarrow> (None, if source = Ambiguous then st\<lparr>es_ambiguous := es_ambiguous st + 1\<rparr>
                       else st\<lparr>es_source_missing := es_source_missing st + 1\<rparr>)
      | Some source_id \<Rightarrow>
          (let st = count_resolved position source st;
               target = resolve_endpoint (xe_lower E) (xs_ids s) (xs_names s) (ke_target e) in
           case entity_of target of
             None \<Rightarrow> (None, if target = Ambiguous then st\<lparr>es_ambiguous := es_ambiguous st + 1\<rparr>
                            else st\<lparr>es_target_missing := es_target_missing st + 1\<rparr>)
           | Some target_id \<Rightarrow> (Some (source_id, target_id), count_resolved position target st)))"

text \<open>Timestamps are leaves: an edge drawn from one is turned round, an edge between two is dropped.\<close>

definition oriented :: "'w expansion_state \<Rightarrow> uuid \<times> uuid \<Rightarrow> (uuid \<times> uuid) option" where
  "oriented s ends =
     (case ends of (source, target) \<Rightarrow>
        if knows source (xs_timestamps s)
        then (if knows target (xs_timestamps s) then None else Some (target, source))
        else Some (source, target))"

definition extracted_edge :: "'w expansion_env \<Rightarrow> kedge \<Rightarrow> uuid \<Rightarrow> uuid \<Rightarrow> edge_pair" where
  "extracted_edge E e source target =
     (let edge_text = (case map_option trim (ke_description e) of Some t \<Rightarrow> t | None \<Rightarrow> []) in
      fold (\<lambda>(k, v). add_property k v)
        [(lit ''relationship_name'', ke_relationship e), (lit ''source_node_id'', xe_uuid_str E source),
         (lit ''target_node_id'', xe_uuid_str E target), (lit ''ontology_valid'', lit ''false''),
         (lit ''edge_text'', edge_text)]
        (edge_pair_new source target (ke_relationship e)))"

text \<open>An edge that is in the graph already is only claimed, any other is written.\<close>

definition put_edge ::
  "'w expansion_env \<Rightarrow> uuid \<Rightarrow> kedge \<Rightarrow> uuid \<times> uuid \<Rightarrow> 'w expansion_state \<Rightarrow> 'w expansion_state" where
  "put_edge E chunk_id e ends s =
     (case ends of (source, target) \<Rightarrow>
        let already_in_graph = edge_db_key (xe_uuid_str E) source target (ke_relationship e) \<in> set (xe_existing E);
            key = (source, target, ke_relationship e);
            s = s\<lparr>xs_producers := record_edge key chunk_id (xs_producers s)\<rparr> in
        if already_in_graph
        then (if knows key (xs_claimed s) then s
              else s\<lparr>xs_claimed := AList.update key (extracted_edge E e source target) (xs_claimed s)\<rparr>)
        else (if knows key (xs_edges s) then s
              else s\<lparr>xs_edges := AList.update key (extracted_edge E e source target) (xs_edges s)\<rparr>))"

definition take_edge :: "'w expansion_env \<Rightarrow> uuid \<Rightarrow> nat \<Rightarrow> kedge \<Rightarrow> 'w expansion_state \<Rightarrow> 'w expansion_state" where
  "take_edge E chunk_id position e s =
     (case resolve_edge E position e s of
        (ends, st) \<Rightarrow>
          (let s = s\<lparr>xs_stats := st\<rparr> in
           case Option.bind ends (oriented s) of Some ends \<Rightarrow> put_edge E chunk_id e ends s | None \<Rightarrow> s))"

section \<open>The pass\<close>

fun declare_nodes ::
  "'w expansion_env \<Rightarrow> uuid \<Rightarrow> nat \<Rightarrow> 'w \<Rightarrow> (str \<times> uuid) list \<Rightarrow> knode list \<Rightarrow> 'w expansion_state \<Rightarrow> 'w expansion_state option" where
  "declare_nodes E chunk_id position weight entity_ids [] s = Some s"
| "declare_nodes E chunk_id position weight entity_ids (n # ns) s =
     Option.bind (declare_node E chunk_id position weight entity_ids n s) (declare_nodes E chunk_id position weight entity_ids ns)"

definition expand_graph :: "'w expansion_env \<Rightarrow> nat \<Rightarrow> uuid \<times> kgraph \<Rightarrow> 'w expansion_state \<Rightarrow> 'w expansion_state option" where
  "expand_graph E position g s =
     (case g of (chunk_id, graph) \<Rightarrow>
        let weight = (case xe_weights E chunk_id of Some x \<Rightarrow> x | None \<Rightarrow> xe_half E);
            graph = without_duplicate_node_ids graph in
        map_option (fold (take_edge E chunk_id position) (kg_edges graph))
          (declare_nodes E chunk_id position weight (entity_ids_by_node_id E graph chunk_id) (kg_nodes graph) s))"

fun expand_graphs ::
  "'w expansion_env \<Rightarrow> nat \<Rightarrow> (uuid \<times> kgraph) list \<Rightarrow> 'w expansion_state \<Rightarrow> 'w expansion_state option" where
  "expand_graphs E position [] s = Some s"
| "expand_graphs E position (g # gs) s = Option.bind (expand_graph E position g s) (expand_graphs E (position + 1) gs)"

record 'w expansion =
  xr_nodes :: "'w node_pair list"
  xr_edges :: "edge_pair list"
  xr_claimed :: "edge_pair list"
  xr_producers :: producers
  xr_stats :: edge_stats
  xr_timestamps :: "'w timestamp_node list"

definition type_node :: "'w expansion_env \<Rightarrow> 'w entity_type \<Rightarrow> 'w node_pair" where
  "type_node E et =
     \<lparr>np_entity = entity_from_node (xe_lower E) (xe_u5 E) (xe_uuid_str E) (xe_half E) (ety_name et) (ety_name et)
        (lit ''Ontology-derived type: '' @ ety_name et) (dp_id (ety_base et)) (Some (xe_dataset E)),
      np_type = Some et\<rparr>"

definition expansion_of :: "'w expansion_env \<Rightarrow> 'w expansion_state \<Rightarrow> 'w expansion" where
  "expansion_of E s =
     \<lparr>xr_nodes = map snd (xs_nodes s) @ map (\<lambda>(_, et). type_node E et) (xs_onto_types s) @ map snd (xs_onto_entities s),
      xr_edges = map snd (xs_edges s) @ xs_onto_edges s, xr_claimed = map snd (xs_claimed s),
      xr_producers = xs_producers s, xr_stats = xs_stats s, xr_timestamps = map snd (xs_timestamps s)\<rparr>"

definition expand_extracted_graphs :: "'w expansion_env \<Rightarrow> (uuid \<times> kgraph) list \<Rightarrow> 'w expansion option" where
  "expand_extracted_graphs E graphs = map_option (expansion_of E) (expand_graphs E 0 graphs expansion_start)"

text \<open>The variant for callers without timestamps: edges that touch one are left out.\<close>

definition expand_with_nodes_and_edges_with_stats ::
  "'w expansion_env \<Rightarrow> (uuid \<times> kgraph) list \<Rightarrow> ('w node_pair list \<times> edge_pair list \<times> edge_pair list \<times> producers \<times> edge_stats) option" where
  "expand_with_nodes_and_edges_with_stats E graphs =
     map_option (\<lambda>x. let ids = timestamp_id ` set (xr_timestamps x);
                          untimed = filter (\<lambda>e. ge_source e \<notin> ids \<and> ge_target e \<notin> ids) in
                      (xr_nodes x, untimed (xr_edges x), untimed (xr_claimed x), xr_producers x, xr_stats x))
       (expand_extracted_graphs E graphs)"

definition expand_with_nodes_and_edges ::
  "'w expansion_env \<Rightarrow> (uuid \<times> kgraph) list \<Rightarrow> ('w node_pair list \<times> edge_pair list \<times> edge_pair list \<times> producers) option" where
  "expand_with_nodes_and_edges E graphs =
     map_option (\<lambda>(nodes, edges, claimed, ap, _). (nodes, edges, claimed, ap)) (expand_with_nodes_and_edges_with_stats E graphs)"


section \<open>Maps that only grow\<close>

lemma update_new: "map_of m k = None \<Longrightarrow> AList.update k v m = m @ [(k, v)]"
  by (induction m) (auto split: if_splits)

lemma knows_update: "knows j (AList.update k v m) \<longleftrightarrow> j = k \<or> knows j m"
  by (simp add: update_conv')

text \<open>The ontology touches nothing but its own collections.\<close>

definition core :: "'w expansion_state \<Rightarrow> 'w expansion_state" where
  "core s = s\<lparr>xs_onto_types := [], xs_onto_entities := [], xs_onto_edge_keys := [], xs_onto_edges := [], xs_visited := {}\<rparr>"

lemma core_node: "core (process_ontology_node E weight n s) = core s"
  by (simp add: process_ontology_node_def core_def Let_def split: node_category.split prod.split)

lemma core_nodes: "core (process_ontology_nodes E weight ns s) = core s"
  unfolding process_ontology_nodes_def by (induction ns arbitrary: s) (simp_all add: core_node)

lemma core_edge: "core (process_ontology_edge E ns e s) = core s"
  by (simp add: process_ontology_edge_def core_def Let_def split: prod.split)

lemma core_edges: "core (process_ontology_edges E ns es s) = core s"
  unfolding process_ontology_edges_def by (induction es arbitrary: s) (simp_all add: core_edge)

lemma core_fields:
  assumes "core s = core t"
  shows "xs_nodes s = xs_nodes t" "xs_edges s = xs_edges t" "xs_types s = xs_types t" "xs_claimed s = xs_claimed t"
    "xs_producers s = xs_producers t" "xs_ids s = xs_ids t" "xs_names s = xs_names t" "xs_timestamps s = xs_timestamps t"
    "xs_stats s = xs_stats t" "xs_key_mapping s = xs_key_mapping t"
  using assms by (cases s; cases t; simp add: core_def)+

lemmas ontology_frame [simp] =
  core_fields [OF core_nodes] core_fields [OF core_edges]

text \<open>The edges the ontology adds say so.\<close>

definition marked :: "str \<Rightarrow> edge_pair \<Rightarrow> bool" where
  "marked flag e \<longleftrightarrow> map_of (ge_properties e) (lit ''ontology_valid'') = Some flag"

lemma onto_edges_marked:
  assumes "\<forall>e \<in> set (xs_onto_edges s). marked (lit ''true'') e"
  shows "\<forall>e \<in> set (xs_onto_edges (process_ontology_edges E ns es s)). marked (lit ''true'') e"
  unfolding process_ontology_edges_def using assms
proof (induction es arbitrary: s)
  case (Cons x es)
  have "\<forall>e \<in> set (xs_onto_edges (process_ontology_edge E ns x s)). marked (lit ''true'') e"
    using Cons.prems
    by (auto simp: process_ontology_edge_def Let_def marked_def add_property_def edge_pair_new_def update_conv' lit_def split: prod.split)
  then show ?case using Cons.IH by simp
qed simp

lemma onto_edges_nodes [simp]: "xs_onto_edges (process_ontology_nodes E weight ns s) = xs_onto_edges s"
proof -
  have "xs_onto_edges (process_ontology_node E weight n s) = xs_onto_edges s" for n s
    by (simp add: process_ontology_node_def Let_def split: node_category.split prod.split)
  then show ?thesis unfolding process_ontology_nodes_def by (induction ns arbitrary: s) simp_all
qed

section \<open>What a declaration changes\<close>

definition known :: "'w expansion_state \<Rightarrow> uuid set" where
  "known s = node_id ` snd ` set (xs_nodes s) \<union> fst ` set (xs_timestamps s)"

text \<open>Registries name known entities, at positions no later than the present one.\<close>

definition registered :: "nat \<Rightarrow> uuid set \<Rightarrow> id_registry \<Rightarrow> alias_registry \<Rightarrow> bool" where
  "registered position K ids names \<longleftrightarrow>
     (\<forall>k i origin. map_of ids k = Some (i, origin) \<longrightarrow> i \<in> K \<and> origin \<le> position)
   \<and> (\<forall>k i origin. map_of names k = Some (Some (i, origin)) \<longrightarrow> i \<in> K \<and> origin \<le> position)"

lemma registered_mono: "registered p K ids names \<Longrightarrow> K \<subseteq> K' \<Longrightarrow> p \<le> p' \<Longrightarrow> registered p' K' ids names"
  unfolding registered_def by (meson le_trans subsetD)

lemma registered_id: "registered p K ids names \<Longrightarrow> i \<in> K \<Longrightarrow> registered p K (AList.update k (i, p) ids) names"
  by (auto simp: registered_def update_conv')

lemma registered_alias:
  "registered p K ids names \<Longrightarrow> i \<in> K \<Longrightarrow> registered p K ids (register_name_alias lower raw i idk p names)"
  by (auto simp: registered_def register_name_alias_def Let_def update_conv' split: option.splits prod.splits if_splits)

lemma registered_refresh:
  "registered p K ids names \<Longrightarrow> i \<in> K \<Longrightarrow> registered p K ids (refresh_name_alias_origin lower raw i p names)"
  by (auto simp: registered_def refresh_name_alias_origin_def Let_def update_conv' split: option.splits prod.splits if_splits)

lemmas registered_rules = registered_id registered_alias registered_refresh

lemma resolved_known:
  "registered p K ids names \<Longrightarrow> entity_of (resolve_endpoint lower ids names raw) = Some i \<Longrightarrow> i \<in> K"
  by (auto simp: registered_def resolve_endpoint_def entity_of_def Let_def split: option.splits prod.splits)


section \<open>Types\<close>

text \<open>A remapped key leads to a type, so looking one up after it was seen cannot fail.\<close>

definition mapped :: "'w expansion_state \<Rightarrow> bool" where
  "mapped s \<longleftrightarrow> (\<forall>k v. map_of (xs_key_mapping s) k = Some v \<longrightarrow> knows v (xs_types s))"

definition flagged :: "'w expansion_state \<Rightarrow> bool" where
  "flagged s \<longleftrightarrow> (\<forall>e \<in> set (xs_onto_edges s). marked (lit ''true'') e)"

definition beside_types where
  "beside_types s = (xs_nodes s, xs_edges s, xs_claimed s, xs_producers s, xs_ids s, xs_names s, xs_timestamps s, xs_stats s)"

lemma put_type_fields [simp]:
  "xs_types (put_type k et s) = AList.update k et (xs_types s)" "xs_key_mapping (put_type k et s) = xs_key_mapping s"
  "xs_onto_edges (put_type k et s) = xs_onto_edges s" "beside_types (put_type k et s) = beside_types s"
  by (simp_all add: put_type_def beside_types_def)

lemma beside_types_frame [simp]:
  "beside_types (process_ontology_nodes E weight ns s) = beside_types s" "beside_types (process_ontology_edges E ns es s) = beside_types s"
  "beside_types (s\<lparr>xs_visited := v\<rparr>) = beside_types s" "beside_types (s\<lparr>xs_key_mapping := m\<rparr>) = beside_types s"
  by (simp_all add: beside_types_def)

lemma flagged_rules:
  "flagged s \<Longrightarrow> flagged (process_ontology_edges E ns es s)" "flagged (process_ontology_nodes E weight ns s) = flagged s"
  "flagged (put_type k et s) = flagged s" "flagged (s\<lparr>xs_visited := v\<rparr>) = flagged s" "flagged (s\<lparr>xs_key_mapping := m\<rparr>) = flagged s"
  by (simp_all add: flagged_def onto_edges_marked)

lemma new_type_cases:
  obtains (kept) et visited where "new_type E weight n type_key s = put_type (effective_key s type_key) et (s\<lparr>xs_visited := visited\<rparr>)"
  | (canonical) et visited new_key ns es r where "new_type E weight n type_key s =
        put_type (if new_key \<noteq> type_key then new_key else effective_key s type_key) et
          (process_ontology_edges E (ns @ [r]) es (process_ontology_nodes E weight ns
             (if new_key \<noteq> type_key
              then s\<lparr>xs_visited := visited, xs_key_mapping := AList.update type_key new_key (xs_key_mapping s)\<rparr>
              else s\<lparr>xs_visited := visited\<rparr>)))"
proof -
  obtain base visited where stamped: "pre_stamp E (set_importance weight (ety_base (entity_type_from_node_type (xe_lower E) (xe_u5 E)
      (xe_uuid_str E) (xe_half E) (generate_node_name (xe_lower E) (kn_type n)) (Some (xe_dataset E))))) (xs_visited s) = (base, visited)"
    by fastforce
  show thesis
  proof (cases "or_is_loaded (xe_ontology E)")
    case False
    with stamped show thesis by (rule_tac kept) (simp add: new_type_def Let_def)
  next
    case True
    show thesis
    proof (cases "or_get_subgraph (xe_ontology E) (kn_type n) (lit ''classes'') True")
      case (Inl e)
      with True stamped show thesis by (rule_tac kept) (simp add: new_type_def Let_def)
    next
      case (Inr x)
      obtain ns es r where "x = (ns, es, r)" by (cases x)
      with Inr True stamped show thesis
        by (cases r) (auto intro: kept canonical simp: new_type_def Let_def)
    qed
  qed
qed

lemma new_type_frame: "beside_types (new_type E weight n type_key s) = beside_types s"
  by (cases rule: new_type_cases [of E weight n type_key s]) simp_all

lemma new_type_flagged: "flagged s \<Longrightarrow> flagged (new_type E weight n type_key s)"
  by (cases rule: new_type_cases [of E weight n type_key s]) (simp_all add: flagged_rules)

lemma new_type_mapped:
  assumes "mapped s" and "\<not> knows (effective_key s type_key) (xs_types s)"
  shows "mapped (new_type E weight n type_key s)"
    and "knows (effective_key (new_type E weight n type_key s) type_key) (xs_types (new_type E weight n type_key s))"
proof -
  have none: "map_of (xs_key_mapping s) type_key = None"
  proof (cases "map_of (xs_key_mapping s) type_key")
    case (Some v)
    then have "effective_key s type_key = v" by (simp add: effective_key_def)
    moreover have "knows v (xs_types s)" using assms(1) Some unfolding mapped_def by blast
    ultimately show ?thesis using assms(2) by simp
  qed
  then have same: "effective_key s type_key = type_key" by (simp add: effective_key_def)
  show "mapped (new_type E weight n type_key s)"
    by (cases rule: new_type_cases [of E weight n type_key s])
      (use assms(1) in \<open>auto simp: mapped_def update_conv'\<close>)
  show "knows (effective_key (new_type E weight n type_key s) type_key) (xs_types (new_type E weight n type_key s))"
    by (cases rule: new_type_cases [of E weight n type_key s])
      (simp_all add: effective_key_def none same update_conv')
qed

lemma type_for_ok:
  assumes "mapped s" and "flagged s"
  obtains et s' where "type_for E weight n s = Some (et, s')" and "mapped s'" and "flagged s'" and "beside_types s' = beside_types s"
proof -
  let ?k = "generate_node_name (xe_lower E) (kn_type n) @ lit ''_type''"
  define s' where "s' = (if knows (effective_key s ?k) (xs_types s) then s else new_type E weight n ?k s)"
  have ok: "mapped s'" "flagged s'" "beside_types s' = beside_types s" and "knows (effective_key s' ?k) (xs_types s')"
    using assms new_type_mapped [OF assms(1)] new_type_flagged [OF assms(2)] new_type_frame by (auto simp: s'_def)
  then obtain et where et: "map_of (xs_types s') (effective_key s' ?k) = Some et" by blast
  show thesis
  proof (cases "trim (generate_node_name (xe_lower E) (kn_type n)) = []")
    case True
    then show thesis using that assms by (simp add: type_for_def)
  next
    case False
    then have "type_for E weight n s = Some (Some et, s')"
      unfolding type_for_def Let_def s'_def [symmetric] by (simp add: et)
    then show thesis using ok by (rule that)
  qed
qed

section \<open>Ids within a chunk\<close>

lemma fold_update_knows: "knows k (fold (\<lambda>(k, i). AList.update k i) xs m) \<longleftrightarrow> knows k m \<or> k \<in> fst ` set xs"
  by (induction xs arbitrary: m) (auto simp: update_conv')

lemma ids_of_group_keys: "fst ` set (ids_of_group E c (i, members)) = kn_id ` set members"
proof (cases "\<exists>x. members = [x]")
  case False
  let ?sorted = "sort_key (\<lambda>n. (generate_node_name (xe_lower E) (kn_type n),
       generate_node_name (xe_lower E) (kn_description n), generate_node_name (xe_lower E) (kn_id n))) members"
  have keys: "map fst (ids_of_group E c (i, members)) = map (\<lambda>(_, n). kn_id n) (enumerate 1 ?sorted)"
    using False by (auto simp: ids_of_group_def comp_def case_prod_beta split: list.split)
  have "map (\<lambda>(_, n). kn_id n) (enumerate k xs) = map kn_id xs" for k and xs :: "knode list"
    by (induction xs arbitrary: k) simp_all
  with keys have "set (map fst (ids_of_group E c (i, members))) = kn_id ` set ?sorted" by simp
  then show ?thesis by simp
qed (auto simp: ids_of_group_def)

lemma entity_ids_cover:
  assumes "n \<in> set (kg_nodes graph)"
  shows "knows (kn_id n) (entity_ids_by_node_id E graph c)"
proof -
  let ?name = "\<lambda>n. entity_id_for (xe_lower E) (xe_u5 E) (kn_name n)"
  have "kn_id n \<in> fst ` set (ids_of_group E c (?name n, filter (\<lambda>m. ?name m = ?name n) (kg_nodes graph)))"
    using assms by (auto simp: ids_of_group_keys)
  with assms show ?thesis
    unfolding entity_ids_by_node_id_def Let_def fold_update_knows by (auto simp: image_UN)
qed


section \<open>Invariant of the pass\<close>

definition wf_nodes :: "'w expansion_env \<Rightarrow> uuid set \<Rightarrow> nat \<Rightarrow> 'w expansion_state \<Rightarrow> bool" where
  "wf_nodes E C position s \<longleftrightarrow>
     registered position (known s) (xs_ids s) (xs_names s)
   \<and> (\<forall>(i, t) \<in> set (xs_timestamps s). timestamp_id t = i)
   \<and> (\<forall>i. set (entity_chunks (xs_producers s) i) \<subseteq> C) \<and> (\<forall>i \<in> known s. entity_chunks (xs_producers s) i \<noteq> [])
   \<and> (\<not> or_is_loaded (xe_ontology E) \<longrightarrow>
        (\<forall>(k, p) \<in> set (xs_nodes s). k = xe_uuid_str E (node_id p) @ lit ''_entity''))
   \<and> mapped s \<and> flagged s"

text \<open>What a declaration leaves as it was, or only adds to.\<close>

definition declares :: "'w expansion_state \<Rightarrow> 'w expansion_state \<Rightarrow> bool" where
  "declares s s' \<longleftrightarrow>
     set (xs_nodes s) \<subseteq> set (xs_nodes s') \<and> set (xs_timestamps s) \<subseteq> set (xs_timestamps s')
   \<and> xs_edges s' = xs_edges s \<and> xs_claimed s' = xs_claimed s \<and> xs_stats s' = xs_stats s
   \<and> (\<forall>i. set (entity_chunks (xs_producers s) i) \<subseteq> set (entity_chunks (xs_producers s') i))
   \<and> edge_chunks (xs_producers s') = edge_chunks (xs_producers s)"

lemma declares_refl [simp]: "declares s s"
  by (simp add: declares_def)

lemma declares_trans: "declares s t \<Longrightarrow> declares t u \<Longrightarrow> declares s u"
  unfolding declares_def by (auto, meson subsetD)

lemma declares_known: "declares s s' \<Longrightarrow> known s \<subseteq> known s'"
  by (auto simp: declares_def known_def)

text \<open>Chunk \<open>c\<close> is on record as a producer of what node \<open>n\<close> of it became.\<close>

definition owned_by_chunk ::
  "'w expansion_env \<Rightarrow> (str \<times> uuid) list \<Rightarrow> uuid \<Rightarrow> knode \<Rightarrow> 'w node_pair list \<Rightarrow> 'w timestamp_node list \<Rightarrow> producers \<Rightarrow> bool" where
  "owned_by_chunk E entity_ids c n nodes timestamps ap \<longleftrightarrow>
     (case (if is_timestamp_type (xe_lower E) (kn_type n) then xe_time_period E (kn_name n) else None) of
        Some ts \<Rightarrow> (\<exists>t \<in> set timestamps. timestamp_id t = timestamp_id_for (xe_lower E) (xe_u5 E) ts
                      \<and> c \<in> set (entity_chunks ap (timestamp_id t)))
      | None \<Rightarrow> (\<exists>p \<in> set nodes. c \<in> set (entity_chunks ap (node_id p))
                   \<and> (\<not> or_is_loaded (xe_ontology E) \<longrightarrow>
                        (\<exists>i. map_of entity_ids (kn_id n) = Some i \<and> xe_uuid_str E (node_id p) = xe_uuid_str E i))))"

lemma owned_by_chunk_mono:
  assumes "owned_by_chunk E ids c n nodes timestamps ap"
    and "set nodes \<subseteq> set nodes'" and "set timestamps \<subseteq> set timestamps'"
    and "\<And>i. set (entity_chunks ap i) \<subseteq> set (entity_chunks ap' i)"
  shows "owned_by_chunk E ids c n nodes' timestamps' ap'"
proof (cases "if is_timestamp_type (xe_lower E) (kn_type n) then xe_time_period E (kn_name n) else None")
  case None
  with assms show ?thesis unfolding owned_by_chunk_def None option.case by blast
next
  case (Some ts)
  with assms show ?thesis unfolding owned_by_chunk_def Some option.case by blast
qed

abbreviation owned_in :: "'w expansion_env \<Rightarrow> (str \<times> uuid) list \<Rightarrow> uuid \<Rightarrow> knode \<Rightarrow> 'w expansion_state \<Rightarrow> bool" where
  "owned_in E ids c n s \<equiv> owned_by_chunk E ids c n (map snd (xs_nodes s)) (map snd (xs_timestamps s)) (xs_producers s)"

lemma owned_in_mono: "owned_in E ids c n s \<Longrightarrow> declares s s' \<Longrightarrow> owned_in E ids c n s'"
  by (erule owned_by_chunk_mono) (auto simp: declares_def)

lemma pre_stamp_id [simp]: "dp_id (fst (pre_stamp E p visited)) = dp_id p"
  by (auto simp: pre_stamp_def stamp_point_def Let_def split: prod.splits)

lemma body_id [simp]:
  "dp_id (set_metadata k v q) = dp_id q" "dp_id (set_importance x q) = dp_id q" "dp_id (set_ontology_valid b q) = dp_id q"
  by (simp_all add: set_metadata_def set_importance_def set_ontology_valid_def)

lemma entity_chunks_self: "c \<in> set (entity_chunks (record_entity i c ap) i)"
  by (simp add: entity_chunks_record)

text \<open>A point with a producer keeps having producers of \<open>C\<close> when one of \<open>C\<close> is added.\<close>

lemma producers_step:
  assumes "\<forall>j \<in> K. entity_chunks ap j \<noteq> [] \<and> set (entity_chunks ap j) \<subseteq> C" and "c \<in> C"
    and "K' \<subseteq> insert i K" and "\<And>j. j \<notin> K \<Longrightarrow> set (entity_chunks ap j) \<subseteq> C"
  shows "\<forall>j \<in> K'. entity_chunks (record_entity i c ap) j \<noteq> [] \<and> set (entity_chunks (record_entity i c ap) j) \<subseteq> C"
proof
  fix j assume "j \<in> K'"
  then have "j = i \<or> j \<in> K" using assms(3) by blast
  moreover have "set (entity_chunks ap j) \<subseteq> C" using assms(1,4) by blast
  ultimately show "entity_chunks (record_entity i c ap) j \<noteq> [] \<and> set (entity_chunks (record_entity i c ap) j) \<subseteq> C"
    using assms(1,2) entity_chunks_record(1) [of i c ap j] by (auto simp flip: set_empty)
qed


section \<open>Declarations keep the invariant\<close>

lemma wf_nodesD:
  assumes "wf_nodes E C position s"
  shows "registered position (known s) (xs_ids s) (xs_names s)" "mapped s" "flagged s"
    "\<And>i t. (i, t) \<in> set (xs_timestamps s) \<Longrightarrow> timestamp_id t = i"
    "\<forall>i \<in> known s. entity_chunks (xs_producers s) i \<noteq> [] \<and> set (entity_chunks (xs_producers s) i) \<subseteq> C"
    "\<And>i. set (entity_chunks (xs_producers s) i) \<subseteq> C"
    "\<And>k p. \<not> or_is_loaded (xe_ontology E) \<Longrightarrow> (k, p) \<in> set (xs_nodes s) \<Longrightarrow> k = xe_uuid_str E (node_id p) @ lit ''_entity''"
  using assms by (auto simp: wf_nodes_def)

lemma take_timestamp_fields:
  fixes E :: "'w expansion_env" and ts :: str
  defines "i \<equiv> timestamp_id_for (xe_lower E) (xe_u5 E) ts"
  shows "xs_nodes (take_timestamp E c position weight n ts s) = xs_nodes s"
    and "xs_edges (take_timestamp E c position weight n ts s) = xs_edges s"
    and "xs_claimed (take_timestamp E c position weight n ts s) = xs_claimed s"
    and "xs_stats (take_timestamp E c position weight n ts s) = xs_stats s"
    and "xs_types (take_timestamp E c position weight n ts s) = xs_types s"
    and "xs_key_mapping (take_timestamp E c position weight n ts s) = xs_key_mapping s"
    and "xs_onto_edges (take_timestamp E c position weight n ts s) = xs_onto_edges s"
    and "xs_producers (take_timestamp E c position weight n ts s) = record_entity i c (xs_producers s)"
    and "\<exists>t. timestamp_id t = i \<and> xs_timestamps (take_timestamp E c position weight n ts s) =
           (if knows i (xs_timestamps s) then xs_timestamps s else xs_timestamps s @ [(i, t)])"
    and "registered position K (xs_ids s) (xs_names s) \<Longrightarrow> i \<in> K \<Longrightarrow>
         registered position K (xs_ids (take_timestamp E c position weight n ts s)) (xs_names (take_timestamp E c position weight n ts s))"
proof -
  have stamped: "\<exists>base v. pre_stamp E p visited = (base, v) \<and> dp_id base = dp_id p" for p and visited :: "uuid set"
    using pre_stamp_id [of E p visited] by (cases "pre_stamp E p visited") auto
  have fresh: "dp_id (ti_base (timestamp_new (xe_lower E) (xe_u5 E) (xe_uuid_str E) (xe_half E) ts)) = i"
    by (simp add: i_def timestamp_new_def point_with_metadata_def)
  obtain base v where b: "pre_stamp E (set_importance weight (ti_base (timestamp_new (xe_lower E) (xe_u5 E) (xe_uuid_str E) (xe_half E) ts)))
      (xs_visited s) = (base, v)" "dp_id base = i" using stamped fresh by (metis body_id(2))
  note [simp] = take_timestamp_def Let_def fresh b
  show "xs_nodes (take_timestamp E c position weight n ts s) = xs_nodes s"
    "xs_edges (take_timestamp E c position weight n ts s) = xs_edges s"
    "xs_claimed (take_timestamp E c position weight n ts s) = xs_claimed s"
    "xs_stats (take_timestamp E c position weight n ts s) = xs_stats s"
    "xs_types (take_timestamp E c position weight n ts s) = xs_types s"
    "xs_key_mapping (take_timestamp E c position weight n ts s) = xs_key_mapping s"
    "xs_onto_edges (take_timestamp E c position weight n ts s) = xs_onto_edges s"
    "xs_producers (take_timestamp E c position weight n ts s) = record_entity i c (xs_producers s)"
    by simp_all
  show "\<exists>t. timestamp_id t = i \<and> xs_timestamps (take_timestamp E c position weight n ts s) =
           (if knows i (xs_timestamps s) then xs_timestamps s else xs_timestamps s @ [(i, t)])"
    by (rule exI [of _ "\<lparr>tn_timestamp = (timestamp_new (xe_lower E) (xe_u5 E) (xe_uuid_str E) (xe_half E) ts)\<lparr>ti_base := base\<rparr>,
           tn_description = kn_description n\<rparr>"]) simp
  assume "registered position K (xs_ids s) (xs_names s)" "i \<in> K"
  then show "registered position K (xs_ids (take_timestamp E c position weight n ts s)) (xs_names (take_timestamp E c position weight n ts s))"
    by (auto intro!: registered_rules split: option.split)
qed

lemma take_timestamp_ok:
  fixes E :: "'w expansion_env" and n :: knode and weight :: 'w and ts :: str
  assumes wf: "wf_nodes E C position s" and c: "c \<in> C"
  defines "s' \<equiv> take_timestamp E c position weight n ts s"
  shows "wf_nodes E C position s'" and "declares s s'"
    and "\<exists>t \<in> set (map snd (xs_timestamps s')). timestamp_id t = timestamp_id_for (xe_lower E) (xe_u5 E) ts
           \<and> c \<in> set (entity_chunks (xs_producers s') (timestamp_id t))"
proof -
  define i where "i = timestamp_id_for (xe_lower E) (xe_u5 E) ts"
  note f = take_timestamp_fields [where E = E and ts = ts and s = s and c = c and position = position and weight = weight and n = n,
      folded i_def s'_def]
  obtain t where t: "timestamp_id t = i" "xs_timestamps s' = (if knows i (xs_timestamps s) then xs_timestamps s else xs_timestamps s @ [(i, t)])"
    using f(9) by blast
  have K: "known s' = insert i (known s)"
    using f(1) t(2) by (auto simp: known_def dest!: map_of_SomeD intro: rev_image_eqI)
  have ts': "(j, u) \<in> set (xs_timestamps s') \<Longrightarrow> timestamp_id u = j" for j u
    using t wf_nodesD(4) [OF wf] by (auto split: if_splits)
  have "registered position (known s') (xs_ids s) (xs_names s)"
    using wf_nodesD(1) [OF wf] by (rule registered_mono) (auto simp: K)
  then have "registered position (known s') (xs_ids s') (xs_names s')" by (rule f(10)) (simp add: K)
  moreover have "\<forall>j \<in> known s'. entity_chunks (xs_producers s') j \<noteq> [] \<and> set (entity_chunks (xs_producers s') j) \<subseteq> C"
    unfolding f(8) by (rule producers_step [OF wf_nodesD(5) [OF wf] c]) (use K wf_nodesD(6) [OF wf] in auto)
  moreover have "set (entity_chunks (xs_producers s') j) \<subseteq> C" for j
    using wf_nodesD(6) [OF wf, of j] c by (auto simp: f(8) entity_chunks_record split: if_splits)
  ultimately show "wf_nodes E C position s'"
    using wf_nodesD [OF wf] ts' by (auto simp: wf_nodes_def f(1,5,6,7) mapped_def flagged_def)
  show "declares s s'" using t(2) by (auto simp: declares_def f(1,2,3,4,8) entity_chunks_record edge_chunks_record)
  obtain u where "(i, u) \<in> set (xs_timestamps s')" using t(2) by (auto dest!: map_of_SomeD split: if_splits)
  then show "\<exists>t \<in> set (map snd (xs_timestamps s')). timestamp_id t = timestamp_id_for (xe_lower E) (xe_u5 E) ts
           \<and> c \<in> set (entity_chunks (xs_producers s') (timestamp_id t))"
    using ts' by (force simp: f(8) entity_chunks_self i_def [symmetric])
qed


text \<open>A declaration first puts the entity into the output, then registers it; \<open>between\<close> is the state in the middle.\<close>

definition between :: "'w expansion_env \<Rightarrow> uuid set \<Rightarrow> nat \<Rightarrow> 'w expansion_state \<Rightarrow> uuid \<Rightarrow> 'w expansion_state \<Rightarrow> bool" where
  "between E C position s i m \<longleftrightarrow>
     registered position (known m) (xs_ids m) (xs_names m) \<and> known m = insert i (known s)
   \<and> set (xs_nodes s) \<subseteq> set (xs_nodes m) \<and> xs_timestamps m = xs_timestamps s
   \<and> xs_edges m = xs_edges s \<and> xs_claimed m = xs_claimed s \<and> xs_stats m = xs_stats s \<and> xs_producers m = xs_producers s
   \<and> (\<not> or_is_loaded (xe_ontology E) \<longrightarrow> (\<forall>(k, p) \<in> set (xs_nodes m). k = xe_uuid_str E (node_id p) @ lit ''_entity''))
   \<and> mapped m \<and> flagged m"

lemma canonical_entity_plain: "\<not> or_is_loaded (xe_ontology E) \<Longrightarrow> canonical_entity E n p = (p, None)"
  by (simp add: canonical_entity_def)

lemma create_entity_id: "node_id (create_entity_node E n entity_id et c weight) = entity_id"
  by (simp add: create_entity_node_def Let_def split: option.split)

text \<open>Apart from the ontology's own collections, a new entity is one node, its id and its aliases.\<close>

lemma new_entity_core:
  obtains p where
    "core (new_entity E c position weight n entity_id et entity_key s) =
       core (s\<lparr>xs_names := register_name_alias (xe_lower E) (ent_name (np_entity p)) (node_id p) (normalize_identifier (xe_lower E) (kn_id n))
                 position (register_name_alias (xe_lower E) (kn_name n) (node_id p) (normalize_identifier (xe_lower E) (kn_id n))
                 position (xs_names s)),
               xs_ids := AList.update (normalize_identifier (xe_lower E) (kn_id n)) (node_id p, position) (xs_ids s),
               xs_nodes := AList.update entity_key p (xs_nodes s)\<rparr>)"
    and "flagged s \<Longrightarrow> flagged (new_entity E c position weight n entity_id et entity_key s)"
    and "\<not> or_is_loaded (xe_ontology E) \<Longrightarrow> node_id p = entity_id"
proof -
  let ?p = "create_entity_node E n entity_id et c weight"
  obtain base visited where b: "pre_stamp E (ent_base (np_entity ?p)) (xs_visited s) = (base, visited)" by fastforce
  have i: "dp_id base = entity_id"
    using pre_stamp_id [of E "ent_base (np_entity ?p)" "xs_visited s"] by (simp add: b create_entity_id)
  obtain p deferred where p: "canonical_entity E n (?p\<lparr>np_entity := (np_entity ?p)\<lparr>ent_base := base\<rparr>\<rparr>) = (p, deferred)" by fastforce
  have plain: "node_id p = entity_id" if "\<not> or_is_loaded (xe_ontology E)"
    using canonical_entity_plain [OF that] p i by auto
  define id_key where "id_key = normalize_identifier (xe_lower E) (kn_id n)"
  define m where "m = s\<lparr>xs_visited := visited,
      xs_names := register_name_alias (xe_lower E) (ent_name (np_entity p)) (node_id p) id_key position
                    (register_name_alias (xe_lower E) (kn_name n) (node_id p) id_key position (xs_names s)),
      xs_ids := AList.update id_key (node_id p, position) (xs_ids s), xs_nodes := AList.update entity_key p (xs_nodes s)\<rparr>"
  have new: "new_entity E c position weight n entity_id et entity_key s =
      (case deferred of Some (ns, es) \<Rightarrow> process_ontology_edges E ns es (process_ontology_nodes E weight ns m) | None \<Rightarrow> m)"
    by (cases deferred) (auto simp: new_entity_def Let_def b p m_def id_key_def)
  have "core (new_entity E c position weight n entity_id et entity_key s) = core m"
    unfolding new by (simp add: core_nodes core_edges split: option.split prod.split)
  moreover have same: "flagged m = flagged s" by (simp add: flagged_def m_def)
  moreover have "flagged s \<Longrightarrow> flagged (new_entity E c position weight n entity_id et entity_key s)"
    unfolding new using same by (auto simp: flagged_rules split: option.split)
  ultimately show thesis using plain by (intro that [of p]) (auto simp: m_def id_key_def core_def)
qed

lemma registered_new:
  assumes "registered position K ids names" and "i \<in> K"
  shows "registered position K (AList.update k (i, position) ids)
           (register_name_alias lower a i k position (register_name_alias lower b i k position names))"
  using assms by (intro registered_rules)

lemma new_entity_between:
  fixes E :: "'w expansion_env" and s :: "'w expansion_state" and c :: uuid and n :: knode and weight :: 'w and et :: "'w entity_type option"
  assumes wf: "wf_nodes E C position s" and new: "map_of (xs_nodes s) entity_key = None"
    and key: "entity_key = xe_uuid_str E entity_id @ lit ''_entity''"
  defines "m \<equiv> new_entity E c position weight n entity_id et entity_key s"
  shows "\<exists>p. between E C position s (node_id p) m \<and> map_of (xs_nodes m) entity_key = Some p"
proof -
  obtain p where p: "core m = core (s\<lparr>xs_names := register_name_alias (xe_lower E) (ent_name (np_entity p)) (node_id p)
        (normalize_identifier (xe_lower E) (kn_id n)) position (register_name_alias (xe_lower E) (kn_name n) (node_id p)
        (normalize_identifier (xe_lower E) (kn_id n)) position (xs_names s)),
      xs_ids := AList.update (normalize_identifier (xe_lower E) (kn_id n)) (node_id p, position) (xs_ids s),
      xs_nodes := AList.update entity_key p (xs_nodes s)\<rparr>)"
    and fl: "flagged s \<Longrightarrow> flagged m" and plain: "\<not> or_is_loaded (xe_ontology E) \<Longrightarrow> node_id p = entity_id"
    using new_entity_core [of E c position weight n entity_id et entity_key s] unfolding m_def by metis
  note f [simp] = core_fields [OF p, simplified]
  have nodes: "xs_nodes m = xs_nodes s @ [(entity_key, p)]" by (simp add: update_new [OF new])
  have K: "known m = insert (node_id p) (known s)" by (auto simp: known_def nodes simp del: f(1))
  have "registered position (known m) (xs_ids s) (xs_names s)"
    using wf_nodesD(1) [OF wf] by (rule registered_mono) (auto simp: K)
  then have "registered position (known m) (xs_ids m) (xs_names m)"
    unfolding f(6,7) by (rule registered_new) (simp add: K)
  moreover have "k = xe_uuid_str E (node_id q) @ lit ''_entity''"
    if "\<not> or_is_loaded (xe_ontology E)" "(k, q) \<in> set (xs_nodes m)" for k q
    using wf_nodesD(7) [OF wf that(1)] that(2) plain [OF that(1)] key by (auto simp: nodes simp del: f(1))
  ultimately have "between E C position s (node_id p) m"
    using wf_nodesD [OF wf] fl by (auto simp: between_def K nodes mapped_def simp del: f(1))
  then show ?thesis by (intro exI [of _ p]) (simp add: update_conv')
qed


lemma register_declaration_fields:
  shows "xs_nodes (register_declaration E c position n p s) = xs_nodes s"
    and "xs_edges (register_declaration E c position n p s) = xs_edges s"
    and "xs_claimed (register_declaration E c position n p s) = xs_claimed s"
    and "xs_stats (register_declaration E c position n p s) = xs_stats s"
    and "xs_types (register_declaration E c position n p s) = xs_types s"
    and "xs_key_mapping (register_declaration E c position n p s) = xs_key_mapping s"
    and "xs_onto_edges (register_declaration E c position n p s) = xs_onto_edges s"
    and "xs_timestamps (register_declaration E c position n p s) = xs_timestamps s"
    and "xs_producers (register_declaration E c position n p s) = record_entity (node_id p) c (xs_producers s)"
    and "registered position K (xs_ids s) (xs_names s) \<Longrightarrow> node_id p \<in> K \<Longrightarrow>
         registered position K (xs_ids (register_declaration E c position n p s)) (xs_names (register_declaration E c position n p s))"
  by (simp_all add: register_declaration_def Let_def)
    (auto intro!: registered_rules split: option.split)

lemma register_declaration_ok:
  fixes n :: knode
  assumes wf: "wf_nodes E C position s" and c: "c \<in> C"
    and m: "between E C position s (node_id p) m" and p: "map_of (xs_nodes m) k = Some p"
  defines "s' \<equiv> register_declaration E c position n p m"
  shows "wf_nodes E C position s'" and "declares s s'" and "p \<in> set (map snd (xs_nodes s'))"
    and "c \<in> set (entity_chunks (xs_producers s') (node_id p))"
proof -
  note f = register_declaration_fields [where E = E and p = p and s = m and c = c and position = position and n = n, folded s'_def]
  note b = m [unfolded between_def]
  have K: "known s' = insert (node_id p) (known s)" 
  proof -
    have "known s' = known m" by (simp add: known_def f(1,8))
    with b show ?thesis by simp
  qed
  have sub: "set (entity_chunks (xs_producers s') j) \<subseteq> C" for j
    using wf_nodesD(6) [OF wf, of j] c b by (auto simp: f(9) entity_chunks_record split: if_splits)
  have "\<forall>j \<in> known s'. entity_chunks (xs_producers s') j \<noteq> [] \<and> set (entity_chunks (xs_producers s') j) \<subseteq> C"
    unfolding f(9) by (rule producers_step [where K = "known s"]) (use K b c wf_nodesD(5,6) [OF wf] in auto)
  moreover have "registered position (known s') (xs_ids s') (xs_names s')"
  proof (rule f(10))
    show "registered position (known s') (xs_ids m) (xs_names m)" using b K by metis
    show "node_id p \<in> known s'" by (simp add: K)
  qed
  ultimately show "wf_nodes E C position s'"
    using b sub wf_nodesD(4) [OF wf] by (auto simp: wf_nodes_def f(1,5,6,7,8) mapped_def flagged_def)
  show "declares s s'" using b by (auto simp: declares_def f(1,2,3,4,8,9) entity_chunks_record edge_chunks_record)
  show "p \<in> set (map snd (xs_nodes s'))" using p by (force simp: f(1) dest: map_of_SomeD)
  show "c \<in> set (entity_chunks (xs_producers s') (node_id p))" by (simp add: f(9) entity_chunks_self)
qed

lemma wf_nodes_types:
  "wf_nodes E C position s \<Longrightarrow> beside_types t = beside_types s \<Longrightarrow> mapped t \<Longrightarrow> flagged t \<Longrightarrow> wf_nodes E C position t"
  by (simp add: wf_nodes_def beside_types_def known_def)

lemma declares_types: "beside_types t = beside_types s \<Longrightarrow> declares t u \<Longrightarrow> declares s u"
  by (simp add: declares_def beside_types_def)

lemma declare_entity_ok:
  assumes wf: "wf_nodes E C position s" and c: "c \<in> C" and i: "map_of ids (kn_id n) = Some i"
  obtains s' p where "declare_entity E c position weight ids n s = Some s'" and "wf_nodes E C position s'" and "declares s s'"
    and "p \<in> set (map snd (xs_nodes s'))" and "c \<in> set (entity_chunks (xs_producers s') (node_id p))"
    and "\<not> or_is_loaded (xe_ontology E) \<longrightarrow> xe_uuid_str E (node_id p) = xe_uuid_str E i"
proof -
  obtain et t where t: "type_for E weight n s = Some (et, t)" and "mapped t" "flagged t" and same: "beside_types t = beside_types s"
    using type_for_ok [OF wf_nodesD(2,3) [OF wf]] .
  then have wt: "wf_nodes E C position t" using wf_nodes_types [OF wf] by blast
  define k where "k = xe_uuid_str E i @ lit ''_entity''"
  define m where "m = (if knows k (xs_nodes t) then t else new_entity E c position weight n i et k t)"
  have "\<exists>p. between E C position t (node_id p) m \<and> map_of (xs_nodes m) k = Some p"
  proof (cases "map_of (xs_nodes t) k")
    case None
    then show ?thesis using new_entity_between [OF wt None k_def] by (simp add: m_def)
  next
    case (Some p)
    then have "node_id p \<in> known t" by (force simp: known_def dest: map_of_SomeD)
    then have "between E C position t (node_id p) t"
      using wf_nodesD [OF wt] by (auto simp: between_def)
    with Some show ?thesis by (intro exI [of _ p]) (simp add: m_def)
  qed
  then obtain p where b: "between E C position t (node_id p) m" and p: "map_of (xs_nodes m) k = Some p" by blast
  have "declare_entity E c position weight ids n s = Some (register_declaration E c position n p m)"
    unfolding declare_entity_def Let_def t i option.case prod.case k_def [symmetric] m_def [symmetric] by (simp add: p)
  moreover have "\<not> or_is_loaded (xe_ontology E) \<longrightarrow> xe_uuid_str E (node_id p) = xe_uuid_str E i"
    using b p map_of_SomeD by (fastforce simp: between_def k_def)
  ultimately show thesis
    using that register_declaration_ok [OF wt c b p, of n] declares_types [OF same] by blast
qed


lemma declare_node_ok:
  assumes wf: "wf_nodes E C position s" and c: "c \<in> C" and i: "knows (kn_id n) ids"
  obtains s' where "declare_node E c position weight ids n s = Some s'" and "wf_nodes E C position s'" and "declares s s'"
    and "owned_in E ids c n s'"
proof (cases "if is_timestamp_type (xe_lower E) (kn_type n) then xe_time_period E (kn_name n) else None")
  case None
  from i obtain i where "map_of ids (kn_id n) = Some i" by blast
  then show thesis
    using declare_entity_ok [OF wf c, of ids n i weight] that
    unfolding declare_node_def None option.case owned_by_chunk_def by metis
next
  case (Some ts)
  show thesis
    by (rule that [of "take_timestamp E c position weight n ts s"])
      (use take_timestamp_ok [OF wf c, of weight n ts] in \<open>simp_all add: declare_node_def owned_by_chunk_def Some\<close>)
qed

lemma declare_nodes_ok:
  assumes "wf_nodes E C position s" and c: "c \<in> C" and "\<forall>n \<in> set ns. knows (kn_id n) ids"
  shows "\<exists>s'. declare_nodes E c position weight ids ns s = Some s' \<and> wf_nodes E C position s' \<and> declares s s'
           \<and> (\<forall>n \<in> set ns. owned_in E ids c n s')"
  using assms(1,3)
proof (induction ns arbitrary: s)
  case (Cons n ns)
  obtain t where t: "declare_node E c position weight ids n s = Some t" "wf_nodes E C position t" "declares s t" "owned_in E ids c n t"
    using declare_node_ok [OF Cons.prems(1) c] Cons.prems(2) by (metis list.set_intros(1))
  obtain u where u: "declare_nodes E c position weight ids ns t = Some u" "wf_nodes E C position u" "declares t u"
      "\<forall>m \<in> set ns. owned_in E ids c m u"
    using Cons.IH [OF t(2)] Cons.prems(2) by auto
  with t owned_in_mono [OF t(4) u(3)] declares_trans [OF t(3) u(3)] show ?case by auto
qed simp

section \<open>Edges keep the invariant\<close>

abbreviation entity_ids :: "'w expansion_state \<Rightarrow> uuid set" where
  "entity_ids s \<equiv> node_id ` snd ` set (xs_nodes s)"

definition edge_ok :: "'w expansion_env \<Rightarrow> uuid set \<Rightarrow> 'w expansion_state \<Rightarrow> bool \<Rightarrow> edge_key \<Rightarrow> edge_pair \<Rightarrow> bool" where
  "edge_ok E C s present k e \<longleftrightarrow>
     dedup_key e = k \<and> ge_source e \<in> entity_ids s \<and> ge_target e \<in> known s \<and> marked (lit ''false'') e
   \<and> edge_chunks (xs_producers s) k \<noteq> []
   \<and> (edge_db_key (xe_uuid_str E) (ge_source e) (ge_target e) (ge_relationship e) \<in> set (xe_existing E)) = present"

definition wf_edges :: "'w expansion_env \<Rightarrow> uuid set \<Rightarrow> 'w expansion_state \<Rightarrow> bool" where
  "wf_edges E C s \<longleftrightarrow>
     (\<forall>(k, e) \<in> set (xs_edges s). edge_ok E C s False k e) \<and> (\<forall>(k, e) \<in> set (xs_claimed s). edge_ok E C s True k e)
   \<and> distinct (map fst (xs_edges s)) \<and> distinct (map fst (xs_claimed s))
   \<and> (\<forall>k. set (edge_chunks (xs_producers s) k) \<subseteq> C)"

definition stats_ok :: "nat \<Rightarrow> nat \<Rightarrow> edge_stats \<Rightarrow> bool" where
  "stats_ok position edges st \<longleftrightarrow>
     edges + dropped st \<le> es_attempted st
   \<and> es_by_id st + es_by_name st + dropped st \<le> 2 * es_attempted st
   \<and> 2 * es_attempted st \<le> es_by_id st + es_by_name st + 2 * dropped st
   \<and> es_by_id_cross st \<le> es_by_id st \<and> es_by_name_cross st \<le> es_by_name st
   \<and> es_max_distance st \<le> position \<and> (es_max_distance st = 0 \<longleftrightarrow> resolved_cross_chunk st = 0)"

abbreviation edge_count :: "'w expansion_state \<Rightarrow> nat" where
  "edge_count s \<equiv> length (xs_edges s) + length (xs_claimed s)"

lemma edge_ok_declares: "edge_ok E C s present k e \<Longrightarrow> declares s s' \<Longrightarrow> edge_ok E C s' present k e"
  using declares_known [of s s'] by (auto simp: edge_ok_def declares_def)

lemma wf_edges_declares: "wf_edges E C s \<Longrightarrow> declares s s' \<Longrightarrow> wf_edges E C s'"
  using edge_ok_declares [of E C s _ _ _ s'] by (fastforce simp: wf_edges_def declares_def)

lemma extracted_edge_fields [simp]:
  "ge_source (extracted_edge E e x y) = x" "ge_target (extracted_edge E e x y) = y"
  "ge_relationship (extracted_edge E e x y) = ke_relationship e"
  by (simp_all add: extracted_edge_def Let_def add_property_def edge_pair_new_def)

lemma extracted_edge_marked [simp]: "marked (lit ''false'') (extracted_edge E e x y)"
  by (simp add: extracted_edge_def Let_def add_property_def edge_pair_new_def marked_def update_conv' lit_def)

lemma edge_ok_record:
  assumes "edge_ok E C s present k e" and "entity_ids s' = entity_ids s" and "known s' = known s"
    and "xs_producers s' = record_edge k' c (xs_producers s)"
  shows "edge_ok E C s' present k e"
proof -
  have "set (edge_chunks (xs_producers s) k) \<subseteq> set (edge_chunks (xs_producers s') k)"
    by (auto simp: assms(4) edge_chunks_record)
  with assms show ?thesis unfolding edge_ok_def by (auto simp flip: set_empty)
qed

lemma put_edge_fields:
  "xs_nodes (put_edge E c e ends s) = xs_nodes s" "xs_timestamps (put_edge E c e ends s) = xs_timestamps s"
  "xs_ids (put_edge E c e ends s) = xs_ids s" "xs_names (put_edge E c e ends s) = xs_names s"
  "xs_types (put_edge E c e ends s) = xs_types s" "xs_key_mapping (put_edge E c e ends s) = xs_key_mapping s"
  "xs_onto_edges (put_edge E c e ends s) = xs_onto_edges s" "xs_stats (put_edge E c e ends s) = xs_stats s"
  "xs_producers (put_edge E c e (x, y) s) = record_edge (x, y, ke_relationship e) c (xs_producers s)"
  "entity_chunks (xs_producers (put_edge E c e ends s)) i = entity_chunks (xs_producers s) i"
  by (simp_all add: put_edge_def Let_def entity_chunks_record split: prod.split)


lemma put_edge_known: "entity_ids (put_edge E c e ends s) = entity_ids s" "known (put_edge E c e ends s) = known s"
  by (simp_all add: known_def put_edge_fields)

lemma put_edge_ok:
  fixes e :: kedge
  assumes wf: "wf_edges E C s" and c: "c \<in> C" and x: "x \<in> entity_ids s" and y: "y \<in> known s"
  defines "s' \<equiv> put_edge E c e (x, y) s"
  shows "wf_edges E C s'" and "edge_count s' \<le> edge_count s + 1"
proof -
  define present where "present = (edge_db_key (xe_uuid_str E) x y (ke_relationship e) \<in> set (xe_existing E))"
  let ?k = "(x, y, ke_relationship e)" and ?e = "extracted_edge E e x y"
  note f = put_edge_fields(9) [of E c e x y s, folded s'_def] put_edge_known [of E c e "(x, y)" s, folded s'_def]
  have chunks: "set (edge_chunks (xs_producers s') k) \<subseteq> C" for k
  proof -
    have "set (edge_chunks (xs_producers s) k) \<subseteq> C" using wf by (cases k) (simp add: wf_edges_def)
    with c show ?thesis by (simp add: f(1) edge_chunks_record)
  qed
  have "c \<in> set (edge_chunks (xs_producers s') ?k)" by (simp add: f(1) edge_chunks_record)
  then have new: "edge_ok E C s' present ?k ?e"
    using x y unfolding edge_ok_def f(2,3) by (auto simp: dedup_key_def present_def)
  have old: "edge_ok E C s' p k d" if "edge_ok E C s p k d" for p k d
    using that by (rule edge_ok_record) (rule f)+
  have edges: "xs_edges s' = (if present \<or> knows ?k (xs_edges s) then xs_edges s else xs_edges s @ [(?k, ?e)])"
    and claimed: "xs_claimed s' = (if \<not> present \<or> knows ?k (xs_claimed s) then xs_claimed s else xs_claimed s @ [(?k, ?e)])"
    by (auto simp: s'_def put_edge_def Let_def present_def update_new)
  have unseen: "?k \<notin> fst ` set m" if "\<not> knows ?k m" for m :: "(edge_key \<times> edge_pair) list"
    using that by (auto simp: map_of_eq_None_iff)
  have "distinct (map fst (xs_edges s'))" "distinct (map fst (xs_claimed s'))"
    using wf unseen by (auto simp: edges claimed wf_edges_def)
  moreover have "\<forall>(k, d) \<in> set (xs_edges s'). edge_ok E C s' False k d" "\<forall>(k, d) \<in> set (xs_claimed s'). edge_ok E C s' True k d"
    using wf old new by (cases present; auto simp: edges claimed wf_edges_def)+
  ultimately show "wf_edges E C s'" using chunks by (simp add: wf_edges_def)
  show "edge_count s' \<le> edge_count s + 1" by (cases present) (auto simp: edges claimed)
qed

lemma origin_of: "registered position K ids names \<Longrightarrow> resolve_endpoint lower ids names raw = ById i origin \<Longrightarrow> origin \<le> position"
  "registered position K ids names \<Longrightarrow> resolve_endpoint lower ids names raw = ByName i origin \<Longrightarrow> origin \<le> position"
  by (auto simp: registered_def resolve_endpoint_def Let_def split: option.splits prod.splits)

text \<open>Counting one resolved endpoint: only the tally of resolutions and the distance move.\<close>

lemma resolved_effect:
  assumes "entity_of r = Some i" and "\<And>j origin. r = ById j origin \<or> r = ByName j origin \<Longrightarrow> origin \<le> position"
    and "es_by_id_cross st \<le> es_by_id st" and "es_by_name_cross st \<le> es_by_name st" and "es_max_distance st \<le> position"
    and "es_max_distance st = 0 \<longleftrightarrow> resolved_cross_chunk st = 0"
  defines "u \<equiv> count_resolved position r st"
  shows "es_attempted u = es_attempted st" "dropped u = dropped st" "es_by_id u + es_by_name u = es_by_id st + es_by_name st + 1"
    "es_by_id_cross u \<le> es_by_id u" "es_by_name_cross u \<le> es_by_name u" "es_max_distance u \<le> position"
    "es_max_distance u = 0 \<longleftrightarrow> resolved_cross_chunk u = 0"
  using assms unfolding u_def
  by (cases r; force simp: count_resolved_def entity_of_def record_resolved_by_id_def record_resolved_by_name_def Let_def
      widen_cross_chunk_distance_def dropped_def resolved_cross_chunk_def)+

lemma dropped_one [simp]:
  "dropped (st\<lparr>es_source_missing := Suc (es_source_missing st)\<rparr>) = Suc (dropped st)"
  "dropped (st\<lparr>es_target_missing := Suc (es_target_missing st)\<rparr>) = Suc (dropped st)"
  "dropped (st\<lparr>es_ambiguous := Suc (es_ambiguous st)\<rparr>) = Suc (dropped st)"
  "dropped (st\<lparr>es_attempted := a\<rparr>) = dropped st"
  "resolved_cross_chunk (st\<lparr>es_source_missing := b\<rparr>) = resolved_cross_chunk st"
  "resolved_cross_chunk (st\<lparr>es_target_missing := b\<rparr>) = resolved_cross_chunk st"
  "resolved_cross_chunk (st\<lparr>es_ambiguous := b\<rparr>) = resolved_cross_chunk st"
  "resolved_cross_chunk (st\<lparr>es_attempted := b\<rparr>) = resolved_cross_chunk st"
  by (simp_all add: dropped_def resolved_cross_chunk_def)

lemma resolve_edge_stats:
  assumes reg: "registered position K (xs_ids s) (xs_names s)" and st: "stats_ok position m (xs_stats s)"
    and e: "resolve_edge E position e s = (ends, st')"
  shows "stats_ok position (case ends of Some _ \<Rightarrow> m + 1 | None \<Rightarrow> m) st' \<and> es_attempted st' = es_attempted (xs_stats s) + 1"
proof -
  define source where "source = resolve_endpoint (xe_lower E) (xs_ids s) (xs_names s) (ke_source e)"
  define target where "target = resolve_endpoint (xe_lower E) (xs_ids s) (xs_names s) (ke_target e)"
  define st0 where "st0 = (xs_stats s)\<lparr>es_attempted := es_attempted (xs_stats s) + 1\<rparr>"
  define st1 where "st1 = count_resolved position source st0"
  note def = e [unfolded resolve_edge_def Let_def, folded source_def target_def st0_def, folded st1_def]
  have late: "source = ById j o' \<or> source = ByName j o' \<Longrightarrow> o' \<le> position" "target = ById j o' \<or> target = ByName j o' \<Longrightarrow> o' \<le> position" for j o'
    using origin_of [OF reg] by (auto simp: source_def target_def)
  have st0: "es_by_id_cross st0 \<le> es_by_id st0" "es_by_name_cross st0 \<le> es_by_name st0" "es_max_distance st0 \<le> position"
      "es_max_distance st0 = 0 \<longleftrightarrow> resolved_cross_chunk st0 = 0"
    using st by (auto simp: stats_ok_def st0_def)
  show ?thesis
  proof (cases "entity_of source")
    case None
    with def st show ?thesis by (auto simp: stats_ok_def st0_def dropped_def resolved_cross_chunk_def split: if_splits)
  next
    case (Some i)
    note one = resolved_effect [OF Some late(1) st0, folded st1_def]
    show ?thesis
    proof (cases "entity_of target")
      case None
      with def Some one st show ?thesis by (auto simp: stats_ok_def st0_def split: if_splits)
    next
      case (Some j)
      note two = resolved_effect [OF Some late(2) one(4-7)]
      from def Some \<open>entity_of source = Some i\<close> have "ends = Some (i, j)" "st' = count_resolved position target st1" by auto
      with one two st show ?thesis by (auto simp: stats_ok_def st0_def)
    qed
  qed
qed


section \<open>The whole pass\<close>

definition pass_ok :: "'w expansion_env \<Rightarrow> uuid set \<Rightarrow> nat \<Rightarrow> 'w expansion_state \<Rightarrow> bool" where
  "pass_ok E C position s \<longleftrightarrow>
     wf_nodes E C position s \<and> wf_edges E C s \<and> stats_ok position (edge_count s) (xs_stats s)"

definition extends :: "'w expansion_state \<Rightarrow> 'w expansion_state \<Rightarrow> bool" where
  "extends s s' \<longleftrightarrow>
     set (xs_nodes s) \<subseteq> set (xs_nodes s') \<and> set (xs_timestamps s) \<subseteq> set (xs_timestamps s')
   \<and> (\<forall>i. set (entity_chunks (xs_producers s) i) \<subseteq> set (entity_chunks (xs_producers s') i))"

lemma extends_refl [simp]: "extends s s"
  by (simp add: extends_def)

lemma extends_trans: "extends s t \<Longrightarrow> extends t u \<Longrightarrow> extends s u"
  unfolding extends_def by (meson order_trans)

lemma declares_extends: "declares s s' \<Longrightarrow> extends s s'"
  by (simp add: declares_def extends_def)

lemma owned_in_extends: "owned_in E ids c n s \<Longrightarrow> extends s s' \<Longrightarrow> owned_in E ids c n s'"
  by (erule owned_by_chunk_mono) (auto simp: extends_def)

lemma stats_ok_mono: "stats_ok p m st \<Longrightarrow> p \<le> p' \<Longrightarrow> m' \<le> m \<Longrightarrow> stats_ok p' m' st"
  by (auto simp: stats_ok_def)

lemma wf_nodes_later: "wf_nodes E C p s \<Longrightarrow> p \<le> p' \<Longrightarrow> wf_nodes E C p' s"
  unfolding wf_nodes_def by (meson order_refl registered_mono)

lemma pass_ok_later: "pass_ok E C p s \<Longrightarrow> p \<le> p' \<Longrightarrow> pass_ok E C p' s"
  unfolding pass_ok_def by (meson order_refl stats_ok_mono wf_nodes_later)

lemma pass_ok_declares:
  "pass_ok E C p s \<Longrightarrow> wf_nodes E C p s' \<Longrightarrow> declares s s' \<Longrightarrow> pass_ok E C p s'"
  using wf_edges_declares [of E C s s'] by (simp add: pass_ok_def declares_def)

lemma wf_nodes_put_edge: "wf_nodes E C p s \<Longrightarrow> wf_nodes E C p (put_edge E c e ends s)"
  by (simp add: wf_nodes_def put_edge_fields put_edge_known mapped_def flagged_def)

lemma wf_stats_update: "wf_nodes E C p (s\<lparr>xs_stats := st\<rparr>) = wf_nodes E C p s" "wf_edges E C (s\<lparr>xs_stats := st\<rparr>) = wf_edges E C s"
  by (simp_all add: wf_nodes_def wf_edges_def edge_ok_def known_def mapped_def flagged_def)

lemma oriented_ends:
  assumes "oriented s (i, j) = Some (x, y)" and "i \<in> known s" and "j \<in> known s"
  shows "x \<in> entity_ids s" and "y \<in> known s"
  using assms by (auto simp: oriented_def known_def map_of_eq_None_iff split: if_splits)

lemma take_edge_ok:
  fixes e :: kedge
  assumes ok: "pass_ok E C position s" and c: "c \<in> C"
  defines "s' \<equiv> take_edge E c position e s"
  shows "pass_ok E C position s'" and "extends s s'" and "es_attempted (xs_stats s') = es_attempted (xs_stats s) + 1"
proof -
  note wf = ok [unfolded pass_ok_def]
  obtain ends st where r: "resolve_edge E position e s = (ends, st)" by fastforce
  define t where "t = s\<lparr>xs_stats := st\<rparr>"
  have reg: "registered position (known s) (xs_ids s) (xs_names s)" using wf wf_nodesD(1) by blast
  note st = resolve_edge_stats [OF reg _ r, of "edge_count s"]
  have less: "stats_ok position (edge_count s) st"
    using st wf by (auto elim: stats_ok_mono split: option.splits)
  have t: "wf_nodes E C position t" "wf_edges E C t" "known t = known s" "entity_ids t = entity_ids s" "edge_count t = edge_count s"
    using wf by (simp_all add: t_def wf_stats_update known_def)
  have s': "s' = (case Option.bind ends (oriented t) of Some ends \<Rightarrow> put_edge E c e ends t | None \<Rightarrow> t)"
    by (simp only: s'_def take_edge_def r t_def Let_def prod.case)
  have "pass_ok E C position s' \<and> extends s s' \<and> es_attempted (xs_stats s') = es_attempted (xs_stats s) + 1"
  proof (cases "Option.bind ends (oriented t)")
    case None
    have "stats_ok position (edge_count t) st" using less t(5) by simp
    then show ?thesis using None st wf t by (auto simp: s' pass_ok_def extends_def t_def)
  next
    case (Some xy)
    obtain x y where xy: "xy = (x, y)" by (cases xy)
    obtain i j where ends: "ends = Some (i, j)" and "oriented t (i, j) = Some (x, y)"
      using Some by (cases ends) (auto simp: xy)
    moreover have "i \<in> known s" "j \<in> known s"
      using r resolved_known [OF reg] unfolding ends by (auto simp: resolve_edge_def Let_def split: option.splits)
    ultimately have "x \<in> entity_ids t" "y \<in> known t" using oriented_ends [of t i j x y] t(3) by auto
    note put = put_edge_ok [OF t(2) c this, of e]
    have now: "s' = put_edge E c e (x, y) t" using s' unfolding Some xy option.case .
    have "stats_ok position (edge_count (put_edge E c e (x, y) t)) st"
      using st wf put(2) t(5) unfolding ends by (auto elim: stats_ok_mono)
    with put(1) wf_nodes_put_edge [OF t(1)] have "pass_ok E C position s'"
      by (simp add: now pass_ok_def put_edge_fields(8)) (simp add: t_def)
    moreover have "extends s s'" by (auto simp: now extends_def put_edge_fields entity_chunks_record t_def)
    ultimately show ?thesis using st wf by (simp add: now put_edge_fields(8)) (simp add: t_def)
  qed
  then show "pass_ok E C position s'" "extends s s'" "es_attempted (xs_stats s') = es_attempted (xs_stats s) + 1" by blast+
qed

lemma take_edges_ok:
  assumes "pass_ok E C position s" and c: "c \<in> C"
  shows "pass_ok E C position (fold (take_edge E c position) es s) \<and> extends s (fold (take_edge E c position) es s)
    \<and> es_attempted (xs_stats (fold (take_edge E c position) es s)) = es_attempted (xs_stats s) + length es"
  using assms(1)
proof (induction es arbitrary: s)
  case (Cons e es)
  from Cons.IH [OF take_edge_ok(1) [OF Cons.prems c, of e]] take_edge_ok(2,3) [OF Cons.prems c, of e]
  show ?case by (auto intro: extends_trans)
qed simp


text \<open>What one chunk leaves behind for its nodes, also after all later chunks.\<close>

definition chunk_owned :: "'w expansion_env \<Rightarrow> uuid \<times> kgraph \<Rightarrow> 'w expansion_state \<Rightarrow> bool" where
  "chunk_owned E g s \<longleftrightarrow>
     (case g of (c, graph) \<Rightarrow>
        \<forall>n \<in> set (kg_nodes (without_duplicate_node_ids graph)).
          owned_in E (entity_ids_by_node_id E (without_duplicate_node_ids graph) c) c n s)"

lemma chunk_owned_extends: "chunk_owned E g s \<Longrightarrow> extends s s' \<Longrightarrow> chunk_owned E g s'"
  using owned_in_extends by (fastforce simp: chunk_owned_def)

lemma expand_graph_ok:
  assumes ok: "pass_ok E C position s" and c: "fst g \<in> C"
  shows "\<exists>s'. expand_graph E position g s = Some s' \<and> pass_ok E C position s' \<and> extends s s' \<and> chunk_owned E g s'
           \<and> es_attempted (xs_stats s') = es_attempted (xs_stats s) + length (kg_edges (snd g))"
proof -
  obtain c graph where g: "g = (c, graph)" by (cases g)
  let ?graph = "without_duplicate_node_ids graph"
  define weight where "weight = (case xe_weights E c of Some x \<Rightarrow> x | None \<Rightarrow> xe_half E)"
  let ?ids = "entity_ids_by_node_id E ?graph c"
  have cover: "\<forall>n \<in> set (kg_nodes ?graph). knows (kn_id n) ?ids" using entity_ids_cover [of _ ?graph E c] by blast
  have "wf_nodes E C position s" "c \<in> C" using ok assms(2) by (simp_all add: pass_ok_def g)
  from declare_nodes_ok [OF this cover, of weight] obtain t where t: "declare_nodes E c position weight ?ids (kg_nodes ?graph) s = Some t" "wf_nodes E C position t"
      "declares s t" "\<forall>n \<in> set (kg_nodes ?graph). owned_in E ?ids c n t"
    by blast
  have t_ok: "pass_ok E C position t" using pass_ok_declares [OF ok t(2,3)] .
  let ?u = "fold (take_edge E c position) (kg_edges graph) t"
  note u = take_edges_ok [OF t_ok \<open>c \<in> C\<close>, of "kg_edges graph"]
  have "kg_edges ?graph = kg_edges graph" by (simp add: without_duplicate_node_ids_def)
  then have "expand_graph E position g s = Some ?u"
    unfolding expand_graph_def g by (simp add: t(1) weight_def [symmetric])
  moreover have "chunk_owned E g ?u"
    using t(4) u owned_in_extends unfolding chunk_owned_def g by fastforce
  moreover have "extends s ?u" using u declares_extends [OF t(3)] extends_trans by blast
  ultimately show ?thesis using u t(3) by (simp add: g declares_def)
qed

lemma expand_graphs_ok:
  assumes "pass_ok E C position s" and "fst ` set gs \<subseteq> C"
  shows "\<exists>s'. expand_graphs E position gs s = Some s' \<and> pass_ok E C (position + (length gs - 1)) s' \<and> extends s s'
           \<and> (\<forall>g \<in> set gs. chunk_owned E g s')
           \<and> es_attempted (xs_stats s') = es_attempted (xs_stats s) + (\<Sum>g\<leftarrow>gs. length (kg_edges (snd g)))"
  using assms
proof (induction gs arbitrary: position s)
  case (Cons g gs)
  obtain t where t: "expand_graph E position g s = Some t" "pass_ok E C position t" "extends s t" "chunk_owned E g t"
      "es_attempted (xs_stats t) = es_attempted (xs_stats s) + length (kg_edges (snd g))"
    using expand_graph_ok [OF Cons.prems(1), of g] Cons.prems(2) by auto
  show ?case
  proof (cases gs)
    case Nil
    with t show ?thesis by simp
  next
    case (Cons g' gs')
    obtain u where u: "expand_graphs E (position + 1) gs t = Some u" "pass_ok E C (position + 1 + (length gs - 1)) u" "extends t u"
        "\<forall>g \<in> set gs. chunk_owned E g u"
        "es_attempted (xs_stats u) = es_attempted (xs_stats t) + (\<Sum>g\<leftarrow>gs. length (kg_edges (snd g)))"
      using Cons.IH [OF pass_ok_later [OF t(2), of "position + 1"]] Cons.prems(2) by auto
    have "pass_ok E C (position + (length (g # gs) - 1)) u" using u(2) Cons by simp
    with u(1,3,4,5) t extends_trans [OF t(3) u(3)] chunk_owned_extends [OF t(4) u(3)] show ?thesis by auto
  qed
qed simp

lemma start_ok: "pass_ok E C p expansion_start"
  by (simp add: pass_ok_def wf_nodes_def wf_edges_def stats_ok_def expansion_start_def no_stats_def no_producers_def registered_def known_def
      mapped_def flagged_def entity_chunks_def edge_chunks_def dropped_def resolved_cross_chunk_def)

lemma expansion_runs:
  obtains s where "expand_extracted_graphs E graphs = Some (expansion_of E s)" and "pass_ok E (fst ` set graphs) (length graphs - 1) s"
    and "\<forall>g \<in> set graphs. chunk_owned E g s" and "es_attempted (xs_stats s) = (\<Sum>g\<leftarrow>graphs. length (kg_edges (snd g)))"
proof -
  have "es_attempted (xs_stats (expansion_start :: 'a expansion_state)) = 0" by (simp add: expansion_start_def no_stats_def)
  with expand_graphs_ok [OF start_ok [of E "fst ` set graphs" 0], of graphs] that show thesis
    by (auto simp: expand_extracted_graphs_def)
qed


section \<open>What an expansion yields\<close>

abbreviation extracted_of :: "edge_pair list \<Rightarrow> edge_pair list" where
  "extracted_of es \<equiv> filter (marked (lit ''false'')) es"

lemma extracted_edges:
  assumes "pass_ok E C p s"
  shows "extracted_of (xr_edges (expansion_of E s)) = map snd (xs_edges s)"
    and "extracted_of (xr_claimed (expansion_of E s)) = map snd (xs_claimed s)"
proof -
  have "marked (lit ''false'') (snd x)" if "x \<in> set (xs_edges s) \<union> set (xs_claimed s)" for x
    using assms that by (cases x) (auto simp: pass_ok_def wf_edges_def edge_ok_def)
  then have "extracted_of (map snd (xs_edges s)) = map snd (xs_edges s)" "extracted_of (map snd (xs_claimed s)) = map snd (xs_claimed s)"
    by (auto simp: filter_id_conv)
  moreover have "extracted_of (xs_onto_edges s) = []"
    using wf_nodesD(3) [of E C p s] assms by (auto simp: pass_ok_def flagged_def marked_def filter_empty_conv lit_def)
  ultimately show "extracted_of (xr_edges (expansion_of E s)) = map snd (xs_edges s)"
      "extracted_of (xr_claimed (expansion_of E s)) = map snd (xs_claimed s)"
    by (simp_all add: expansion_of_def)
qed

lemma pass_ok_edge:
  assumes "pass_ok E C p s"
  shows "(k, e) \<in> set (xs_edges s) \<Longrightarrow> edge_ok E C s False k e" and "(k, e) \<in> set (xs_claimed s) \<Longrightarrow> edge_ok E C s True k e"
  using assms by (auto simp: pass_ok_def wf_edges_def)

lemma timestamp_ids: "pass_ok E C p s \<Longrightarrow> fst ` set (xs_timestamps s) = timestamp_id ` set (xr_timestamps (expansion_of E s))"
  using wf_nodesD(4) [of E C p s] by (force simp: pass_ok_def expansion_of_def image_iff)

lemma output_ids: "entity_ids s \<subseteq> node_id ` set (xr_nodes (expansion_of E s))"
  by (auto simp: expansion_of_def)

text \<open>An extracted edge of a finished pass, written or claimed.\<close>

lemma edge_of_pass:
  assumes "pass_ok E C p s"
    and "e \<in> set (extracted_of (xr_edges (expansion_of E s))) \<union> set (extracted_of (xr_claimed (expansion_of E s)))"
  shows "ge_source e \<in> node_id ` set (xr_nodes (expansion_of E s))"
    and "ge_target e \<in> node_id ` set (xr_nodes (expansion_of E s)) \<union> timestamp_id ` set (xr_timestamps (expansion_of E s))"
    and "edge_chunks (xr_producers (expansion_of E s)) (dedup_key e) \<noteq> []"
    and "set (edge_chunks (xr_producers (expansion_of E s)) (dedup_key e)) \<subseteq> C"
proof -
  from assms(2) have "e \<in> snd ` set (xs_edges s) \<union> snd ` set (xs_claimed s)"
    unfolding extracted_edges [OF assms(1)] by simp
  then obtain k where "(k, e) \<in> set (xs_edges s) \<or> (k, e) \<in> set (xs_claimed s)" by force
  then obtain present where "edge_ok E C s present k e" using pass_ok_edge [OF assms(1)] by blast
  then show "ge_source e \<in> node_id ` set (xr_nodes (expansion_of E s))"
      "ge_target e \<in> node_id ` set (xr_nodes (expansion_of E s)) \<union> timestamp_id ` set (xr_timestamps (expansion_of E s))"
      "edge_chunks (xr_producers (expansion_of E s)) (dedup_key e) \<noteq> []"
    using output_ids [of s E] timestamp_ids [OF assms(1)] by (auto simp: edge_ok_def known_def expansion_of_def)
  show "set (edge_chunks (xr_producers (expansion_of E s)) (dedup_key e)) \<subseteq> C"
    using assms(1) by (cases "dedup_key e") (simp add: pass_ok_def wf_edges_def expansion_of_def)
qed

text \<open>C8: Whatever the model extracted, expansion does not panic, and an extracted edge it puts out runs
  from an entity it puts out to an entity or a timestamp it puts out; in the variant without timestamps
  every extracted edge joins two entities of the result.\<close>

theorem expansion_is_attached:
  "(\<exists>x. expand_extracted_graphs E graphs = Some x
      \<and> ge_source ` set (extracted_of (xr_edges x @ xr_claimed x)) \<subseteq> node_id ` set (xr_nodes x)
      \<and> ge_target ` set (extracted_of (xr_edges x @ xr_claimed x)) \<subseteq> node_id ` set (xr_nodes x) \<union> timestamp_id ` set (xr_timestamps x))
 \<and> (\<exists>nodes edges claimed ap st. expand_with_nodes_and_edges_with_stats E graphs = Some (nodes, edges, claimed, ap, st)
      \<and> ge_source ` set (extracted_of (edges @ claimed)) \<union> ge_target ` set (extracted_of (edges @ claimed)) \<subseteq> node_id ` set nodes)"
proof -
  obtain s where s: "expand_extracted_graphs E graphs = Some (expansion_of E s)" and ok: "pass_ok E (fst ` set graphs) (length graphs - 1) s"
    using expansion_runs .
  note e = edge_of_pass(1,2) [OF ok]
  let ?x = "expansion_of E s"
  have all: "ge_source ` set (extracted_of (xr_edges ?x @ xr_claimed ?x)) \<subseteq> node_id ` set (xr_nodes ?x)"
      "ge_target ` set (extracted_of (xr_edges ?x @ xr_claimed ?x)) \<subseteq> node_id ` set (xr_nodes ?x) \<union> timestamp_id ` set (xr_timestamps ?x)"
    using e by auto
  moreover have "ge_source d \<in> node_id ` set (xr_nodes ?x) \<and> ge_target d \<in> node_id ` set (xr_nodes ?x)"
    if "d \<in> set (extracted_of (xr_edges ?x @ xr_claimed ?x))" "ge_target d \<notin> timestamp_id ` set (xr_timestamps ?x)" for d
    using all that by blast
  then have "ge_source ` set (extracted_of (filter (\<lambda>d. ge_source d \<notin> timestamp_id ` set (xr_timestamps ?x) \<and>
          ge_target d \<notin> timestamp_id ` set (xr_timestamps ?x)) (xr_edges ?x @ xr_claimed ?x)))
      \<union> ge_target ` set (extracted_of (filter (\<lambda>d. ge_source d \<notin> timestamp_id ` set (xr_timestamps ?x) \<and>
          ge_target d \<notin> timestamp_id ` set (xr_timestamps ?x)) (xr_edges ?x @ xr_claimed ?x))) \<subseteq> node_id ` set (xr_nodes ?x)"
    by (auto simp del: filter_append)
  ultimately show ?thesis using s by (simp add: expand_with_nodes_and_edges_with_stats_def Let_def)
qed



text \<open>C39: Every node that a chunk declares (the first one of each node id) is in the output with the chunk on
  record as its producer: as the timestamp that its name stands for, or as an entity, and without an
  ontology as the entity with the id that the chunk gives it.\<close>

theorem declared_nodes_are_owned:
  "\<exists>x. expand_extracted_graphs E graphs = Some x
     \<and> list_all (\<lambda>(c, graph). list_all (\<lambda>n.
          owned_by_chunk E (entity_ids_by_node_id E (without_duplicate_node_ids graph) c) c n
            (xr_nodes x) (xr_timestamps x) (xr_producers x)) (kg_nodes (without_duplicate_node_ids graph))) graphs"
proof -
  obtain s where s: "expand_extracted_graphs E graphs = Some (expansion_of E s)" and owned: "\<forall>g \<in> set graphs. chunk_owned E g s"
    using expansion_runs .
  have "owned_by_chunk E ids c n (xr_nodes (expansion_of E s)) (xr_timestamps (expansion_of E s)) (xr_producers (expansion_of E s))"
    if "owned_in E ids c n s" for ids c n
    using that by (rule owned_by_chunk_mono) (auto simp: expansion_of_def)
  with owned s show ?thesis by (fastforce simp: list_all_iff chunk_owned_def)
qed


text \<open>The lookup of existing edges asks under ids made from node ids; expansion makes entity ids from node names.\<close>

lemma lookup_ids_differ:
  "collect_distinct_candidate_edges (xe_lower E) (xe_u5 E) (xe_uuid_str E) [\<lparr>kg_nodes = [n], kg_edges = [e]\<rparr>] =
     [(xe_uuid_str E (entity_id_for (xe_lower E) (xe_u5 E) (ke_source e)),
       xe_uuid_str E (entity_id_for (xe_lower E) (xe_u5 E) (ke_target e)), ke_relationship e)]"
  "entity_ids_by_node_id E \<lparr>kg_nodes = [n], kg_edges = [e]\<rparr> c = [(kn_id n, entity_id_for (xe_lower E) (xe_u5 E) (kn_name n))]"
  by (simp_all add: collect_distinct_candidate_edges_def entity_ids_by_node_id_def ids_of_group_def Let_def)

end
