(* ===== verification/Spec2Isabelle.thy ===== *)
theory Spec2Isabelle
  imports Chunk_Row Recovery Executor Delete_Files Delete_Authorized Expansion
begin

text \<open>
  A verification library for the core of cognee-rs: how text becomes chunks, how a run writes what
  it derived, how the executor drives its tasks, and how the artifacts of a run that failed, was
  abandoned or is deleted are taken back without touching what others still claim, and who may
  delete what. Paths are relative to \<open>src/crates/\<close>.

  \<^bold>\<open>The program.\<close> A document is cut into words, sentences, paragraphs and token-bounded chunks
  (\<open>chunking\<close>). A pipeline run (\<open>core\<close>) feeds data items through a chain of tasks; the tasks write
  nodes and edges to a graph store, points to a vector store, and a row per slug to the provenance
  ledger (\<open>database/ops/graph_storage.rs\<close>), which says which run and data item claims which
  artifact. The run itself is recorded as a trail of rows (\<open>database/pipelines\<close>) and guarded by an
  ownership marker (\<open>core/run_ownership.rs\<close>) and dataset locks (\<open>core/dataset_locks.rs\<close>). When a run
  ends, its failure report (\<open>cognify/failure.rs\<close>) and the rollback policy (\<open>cognify/rollback.rs\<close>)
  decide what is swept (\<open>delete/sweep.rs\<close>) and which items are marked complete; startup recovery
  (\<open>delete/startup_recovery.rs\<close>) does the same for a run whose process was killed. Between
  extraction and storage, the graphs that a language model found in the chunks are merged into
  entities, types, timestamps and edges (\<open>cognify/graph_integration\<close>), each on record with the chunks
  that produced it. A user's delete (\<open>delete/lib.rs\<close>) resolves its scope to datasets and data items,
  cleans up their artifacts, rows and files, and runs behind a permission check
  (\<open>delete/authorized.rs\<close>) over the access-control store (\<open>database/traits/acl_db.rs\<close>).

  \<^bold>\<open>Conventions.\<close>
  \<^item> Fallible stateful code is an \<open>action\<close> (\<open>Prelude\<close>): state to result and state; an error keeps
    what was written before it. Panics are values (\<open>None\<close>, \<open>Panicked\<close>).
  \<^item> A database statement either takes effect or fails as a whole; which ones fail is given by a
    list of faults in the state, so a theorem about all states covers every crash-free failure
    pattern. SQL conditions are three-valued.
  \<^item> Ids are numbers below no bound; UUID5, lowercasing, rendering and cosine similarity are
    parameters. A clock or id generator is a stream indexed by a counter in the state.
  \<^item> Widths are kept where the code can reach them: saturating sums at 64 bits in \<open>Runs\<close>, retry
    factors at 32 bits and durations in \<open>Executor\<close>.

  \<^bold>\<open>Theories.\<close>
  \<^item> \<open>Prelude\<close>, \<open>Rust_Text\<close>, \<open>Json\<close>, \<open>Sql\<close>: actions and their triples, UTF-8 text with byte
    offsets, JSON documents with NUL sanitizing (\<open>utils/sanitize.rs\<close>), ids
    (\<open>utils/id_generation.rs\<close>, \<open>models/edge_type.rs\<close>), tables, conditions and transactions.
  \<^item> \<open>Chunk_Word\<close>, \<open>Chunk_Sentence\<close>, \<open>Chunk_Paragraph\<close>, \<open>Chunk_Text\<close>, \<open>Chunk_Row\<close>: one theory per file
    of \<open>chunking/src\<close>. Each chunker partitions its input; sizes are exact and below the limit. The
    locale \<open>token_counter\<close> is the tokenizer; \<open>blank_free_counter\<close> is interpreted on the word counter.
  \<^item> \<open>Ledger\<close>, \<open>Claims\<close>: \<open>ops/graph_storage.rs\<close>. Upserts in batches are atomic, keep the creating
    run and equal row-by-row writes; the exclusivity queries select exactly the rows whose slug
    nobody else claims, run-less legacy rows included.
  \<^item> \<open>Markers\<close>: the completion markers of \<open>ops/data.rs\<close>, both encodings of a dataset id.
  \<^item> \<open>Stores\<close>: the interface of the two stores as records of functions and the laws the delete
    paths rely on (locales \<open>graph_store\<close>, \<open>vector_store\<close>); \<open>Graph_Memory\<close> (\<open>graph/mock.rs\<close>) and
    \<open>Vector_Memory\<close> (\<open>vector/brute_force_vector_db.rs\<close>, \<open>models.rs\<close>, \<open>node_filter.rs\<close>) provide them.
  \<^item> \<open>Artifacts\<close>, \<open>Sweep\<close>: artifact deletion of \<open>delete/lib.rs\<close> and the run sweep of
    \<open>delete/sweep.rs\<close>, over any stores with these laws (locale \<open>delete_env_laws\<close>): claimed artifacts
    survive however the sweep ends, ownership is forgotten last, a second sweep does nothing.
  \<^item> \<open>Failure\<close>, \<open>Rollback\<close>: the failure report and the two exit paths of a run; with stores that do
    not fail (locale \<open>reliable_stores\<close>) they refine an abstract view of a run as forgotten and
    marked items, and what is outstanding is processed again by the next run.
  \<^item> \<open>Runs\<close>, \<open>Lifecycle\<close>: the run trail and its queries; markers, watchers and the executor's
    lifecycle around the items. A run left in flight keeps its marker.
  \<^item> \<open>Provenance\<close>, \<open>Executor\<close>: stamping of data points and the depth-first executor itself, with
    retries, batching, cancellation and incremental skipping.
  \<^item> \<open>Dataset_Locks\<close>: tasks interleaving at every await; mutual exclusion and freedom from deadlock
    as invariants over reachable states.
  \<^item> \<open>Recovery\<close>: startup recovery, composed of the sweep, the run trail and the markers, with
    arbitrary interference by other tasks between two candidates.
  \<^item> \<open>Relational\<close>, \<open>Files\<close>: the tables of data items, datasets and their links (\<open>ops/data.rs\<close>,
    \<open>ops/datasets.rs\<close>, \<open>ops/search_history.rs\<close> and others) and the delete path of the file storage
    (\<open>storage\<close>), whose contract is the locale \<open>file_store\<close>, interpreted on both implementations.
  \<^item> \<open>Delete_Targets\<close>, \<open>Cleanup\<close>, \<open>Delete_Service\<close>: \<open>delete/lib.rs\<close> in the order of the file: scopes and
    lock keys, the cleanup of a data item or dataset, the phases of a delete, memory-only deletes
    and previews.
  \<^item> \<open>Cleanup_Effects\<close>, \<open>Delete_Effects\<close>, \<open>Delete_Isolation\<close>, \<open>Delete_Files\<close>: what that code does, over
    any stores with the laws (locale \<open>shared_stores\<close>). A step that keeps a relation between the states
    before and after it \<open>keeps\<close> it on every path, errors included; the locale \<open>evolution\<close> turns such
    relations into rules for sequences, branches and loops, so that each property is one walk over
    the code: an item cleanup spares what other items claim and forgets its rows last, a delete
    of one dataset leaves the rows of every other alone, a file goes only when no row refers to it.
  \<^item> \<open>Access\<close>: grants, roles and tenants; the locale \<open>acl_contract\<close> is what the checks rely on, interpreted
    on the in-memory store (\<open>test-utils/mock_acl_db.rs\<close>).
  \<^item> \<open>Delete_Authorized\<close>: the checks around the delete service. Whatever its scope, mode and outcome, a
    delete touches no row of a dataset on which the caller does not hold the permission, and a
    denied one has changed nothing.
  \<^item> \<open>Extracted\<close>, \<open>Expansion\<close>: the extracted graphs, the storage models (\<open>models/entity.rs\<close> and others),
    the producers, and the pass of \<open>expansion.rs\<close> over the chunks. One invariant of the pass state
    (\<open>pass_ok\<close>: \<open>wf_nodes\<close>, \<open>wf_edges\<close>, \<open>stats_ok\<close>), kept by each declaration and each edge, gives that the
    pass never panics, that extracted edges join nodes of the output, that every artifact has its
    producing chunks, and that the tally of resolved and dropped edges adds up.

  \<^bold>\<open>Termination and fuel.\<close> No definition uses fuel. Loops over text recurse on the remaining
  characters, the paging loop of \<open>latest_stamped_run\<close> on the rows behind the offset, breadth-first
  search on the remaining depth, the executor on the remaining tasks; each measure is proved.

  \<^bold>\<open>Not modelled.\<close> Code outside the repository's own logic: language-model, embedding and database
  adapters (each speaks to an external service or library), the HTTP, CLI, C, Python, JavaScript
  and Java bindings, configuration, logging, telemetry and visualization. Of the modelled crates:
  prompts and extraction tasks of \<open>cognify\<close>, the parser of dates and the ontology resolver (parameters
  of the expansion), search orchestration and sessions, cancellation of a
  future while it waits for a dataset lock, overlapping of the items of one concurrent chunk (they
  end in any order, but one after the other), and floating-point progress. \<open>PROJECT.json\<close> lists every
  component with its status.
\<close>

end
